(* ===== verification/Wt_Prelude.thy ===== *)
theory Wt_Prelude
  imports Main "HOL-Library.Word"
begin

text \<open>
  The shared vocabulary of the development: machine-integer types, C arrays and C
  enumerations as HOL values, point updates of fixed-size arrays, the linear searches the
  C code writes as \<open>for\<close> loops, a few facts on single-bit masks, and the transition-system
  interface every stateful component is verified against.
\<close>

unbundle bit_operations_syntax

named_theorems array_simps \<open>reads and lengths of point-updated arrays\<close>

type_synonym u8 = "8 word"
type_synonym u16 = "16 word"
type_synonym u32 = "32 word"

abbreviation (input) UINT32_MAX :: u32 where "UINT32_MAX \<equiv> 0xFFFFFFFF"

section \<open>C arrays, C enumerations\<close>

text \<open>
  A pointer parameter with an element count: the null pointer with whatever count the
  caller claims, or an array whose count is its length.
\<close>

datatype 'a carray = CNull nat | CArray "'a list"

fun carray_count :: "'a carray \<Rightarrow> nat" where
  "carray_count (CNull n) = n"
| "carray_count (CArray xs) = length xs"

fun carray_list :: "'a carray \<Rightarrow> 'a list" where
  "carray_list (CNull n) = []"
| "carray_list (CArray xs) = xs"

fun carray_null :: "'a carray \<Rightarrow> bool" where
  "carray_null (CNull n) = True"
| "carray_null (CArray xs) = False"

lemma carray_count_list [simp]: "\<not> carray_null a \<Longrightarrow> carray_count a = length (carray_list a)"
  by (cases a) simp_all

lemma carray_list_nonempty: "carray_list a \<noteq> [] \<Longrightarrow> \<not> carray_null a"
  by (cases a) simp_all

lemma carray_length_le: "length (carray_list a) \<le> carray_count a"
  by (cases a) simp_all

text \<open>
  An object of enumerated type holds an enumerator or, when the bytes behind it were never
  checked, a value outside the enumeration.
\<close>

datatype 'e cenum = Enum 'e | OutOfRange nat

fun enum_in_range :: "'e cenum \<Rightarrow> bool" where
  "enum_in_range (Enum e) = True"
| "enum_in_range (OutOfRange n) = False"

section \<open>Arrays updated in place\<close>

definition upd_at :: "nat \<Rightarrow> ('a \<Rightarrow> 'a) \<Rightarrow> 'a list \<Rightarrow> 'a list" where
  "upd_at i f xs = xs[i := f (xs ! i)]"

lemma length_upd_at [simp, array_simps]: "length (upd_at i f xs) = length xs"
  by (simp add: upd_at_def)

lemma nth_upd_at [simp, array_simps]:
  "j < length xs \<Longrightarrow> upd_at i f xs ! j = (if j = i then f (xs ! j) else xs ! j)"
  by (auto simp: upd_at_def nth_list_update)

lemma nth_upd_at_neq [array_simps]: "j \<noteq> i \<Longrightarrow> upd_at i f xs ! j = xs ! j"
  by (simp add: upd_at_def)

lemma upd_at_beyond: "length xs \<le> i \<Longrightarrow> upd_at i f xs = xs"
  by (simp add: upd_at_def list_update_beyond)

lemma map_upd_at_same:
  assumes "\<And>x. g (f x) = g x"
  shows "map g (upd_at i f xs) = map g xs"
  by (rule nth_equalityI) (auto simp: assms)

lemma upd_at_ge_0_code [simp]:
  "upd_at 0 f (x # xs) = f x # xs"
  "upd_at (Suc n) f (x # xs) = x # upd_at n f xs"
  "upd_at i f [] = []"
  by (simp_all add: upd_at_def)

lemma take_upd_at [simp, array_simps]: "take n (upd_at i f xs) = upd_at i f (take n xs)"
  by (cases "i < n") (simp_all add: upd_at_def take_update_swap list_update_beyond)

section \<open>Linear search\<close>

text \<open>\<open>for (i = 0; i < n; i++) if (P a[i]) return i;\<close>\<close>

fun first_idx :: "('a \<Rightarrow> bool) \<Rightarrow> 'a list \<Rightarrow> nat option" where
  "first_idx P [] = None"
| "first_idx P (x # xs) = (if P x then Some 0 else map_option Suc (first_idx P xs))"

lemma first_idx_Some:
  "first_idx P xs = Some i \<Longrightarrow> i < length xs \<and> P (xs ! i) \<and> (\<forall>j<i. \<not> P (xs ! j))"
proof (induction xs arbitrary: i)
  case Nil
  then show ?case by simp
next
  case (Cons x xs)
  show ?case
  proof (cases "P x")
    case True
    with Cons.prems show ?thesis by simp
  next
    case False
    with Cons.prems obtain k where k: "first_idx P xs = Some k" "i = Suc k"
      by auto
    with Cons.IH [OF k(1)] False show ?thesis
      by (auto simp: less_Suc_eq_0_disj)
  qed
qed

lemma first_idx_None: "first_idx P xs = None \<longleftrightarrow> (\<forall>x\<in>set xs. \<not> P x)"
  by (induction xs) auto

lemma first_idx_None_nth: "first_idx P xs = None \<Longrightarrow> j < length xs \<Longrightarrow> \<not> P (xs ! j)"
  by (simp add: first_idx_None)

lemma first_idx_ex: "i < length xs \<Longrightarrow> P (xs ! i) \<Longrightarrow> \<exists>k. first_idx P xs = Some k"
  by (cases "first_idx P xs") (auto simp: first_idx_None)

text \<open>A search whose predicate has at most one solution finds that one.\<close>

lemma first_idx_unique:
  assumes "i < length xs" "P (xs ! i)" "\<And>j. j < length xs \<Longrightarrow> P (xs ! j) \<Longrightarrow> j = i"
  shows "first_idx P xs = Some i"
proof -
  obtain k where k: "first_idx P xs = Some k"
    using first_idx_ex [of i xs P] assms(1,2) by blast
  with first_idx_Some [OF k] assms(3) [of k] show ?thesis by simp
qed

section \<open>Early returns\<close>

text \<open>
  \<open>ret = f(); if (ret != OK) return ret; ...\<close> and the loop that returns the first result
  other than \<open>OK\<close>, for any result type with a distinguished success value.
\<close>

definition chain :: "'r \<Rightarrow> 'r \<Rightarrow> 'r \<Rightarrow> 'r" where
  "chain ok r k = (if r = ok then k else r)"

fun first_err :: "'r \<Rightarrow> ('a \<Rightarrow> 'r) \<Rightarrow> 'a list \<Rightarrow> 'r" where
  "first_err ok f [] = ok"
| "first_err ok f (x # xs) = (if f x = ok then first_err ok f xs else f x)"

lemma chain_ok [simp]: "chain ok r k = ok \<longleftrightarrow> r = ok \<and> k = ok"
  by (auto simp: chain_def)

lemma first_err_ok [simp]: "first_err ok f xs = ok \<longleftrightarrow> (\<forall>x\<in>set xs. f x = ok)"
  by (induction xs) auto

lemma first_err_not_ok: "first_err ok f xs \<noteq> ok \<Longrightarrow> \<exists>x\<in>set xs. first_err ok f xs = f x"
  by (induction xs) auto

section \<open>Counting\<close>

definition count_if :: "('a \<Rightarrow> bool) \<Rightarrow> 'a list \<Rightarrow> nat" where
  "count_if P xs = length (filter P xs)"

lemma count_if_simps [simp]:
  "count_if P [] = 0"
  "count_if P (x # xs) = (if P x then 1 else 0) + count_if P xs"
  by (simp_all add: count_if_def)

lemma count_if_append: "count_if P (xs @ ys) = count_if P xs + count_if P ys"
  by (simp add: count_if_def)

lemma count_if_update:
  "i < length xs \<Longrightarrow>
     count_if P (xs[i := y]) + (if P (xs ! i) then 1 else 0) =
     count_if P xs + (if P y then 1 else 0)"
proof (induction xs arbitrary: i)
  case Nil
  then show ?case by simp
next
  case (Cons x xs)
  then show ?case by (cases i) auto
qed

lemma count_if_upd_at:
  "i < length xs \<Longrightarrow>
     count_if P (upd_at i f xs) + (if P (xs ! i) then 1 else 0) =
     count_if P xs + (if P (f (xs ! i)) then 1 else 0)"
  unfolding upd_at_def by (rule count_if_update)

lemma count_if_mono:
  "length xs = length ys \<Longrightarrow> (\<And>i. i < length xs \<Longrightarrow> P (xs ! i) \<Longrightarrow> Q (ys ! i)) \<Longrightarrow>
     count_if P xs \<le> count_if Q ys"
proof (induction xs ys rule: list_induct2)
  case Nil
  then show ?case by simp
next
  case (Cons x xs y ys)
  have "P x \<Longrightarrow> Q y" using Cons.prems [of 0] by simp
  moreover have "count_if P xs \<le> count_if Q ys"
    using Cons.prems [of "Suc _"] by (intro Cons.IH) fastforce
  ultimately show ?case by simp
qed

lemma count_if_le_length: "count_if P xs \<le> length xs"
  by (simp add: count_if_def)

section \<open>Masks\<close>

text \<open>\<open>(x & (x - 1)) == 0\<close> with \<open>x\<close> non-zero: exactly one bit is set.\<close>

definition single_bit :: "u32 \<Rightarrow> bool" where
  "single_bit x \<longleftrightarrow> x \<noteq> 0 \<and> x AND (x - 1) = 0"

lemma word_and_dec_lowest:
  fixes x :: "'a::len word"
  assumes b: "bit x n" and low: "\<And>m. m < n \<Longrightarrow> \<not> bit x m"
  shows "x - 1 = (x AND NOT (push_bit n 1)) OR mask n"
proof -
  have n: "n < LENGTH('a)" using b by (rule bit_imp_le_length)
  let ?y = "x AND NOT (push_bit n 1)"
  have y: "x = ?y + push_bit n 1"
  proof -
    have "?y AND push_bit n 1 = 0" by (rule bit_eqI) (auto simp: bit_simps)
    then have "?y + push_bit n 1 = ?y OR push_bit n 1" by (rule disjunctive_add_eq_or)
    also have "\<dots> = x" using b by (intro bit_eqI) (auto simp: bit_simps)
    finally show ?thesis by simp
  qed
  have m: "push_bit n 1 - 1 = (mask n :: 'a word)" by (simp add: mask_eq_exp_minus_1 push_bit_eq_mult)
  have "x - 1 = ?y + mask n" using y m by (metis add_diff_eq)
  moreover have "?y AND mask n = 0"
    using low by (intro bit_eqI) (auto simp: bit_simps)
  then have "?y + mask n = ?y OR mask n" by (rule disjunctive_add_eq_or)
  ultimately show ?thesis by simp
qed

lemma ex_lowest_bit:
  fixes x :: "'a::len word"
  assumes "x \<noteq> 0"
  shows "\<exists>n. bit x n \<and> (\<forall>m<n. \<not> bit x m)"
proof -
  from assms obtain k where "bit x k" by (auto simp: bit_eq_iff)
  then show ?thesis by (intro exI [of _ "LEAST n. bit x n"]) (auto intro: LeastI dest: not_less_Least)
qed

lemma single_bit_iff: "single_bit x \<longleftrightarrow> (\<exists>n<32. x = push_bit n 1)"
proof
  assume x: "single_bit x"
  then obtain n where n: "bit x n" "\<And>m. m < n \<Longrightarrow> \<not> bit x m"
    using ex_lowest_bit [of x] by (auto simp: single_bit_def)
  have "x AND ((x AND NOT (push_bit n 1)) OR mask n) = 0"
    using x word_and_dec_lowest [OF n] by (simp add: single_bit_def)
  then have z: "\<not> (bit x k \<and> k \<noteq> n)" if "k < 32" for k
    using that by (auto simp: bit_eq_iff bit_simps)
  have "x = push_bit n 1"
  proof (rule bit_word_eqI)
    fix k
    assume "k < LENGTH(32)"
    with z [of k] n(1) show "bit x k = bit (push_bit n 1 :: u32) k"
      by (auto simp: bit_simps)
  qed
  moreover have "n < 32" using n(1) bit_imp_le_length [of x n] by simp
  ultimately show "\<exists>n<32. x = push_bit n 1" by blast
next
  assume "\<exists>n<32. x = push_bit n 1"
  then obtain n where n: "n < 32" "x = push_bit n 1" by blast
  have "bit x n" using n by (simp add: bit_simps)
  then have nz: "x \<noteq> 0" by auto
  have "x - 1 = mask n" using n by (simp add: mask_eq_exp_minus_1 push_bit_eq_mult)
  then have "x AND (x - 1) = push_bit n 1 AND mask n" using n(2) by simp
  also have "\<dots> = 0" by (rule bit_word_eqI) (auto simp: bit_simps)
  finally have "x AND (x - 1) = 0" .
  with nz show "single_bit x" by (simp add: single_bit_def)
qed

lemma single_bit_disjoint:
  "single_bit x \<Longrightarrow> single_bit y \<Longrightarrow> x \<noteq> y \<Longrightarrow> x AND y = 0"
  by (auto simp: single_bit_iff intro!: bit_word_eqI simp: bit_simps)

lemma single_bit_nonzero: "single_bit x \<Longrightarrow> x \<noteq> 0"
  by (simp add: single_bit_def)

text \<open>Setting and clearing one mask inside a word.\<close>

lemma mask_set_same: "(w OR s) AND s = (s :: u32)"
  by (auto simp: bit_eq_iff bit_simps)

lemma mask_clear_same: "(w AND NOT s) AND s = (0 :: u32)"
  by (auto simp: bit_eq_iff bit_simps)

lemma mask_set_other: "s AND t = 0 \<Longrightarrow> (w OR s) AND t = w AND (t :: u32)"
  by (auto simp: bit_eq_iff bit_simps)

lemma mask_clear_other: "s AND t = 0 \<Longrightarrow> (w AND NOT s) AND t = w AND (t :: u32)"
  by (auto simp: bit_eq_iff bit_simps)

lemma and_push_bit_cases: "a AND push_bit n 1 = 0 \<or> a AND push_bit n 1 = (push_bit n 1 :: u32)"
proof (cases "bit a n")
  case True
  then show ?thesis by (intro disjI2 bit_word_eqI) (auto simp: bit_simps)
next
  case False
  then show ?thesis by (intro disjI1 bit_word_eqI) (auto simp: bit_simps)
qed

lemmas mask_simps = mask_set_same mask_clear_same mask_set_other mask_clear_other

section \<open>Overflow checks\<close>

text \<open>\<open>n > UINT32_MAX - b\<close> is the guard the code puts before every \<open>b + n\<close>.\<close>

lemma unat_u32_less: "unat (w :: u32) < 4294967296"
  using unsigned_less [of w, where 'a = nat] by simp

lemma word_gt_max_minus: "n > UINT32_MAX - b \<longleftrightarrow> 2 ^ 32 \<le> unat b + unat (n :: u32)"
proof -
  have "unat (UINT32_MAX - b) = 2 ^ 32 - 1 - unat b"
    using unat_u32_less [of b] by (subst unat_sub) (simp_all add: word_le_nat_alt)
  then show ?thesis using unat_u32_less [of b] by (simp add: word_less_nat_alt) linarith
qed

lemma unat_add_exact: "unat a + unat b < 2 ^ 32 \<Longrightarrow> unat (a + b :: u32) = unat a + unat b"
  by (simp add: unat_word_ariths)

section \<open>Transition systems\<close>

text \<open>
  The contract of a stateful component: its initial states satisfy the invariant and every
  step keeps it. Whatever such a component reaches, in any number of steps, satisfies it.
\<close>

locale invariant_system =
  fixes init :: "'s \<Rightarrow> bool"
    and step :: "'s \<Rightarrow> 's \<Rightarrow> bool"
    and inv :: "'s \<Rightarrow> bool"
  assumes init_inv: "init s \<Longrightarrow> inv s"
    and step_inv: "inv s \<Longrightarrow> step s t \<Longrightarrow> inv t"
begin

lemma steps_inv: "step\<^sup>*\<^sup>* s t \<Longrightarrow> inv s \<Longrightarrow> inv t"
  by (induction rule: rtranclp_induct) (auto intro: step_inv)

lemma reachable_inv: "init s \<Longrightarrow> step\<^sup>*\<^sup>* s t \<Longrightarrow> inv t"
  by (blast intro: init_inv steps_inv)

end

end
