(* ===== verification/Ipc.thy ===== *)
theory Ipc
  imports Wt_Prelude
begin

text \<open>
  The connection model of \<open>src/ipc.c\<close>: handles, the connection state machine and the
  validation of request vectors. \<open>size_t\<close> and \<open>uintptr_t\<close> are the 32-bit types of the
  Cortex-M targets. A pointer argument that the code compares with \<open>NULL\<close> is an option,
  and an object written through such a pointer is returned as one.
\<close>

section \<open>Data\<close>

datatype wt_ipc_connection_state =
    WT_IPC_CONNECTION_FREE
  | WT_IPC_CONNECTION_PENDING_CONNECT
  | WT_IPC_CONNECTION_CONNECTING
  | WT_IPC_CONNECTION_IDLE
  | WT_IPC_CONNECTION_PENDING_REQUEST
  | WT_IPC_CONNECTION_ACTIVE
  | WT_IPC_CONNECTION_DISCONNECTING
  | WT_IPC_CONNECTION_ERROR
  | WT_IPC_CONNECTION_TERMINAL

datatype wt_ipc_connection_event =
    WT_IPC_EVENT_CONNECT_ACCEPT
  | WT_IPC_EVENT_CONNECT_COMPLETE
  | WT_IPC_EVENT_REQUEST
  | WT_IPC_EVENT_REQUEST_ACTIVE
  | WT_IPC_EVENT_REPLY
  | WT_IPC_EVENT_CLOSE
  | WT_IPC_EVENT_CLOSE_COMPLETE
  | WT_IPC_EVENT_FAIL
  | WT_IPC_EVENT_ABORT

datatype wt_ipc_handle_type =
    WT_IPC_HANDLE_NONE | WT_IPC_HANDLE_CONNECTION | WT_IPC_HANDLE_MESSAGE

record wt_ipc_handle =
  ih_value :: u32
  ih_generation :: u32
  ih_owner_id :: u32
  ih_type :: "wt_ipc_handle_type cenum"

record wt_ipc_connection =
  ic_state :: "wt_ipc_connection_state cenum"
  ic_handle :: wt_ipc_handle
  ic_service_sid :: u32
  ic_service_version :: u32
  ic_owner_id :: u32
  ic_stateless :: bool

record wt_ipc_vector =
  iv_base :: u32
  iv_length :: u32

datatype wt_ipc_result =
    WT_IPC_VALID
  | WT_IPC_ERROR_ARGUMENT
  | WT_IPC_ERROR_HANDLE
  | WT_IPC_ERROR_OWNER
  | WT_IPC_ERROR_STATE
  | WT_IPC_ERROR_POLICY
  | WT_IPC_ERROR_VECTOR_COUNT
  | WT_IPC_ERROR_VECTOR_ADDRESS
  | WT_IPC_ERROR_VECTOR_OVERFLOW
  | WT_IPC_ERROR_VECTOR_LIMIT

abbreviation (input) WT_IPC_MAX_VECTORS :: nat where "WT_IPC_MAX_VECTORS \<equiv> 4"

text \<open>The zeroed objects that \<open>memset\<close> leaves behind.\<close>

definition zero_handle :: wt_ipc_handle where
  "zero_handle = \<lparr>ih_value = 0, ih_generation = 0, ih_owner_id = 0,
                  ih_type = Enum WT_IPC_HANDLE_NONE\<rparr>"

definition zero_connection :: wt_ipc_connection where
  "zero_connection = \<lparr>ic_state = Enum WT_IPC_CONNECTION_FREE, ic_handle = zero_handle,
     ic_service_sid = 0, ic_service_version = 0, ic_owner_id = 0, ic_stateless = False\<rparr>"

section \<open>Handles\<close>

definition handle_type_usable :: "wt_ipc_handle_type cenum \<Rightarrow> bool" where
  "handle_type_usable t \<longleftrightarrow> enum_in_range t \<and> t \<noteq> Enum WT_IPC_HANDLE_NONE"

definition wt_ipc_handle_create ::
  "wt_ipc_handle option \<Rightarrow> u32 \<Rightarrow> u32 \<Rightarrow> u32 \<Rightarrow> wt_ipc_handle_type cenum \<Rightarrow>
   wt_ipc_result \<times> wt_ipc_handle option" where
  "wt_ipc_handle_create handle value generation owner_id type =
     (if handle = None \<or> value = 0 \<or> generation = 0 \<or> owner_id = 0 \<or>
         \<not> enum_in_range type \<or> type = Enum WT_IPC_HANDLE_NONE
      then (WT_IPC_ERROR_HANDLE, handle)
      else (WT_IPC_VALID,
            Some \<lparr>ih_value = value, ih_generation = generation, ih_owner_id = owner_id,
                  ih_type = type\<rparr>))"

text \<open>The structure has no padding, so \<open>memcmp\<close> is equality of the four fields.\<close>

definition wt_ipc_handle_matches ::
  "wt_ipc_handle option \<Rightarrow> wt_ipc_handle option \<Rightarrow> wt_ipc_result" where
  "wt_ipc_handle_matches expected presented =
     (case (expected, presented) of
        (Some e, Some p) \<Rightarrow>
          (if ih_value e = 0 \<or> ih_generation e = 0 \<or> ih_owner_id e = 0 \<or>
              ih_type e = Enum WT_IPC_HANDLE_NONE \<or> \<not> enum_in_range (ih_type e) \<or>
              ih_value p = 0 \<or> ih_generation p = 0 \<or> ih_owner_id p = 0 \<or>
              ih_type p = Enum WT_IPC_HANDLE_NONE \<or> \<not> enum_in_range (ih_type p)
           then WT_IPC_ERROR_HANDLE
           else if e \<noteq> p then WT_IPC_ERROR_HANDLE
           else WT_IPC_VALID)
      | _ \<Rightarrow> WT_IPC_ERROR_HANDLE)"

section \<open>Connections\<close>

definition wt_ipc_connection_open ::
  "wt_ipc_connection option \<Rightarrow> wt_ipc_handle option \<Rightarrow> u32 \<Rightarrow> u32 \<Rightarrow> u32 \<Rightarrow> bool \<Rightarrow>
   wt_ipc_result \<times> wt_ipc_connection option" where
  "wt_ipc_connection_open connection handle owner_id service_sid service_version stateless =
     (case (connection, handle) of
        (Some c, Some h) \<Rightarrow>
          (if owner_id = 0 \<or> service_sid = 0 \<or> service_version = 0 \<or>
              ih_type h \<noteq> Enum WT_IPC_HANDLE_CONNECTION \<or> ih_owner_id h \<noteq> owner_id \<or>
              wt_ipc_handle_matches handle handle \<noteq> WT_IPC_VALID
           then (WT_IPC_ERROR_ARGUMENT, connection)
           else (WT_IPC_VALID,
                 Some (zero_connection
                   \<lparr>ic_state := Enum (if stateless then WT_IPC_CONNECTION_IDLE
                                      else WT_IPC_CONNECTION_PENDING_CONNECT),
                    ic_handle := h,
                    ic_service_sid := service_sid,
                    ic_service_version := service_version,
                    ic_owner_id := owner_id,
                    ic_stateless := stateless\<rparr>)))
      | _ \<Rightarrow> (WT_IPC_ERROR_ARGUMENT, connection))"

text \<open>
  The \<open>switch\<close> of the transition function: the next state, or \<open>None\<close> where the code
  returns \<open>WT_IPC_ERROR_STATE\<close>. \<open>CLOSE_COMPLETE\<close> is handled apart, since it clears the
  whole object.
\<close>

fun ipc_next_state ::
  "bool \<Rightarrow> wt_ipc_connection_state \<Rightarrow> wt_ipc_connection_event \<Rightarrow>
   wt_ipc_connection_state option" where
  "ipc_next_state stateless s WT_IPC_EVENT_CONNECT_ACCEPT =
     (if stateless \<or> s \<noteq> WT_IPC_CONNECTION_PENDING_CONNECT then None
      else Some WT_IPC_CONNECTION_CONNECTING)"
| "ipc_next_state stateless s WT_IPC_EVENT_CONNECT_COMPLETE =
     (if stateless \<or> s \<noteq> WT_IPC_CONNECTION_CONNECTING then None
      else Some WT_IPC_CONNECTION_IDLE)"
| "ipc_next_state stateless s WT_IPC_EVENT_REQUEST =
     (if s \<noteq> WT_IPC_CONNECTION_IDLE then None else Some WT_IPC_CONNECTION_PENDING_REQUEST)"
| "ipc_next_state stateless s WT_IPC_EVENT_REQUEST_ACTIVE =
     (if s \<noteq> WT_IPC_CONNECTION_PENDING_REQUEST then None else Some WT_IPC_CONNECTION_ACTIVE)"
| "ipc_next_state stateless s WT_IPC_EVENT_REPLY =
     (if s \<noteq> WT_IPC_CONNECTION_ACTIVE then None else Some WT_IPC_CONNECTION_IDLE)"
| "ipc_next_state stateless s WT_IPC_EVENT_CLOSE =
     (if stateless \<or> s \<noteq> WT_IPC_CONNECTION_IDLE then None
      else Some WT_IPC_CONNECTION_DISCONNECTING)"
| "ipc_next_state stateless s WT_IPC_EVENT_CLOSE_COMPLETE =
     (if s \<noteq> WT_IPC_CONNECTION_DISCONNECTING then None else Some WT_IPC_CONNECTION_FREE)"
| "ipc_next_state stateless s WT_IPC_EVENT_FAIL =
     (if s = WT_IPC_CONNECTION_FREE \<or> s = WT_IPC_CONNECTION_TERMINAL then None
      else Some WT_IPC_CONNECTION_ERROR)"
| "ipc_next_state stateless s WT_IPC_EVENT_ABORT =
     (if s = WT_IPC_CONNECTION_FREE \<or> s = WT_IPC_CONNECTION_TERMINAL then None
      else Some WT_IPC_CONNECTION_TERMINAL)"

definition wt_ipc_connection_transition ::
  "wt_ipc_connection option \<Rightarrow> u32 \<Rightarrow> wt_ipc_handle option \<Rightarrow>
   wt_ipc_connection_event cenum \<Rightarrow> wt_ipc_result \<times> wt_ipc_connection option" where
  "wt_ipc_connection_transition connection caller_id handle event =
     (case (connection, handle, event) of
        (Some c, Some h, Enum e) \<Rightarrow>
          (if caller_id = 0 then (WT_IPC_ERROR_ARGUMENT, connection)
           else (case ic_state c of
             OutOfRange n \<Rightarrow> (WT_IPC_ERROR_ARGUMENT, connection)
           | Enum s \<Rightarrow>
              (if caller_id \<noteq> ic_owner_id c then (WT_IPC_ERROR_OWNER, connection)
               else if wt_ipc_handle_matches (Some (ic_handle c)) handle \<noteq> WT_IPC_VALID
               then (WT_IPC_ERROR_HANDLE, connection)
               else (case ipc_next_state (ic_stateless c) s e of
                  None \<Rightarrow> (WT_IPC_ERROR_STATE, connection)
                | Some s' \<Rightarrow>
                    if e = WT_IPC_EVENT_CLOSE_COMPLETE
                    then (WT_IPC_VALID,
                          Some (zero_connection\<lparr>ic_state := Enum WT_IPC_CONNECTION_FREE\<rparr>))
                    else (WT_IPC_VALID, Some (c\<lparr>ic_state := Enum s'\<rparr>))))))
      | _ \<Rightarrow> (WT_IPC_ERROR_ARGUMENT, connection))"

section \<open>Request vectors\<close>

text \<open>The loop of \<open>wt_ipc_validate_vector_list\<close>, with \<open>*total_length\<close> as its accumulator.\<close>

fun ipc_vector_loop :: "wt_ipc_vector list \<Rightarrow> u32 \<Rightarrow> wt_ipc_result \<times> u32" where
  "ipc_vector_loop [] tot = (WT_IPC_VALID, tot)"
| "ipc_vector_loop (v # vs) tot =
     (if iv_length v \<noteq> 0 \<and> iv_base v = 0 then (WT_IPC_ERROR_VECTOR_ADDRESS, tot)
      else if iv_length v > UINT32_MAX - iv_base v then (WT_IPC_ERROR_VECTOR_OVERFLOW, tot)
      else if iv_length v > UINT32_MAX - tot then (WT_IPC_ERROR_VECTOR_OVERFLOW, tot)
      else ipc_vector_loop vs (tot + iv_length v))"

definition wt_ipc_validate_vector_list ::
  "wt_ipc_vector carray \<Rightarrow> u32 \<Rightarrow> wt_ipc_result \<times> u32" where
  "wt_ipc_validate_vector_list vectors tot =
     (if carray_count vectors \<noteq> 0 \<and> carray_null vectors
      then (WT_IPC_ERROR_ARGUMENT, tot)
      else ipc_vector_loop (carray_list vectors) tot)"

definition wt_ipc_validate_vectors ::
  "wt_ipc_vector carray \<Rightarrow> wt_ipc_vector carray \<Rightarrow> u32 \<Rightarrow> u32 option \<Rightarrow>
   wt_ipc_result \<times> u32 option" where
  "wt_ipc_validate_vectors inputs outputs total_limit total_length =
     (if total_length = None then (WT_IPC_ERROR_ARGUMENT, total_length)
      else if carray_count inputs > WT_IPC_MAX_VECTORS \<or>
              carray_count outputs > WT_IPC_MAX_VECTORS \<or>
              carray_count inputs > WT_IPC_MAX_VECTORS - carray_count outputs
      then (WT_IPC_ERROR_VECTOR_COUNT, total_length)
      else (case wt_ipc_validate_vector_list inputs 0 of (r1, t1) \<Rightarrow>
             if r1 \<noteq> WT_IPC_VALID then (r1, total_length)
             else (case wt_ipc_validate_vector_list outputs t1 of (r2, t2) \<Rightarrow>
               if r2 \<noteq> WT_IPC_VALID then (r2, total_length)
               else if total_limit \<noteq> 0 \<and> t2 > total_limit
               then (WT_IPC_ERROR_VECTOR_LIMIT, total_length)
               else (WT_IPC_VALID, Some t2))))"

section \<open>What accepted vectors satisfy\<close>

text \<open>One vector: a non-empty one has an address, and its range does not leave the address space.\<close>

definition vector_ok :: "wt_ipc_vector \<Rightarrow> bool" where
  "vector_ok v \<longleftrightarrow> (iv_length v \<noteq> 0 \<longrightarrow> iv_base v \<noteq> 0) \<and>
     unat (iv_base v) + unat (iv_length v) < 2 ^ 32"

definition vectors_length :: "wt_ipc_vector list \<Rightarrow> nat" where
  "vectors_length vs = (\<Sum>v\<leftarrow>vs. unat (iv_length v))"

lemma vectors_length_simps [simp]:
  "vectors_length [] = 0"
  "vectors_length (v # vs) = unat (iv_length v) + vectors_length vs"
  by (simp_all add: vectors_length_def)

lemma ipc_vector_loop_valid:
  "fst (ipc_vector_loop vs tot) = WT_IPC_VALID \<longleftrightarrow>
     (\<forall>v\<in>set vs. vector_ok v) \<and> unat tot + vectors_length vs < 2 ^ 32"
proof (induction vs arbitrary: tot)
  case Nil
  show ?case using unat_u32_less [of tot] by simp
next
  case (Cons v vs)
  show ?case
  proof (cases "vector_ok v \<and> unat tot + unat (iv_length v) < 2 ^ 32")
    case True
    then have "ipc_vector_loop (v # vs) tot = ipc_vector_loop vs (tot + iv_length v)"
      and "unat (tot + iv_length v) = unat tot + unat (iv_length v)"
      by (auto simp: vector_ok_def word_gt_max_minus unat_add_exact)
    with True show ?thesis by (simp only: Cons.IH) auto
  next
    case False
    then show ?thesis
      using unat_u32_less [of "iv_base v"] unat_u32_less [of tot]
      by (auto simp: vector_ok_def word_gt_max_minus)
  qed
qed

lemma ipc_vector_loop_total:
  "fst (ipc_vector_loop vs tot) = WT_IPC_VALID \<Longrightarrow>
     unat (snd (ipc_vector_loop vs tot)) = unat tot + vectors_length vs"
proof (induction vs arbitrary: tot)
  case Nil
  then show ?case by simp
next
  case (Cons v vs)
  then have "fst (ipc_vector_loop vs (tot + iv_length v)) = WT_IPC_VALID"
    and "unat tot + unat (iv_length v) < 2 ^ 32"
    by (auto simp: word_gt_max_minus split: if_splits)
  with Cons show ?case
    by (auto simp: word_gt_max_minus unat_add_exact split: if_splits)
qed

lemma vectors_length_append: "vectors_length (xs @ ys) = vectors_length xs + vectors_length ys"
  by (simp add: vectors_length_def)

lemma validate_vector_list_split:
  "wt_ipc_validate_vector_list a tot = (WT_IPC_VALID, t) \<longleftrightarrow>
     (carray_null a \<longrightarrow> carray_count a = 0) \<and> (\<forall>v\<in>set (carray_list a). vector_ok v) \<and>
     unat t = unat tot + vectors_length (carray_list a)"
proof -
  have "ipc_vector_loop vs tot = (WT_IPC_VALID, t) \<longleftrightarrow>
      (\<forall>v\<in>set vs. vector_ok v) \<and> unat t = unat tot + vectors_length vs" for vs
    using ipc_vector_loop_valid [of vs tot] ipc_vector_loop_total [of vs tot] unat_u32_less [of t]
    by (cases "ipc_vector_loop vs tot") (auto simp: word_unat_eq_iff)
  then show ?thesis by (auto simp: wt_ipc_validate_vector_list_def)
qed

text \<open>
  C3: \<open>wt_ipc_validate_vectors\<close> accepts a request exactly when neither list is a null
  pointer with a non-zero count, both lists together have at most four vectors, every
  non-empty vector has an address and lies inside the 32-bit address space, and the total
  length respects the limit; the total it reports is the true sum of the lengths, never a
  wrapped one.
\<close>

theorem wt_ipc_validate_vectors_correct:
  "wt_ipc_validate_vectors ins outs limit (Some t0) = (WT_IPC_VALID, Some t) \<longleftrightarrow>
     (carray_null ins \<longrightarrow> carray_count ins = 0) \<and> (carray_null outs \<longrightarrow> carray_count outs = 0) \<and>
     carray_count ins + carray_count outs \<le> 4 \<and>
     (\<forall>v \<in> set (carray_list ins @ carray_list outs). vector_ok v) \<and>
     unat t = vectors_length (carray_list ins @ carray_list outs) \<and>
     (limit \<noteq> 0 \<longrightarrow> unat t \<le> unat limit)" (is "?L \<longleftrightarrow> ?R")
proof
  assume ?L
  then obtain t1 where "wt_ipc_validate_vector_list ins 0 = (WT_IPC_VALID, t1)"
    and "wt_ipc_validate_vector_list outs t1 = (WT_IPC_VALID, t)"
    and "carray_count ins + carray_count outs \<le> 4" and "limit \<noteq> 0 \<longrightarrow> t \<le> limit"
    by (auto simp: wt_ipc_validate_vectors_def not_less split: if_splits prod.splits)
  then show ?R
    by (auto simp: validate_vector_list_split vectors_length_append word_le_nat_alt)
next
  assume R: ?R
  define t1 where "t1 = (of_nat (vectors_length (carray_list ins)) :: u32)"
  have "vectors_length (carray_list ins) < 2 ^ 32"
    using R unat_u32_less [of t] by (simp add: vectors_length_append)
  then have "unat t1 = vectors_length (carray_list ins)"
    by (simp add: t1_def unat_of_nat)
  with R have "wt_ipc_validate_vector_list ins 0 = (WT_IPC_VALID, t1)"
    and "wt_ipc_validate_vector_list outs t1 = (WT_IPC_VALID, t)"
    by (auto simp: validate_vector_list_split vectors_length_append)
  with R show ?L
    by (auto simp: wt_ipc_validate_vectors_def word_le_nat_alt not_less)
qed

theorem wt_ipc_validate_vectors_correct_witness:
  "wt_ipc_validate_vectors (CArray [\<lparr>iv_base = 0x20000000, iv_length = 600\<rparr>])
     (CArray [\<lparr>iv_base = 0x20001000, iv_length = 424\<rparr>]) 1024 (Some 0) = (WT_IPC_VALID, Some 1024)
   \<and> wt_ipc_validate_vectors (CArray [\<lparr>iv_base = 0x20000000, iv_length = 0xFFFFFFF0\<rparr>])
     (CArray []) 1024 (Some 0) \<noteq> (WT_IPC_VALID, Some 0xFFFFFFF0)"
  unfolding wt_ipc_validate_vectors_correct by (simp add: vector_ok_def)

section \<open>The connection state machine\<close>

text \<open>A connection is born from \<open>wt_ipc_connection_open\<close> and lives through accepted events.\<close>

definition ipc_opened :: "wt_ipc_connection \<Rightarrow> bool" where
  "ipc_opened c \<longleftrightarrow> (\<exists>c0 h owner sid version stateless.
     wt_ipc_connection_open c0 h owner sid version stateless = (WT_IPC_VALID, Some c))"

definition ipc_event_step :: "wt_ipc_connection \<Rightarrow> wt_ipc_connection \<Rightarrow> bool" where
  "ipc_event_step c c' \<longleftrightarrow> (\<exists>caller h e.
     wt_ipc_connection_transition (Some c) caller h e = (WT_IPC_VALID, Some c'))"

definition ipc_connection_wf :: "wt_ipc_connection \<Rightarrow> bool" where
  "ipc_connection_wf c \<longleftrightarrow> (\<exists>s. ic_state c = Enum s \<and>
     (s \<noteq> WT_IPC_CONNECTION_FREE \<longrightarrow>
        ic_owner_id c \<noteq> 0 \<and> ih_owner_id (ic_handle c) = ic_owner_id c \<and>
        ih_type (ic_handle c) = Enum WT_IPC_HANDLE_CONNECTION \<and>
        wt_ipc_handle_matches (Some (ic_handle c)) (Some (ic_handle c)) = WT_IPC_VALID) \<and>
     (ic_stateless c \<longrightarrow>
        s \<in> {WT_IPC_CONNECTION_IDLE, WT_IPC_CONNECTION_PENDING_REQUEST,
             WT_IPC_CONNECTION_ACTIVE, WT_IPC_CONNECTION_ERROR, WT_IPC_CONNECTION_TERMINAL}))"

lemma ipc_next_state_stateless:
  "ipc_next_state True s e = Some s' \<Longrightarrow> e \<noteq> WT_IPC_EVENT_CLOSE_COMPLETE \<Longrightarrow>
     s' \<in> {WT_IPC_CONNECTION_IDLE, WT_IPC_CONNECTION_PENDING_REQUEST,
          WT_IPC_CONNECTION_ACTIVE, WT_IPC_CONNECTION_ERROR, WT_IPC_CONNECTION_TERMINAL}"
  by (cases e) (auto split: if_splits)

lemma ipc_next_state_free: "ipc_next_state b WT_IPC_CONNECTION_FREE e = None"
  by (cases e) auto

text \<open>What an accepted event tells about its caller, its handle and the states.\<close>

lemma ipc_transition_valid:
  assumes "wt_ipc_connection_transition (Some c) caller h e = (WT_IPC_VALID, Some c')"
  obtains ev s s' where
    "e = Enum ev" "ic_state c = Enum s" "ipc_next_state (ic_stateless c) s ev = Some s'"
    "caller = ic_owner_id c" "h = Some (ic_handle c)"
    "c' = (if ev = WT_IPC_EVENT_CLOSE_COMPLETE then zero_connection else c\<lparr>ic_state := Enum s'\<rparr>)"
  using assms
  by (auto simp: wt_ipc_connection_transition_def wt_ipc_handle_matches_def zero_connection_def
      split: if_splits option.splits cenum.splits)

interpretation ipc_machine: invariant_system ipc_opened ipc_event_step ipc_connection_wf
proof unfold_locales
  fix c
  assume "ipc_opened c"
  then show "ipc_connection_wf c"
    by (auto simp: ipc_opened_def ipc_connection_wf_def wt_ipc_connection_open_def zero_connection_def
        split: option.splits if_splits)
next
  fix c c'
  assume wf: "ipc_connection_wf c" and "ipc_event_step c c'"
  then obtain caller h e where
    "wt_ipc_connection_transition (Some c) caller h e = (WT_IPC_VALID, Some c')"
    by (auto simp: ipc_event_step_def)
  then show "ipc_connection_wf c'"
  proof (rule ipc_transition_valid)
    fix ev s s'
    assume st: "ic_state c = Enum s" "ipc_next_state (ic_stateless c) s ev = Some s'"
      and c': "c' = (if ev = WT_IPC_EVENT_CLOSE_COMPLETE then zero_connection
                     else c\<lparr>ic_state := Enum s'\<rparr>)"
    show ?thesis
    proof (cases "ev = WT_IPC_EVENT_CLOSE_COMPLETE")
      case True
      with c' show ?thesis by (simp add: ipc_connection_wf_def zero_connection_def)
    next
      case False
      have "s \<noteq> WT_IPC_CONNECTION_FREE" using st(2) by (auto simp: ipc_next_state_free)
      moreover have "ic_stateless c \<Longrightarrow> s' \<in> {WT_IPC_CONNECTION_IDLE,
          WT_IPC_CONNECTION_PENDING_REQUEST, WT_IPC_CONNECTION_ACTIVE,
          WT_IPC_CONNECTION_ERROR, WT_IPC_CONNECTION_TERMINAL}"
        using st(2) False by (auto dest: ipc_next_state_stateless)
      ultimately show ?thesis using wf st(1) False by (auto simp: c' ipc_connection_wf_def)
    qed
  qed
qed

text \<open>
  C4: Along every run of accepted events from a freshly opened connection the object stays
  well formed: its state is an enumerator, a live connection carries a valid connection
  handle that names its non-zero owner, and a stateless connection never enters a connect
  or disconnect state.
\<close>

theorem ipc_connection_always_wf:
  assumes "wt_ipc_connection_open c0 h owner sid version stateless = (WT_IPC_VALID, Some c)"
    and "ipc_event_step\<^sup>*\<^sup>* c c'"
  shows "ipc_connection_wf c'"
proof -
  have "ipc_opened c" using assms(1) unfolding ipc_opened_def by blast
  then show ?thesis using assms(2) by (rule ipc_machine.reachable_inv)
qed

text \<open>A failed connection serves nothing any more: it stays failed until it is terminal.\<close>

lemma ipc_step_failed:
  assumes "ipc_event_step c c'"
    and "ic_state c \<in> {Enum WT_IPC_CONNECTION_ERROR, Enum WT_IPC_CONNECTION_TERMINAL}"
  shows "ic_state c' \<in> {Enum WT_IPC_CONNECTION_ERROR, Enum WT_IPC_CONNECTION_TERMINAL}"
proof -
  obtain caller h e where
    "wt_ipc_connection_transition (Some c) caller h e = (WT_IPC_VALID, Some c')"
    using assms(1) by (auto simp: ipc_event_step_def)
  then show ?thesis
  proof (rule ipc_transition_valid)
    fix ev s s'
    assume "ic_state c = Enum s" "ipc_next_state (ic_stateless c) s ev = Some s'"
      "c' = (if ev = WT_IPC_EVENT_CLOSE_COMPLETE then zero_connection else c\<lparr>ic_state := Enum s'\<rparr>)"
    with assms(2) show ?thesis by (cases ev) (auto split: if_splits)
  qed
qed

text \<open>
  C5: Only the owner of a connection, presenting exactly the handle the connection was
  opened with, moves it; every refused event leaves the object as it was; and once a
  connection failed or was aborted no sequence of events makes it usable again.
\<close>

theorem ipc_transition_authority:
  "(wt_ipc_connection_transition (Some c) caller h e = (WT_IPC_VALID, Some c') \<longrightarrow>
      caller = ic_owner_id c \<and> h = Some (ic_handle c)) \<and>
   (fst (wt_ipc_connection_transition (Some c) caller h e) \<noteq> WT_IPC_VALID \<longrightarrow>
      snd (wt_ipc_connection_transition (Some c) caller h e) = Some c) \<and>
   (ic_state c \<in> {Enum WT_IPC_CONNECTION_ERROR, Enum WT_IPC_CONNECTION_TERMINAL} \<longrightarrow>
      ipc_event_step\<^sup>*\<^sup>* c d \<longrightarrow>
      ic_state d \<in> {Enum WT_IPC_CONNECTION_ERROR, Enum WT_IPC_CONNECTION_TERMINAL})"
proof (intro conjI impI)
  assume "wt_ipc_connection_transition (Some c) caller h e = (WT_IPC_VALID, Some c')"
  then show "caller = ic_owner_id c" "h = Some (ic_handle c)"
    by (auto elim: ipc_transition_valid)
next
  assume "fst (wt_ipc_connection_transition (Some c) caller h e) \<noteq> WT_IPC_VALID"
  then show "snd (wt_ipc_connection_transition (Some c) caller h e) = Some c"
    by (auto simp: wt_ipc_connection_transition_def split: option.splits cenum.splits if_splits)
next
  assume "ic_state c \<in> {Enum WT_IPC_CONNECTION_ERROR, Enum WT_IPC_CONNECTION_TERMINAL}"
    and "ipc_event_step\<^sup>*\<^sup>* c d"
  from this(2,1) show "ic_state d \<in> {Enum WT_IPC_CONNECTION_ERROR, Enum WT_IPC_CONNECTION_TERMINAL}"
    by (induction rule: rtranclp_induct) (simp, metis ipc_step_failed)
qed

definition example_handle :: wt_ipc_handle where
  "example_handle = \<lparr>ih_value = 1, ih_generation = 7, ih_owner_id = 3,
                     ih_type = Enum WT_IPC_HANDLE_CONNECTION\<rparr>"

definition example_connection :: wt_ipc_connection where
  "example_connection = \<lparr>ic_state = Enum WT_IPC_CONNECTION_PENDING_CONNECT,
     ic_handle = example_handle, ic_service_sid = 0x1000, ic_service_version = 1,
     ic_owner_id = 3, ic_stateless = False\<rparr>"

lemmas ipc_example_simps = example_handle_def example_connection_def zero_connection_def
  wt_ipc_connection_open_def wt_ipc_connection_transition_def wt_ipc_handle_matches_def

theorem ipc_connection_always_wf_witness:
  "ipc_connection_wf (example_connection\<lparr>ic_state := Enum WT_IPC_CONNECTION_CONNECTING\<rparr>)"
proof (rule ipc_connection_always_wf)
  show "wt_ipc_connection_open (Some zero_connection) (Some example_handle) 3 0x1000 1 False =
      (WT_IPC_VALID, Some example_connection)"
    by (simp add: ipc_example_simps)
  have "ipc_event_step example_connection
      (example_connection\<lparr>ic_state := Enum WT_IPC_CONNECTION_CONNECTING\<rparr>)"
    unfolding ipc_event_step_def
    by (intro exI [of _ 3] exI [of _ "Some example_handle"]
        exI [of _ "Enum WT_IPC_EVENT_CONNECT_ACCEPT"]) (simp add: ipc_example_simps)
  then show "ipc_event_step\<^sup>*\<^sup>* example_connection
      (example_connection\<lparr>ic_state := Enum WT_IPC_CONNECTION_CONNECTING\<rparr>)"
    by (rule r_into_rtranclp)
qed

theorem ipc_transition_authority_witness:
  "wt_ipc_connection_transition (Some example_connection) 3 (Some example_handle)
      (Enum WT_IPC_EVENT_FAIL) =
      (WT_IPC_VALID, Some (example_connection\<lparr>ic_state := Enum WT_IPC_CONNECTION_ERROR\<rparr>)) \<and>
   snd (wt_ipc_connection_transition (Some example_connection) 4 (Some example_handle)
      (Enum WT_IPC_EVENT_FAIL)) = Some example_connection \<and>
   3 = ic_owner_id example_connection"
proof (intro conjI)
  show v: "wt_ipc_connection_transition (Some example_connection) 3 (Some example_handle)
      (Enum WT_IPC_EVENT_FAIL) =
      (WT_IPC_VALID, Some (example_connection\<lparr>ic_state := Enum WT_IPC_CONNECTION_ERROR\<rparr>))"
    by (simp add: ipc_example_simps)
  show "3 = ic_owner_id example_connection"
    using ipc_transition_authority [of example_connection 3 "Some example_handle"] v by blast
  have "fst (wt_ipc_connection_transition (Some example_connection) 4 (Some example_handle)
      (Enum WT_IPC_EVENT_FAIL)) \<noteq> WT_IPC_VALID"
    by (simp add: ipc_example_simps)
  then show "snd (wt_ipc_connection_transition (Some example_connection) 4 (Some example_handle)
      (Enum WT_IPC_EVENT_FAIL)) = Some example_connection"
    using ipc_transition_authority [of example_connection 4 "Some example_handle"] by blast
qed

end
