(* ===== verification/Domain.thy ===== *)
theory Domain
  imports Wt_Prelude
begin

text \<open>
  The protection-domain descriptors of \<open>include/wolftrust/domain.h\<close> and the validator of
  \<open>src/domain.c\<close> that every generated manifest passes before anything is scheduled:
  identity, launch and restart policy, memory and interrupt resources of one domain, and
  the pairwise isolation of all of them.
\<close>

section \<open>Data\<close>

abbreviation (input) WT_DOMAIN_ID_INVALID :: u32 where "WT_DOMAIN_ID_INVALID \<equiv> UINT32_MAX"
abbreviation (input) WT_RESOURCE_SHARE_NONE :: u32 where "WT_RESOURCE_SHARE_NONE \<equiv> 0"

abbreviation (input) WT_MEMORY_ATTR_READ :: u32 where "WT_MEMORY_ATTR_READ \<equiv> 1"
abbreviation (input) WT_MEMORY_ATTR_WRITE :: u32 where "WT_MEMORY_ATTR_WRITE \<equiv> 2"
abbreviation (input) WT_MEMORY_ATTR_EXECUTE :: u32 where "WT_MEMORY_ATTR_EXECUTE \<equiv> 4"
abbreviation (input) WT_MEMORY_ATTR_DEVICE :: u32 where "WT_MEMORY_ATTR_DEVICE \<equiv> 8"
abbreviation (input) WT_MEMORY_ATTR_RESTART_CLEAR :: u32 where "WT_MEMORY_ATTR_RESTART_CLEAR \<equiv> 16"
abbreviation (input) WT_MEMORY_ATTR_SHARED :: u32 where "WT_MEMORY_ATTR_SHARED \<equiv> 32"

abbreviation (input) WT_INTERRUPT_ATTR_SHARED :: u32 where "WT_INTERRUPT_ATTR_SHARED \<equiv> 1"

abbreviation (input) WT_CAPABILITY_SECURITY_STATE :: u32 where "WT_CAPABILITY_SECURITY_STATE \<equiv> 1"
abbreviation (input) WT_CAPABILITY_PRIVILEGE_STATE :: u32 where "WT_CAPABILITY_PRIVILEGE_STATE \<equiv> 2"
abbreviation (input) WT_CAPABILITY_ROT_ISOLATION :: u32 where "WT_CAPABILITY_ROT_ISOLATION \<equiv> 4"
abbreviation (input) WT_CAPABILITY_DOMAIN_ISOLATION :: u32 where "WT_CAPABILITY_DOMAIN_ISOLATION \<equiv> 8"
abbreviation (input) WT_CAPABILITY_MEMORY_PROTECTION :: u32 where "WT_CAPABILITY_MEMORY_PROTECTION \<equiv> 16"
abbreviation (input) WT_CAPABILITY_INTERRUPT_ISOLATION :: u32 where
  "WT_CAPABILITY_INTERRUPT_ISOLATION \<equiv> 32"
abbreviation (input) WT_CAPABILITY_RESTART :: u32 where "WT_CAPABILITY_RESTART \<equiv> 64"

abbreviation (input) WT_MEMORY_ATTR_MASK :: u32 where "WT_MEMORY_ATTR_MASK \<equiv> 63"
abbreviation (input) WT_INTERRUPT_ATTR_MASK :: u32 where "WT_INTERRUPT_ATTR_MASK \<equiv> WT_INTERRUPT_ATTR_SHARED"
abbreviation (input) WT_CAPABILITY_MASK :: u32 where "WT_CAPABILITY_MASK \<equiv> 127"
abbreviation (input) WT_MPU_GRANULE :: u32 where "WT_MPU_GRANULE \<equiv> 32"

datatype wt_domain_class =
    WT_DOMAIN_CLASS_SPM
  | WT_DOMAIN_CLASS_SECURE_PARTITION
  | WT_DOMAIN_CLASS_NONSECURE_APPLICATION

datatype wt_rot_role =
    WT_ROT_ROLE_NONE | WT_ROT_ROLE_SPM | WT_ROT_ROLE_PROT | WT_ROT_ROLE_AROT

datatype wt_security_state = WT_SECURITY_STATE_SECURE | WT_SECURITY_STATE_NONSECURE

datatype wt_privilege_state =
    WT_PRIVILEGE_STATE_PRIVILEGED | WT_PRIVILEGE_STATE_UNPRIVILEGED

datatype wt_domain_lifecycle =
    WT_DOMAIN_LIFECYCLE_STOPPED
  | WT_DOMAIN_LIFECYCLE_READY
  | WT_DOMAIN_LIFECYCLE_RUNNING
  | WT_DOMAIN_LIFECYCLE_BLOCKED
  | WT_DOMAIN_LIFECYCLE_FAULTED
  | WT_DOMAIN_LIFECYCLE_RESTARTING

datatype wt_restart_action =
    WT_RESTART_ACTION_NEVER | WT_RESTART_ACTION_DOMAIN | WT_RESTART_ACTION_PLATFORM

datatype wt_isolation_profile =
    WT_ISOLATION_PROFILE_SERVICE_ONLY
  | WT_ISOLATION_PROFILE_LEVEL_1
  | WT_ISOLATION_PROFILE_LEVEL_2
  | WT_ISOLATION_PROFILE_LEVEL_3

record wt_memory_resource =
  mr_base :: u32
  mr_size :: u32
  mr_attributes :: u32
  mr_share_id :: u32

record wt_interrupt_resource =
  ir_interrupt :: u32
  ir_attributes :: u32
  ir_share_id :: u32

record wt_domain_restart_policy =
  drp_action :: "wt_restart_action cenum"
  drp_restart_limit :: u32
  drp_restart_window_ticks :: u32
  drp_initial_delay_ticks :: u32

record wt_domain_descriptor =
  dd_id :: u32
  dd_domain_class :: "wt_domain_class cenum"
  dd_rot_role :: "wt_rot_role cenum"
  dd_security_state :: "wt_security_state cenum"
  dd_privilege_state :: "wt_privilege_state cenum"
  dd_initial_lifecycle :: "wt_domain_lifecycle cenum"
  dd_entry_point :: u32
  dd_stack_base :: u32
  dd_stack_size :: u32
  dd_memory_resources :: "wt_memory_resource carray"
  dd_interrupt_resources :: "wt_interrupt_resource carray"
  dd_restart_policy :: wt_domain_restart_policy
  dd_required_capabilities :: u32
  dd_launch_required :: u32
  dd_launch_min_version :: u32

record wt_profile_capabilities =
  pc_capabilities :: u32
  pc_max_domains :: nat
  pc_max_memory_resources_per_domain :: nat
  pc_max_interrupts_per_domain :: nat

datatype wt_domain_validation_result =
    WT_DOMAIN_VALID
  | WT_DOMAIN_ERROR_ARGUMENT
  | WT_DOMAIN_ERROR_COUNT
  | WT_DOMAIN_ERROR_PROFILE
  | WT_DOMAIN_ERROR_CAPABILITY
  | WT_DOMAIN_ERROR_ID
  | WT_DOMAIN_ERROR_CLASS
  | WT_DOMAIN_ERROR_ROT_ROLE
  | WT_DOMAIN_ERROR_SECURITY_STATE
  | WT_DOMAIN_ERROR_PRIVILEGE_STATE
  | WT_DOMAIN_ERROR_LIFECYCLE
  | WT_DOMAIN_ERROR_RESTART_POLICY
  | WT_DOMAIN_ERROR_MEMORY_COUNT
  | WT_DOMAIN_ERROR_EMPTY_REGION
  | WT_DOMAIN_ERROR_ADDRESS_OVERFLOW
  | WT_DOMAIN_ERROR_MEMORY_ATTRIBUTES
  | WT_DOMAIN_ERROR_WRITE_EXECUTE
  | WT_DOMAIN_ERROR_ENTRY_POINT
  | WT_DOMAIN_ERROR_STACK
  | WT_DOMAIN_ERROR_OVERLAP
  | WT_DOMAIN_ERROR_SHARING
  | WT_DOMAIN_ERROR_INTERRUPT_COUNT
  | WT_DOMAIN_ERROR_INTERRUPT
  | WT_DOMAIN_ERROR_INTERRUPT_OWNERSHIP
  | WT_DOMAIN_ERROR_SPM_COUNT
  | WT_DOMAIN_ERROR_LAUNCH_POLICY
  | WT_DOMAIN_ERROR_ISOLATION

abbreviation "dchain \<equiv> chain WT_DOMAIN_VALID"
abbreviation "dloop \<equiv> first_err WT_DOMAIN_VALID"

abbreviation memory_of :: "wt_domain_descriptor \<Rightarrow> wt_memory_resource list" where
  "memory_of d \<equiv> carray_list (dd_memory_resources d)"

abbreviation interrupts_of :: "wt_domain_descriptor \<Rightarrow> wt_interrupt_resource list" where
  "interrupts_of d \<equiv> carray_list (dd_interrupt_resources d)"

section \<open>One domain\<close>

definition wt_range_end :: "u32 \<Rightarrow> u32 \<Rightarrow> wt_domain_validation_result \<times> u32" where
  "wt_range_end base sz =
     (if sz = 0 then (WT_DOMAIN_ERROR_EMPTY_REGION, 0)
      else if sz > UINT32_MAX - base then (WT_DOMAIN_ERROR_ADDRESS_OVERFLOW, 0)
      else (WT_DOMAIN_VALID, base + sz))"

definition wt_profile_required_capabilities ::
  "wt_isolation_profile cenum \<Rightarrow> wt_domain_validation_result \<times> u32" where
  "wt_profile_required_capabilities profile =
     (case profile of
        Enum WT_ISOLATION_PROFILE_SERVICE_ONLY \<Rightarrow> (WT_DOMAIN_VALID, 0)
      | Enum WT_ISOLATION_PROFILE_LEVEL_3 \<Rightarrow>
          (WT_DOMAIN_VALID,
           WT_CAPABILITY_SECURITY_STATE OR WT_CAPABILITY_PRIVILEGE_STATE OR
           WT_CAPABILITY_ROT_ISOLATION OR WT_CAPABILITY_DOMAIN_ISOLATION OR
           WT_CAPABILITY_MEMORY_PROTECTION OR WT_CAPABILITY_INTERRUPT_ISOLATION)
      | _ \<Rightarrow> (WT_DOMAIN_ERROR_PROFILE, 0))"

definition lifecycle_at_most_ready :: "wt_domain_lifecycle cenum \<Rightarrow> bool" where
  "lifecycle_at_most_ready l \<longleftrightarrow>
     l = Enum WT_DOMAIN_LIFECYCLE_STOPPED \<or> l = Enum WT_DOMAIN_LIFECYCLE_READY"

definition wt_domain_validate_identity :: "wt_domain_descriptor \<Rightarrow> wt_domain_validation_result" where
  "wt_domain_validate_identity d =
     (if dd_id d = WT_DOMAIN_ID_INVALID then WT_DOMAIN_ERROR_ID
      else if \<not> enum_in_range (dd_domain_class d) then WT_DOMAIN_ERROR_CLASS
      else if \<not> enum_in_range (dd_rot_role d) then WT_DOMAIN_ERROR_ROT_ROLE
      else if \<not> enum_in_range (dd_security_state d) then WT_DOMAIN_ERROR_SECURITY_STATE
      else if \<not> enum_in_range (dd_privilege_state d) then WT_DOMAIN_ERROR_PRIVILEGE_STATE
      else if \<not> lifecycle_at_most_ready (dd_initial_lifecycle d) then WT_DOMAIN_ERROR_LIFECYCLE
      else if dd_domain_class d = Enum WT_DOMAIN_CLASS_SPM then
        (if dd_rot_role d \<noteq> Enum WT_ROT_ROLE_SPM then WT_DOMAIN_ERROR_ROT_ROLE
         else if dd_security_state d \<noteq> Enum WT_SECURITY_STATE_SECURE
         then WT_DOMAIN_ERROR_SECURITY_STATE
         else if dd_privilege_state d \<noteq> Enum WT_PRIVILEGE_STATE_PRIVILEGED
         then WT_DOMAIN_ERROR_PRIVILEGE_STATE
         else WT_DOMAIN_VALID)
      else if dd_domain_class d = Enum WT_DOMAIN_CLASS_SECURE_PARTITION then
        (if dd_rot_role d \<noteq> Enum WT_ROT_ROLE_PROT \<and> dd_rot_role d \<noteq> Enum WT_ROT_ROLE_AROT
         then WT_DOMAIN_ERROR_ROT_ROLE
         else if dd_security_state d \<noteq> Enum WT_SECURITY_STATE_SECURE
         then WT_DOMAIN_ERROR_SECURITY_STATE
         else if dd_privilege_state d \<noteq> Enum WT_PRIVILEGE_STATE_UNPRIVILEGED
         then WT_DOMAIN_ERROR_PRIVILEGE_STATE
         else WT_DOMAIN_VALID)
      else
        (if dd_rot_role d \<noteq> Enum WT_ROT_ROLE_NONE then WT_DOMAIN_ERROR_ROT_ROLE
         else if dd_security_state d \<noteq> Enum WT_SECURITY_STATE_NONSECURE
         then WT_DOMAIN_ERROR_SECURITY_STATE
         else WT_DOMAIN_VALID))"

definition wt_domain_validate_launch :: "wt_domain_descriptor \<Rightarrow> wt_domain_validation_result" where
  "wt_domain_validate_launch d =
     (if dd_launch_required d > 1 then WT_DOMAIN_ERROR_LAUNCH_POLICY
      else if dd_launch_required d = 1 \<and>
              dd_domain_class d \<noteq> Enum WT_DOMAIN_CLASS_NONSECURE_APPLICATION
      then WT_DOMAIN_ERROR_LAUNCH_POLICY
      else WT_DOMAIN_VALID)"

definition wt_domain_validate_restart :: "wt_domain_descriptor \<Rightarrow> wt_domain_validation_result" where
  "wt_domain_validate_restart d =
     (let policy = dd_restart_policy d in
      if \<not> enum_in_range (drp_action policy) then WT_DOMAIN_ERROR_RESTART_POLICY
      else if drp_action policy = Enum WT_RESTART_ACTION_DOMAIN then
        (if drp_restart_limit policy = 0 \<or> drp_restart_window_ticks policy = 0
         then WT_DOMAIN_ERROR_RESTART_POLICY else WT_DOMAIN_VALID)
      else if drp_restart_limit policy \<noteq> 0 \<or> drp_restart_window_ticks policy \<noteq> 0 \<or>
              drp_initial_delay_ticks policy \<noteq> 0
      then WT_DOMAIN_ERROR_RESTART_POLICY
      else WT_DOMAIN_VALID)"

definition wt_memory_resource_validate :: "wt_memory_resource \<Rightarrow> wt_domain_validation_result" where
  "wt_memory_resource_validate r =
     (let a = mr_attributes r in
      dchain (fst (wt_range_end (mr_base r) (mr_size r)))
       (if mr_base r mod WT_MPU_GRANULE \<noteq> 0 \<or> mr_size r mod WT_MPU_GRANULE \<noteq> 0
        then WT_DOMAIN_ERROR_MEMORY_ATTRIBUTES
        else if a AND NOT WT_MEMORY_ATTR_MASK \<noteq> 0 then WT_DOMAIN_ERROR_MEMORY_ATTRIBUTES
        else if a AND (WT_MEMORY_ATTR_READ OR WT_MEMORY_ATTR_WRITE OR WT_MEMORY_ATTR_EXECUTE) = 0
        then WT_DOMAIN_ERROR_MEMORY_ATTRIBUTES
        else if a AND WT_MEMORY_ATTR_DEVICE \<noteq> 0 \<and> a AND WT_MEMORY_ATTR_EXECUTE \<noteq> 0
        then WT_DOMAIN_ERROR_MEMORY_ATTRIBUTES
        else if a AND WT_MEMORY_ATTR_RESTART_CLEAR \<noteq> 0 \<and> a AND WT_MEMORY_ATTR_WRITE = 0
        then WT_DOMAIN_ERROR_MEMORY_ATTRIBUTES
        else if a AND (WT_MEMORY_ATTR_WRITE OR WT_MEMORY_ATTR_EXECUTE) =
                WT_MEMORY_ATTR_WRITE OR WT_MEMORY_ATTR_EXECUTE
        then WT_DOMAIN_ERROR_WRITE_EXECUTE
        else if a AND WT_MEMORY_ATTR_SHARED \<noteq> 0 then
          (if mr_share_id r = WT_RESOURCE_SHARE_NONE then WT_DOMAIN_ERROR_SHARING
           else WT_DOMAIN_VALID)
        else if mr_share_id r \<noteq> WT_RESOURCE_SHARE_NONE then WT_DOMAIN_ERROR_SHARING
        else WT_DOMAIN_VALID))"

definition wt_domain_validate_entry_and_stack ::
  "wt_domain_descriptor \<Rightarrow> wt_domain_validation_result" where
  "wt_domain_validate_entry_and_stack d =
     (case wt_range_end (dd_stack_base d) (dd_stack_size d) of (ret, stack_end) \<Rightarrow>
      if ret = WT_DOMAIN_ERROR_EMPTY_REGION then WT_DOMAIN_ERROR_STACK
      else dchain ret
       (let entry_found = list_ex (\<lambda>r.
              mr_attributes r AND WT_MEMORY_ATTR_EXECUTE \<noteq> 0 \<and>
              dd_entry_point d \<ge> mr_base r \<and> dd_entry_point d < mr_base r + mr_size r)
              (memory_of d);
            stack_found = list_ex (\<lambda>r.
              mr_attributes r AND (WT_MEMORY_ATTR_READ OR WT_MEMORY_ATTR_WRITE) =
                WT_MEMORY_ATTR_READ OR WT_MEMORY_ATTR_WRITE \<and>
              mr_attributes r AND (WT_MEMORY_ATTR_EXECUTE OR WT_MEMORY_ATTR_DEVICE OR
                WT_MEMORY_ATTR_SHARED) = 0 \<and>
              dd_stack_base d \<ge> mr_base r \<and> stack_end \<le> mr_base r + mr_size r)
              (memory_of d)
        in if \<not> entry_found then WT_DOMAIN_ERROR_ENTRY_POINT
           else if \<not> stack_found then WT_DOMAIN_ERROR_STACK
           else WT_DOMAIN_VALID))"

definition wt_memory_resources_overlap :: "wt_memory_resource \<Rightarrow> wt_memory_resource \<Rightarrow> bool" where
  "wt_memory_resources_overlap first second \<longleftrightarrow>
     mr_base first < mr_base second + mr_size second \<and>
     mr_base second < mr_base first + mr_size first"

definition wt_memory_resources_shared :: "wt_memory_resource \<Rightarrow> wt_memory_resource \<Rightarrow> bool" where
  "wt_memory_resources_shared first second \<longleftrightarrow>
     mr_attributes first AND WT_MEMORY_ATTR_SHARED \<noteq> 0 \<and>
     mr_attributes second AND WT_MEMORY_ATTR_SHARED \<noteq> 0 \<and>
     mr_share_id first = mr_share_id second \<and> mr_share_id first \<noteq> WT_RESOURCE_SHARE_NONE \<and>
     mr_base first = mr_base second \<and> mr_size first = mr_size second \<and>
     mr_attributes first = mr_attributes second"

definition validate_interrupt_at ::
  "wt_interrupt_resource list \<Rightarrow> nat \<Rightarrow> wt_domain_validation_result" where
  "validate_interrupt_at irs i =
     (let x = irs ! i in
      if ir_interrupt x = UINT32_MAX \<or> ir_attributes x AND NOT WT_INTERRUPT_ATTR_MASK \<noteq> 0
      then WT_DOMAIN_ERROR_INTERRUPT
      else dchain
        (if ir_attributes x AND WT_INTERRUPT_ATTR_SHARED \<noteq> 0 then
           (if ir_share_id x = WT_RESOURCE_SHARE_NONE then WT_DOMAIN_ERROR_INTERRUPT_OWNERSHIP
            else WT_DOMAIN_VALID)
         else if ir_share_id x \<noteq> WT_RESOURCE_SHARE_NONE then WT_DOMAIN_ERROR_INTERRUPT_OWNERSHIP
         else WT_DOMAIN_VALID)
        (dloop (\<lambda>j. if ir_interrupt x = ir_interrupt (irs ! j)
                    then WT_DOMAIN_ERROR_INTERRUPT_OWNERSHIP else WT_DOMAIN_VALID) [0..<i]))"

definition wt_domain_validate_resources ::
  "wt_domain_descriptor \<Rightarrow> wt_profile_capabilities \<Rightarrow> wt_domain_validation_result" where
  "wt_domain_validate_resources d caps =
     (let mem = dd_memory_resources d; irq = dd_interrupt_resources d in
      if carray_count mem = 0 \<or> carray_null mem \<or>
         carray_count mem > pc_max_memory_resources_per_domain caps
      then WT_DOMAIN_ERROR_MEMORY_COUNT
      else if carray_count irq > pc_max_interrupts_per_domain caps \<or>
              carray_count irq \<noteq> 0 \<and> carray_null irq
      then WT_DOMAIN_ERROR_INTERRUPT_COUNT
      else dchain
        (dloop (\<lambda>i. dchain (wt_memory_resource_validate (memory_of d ! i))
           (dloop (\<lambda>j. if wt_memory_resources_overlap (memory_of d ! i) (memory_of d ! j)
                       then WT_DOMAIN_ERROR_OVERLAP else WT_DOMAIN_VALID) [0..<i]))
           [0..<carray_count mem])
        (dchain (dloop (validate_interrupt_at (interrupts_of d)) [0..<carray_count irq])
           (wt_domain_validate_entry_and_stack d)))"

section \<open>Pairs of domains, sets of domains\<close>

definition wt_domain_pair_isolated ::
  "wt_domain_descriptor \<Rightarrow> wt_domain_descriptor \<Rightarrow> wt_memory_resource \<Rightarrow>
   wt_isolation_profile cenum \<Rightarrow> bool" where
  "wt_domain_pair_isolated first second resource profile \<longleftrightarrow>
     (if profile \<noteq> Enum WT_ISOLATION_PROFILE_LEVEL_3 then True
      else if mr_attributes resource AND WT_MEMORY_ATTR_WRITE = 0 then True
      else if mr_attributes resource AND WT_MEMORY_ATTR_DEVICE \<noteq> 0 then True
      else if dd_domain_class first = Enum WT_DOMAIN_CLASS_SPM \<or>
              dd_domain_class second = Enum WT_DOMAIN_CLASS_SPM then True
      else if dd_domain_class first \<noteq> Enum WT_DOMAIN_CLASS_SECURE_PARTITION \<and>
              dd_domain_class second \<noteq> Enum WT_DOMAIN_CLASS_SECURE_PARTITION then True
      else False)"

definition validate_memory_pair ::
  "wt_domain_descriptor \<Rightarrow> wt_domain_descriptor \<Rightarrow> wt_isolation_profile cenum \<Rightarrow>
   wt_memory_resource \<Rightarrow> wt_memory_resource \<Rightarrow> wt_domain_validation_result" where
  "validate_memory_pair first second profile r1 r2 =
     (if \<not> wt_memory_resources_overlap r1 r2 then WT_DOMAIN_VALID
      else if \<not> wt_memory_resources_shared r1 r2 then
        (if mr_attributes r1 AND WT_MEMORY_ATTR_SHARED \<noteq> 0 \<or>
            mr_attributes r2 AND WT_MEMORY_ATTR_SHARED \<noteq> 0
         then WT_DOMAIN_ERROR_SHARING else WT_DOMAIN_ERROR_OVERLAP)
      else if \<not> wt_domain_pair_isolated first second r1 profile then WT_DOMAIN_ERROR_ISOLATION
      else WT_DOMAIN_VALID)"

definition interrupts_shared :: "wt_interrupt_resource \<Rightarrow> wt_interrupt_resource \<Rightarrow> bool" where
  "interrupts_shared i1 i2 \<longleftrightarrow>
     ir_attributes i1 AND WT_INTERRUPT_ATTR_SHARED \<noteq> 0 \<and>
     ir_attributes i2 AND WT_INTERRUPT_ATTR_SHARED \<noteq> 0 \<and>
     ir_share_id i1 = ir_share_id i2 \<and> ir_share_id i1 \<noteq> WT_RESOURCE_SHARE_NONE"

definition wt_domain_validate_pair ::
  "wt_domain_descriptor \<Rightarrow> wt_domain_descriptor \<Rightarrow> wt_isolation_profile cenum \<Rightarrow>
   wt_domain_validation_result" where
  "wt_domain_validate_pair first second profile =
     (if dd_id first = dd_id second then WT_DOMAIN_ERROR_ID
      else dchain
        (dloop (\<lambda>r1. dloop (validate_memory_pair first second profile r1) (memory_of second))
           (memory_of first))
        (dloop (\<lambda>i1. dloop (\<lambda>i2.
             if ir_interrupt i1 = ir_interrupt i2 \<and> \<not> interrupts_shared i1 i2
             then WT_DOMAIN_ERROR_INTERRUPT_OWNERSHIP else WT_DOMAIN_VALID)
             (interrupts_of second)) (interrupts_of first)))"

definition validate_domain_at ::
  "wt_domain_descriptor list \<Rightarrow> wt_isolation_profile cenum \<Rightarrow> wt_profile_capabilities \<Rightarrow> nat \<Rightarrow>
   wt_domain_validation_result" where
  "validate_domain_at ds profile caps i =
     (let d = ds ! i; c = pc_capabilities caps in
      dchain (wt_domain_validate_restart d)
      (dchain (wt_domain_validate_launch d)
       (if dd_required_capabilities d AND NOT WT_CAPABILITY_MASK \<noteq> 0 \<or>
           c AND dd_required_capabilities d \<noteq> dd_required_capabilities d
        then WT_DOMAIN_ERROR_CAPABILITY
        else if drp_action (dd_restart_policy d) = Enum WT_RESTART_ACTION_DOMAIN \<and>
                c AND WT_CAPABILITY_RESTART = 0
        then WT_DOMAIN_ERROR_CAPABILITY
        else if carray_count (dd_memory_resources d) \<noteq> 0 \<and>
                c AND WT_CAPABILITY_MEMORY_PROTECTION = 0
        then WT_DOMAIN_ERROR_CAPABILITY
        else if carray_count (dd_interrupt_resources d) \<noteq> 0 \<and>
                c AND WT_CAPABILITY_INTERRUPT_ISOLATION = 0
        then WT_DOMAIN_ERROR_CAPABILITY
        else dchain (wt_domain_validate_resources d caps)
          (dloop (\<lambda>j. wt_domain_validate_pair d (ds ! j) profile) [0..<i]))))"

definition wt_domain_validate_set ::
  "wt_domain_descriptor carray \<Rightarrow> wt_isolation_profile cenum \<Rightarrow> wt_profile_capabilities option \<Rightarrow>
   wt_domain_validation_result" where
  "wt_domain_validate_set domains profile capabilities =
     (case capabilities of
        None \<Rightarrow> WT_DOMAIN_ERROR_ARGUMENT
      | Some caps \<Rightarrow>
         (if carray_null domains then WT_DOMAIN_ERROR_ARGUMENT
          else if carray_count domains = 0 \<or> carray_count domains > pc_max_domains caps
          then WT_DOMAIN_ERROR_COUNT
          else if pc_capabilities caps AND NOT WT_CAPABILITY_MASK \<noteq> 0
          then WT_DOMAIN_ERROR_CAPABILITY
          else (case wt_profile_required_capabilities profile of (ret, required) \<Rightarrow>
            dchain ret
             (if pc_capabilities caps AND required \<noteq> required then WT_DOMAIN_ERROR_CAPABILITY
              else dchain (dloop wt_domain_validate_identity (carray_list domains))
               (if profile \<noteq> Enum WT_ISOLATION_PROFILE_SERVICE_ONLY \<and>
                   count_if (\<lambda>d. dd_domain_class d = Enum WT_DOMAIN_CLASS_SPM)
                     (carray_list domains) \<noteq> 1
                then WT_DOMAIN_ERROR_SPM_COUNT
                else dloop (validate_domain_at (carray_list domains) profile caps)
                       [0..<carray_count domains])))))"

section \<open>What a validated set guarantees\<close>

text \<open>The addresses a resource gives access to.\<close>

definition in_resource :: "u32 \<Rightarrow> wt_memory_resource \<Rightarrow> bool" where
  "in_resource a r \<longleftrightarrow> unat (mr_base r) \<le> unat a \<and> unat a < unat (mr_base r) + unat (mr_size r)"

definition writable :: "wt_memory_resource \<Rightarrow> bool" where
  "writable r \<longleftrightarrow> mr_attributes r AND WT_MEMORY_ATTR_WRITE \<noteq> 0"

definition executable_mem :: "wt_memory_resource \<Rightarrow> bool" where
  "executable_mem r \<longleftrightarrow> mr_attributes r AND WT_MEMORY_ATTR_EXECUTE \<noteq> 0"

definition device :: "wt_memory_resource \<Rightarrow> bool" where
  "device r \<longleftrightarrow> mr_attributes r AND WT_MEMORY_ATTR_DEVICE \<noteq> 0"

definition shared_mem :: "wt_memory_resource \<Rightarrow> bool" where
  "shared_mem r \<longleftrightarrow> mr_attributes r AND WT_MEMORY_ATTR_SHARED \<noteq> 0"

lemma wt_range_end_valid:
  "fst (wt_range_end b n) = WT_DOMAIN_VALID \<longleftrightarrow> n \<noteq> 0 \<and> unat b + unat n < 2 ^ 32"
  by (auto simp: wt_range_end_def word_gt_max_minus)

lemma wt_memory_resource_validate_range:
  "wt_memory_resource_validate r = WT_DOMAIN_VALID \<Longrightarrow>
     mr_size r \<noteq> 0 \<and> unat (mr_base r) + unat (mr_size r) < 2 ^ 32"
  by (auto simp: wt_memory_resource_validate_def Let_def wt_range_end_valid)

lemma and_disjoint_bits:
  assumes "a AND (2 OR 4) \<noteq> (2 OR 4 :: u32)"
  shows "a AND 2 = 0 \<or> a AND 4 = 0"
proof -
  have "a AND 2 = 0 \<or> a AND 2 = 2" "a AND 4 = 0 \<or> a AND 4 = 4"
    using and_push_bit_cases [of a 1] and_push_bit_cases [of a 2] by (simp_all add: push_bit_eq_mult)
  moreover have "a AND (2 OR 4) = (a AND 2) OR (a AND 4)"
    by (rule bit.conj_disj_distrib)
  ultimately show ?thesis using assms by metis
qed

lemma wt_memory_resource_validate_wx:
  "wt_memory_resource_validate r = WT_DOMAIN_VALID \<Longrightarrow> \<not> (writable r \<and> executable_mem r)"
  using and_disjoint_bits [of "mr_attributes r"]
  by (auto simp: wt_memory_resource_validate_def Let_def writable_def executable_mem_def
      split: if_splits)

text \<open>For resources inside the address space, the overlap test sees every common address.\<close>

lemma common_address_overlap:
  assumes "in_resource a r1" "in_resource a r2"
    and "unat (mr_base r1) + unat (mr_size r1) < 2 ^ 32"
    and "unat (mr_base r2) + unat (mr_size r2) < 2 ^ 32"
  shows "wt_memory_resources_overlap r1 r2"
  using assms
  by (auto simp: wt_memory_resources_overlap_def in_resource_def word_less_nat_alt unat_add_exact)

lemma overlap_sym: "wt_memory_resources_overlap r1 r2 \<longleftrightarrow> wt_memory_resources_overlap r2 r1"
  by (auto simp: wt_memory_resources_overlap_def)

lemma shared_eq: "wt_memory_resources_shared r1 r2 \<Longrightarrow> r1 = r2"
  by (simp add: wt_memory_resources_shared_def)

abbreviation accepted :: "wt_domain_descriptor list \<Rightarrow> wt_isolation_profile cenum \<Rightarrow> wt_profile_capabilities \<Rightarrow> bool" where
  "accepted ds profile caps \<equiv>
     wt_domain_validate_set (CArray ds) profile (Some caps) = WT_DOMAIN_VALID"

lemma accepted_identity:
  "accepted ds profile caps \<Longrightarrow> d \<in> set ds \<Longrightarrow> wt_domain_validate_identity d = WT_DOMAIN_VALID"
  by (auto simp: wt_domain_validate_set_def split: prod.splits if_splits)

lemma accepted_domain_at:
  "accepted ds profile caps \<Longrightarrow> i < length ds \<Longrightarrow>
     validate_domain_at ds profile caps i = WT_DOMAIN_VALID"
  by (auto simp: wt_domain_validate_set_def split: prod.splits if_splits)

lemma accepted_resources:
  "accepted ds profile caps \<Longrightarrow> i < length ds \<Longrightarrow>
     wt_domain_validate_resources (ds ! i) caps = WT_DOMAIN_VALID"
  by (drule (1) accepted_domain_at) (auto simp: validate_domain_at_def Let_def split: if_splits)

lemma accepted_pair:
  "accepted ds profile caps \<Longrightarrow> i < length ds \<Longrightarrow> j < i \<Longrightarrow>
     wt_domain_validate_pair (ds ! i) (ds ! j) profile = WT_DOMAIN_VALID"
  by (drule (1) accepted_domain_at) (auto simp: validate_domain_at_def Let_def split: if_splits)

lemma accepted_one_spm:
  "accepted ds profile caps \<Longrightarrow> profile \<noteq> Enum WT_ISOLATION_PROFILE_SERVICE_ONLY \<Longrightarrow>
     count_if (\<lambda>d. dd_domain_class d = Enum WT_DOMAIN_CLASS_SPM) ds = 1"
  by (auto simp: wt_domain_validate_set_def split: prod.splits if_splits)

lemma resources_at:
  assumes "wt_domain_validate_resources d caps = WT_DOMAIN_VALID" "k < length (memory_of d)"
  shows "wt_memory_resource_validate (memory_of d ! k) = WT_DOMAIN_VALID"
    and "l < k \<Longrightarrow> \<not> wt_memory_resources_overlap (memory_of d ! k) (memory_of d ! l)"
  using assms by (auto simp: wt_domain_validate_resources_def Let_def split: if_splits)

lemma accepted_resource:
  "accepted ds profile caps \<Longrightarrow> i < length ds \<Longrightarrow> r \<in> set (memory_of (ds ! i)) \<Longrightarrow>
     wt_memory_resource_validate r = WT_DOMAIN_VALID"
  by (auto simp: in_set_conv_nth dest: accepted_resources intro: resources_at(1))

lemma accepted_entry_and_stack:
  "accepted ds profile caps \<Longrightarrow> i < length ds \<Longrightarrow>
     wt_domain_validate_entry_and_stack (ds ! i) = WT_DOMAIN_VALID"
  by (drule (1) accepted_resources)
    (auto simp: wt_domain_validate_resources_def Let_def split: if_splits)

lemma accepted_memory_pair:
  assumes "accepted ds profile caps" "i < length ds" "j < i"
    and "r1 \<in> set (memory_of (ds ! i))" "r2 \<in> set (memory_of (ds ! j))"
  shows "validate_memory_pair (ds ! i) (ds ! j) profile r1 r2 = WT_DOMAIN_VALID"
  using accepted_pair [OF assms(1-3)] assms(4,5)
  by (auto simp: wt_domain_validate_pair_def split: if_splits)

lemma pair_isolated_sym:
  "wt_domain_pair_isolated d e r profile \<longleftrightarrow> wt_domain_pair_isolated e d r profile"
  by (auto simp: wt_domain_pair_isolated_def)

text \<open>Two domains that reach one address declared the same shared resource.\<close>

lemma accepted_common_address:
  assumes v: "accepted ds profile caps" and ij: "i < length ds" "j < length ds" "i \<noteq> j"
    and r: "r1 \<in> set (memory_of (ds ! i))" "r2 \<in> set (memory_of (ds ! j))"
    and a: "in_resource a r1" "in_resource a r2"
  shows "r1 = r2 \<and> shared_mem r1 \<and> wt_domain_pair_isolated (ds ! i) (ds ! j) r1 profile"
proof -
  have ov: "wt_memory_resources_overlap r1 r2"
    using wt_memory_resource_validate_range [OF accepted_resource [OF v ij(1) r(1)]]
      wt_memory_resource_validate_range [OF accepted_resource [OF v ij(2) r(2)]] a
    by (auto intro: common_address_overlap)
  have *: "r = r' \<and> shared_mem r \<and> wt_domain_pair_isolated d e r profile"
    if "validate_memory_pair d e profile r r' = WT_DOMAIN_VALID" "wt_memory_resources_overlap r r'"
    for d e r r'
    using that
    by (auto simp: validate_memory_pair_def shared_mem_def wt_memory_resources_shared_def
        split: if_splits)
  consider "j < i" | "i < j" using ij(3) by linarith
  then show ?thesis
  proof cases
    case 1
    show ?thesis using * [OF accepted_memory_pair [OF v ij(1) 1 r] ov] .
  next
    case 2
    show ?thesis
      using * [OF accepted_memory_pair [OF v ij(2) 2 r(2,1)]] ov
      by (auto simp: overlap_sym pair_isolated_sym)
  qed
qed

lemma accepted_ids_distinct: "accepted ds profile caps \<Longrightarrow> distinct (map dd_id ds)"
proof -
  assume v: "accepted ds profile caps"
  have "dd_id (ds ! i) \<noteq> dd_id (ds ! j)" if "i < length ds" "j < i" for i j
    using accepted_pair [OF v that] by (auto simp: wt_domain_validate_pair_def split: if_splits)
  then show ?thesis
    by (auto simp: distinct_conv_nth) (metis linorder_neqE_nat)
qed

lemma and_or_zero: "a AND (x OR y OR z) = 0 \<Longrightarrow> a AND y = 0 \<and> a AND z = (0 :: u32)"
  by (simp add: bit.conj_disj_distrib or_eq_0_iff)

lemma and_one_two: "a AND (1 OR 2) = (1 OR 2) \<Longrightarrow> a AND 2 \<noteq> (0 :: u32)"
proof -
  assume "a AND (1 OR 2) = (1 OR 2)"
  moreover have "(a AND (1 OR 2)) AND 2 = a AND ((1 OR 2) AND 2)" by (rule and.assoc)
  ultimately have "a AND ((1 OR 2) AND 2) = (1 OR 2) AND 2" by (simp only:)
  then show ?thesis by simp
qed

lemma stack_region:
  assumes "wt_domain_validate_entry_and_stack d = WT_DOMAIN_VALID"
    and range: "\<And>r. r \<in> set (memory_of d) \<Longrightarrow>
           mr_size r \<noteq> 0 \<and> unat (mr_base r) + unat (mr_size r) < 2 ^ 32"
  shows "\<exists>r \<in> set (memory_of d). writable r \<and> \<not> shared_mem r \<and> \<not> device r \<and>
            unat (mr_base r) \<le> unat (dd_stack_base d) \<and>
            unat (dd_stack_base d) + unat (dd_stack_size d) \<le> unat (mr_base r) + unat (mr_size r)"
proof -
  from assms(1) obtain r e where r: "r \<in> set (memory_of d)"
      "mr_attributes r AND (1 OR 2) = 1 OR 2" "mr_attributes r AND (4 OR 8 OR 32) = 0"
      "mr_base r \<le> dd_stack_base d" "e \<le> mr_base r + mr_size r"
    and e: "wt_range_end (dd_stack_base d) (dd_stack_size d) = (WT_DOMAIN_VALID, e)"
    by (auto simp: wt_domain_validate_entry_and_stack_def list_ex_iff Let_def
        split: prod.splits if_splits)
  have "unat (dd_stack_base d) + unat (dd_stack_size d) < 2 ^ 32"
    using e wt_range_end_valid [of "dd_stack_base d" "dd_stack_size d"] by simp
  moreover have "e = dd_stack_base d + dd_stack_size d"
    using e by (auto simp: wt_range_end_def split: if_splits)
  ultimately have "unat (dd_stack_base d) + unat (dd_stack_size d) \<le> unat (mr_base r) + unat (mr_size r)"
    using r(5) range [OF r(1)] by (simp add: word_le_nat_alt unat_add_exact)
  with r and_one_two [OF r(2)] and_or_zero [OF r(3)] show ?thesis
    by (auto simp: writable_def shared_mem_def device_def word_le_nat_alt)
qed

section \<open>Isolation as an interface\<close>

text \<open>
  What the rest of the system relies on: a configuration that was accepted gives each
  domain private memory that no other untrusted domain can see. Whatever a domain stores
  there is invisible outside it.
\<close>

locale memory_isolation =
  fixes ok :: "'c \<Rightarrow> bool"
    and private_to :: "'c \<Rightarrow> nat \<Rightarrow> u32 \<Rightarrow> bool"
    and visible_to :: "'c \<Rightarrow> nat \<Rightarrow> u32 \<Rightarrow> bool"
    and trusted :: "'c \<Rightarrow> nat \<Rightarrow> bool"
  assumes isolated:
    "ok c \<Longrightarrow> private_to c i a \<Longrightarrow> i \<noteq> j \<Longrightarrow> \<not> trusted c j \<Longrightarrow> \<not> visible_to c j a"
begin

lemma stores_invisible:
  assumes "ok c" "i \<noteq> j" "\<not> trusted c j" "visible_to c j b"
    and "\<forall>(a, v) \<in> set ws. private_to c i a"
  shows "fold (\<lambda>(a, v) m. m(a := v)) ws mem b = mem b"
  using assms(5)
proof (induction ws arbitrary: mem)
  case Nil
  then show ?case by simp
next
  case (Cons w ws)
  obtain a v where w: "w = (a, v)" by (cases w)
  have "a \<noteq> b" using isolated [of c i a j] assms(1-4) Cons.prems w by auto
  then show ?case using Cons w by simp
qed

end

definition sp_private :: "wt_domain_descriptor list \<times> wt_profile_capabilities \<Rightarrow> nat \<Rightarrow> u32 \<Rightarrow> bool" where
  "sp_private c i a \<longleftrightarrow> i < length (fst c) \<and>
     dd_domain_class (fst c ! i) = Enum WT_DOMAIN_CLASS_SECURE_PARTITION \<and>
     (\<exists>r \<in> set (memory_of (fst c ! i)). writable r \<and> \<not> device r \<and> in_resource a r)"

definition domain_sees :: "wt_domain_descriptor list \<times> wt_profile_capabilities \<Rightarrow> nat \<Rightarrow> u32 \<Rightarrow> bool" where
  "domain_sees c j a \<longleftrightarrow> j < length (fst c) \<and> (\<exists>r \<in> set (memory_of (fst c ! j)). in_resource a r)"

definition is_spm :: "wt_domain_descriptor list \<times> wt_profile_capabilities \<Rightarrow> nat \<Rightarrow> bool" where
  "is_spm c j \<longleftrightarrow> dd_domain_class (fst c ! j) = Enum WT_DOMAIN_CLASS_SPM"

abbreviation level3_accepted :: "wt_domain_descriptor list \<times> wt_profile_capabilities \<Rightarrow> bool" where
  "level3_accepted c \<equiv> accepted (fst c) (Enum WT_ISOLATION_PROFILE_LEVEL_3) (snd c)"

interpretation level3: memory_isolation level3_accepted sp_private domain_sees is_spm
proof unfold_locales
  fix c i a j
  assume v: "level3_accepted c" and p: "sp_private c i a" and ij: "i \<noteq> j" and t: "\<not> is_spm c j"
  show "\<not> domain_sees c j a"
  proof
    assume "domain_sees c j a"
    with p obtain r1 r2 where r: "r1 \<in> set (memory_of (fst c ! i))" "writable r1" "\<not> device r1"
        "in_resource a r1" "r2 \<in> set (memory_of (fst c ! j))" "in_resource a r2"
      and "i < length (fst c)" "j < length (fst c)"
      and sp: "dd_domain_class (fst c ! i) = Enum WT_DOMAIN_CLASS_SECURE_PARTITION"
      by (auto simp: sp_private_def domain_sees_def)
    then have "wt_domain_pair_isolated (fst c ! i) (fst c ! j) r1 (Enum WT_ISOLATION_PROFILE_LEVEL_3)"
      using accepted_common_address [OF v _ _ ij r(1,5,4,6)] by blast
    with sp t r(2,3) show False
      by (auto simp: wt_domain_pair_isolated_def writable_def device_def is_spm_def split: if_splits)
  qed
qed


text \<open>
  C7: Every domain of an accepted set is internally sound: its resources are non-empty, lie
  inside the address space, are never writable and executable at once, do not overlap each
  other, and its entry point and stack lie in an executable and in a private read-write
  resource.
\<close>

theorem wt_domain_validate_set_sound:
  assumes "wt_domain_validate_set (CArray ds) profile (Some caps) = WT_DOMAIN_VALID"
    and "d \<in> set ds"
  shows "(\<forall>r \<in> set (memory_of d). \<not> (writable r \<and> executable_mem r) \<and> mr_size r \<noteq> 0 \<and>
            unat (mr_base r) + unat (mr_size r) < 2 ^ 32)
       \<and> (\<forall>k l a. k < length (memory_of d) \<and> l < length (memory_of d) \<and> k \<noteq> l \<longrightarrow>
            \<not> (in_resource a (memory_of d ! k) \<and> in_resource a (memory_of d ! l)))
       \<and> (\<exists>r \<in> set (memory_of d). executable_mem r \<and> in_resource (dd_entry_point d) r)
       \<and> (\<exists>r \<in> set (memory_of d). writable r \<and> \<not> shared_mem r \<and> \<not> device r \<and>
            unat (mr_base r) \<le> unat (dd_stack_base d) \<and>
            unat (dd_stack_base d) + unat (dd_stack_size d) \<le> unat (mr_base r) + unat (mr_size r))"
proof -
  from assms(2) obtain i where i: "i < length ds" "d = ds ! i"
    by (auto simp: in_set_conv_nth)
  note res = accepted_resources [OF assms(1) i(1), folded i(2)]
  note ok = accepted_resource [OF assms(1) i(1), folded i(2)]
  note range = ok [THEN wt_memory_resource_validate_range]
  note es = accepted_entry_and_stack [OF assms(1) i(1), folded i(2)]
  have disj: "\<not> (in_resource a (memory_of d ! k) \<and> in_resource a (memory_of d ! l))"
    if "k < length (memory_of d)" "l < k" for k l a
    using resources_at(2) [OF res that] range [of "memory_of d ! k"] range [of "memory_of d ! l"] that
      common_address_overlap [of a "memory_of d ! k" "memory_of d ! l"] by auto
  have "\<not> (in_resource a (memory_of d ! k) \<and> in_resource a (memory_of d ! l))"
    if "k < length (memory_of d)" "l < length (memory_of d)" "k \<noteq> l" for k l a
    using disj [of k l a] disj [of l k a] that by (cases "l < k") auto
  moreover have "\<exists>r \<in> set (memory_of d). executable_mem r \<and> in_resource (dd_entry_point d) r"
    using es range
    by (fastforce simp: wt_domain_validate_entry_and_stack_def executable_mem_def in_resource_def
        list_ex_iff Let_def word_le_nat_alt word_less_nat_alt unat_add_exact
        split: prod.splits if_splits)
  ultimately show ?thesis using ok range stack_region [OF es range]
    by (blast dest: wt_memory_resource_validate_wx)
qed

lemma count_if_1_unique:
  assumes "count_if P xs = 1"
  shows "\<exists>!i. i < length xs \<and> P (xs ! i)"
proof -
  have "card {i. i < length xs \<and> P (xs ! i)} = 1"
    using assms by (simp add: count_if_def length_filter_conv_card)
  then obtain k where "{i. i < length xs \<and> P (xs ! i)} = {k}" by (auto simp: card_1_singleton_iff)
  then show ?thesis by (intro ex1I [of _ k]) blast+
qed

lemma identity_spm:
  "wt_domain_validate_identity d = WT_DOMAIN_VALID \<Longrightarrow>
     dd_domain_class d = Enum WT_DOMAIN_CLASS_SPM \<longleftrightarrow>
       dd_security_state d = Enum WT_SECURITY_STATE_SECURE \<and>
       dd_privilege_state d = Enum WT_PRIVILEGE_STATE_PRIVILEGED"
  by (auto simp: wt_domain_validate_identity_def split: if_splits)

lemma accepted_interrupt_pair:
  assumes v: "accepted ds profile caps" and ij: "i < length ds" "j < length ds" "i \<noteq> j"
    and x: "x \<in> set (interrupts_of (ds ! i))" "y \<in> set (interrupts_of (ds ! j))"
      "ir_interrupt x = ir_interrupt y"
  shows "interrupts_shared x y"
proof -
  have *: "interrupts_shared u w"
    if "k < length ds" "l < k" "u \<in> set (interrupts_of (ds ! k))" "w \<in> set (interrupts_of (ds ! l))"
      "ir_interrupt u = ir_interrupt w" for k l u w
    using accepted_pair [OF v that(1,2)] that(3-)
    by (auto simp: wt_domain_validate_pair_def split: if_splits)
  consider "j < i" | "i < j" using ij(3) by linarith
  then show ?thesis
  proof cases
    case 1
    then show ?thesis using * [OF ij(1) 1 x] by simp
  next
    case 2
    then show ?thesis using * [OF ij(2) 2 x(2,1)] x(3) by (auto simp: interrupts_shared_def)
  qed
qed


section \<open>A concrete set\<close>

definition example_domain ::
  "u32 \<Rightarrow> wt_domain_class \<Rightarrow> wt_rot_role \<Rightarrow> wt_privilege_state \<Rightarrow> u32 \<Rightarrow> u32 \<Rightarrow> u32 list \<Rightarrow>
   wt_domain_descriptor" where
  "example_domain did cls role priv text data irqs =
     \<lparr>dd_id = did, dd_domain_class = Enum cls, dd_rot_role = Enum role,
      dd_security_state = Enum WT_SECURITY_STATE_SECURE, dd_privilege_state = Enum priv,
      dd_initial_lifecycle = Enum WT_DOMAIN_LIFECYCLE_READY,
      dd_entry_point = text + 4, dd_stack_base = data, dd_stack_size = 0x400,
      dd_memory_resources = CArray
        [\<lparr>mr_base = text, mr_size = 0x1000, mr_attributes = 5, mr_share_id = 0\<rparr>,
         \<lparr>mr_base = data, mr_size = 0x1000, mr_attributes = 19, mr_share_id = 0\<rparr>],
      dd_interrupt_resources = CArray
        (map (\<lambda>n. \<lparr>ir_interrupt = n, ir_attributes = 0, ir_share_id = 0\<rparr>) irqs),
      dd_restart_policy = \<lparr>drp_action = Enum WT_RESTART_ACTION_DOMAIN, drp_restart_limit = 3,
         drp_restart_window_ticks = 1000, drp_initial_delay_ticks = 10\<rparr>,
      dd_required_capabilities = 0, dd_launch_required = 0, dd_launch_min_version = 0\<rparr>"

definition example_domains :: "wt_domain_descriptor list" where
  "example_domains =
     [example_domain 1 WT_DOMAIN_CLASS_SPM WT_ROT_ROLE_SPM WT_PRIVILEGE_STATE_PRIVILEGED
        0x0C000000 0x30000000 [],
      example_domain 2 WT_DOMAIN_CLASS_SECURE_PARTITION WT_ROT_ROLE_PROT
        WT_PRIVILEGE_STATE_UNPRIVILEGED 0x0C010000 0x30010000 [40],
      example_domain 3 WT_DOMAIN_CLASS_SECURE_PARTITION WT_ROT_ROLE_AROT
        WT_PRIVILEGE_STATE_UNPRIVILEGED 0x0C020000 0x30020000 []]"

definition example_caps :: wt_profile_capabilities where
  "example_caps = \<lparr>pc_capabilities = 127, pc_max_domains = 8,
     pc_max_memory_resources_per_domain = 8, pc_max_interrupts_per_domain = 4\<rparr>"

lemma example_domains_accepted:
  "wt_domain_validate_set (CArray example_domains) (Enum WT_ISOLATION_PROFILE_LEVEL_3)
     (Some example_caps) = WT_DOMAIN_VALID"
  by (simp add: example_domains_def example_domain_def example_caps_def upt_conv_Cons Let_def
      wt_domain_validate_set_def wt_profile_required_capabilities_def wt_domain_validate_identity_def
      lifecycle_at_most_ready_def validate_domain_at_def wt_domain_validate_restart_def
      wt_domain_validate_launch_def wt_domain_validate_resources_def wt_memory_resource_validate_def
      wt_range_end_def wt_domain_validate_entry_and_stack_def wt_memory_resources_overlap_def
      validate_interrupt_at_def wt_domain_validate_pair_def validate_memory_pair_def)


theorem wt_domain_validate_set_sound_witness:
  "\<exists>r \<in> set (memory_of (example_domains ! 1)).
     executable_mem r \<and> in_resource (dd_entry_point (example_domains ! 1)) r"
  using wt_domain_validate_set_sound [OF example_domains_accepted, of "example_domains ! 1"]
  by (simp add: example_domains_def)


end
