(* ===== verification/Manifest.thy ===== *)
theory Manifest
  imports Domain
begin

text \<open>
  The generated system manifest (\<open>include/wolftrust/manifest.h\<close>) and its validator
  (\<open>src/manifest.c\<close>): header and limits, partitions, services, interrupts, name and symbol
  uniqueness, and the dependency graph between partitions. A C string is a HOL string read
  up to its first NUL; a null pointer is \<open>None\<close>.
\<close>

section \<open>Data\<close>

abbreviation (input) WT_MANIFEST_FORMAT_VERSION :: u32 where "WT_MANIFEST_FORMAT_VERSION \<equiv> 1"
abbreviation (input) WT_MANIFEST_DIGEST_SIZE :: nat where "WT_MANIFEST_DIGEST_SIZE \<equiv> 32"
abbreviation (input) WT_MANIFEST_NAME_MAX :: nat where "WT_MANIFEST_NAME_MAX \<equiv> 63"
abbreviation (input) WT_MANIFEST_MAX_PARTITIONS :: nat where "WT_MANIFEST_MAX_PARTITIONS \<equiv> 32"
abbreviation (input) WT_MANIFEST_MAX_SERVICES :: nat where "WT_MANIFEST_MAX_SERVICES \<equiv> 28"
abbreviation (input) WT_MANIFEST_MAX_DEPENDENCIES :: nat where "WT_MANIFEST_MAX_DEPENDENCIES \<equiv> 32"
abbreviation (input) WT_MANIFEST_MAX_SIGNALS :: nat where "WT_MANIFEST_MAX_SIGNALS \<equiv> 28"
abbreviation (input) WT_MANIFEST_RESERVED_SIGNALS :: u32 where "WT_MANIFEST_RESERVED_SIGNALS \<equiv> 0xF"
abbreviation (input) WT_FFM_VERSION_1_0 :: u32 where "WT_FFM_VERSION_1_0 \<equiv> 0x0100"
abbreviation (input) WT_FFM_VERSION_1_1 :: u32 where "WT_FFM_VERSION_1_1 \<equiv> 0x0101"
abbreviation (input) WT_MANIFEST_FEATURE_IPC :: u32 where "WT_MANIFEST_FEATURE_IPC \<equiv> 1"
abbreviation (input) WT_MANIFEST_FEATURE_SFN :: u32 where "WT_MANIFEST_FEATURE_SFN \<equiv> 2"
abbreviation (input) WT_MANIFEST_FEATURE_STATELESS :: u32 where "WT_MANIFEST_FEATURE_STATELESS \<equiv> 4"
abbreviation (input) WT_MANIFEST_FEATURE_MM_IOVEC :: u32 where "WT_MANIFEST_FEATURE_MM_IOVEC \<equiv> 8"
abbreviation (input) WT_MANIFEST_FEATURE_MASK :: u32 where "WT_MANIFEST_FEATURE_MASK \<equiv> 15"

datatype wt_partition_model = WT_PARTITION_MODEL_IPC | WT_PARTITION_MODEL_SFN

datatype wt_partition_priority =
    WT_PARTITION_PRIORITY_LOW | WT_PARTITION_PRIORITY_NORMAL | WT_PARTITION_PRIORITY_HIGH

datatype wt_service_version_policy =
    WT_SERVICE_VERSION_STRICT | WT_SERVICE_VERSION_RELAXED | WT_SERVICE_VERSION_UNSPECIFIED

record wt_service_descriptor =
  sd_name :: "string option"
  sd_sid :: u32
  sd_version :: u32
  sd_version_policy :: "wt_service_version_policy cenum"
  sd_signal :: u32
  sd_stateless_handle_index :: u32
  sd_nonsecure_clients :: u8
  sd_connection_based :: u8

record wt_manifest_interrupt =
  mi_signal_name :: "string option"
  mi_interrupt :: u32
  mi_signal :: u32

record wt_partition_manifest =
  pm_name :: "string option"
  pm_domain_id :: u32
  pm_framework_version :: u32
  pm_model :: "wt_partition_model cenum"
  pm_priority :: "wt_partition_priority cenum"
  pm_services :: "wt_service_descriptor carray"
  pm_dependencies :: "u32 carray"
  pm_interrupts :: "wt_manifest_interrupt carray"

record wt_manifest_limits =
  ml_max_partitions :: nat
  ml_max_services_per_partition :: nat
  ml_max_dependencies_per_partition :: nat
  ml_max_stateless_handles :: nat

record wt_system_manifest =
  sm_format_version :: u32
  sm_generator_version :: "string option"
  sm_input_digest :: "u8 carray"
  sm_features :: u32
  sm_isolation_profile :: "wt_isolation_profile cenum"
  sm_profile_capabilities :: "wt_profile_capabilities option"
  sm_domains :: "wt_domain_descriptor carray"
  sm_partitions :: "wt_partition_manifest carray"
  sm_limits :: wt_manifest_limits

datatype wt_manifest_validation_result =
    WT_MANIFEST_VALID
  | WT_MANIFEST_ERROR_ARGUMENT
  | WT_MANIFEST_ERROR_FORMAT
  | WT_MANIFEST_ERROR_GENERATOR
  | WT_MANIFEST_ERROR_DIGEST
  | WT_MANIFEST_ERROR_FEATURE
  | WT_MANIFEST_ERROR_LIMIT
  | WT_MANIFEST_ERROR_DOMAIN
  | WT_MANIFEST_ERROR_NAME
  | WT_MANIFEST_ERROR_PARTITION_ID
  | WT_MANIFEST_ERROR_FRAMEWORK_VERSION
  | WT_MANIFEST_ERROR_MODEL
  | WT_MANIFEST_ERROR_PRIORITY
  | WT_MANIFEST_ERROR_SERVICE
  | WT_MANIFEST_ERROR_SERVICE_ID
  | WT_MANIFEST_ERROR_SERVICE_VERSION
  | WT_MANIFEST_ERROR_SIGNAL
  | WT_MANIFEST_ERROR_STATELESS_HANDLE
  | WT_MANIFEST_ERROR_DEPENDENCY
  | WT_MANIFEST_ERROR_DEPENDENCY_CYCLE
  | WT_MANIFEST_ERROR_INTERRUPT
  | WT_MANIFEST_ERROR_RESOURCE_OWNERSHIP
  | WT_MANIFEST_ERROR_SYMBOL

abbreviation "mchain \<equiv> chain WT_MANIFEST_VALID"
abbreviation "mloop \<equiv> first_err WT_MANIFEST_VALID"

abbreviation services_of :: "wt_partition_manifest \<Rightarrow> wt_service_descriptor list" where
  "services_of p \<equiv> carray_list (pm_services p)"

abbreviation irqs_of :: "wt_partition_manifest \<Rightarrow> wt_manifest_interrupt list" where
  "irqs_of p \<equiv> carray_list (pm_interrupts p)"

abbreviation deps_of :: "wt_partition_manifest \<Rightarrow> u32 list" where
  "deps_of p \<equiv> carray_list (pm_dependencies p)"

abbreviation partitions_of :: "wt_system_manifest \<Rightarrow> wt_partition_manifest list" where
  "partitions_of m \<equiv> carray_list (sm_partitions m)"

abbreviation domains_of :: "wt_system_manifest \<Rightarrow> wt_domain_descriptor list" where
  "domains_of m \<equiv> carray_list (sm_domains m)"

section \<open>Names\<close>

text \<open>Character \<open>i\<close> of a C string; the terminator follows the last character.\<close>

definition cstr_at :: "string \<Rightarrow> nat \<Rightarrow> char" where
  "cstr_at s i = (if i < length s then s ! i else CHR 0x00)"

definition char_upper :: "char \<Rightarrow> bool" where
  "char_upper c \<longleftrightarrow> 65 \<le> (of_char c :: nat) \<and> (of_char c :: nat) \<le> 90"

definition char_digit :: "char \<Rightarrow> bool" where
  "char_digit c \<longleftrightarrow> 48 \<le> (of_char c :: nat) \<and> (of_char c :: nat) \<le> 57"

text \<open>The loop over \<open>i\<close> up to \<open>WT_MANIFEST_NAME_MAX\<close>; \<open>n\<close> iterations are left.\<close>

fun name_valid_loop :: "string \<Rightarrow> nat \<Rightarrow> nat \<Rightarrow> bool" where
  "name_valid_loop name 0 i = False"
| "name_valid_loop name (Suc n) i =
     (let value = cstr_at name i in
      if value = CHR 0x00 then i \<noteq> 0
      else if i = 0 then
        (if \<not> (char_upper value \<or> value = CHR ''_'') then False
         else name_valid_loop name n (Suc i))
      else if \<not> (char_upper value \<or> char_digit value \<or> value = CHR ''_'') then False
      else name_valid_loop name n (Suc i))"

definition wt_manifest_name_valid :: "string option \<Rightarrow> bool" where
  "wt_manifest_name_valid name =
     (case name of None \<Rightarrow> False | Some s \<Rightarrow> name_valid_loop s (Suc WT_MANIFEST_NAME_MAX) 0)"

fun string_equal_loop :: "string \<Rightarrow> string \<Rightarrow> nat \<Rightarrow> nat \<Rightarrow> bool" where
  "string_equal_loop first second 0 i = False"
| "string_equal_loop first second (Suc n) i =
     (if cstr_at first i \<noteq> cstr_at second i then False
      else if cstr_at first i = CHR 0x00 then True
      else string_equal_loop first second n (Suc i))"

definition wt_manifest_string_equal :: "string \<Rightarrow> string \<Rightarrow> bool" where
  "wt_manifest_string_equal first second =
     string_equal_loop first second (Suc WT_MANIFEST_NAME_MAX) 0"

definition wt_manifest_name_length :: "string \<Rightarrow> nat" where
  "wt_manifest_name_length name = length (takeWhile (\<lambda>c. c \<noteq> CHR 0x00) name)"

definition wt_manifest_name_equals_generated :: "string \<Rightarrow> string \<Rightarrow> string \<Rightarrow> bool" where
  "wt_manifest_name_equals_generated name base suffix =
     (let base_length = wt_manifest_name_length base;
          suffix_length = wt_manifest_name_length suffix in
      if wt_manifest_name_length name \<noteq> base_length + suffix_length then False
      else list_all (\<lambda>i. cstr_at name i = cstr_at base i) [0..<base_length] \<and>
           list_all (\<lambda>i. cstr_at name (base_length + i) = cstr_at suffix i) [0..<suffix_length])"

definition wt_manifest_generated_char :: "string \<Rightarrow> nat \<Rightarrow> string \<Rightarrow> nat \<Rightarrow> char" where
  "wt_manifest_generated_char base base_length suffix index =
     (if index < base_length then cstr_at base index else cstr_at suffix (index - base_length))"

definition wt_manifest_generated_names_equal ::
  "string \<Rightarrow> string \<Rightarrow> string \<Rightarrow> string \<Rightarrow> bool" where
  "wt_manifest_generated_names_equal first_base first_suffix second_base second_suffix =
     (let l1 = wt_manifest_name_length first_base;
          l2 = wt_manifest_name_length second_base;
          total_length = l1 + wt_manifest_name_length first_suffix in
      if total_length \<noteq> l2 + wt_manifest_name_length second_suffix then False
      else list_all (\<lambda>i. wt_manifest_generated_char first_base l1 first_suffix i =
                         wt_manifest_generated_char second_base l2 second_suffix i)
             [0..<total_length])"

text \<open>Reading a name behind a pointer that was validated before.\<close>

abbreviation cstr :: "string option \<Rightarrow> string" where
  "cstr s \<equiv> (case s of None \<Rightarrow> [] | Some t \<Rightarrow> t)"

definition wt_manifest_partition_symbol_collision :: "string \<Rightarrow> wt_partition_manifest \<Rightarrow> bool" where
  "wt_manifest_partition_symbol_collision name part =
     (if pm_framework_version part \<noteq> WT_FFM_VERSION_1_1 then False
      else wt_manifest_name_equals_generated name (cstr (pm_name part)) ''_MODEL_IPC'' \<or>
           wt_manifest_name_equals_generated name (cstr (pm_name part)) ''_MODEL_SFN'')"

definition wt_manifest_service_symbol_collision ::
  "string \<Rightarrow> wt_partition_manifest \<Rightarrow> wt_service_descriptor \<Rightarrow> bool" where
  "wt_manifest_service_symbol_collision name part service =
     (let s = cstr (sd_name service) in
      if wt_manifest_name_equals_generated name s ''_SID'' \<or>
         wt_manifest_name_equals_generated name s ''_VERSION'' then True
      else if pm_model part = Enum WT_PARTITION_MODEL_IPC \<and>
              wt_manifest_name_equals_generated name s ''_SIGNAL'' then True
      else if sd_connection_based service = 0 \<and>
              wt_manifest_name_equals_generated name s ''_HANDLE'' then True
      else False)"

definition wt_manifest_service_model_symbol_collision ::
  "wt_partition_manifest \<Rightarrow> wt_partition_manifest \<Rightarrow> wt_service_descriptor \<Rightarrow> bool" where
  "wt_manifest_service_model_symbol_collision model_partition service_partition service =
     (let m = cstr (pm_name model_partition); s = cstr (sd_name service);
          eq = (\<lambda>a b. wt_manifest_generated_names_equal m a s b) in
      if pm_framework_version model_partition \<noteq> WT_FFM_VERSION_1_1 then False
      else if eq ''_MODEL_IPC'' ''_SID'' \<or> eq ''_MODEL_IPC'' ''_VERSION'' \<or>
              eq ''_MODEL_SFN'' ''_SID'' \<or> eq ''_MODEL_SFN'' ''_VERSION'' then True
      else if pm_model service_partition = Enum WT_PARTITION_MODEL_IPC \<and>
              (eq ''_MODEL_IPC'' ''_SIGNAL'' \<or> eq ''_MODEL_SFN'' ''_SIGNAL'') then True
      else if sd_connection_based service = 0 \<and>
              (eq ''_MODEL_IPC'' ''_HANDLE'' \<or> eq ''_MODEL_SFN'' ''_HANDLE'') then True
      else False)"

section \<open>Header\<close>

definition wt_manifest_signal_valid :: "u32 \<Rightarrow> bool" where
  "wt_manifest_signal_valid signal =
     (if signal = 0 \<or> signal AND WT_MANIFEST_RESERVED_SIGNALS \<noteq> 0 then False
      else signal AND (signal - 1) = 0)"

definition wt_manifest_digest_valid :: "u8 carray \<Rightarrow> bool" where
  "wt_manifest_digest_valid digest =
     (if carray_null digest \<or> carray_count digest \<noteq> WT_MANIFEST_DIGEST_SIZE then False
      else fold (\<lambda>b aggregate. aggregate OR b) (carray_list digest) 0 \<noteq> 0)"

definition wt_manifest_find_domain ::
  "wt_system_manifest \<Rightarrow> u32 \<Rightarrow> wt_domain_descriptor option" where
  "wt_manifest_find_domain manifest did = find (\<lambda>d. dd_id d = did) (domains_of manifest)"

definition validate_ffm_domain :: "wt_domain_descriptor \<Rightarrow> wt_manifest_validation_result" where
  "validate_ffm_domain d =
     (if dd_domain_class d = Enum WT_DOMAIN_CLASS_NONSECURE_APPLICATION \<and>
         carray_count (dd_interrupt_resources d) \<noteq> 0
      then WT_MANIFEST_ERROR_INTERRUPT
      else if dd_domain_class d \<noteq> Enum WT_DOMAIN_CLASS_SECURE_PARTITION then WT_MANIFEST_VALID
      else mchain
        (mloop (\<lambda>r. if mr_attributes r AND WT_MEMORY_ATTR_DEVICE \<noteq> 0 \<and>
                       mr_attributes r AND WT_MEMORY_ATTR_SHARED \<noteq> 0
                    then WT_MANIFEST_ERROR_RESOURCE_OWNERSHIP else WT_MANIFEST_VALID)
           (memory_of d))
        (mloop (\<lambda>x. if ir_attributes x AND WT_INTERRUPT_ATTR_SHARED \<noteq> 0
                    then WT_MANIFEST_ERROR_RESOURCE_OWNERSHIP else WT_MANIFEST_VALID)
           (interrupts_of d)))"

definition wt_manifest_validate_ffm_resources ::
  "wt_system_manifest \<Rightarrow> wt_manifest_validation_result" where
  "wt_manifest_validate_ffm_resources manifest = mloop validate_ffm_domain (domains_of manifest)"

definition wt_manifest_validate_header ::
  "wt_system_manifest \<Rightarrow> u32 \<Rightarrow> wt_profile_capabilities option \<Rightarrow>
   wt_manifest_validation_result" where
  "wt_manifest_validate_header manifest supported_features platform =
     (let limits = sm_limits manifest; count = carray_count (sm_partitions manifest) in
      if sm_format_version manifest \<noteq> WT_MANIFEST_FORMAT_VERSION then WT_MANIFEST_ERROR_FORMAT
      else if \<not> wt_manifest_name_valid (sm_generator_version manifest)
      then WT_MANIFEST_ERROR_GENERATOR
      else if \<not> wt_manifest_digest_valid (sm_input_digest manifest) then WT_MANIFEST_ERROR_DIGEST
      else if supported_features AND NOT WT_MANIFEST_FEATURE_MASK \<noteq> 0 \<or>
              supported_features AND WT_MANIFEST_FEATURE_IPC = 0 \<or>
              sm_features manifest AND NOT supported_features \<noteq> 0 \<or>
              sm_features manifest AND WT_MANIFEST_FEATURE_IPC = 0
      then WT_MANIFEST_ERROR_FEATURE
      else if ml_max_partitions limits = 0 \<or>
              ml_max_partitions limits > WT_MANIFEST_MAX_PARTITIONS \<or>
              ml_max_services_per_partition limits = 0 \<or>
              ml_max_services_per_partition limits > WT_MANIFEST_MAX_SERVICES \<or>
              ml_max_dependencies_per_partition limits = 0 \<or>
              ml_max_dependencies_per_partition limits > WT_MANIFEST_MAX_DEPENDENCIES \<or>
              ml_max_stateless_handles limits < 32
      then WT_MANIFEST_ERROR_LIMIT
      else if count = 0 \<or> count > ml_max_partitions limits \<or> carray_null (sm_partitions manifest)
      then WT_MANIFEST_ERROR_LIMIT
      else (case (sm_profile_capabilities manifest, platform) of
          (Some prof, Some plat) \<Rightarrow>
            (if carray_null (sm_domains manifest) then WT_MANIFEST_ERROR_ARGUMENT
             else if pc_capabilities prof AND NOT (pc_capabilities plat) \<noteq> 0 \<or>
                     pc_max_domains prof > pc_max_domains plat \<or>
                     pc_max_memory_resources_per_domain prof >
                       pc_max_memory_resources_per_domain plat \<or>
                     pc_max_interrupts_per_domain prof > pc_max_interrupts_per_domain plat
             then WT_MANIFEST_ERROR_DOMAIN
             else if wt_domain_validate_set (sm_domains manifest) (sm_isolation_profile manifest)
                       platform \<noteq> WT_DOMAIN_VALID
             then WT_MANIFEST_ERROR_DOMAIN
             else wt_manifest_validate_ffm_resources manifest)
        | _ \<Rightarrow> WT_MANIFEST_ERROR_ARGUMENT))"

section \<open>Partitions and services\<close>

definition wt_manifest_validate_partition_header ::
  "wt_system_manifest \<Rightarrow> wt_partition_manifest \<Rightarrow> wt_manifest_validation_result" where
  "wt_manifest_validate_partition_header manifest part =
     (let limits = sm_limits manifest in
      if \<not> wt_manifest_name_valid (pm_name part) then WT_MANIFEST_ERROR_NAME
      else (case wt_manifest_find_domain manifest (pm_domain_id part) of
          None \<Rightarrow> WT_MANIFEST_ERROR_PARTITION_ID
        | Some d \<Rightarrow>
           (if pm_domain_id part = 0 \<or> pm_domain_id part > 0x7FFFFFFF \<or>
               dd_domain_class d \<noteq> Enum WT_DOMAIN_CLASS_SECURE_PARTITION
            then WT_MANIFEST_ERROR_PARTITION_ID
            else if pm_framework_version part \<noteq> WT_FFM_VERSION_1_0 \<and>
                    pm_framework_version part \<noteq> WT_FFM_VERSION_1_1
            then WT_MANIFEST_ERROR_FRAMEWORK_VERSION
            else if \<not> enum_in_range (pm_model part) then WT_MANIFEST_ERROR_MODEL
            else if pm_framework_version part = WT_FFM_VERSION_1_0 \<and>
                    pm_model part \<noteq> Enum WT_PARTITION_MODEL_IPC
            then WT_MANIFEST_ERROR_MODEL
            else if pm_model part = Enum WT_PARTITION_MODEL_IPC \<and>
                      sm_features manifest AND WT_MANIFEST_FEATURE_IPC = 0 \<or>
                    pm_model part = Enum WT_PARTITION_MODEL_SFN \<and>
                      sm_features manifest AND WT_MANIFEST_FEATURE_SFN = 0
            then WT_MANIFEST_ERROR_FEATURE
            else if \<not> enum_in_range (pm_priority part) then WT_MANIFEST_ERROR_PRIORITY
            else if carray_count (pm_services part) = 0 \<and> carray_count (pm_interrupts part) = 0
            then WT_MANIFEST_ERROR_SERVICE
            else if carray_count (pm_services part) > ml_max_services_per_partition limits \<or>
                    carray_count (pm_services part) \<noteq> 0 \<and> carray_null (pm_services part)
            then WT_MANIFEST_ERROR_SERVICE
            else if carray_count (pm_dependencies part) >
                      ml_max_dependencies_per_partition limits \<or>
                    carray_count (pm_dependencies part) \<noteq> 0 \<and> carray_null (pm_dependencies part)
            then WT_MANIFEST_ERROR_DEPENDENCY
            else if carray_count (pm_interrupts part) \<noteq> carray_count (dd_interrupt_resources d) \<or>
                    carray_count (pm_interrupts part) \<noteq> 0 \<and> carray_null (pm_interrupts part)
            then WT_MANIFEST_ERROR_INTERRUPT
            else (let signal_count = carray_count (pm_interrupts part) +
                       (if pm_model part = Enum WT_PARTITION_MODEL_IPC
                        then carray_count (pm_services part) else 0) in
              if signal_count > WT_MANIFEST_MAX_SIGNALS then WT_MANIFEST_ERROR_SIGNAL
              else WT_MANIFEST_VALID))))"

definition version_policy_at_most_relaxed :: "wt_service_version_policy cenum \<Rightarrow> bool" where
  "version_policy_at_most_relaxed v \<longleftrightarrow>
     v = Enum WT_SERVICE_VERSION_STRICT \<or> v = Enum WT_SERVICE_VERSION_RELAXED"

definition wt_manifest_validate_service ::
  "wt_system_manifest \<Rightarrow> wt_partition_manifest \<Rightarrow> wt_service_descriptor \<Rightarrow>
   wt_manifest_validation_result" where
  "wt_manifest_validate_service manifest part service =
     (if \<not> wt_manifest_name_valid (sd_name service) then WT_MANIFEST_ERROR_NAME
      else if sd_sid service = 0 then WT_MANIFEST_ERROR_SERVICE_ID
      else if sd_version service = 0 \<or>
              \<not> version_policy_at_most_relaxed (sd_version_policy service)
      then WT_MANIFEST_ERROR_SERVICE_VERSION
      else if sd_nonsecure_clients service > 1 \<or> sd_connection_based service > 1
      then WT_MANIFEST_ERROR_SERVICE
      else if pm_framework_version part = WT_FFM_VERSION_1_0 \<and> sd_connection_based service = 0
      then WT_MANIFEST_ERROR_SERVICE
      else mchain
        (if sd_connection_based service \<noteq> 0 then
           (if sd_stateless_handle_index service \<noteq> 0 then WT_MANIFEST_ERROR_STATELESS_HANDLE
            else WT_MANIFEST_VALID)
         else if sm_features manifest AND WT_MANIFEST_FEATURE_STATELESS = 0
         then WT_MANIFEST_ERROR_FEATURE
         else if sd_stateless_handle_index service = 0 \<or>
                 unat (sd_stateless_handle_index service) >
                   ml_max_stateless_handles (sm_limits manifest)
         then WT_MANIFEST_ERROR_STATELESS_HANDLE
         else WT_MANIFEST_VALID)
        (if pm_model part = Enum WT_PARTITION_MODEL_IPC then
           (if \<not> wt_manifest_signal_valid (sd_signal service) then WT_MANIFEST_ERROR_SIGNAL
            else WT_MANIFEST_VALID)
         else if sd_signal service \<noteq> 0 then WT_MANIFEST_ERROR_SIGNAL
         else WT_MANIFEST_VALID))"

definition wt_manifest_signal_used :: "wt_partition_manifest \<Rightarrow> nat \<Rightarrow> nat \<Rightarrow> u32 \<Rightarrow> bool" where
  "wt_manifest_signal_used part service_limit interrupt_limit signal =
     (list_ex (\<lambda>i. sd_signal (services_of part ! i) = signal) [0..<service_limit] \<or>
      list_ex (\<lambda>i. mi_signal (irqs_of part ! i) = signal) [0..<interrupt_limit])"

definition wt_manifest_validate_interrupt ::
  "wt_domain_descriptor \<Rightarrow> wt_partition_manifest \<Rightarrow> nat \<Rightarrow> wt_manifest_validation_result" where
  "wt_manifest_validate_interrupt d part index =
     (let x = irqs_of part ! index in
      if \<not> wt_manifest_name_valid (mi_signal_name x) \<or> \<not> wt_manifest_signal_valid (mi_signal x)
      then WT_MANIFEST_ERROR_SIGNAL
      else if \<not> list_ex (\<lambda>r. ir_interrupt r = mi_interrupt x) (interrupts_of d)
      then WT_MANIFEST_ERROR_INTERRUPT
      else mchain
        (mloop (\<lambda>i. if mi_interrupt (irqs_of part ! i) = mi_interrupt x
                    then WT_MANIFEST_ERROR_INTERRUPT
                    else if wt_manifest_string_equal (cstr (mi_signal_name (irqs_of part ! i)))
                              (cstr (mi_signal_name x))
                    then WT_MANIFEST_ERROR_SIGNAL
                    else WT_MANIFEST_VALID) [0..<index])
        (if wt_manifest_signal_used part (carray_count (pm_services part)) index (mi_signal x)
         then WT_MANIFEST_ERROR_SIGNAL else WT_MANIFEST_VALID))"

definition wt_manifest_validate_partition ::
  "wt_system_manifest \<Rightarrow> wt_partition_manifest \<Rightarrow> wt_manifest_validation_result" where
  "wt_manifest_validate_partition manifest part =
     mchain (wt_manifest_validate_partition_header manifest part)
     (case wt_manifest_find_domain manifest (pm_domain_id part) of
        None \<Rightarrow> WT_MANIFEST_ERROR_PARTITION_ID
      | Some d \<Rightarrow>
         mchain
          (mloop (\<lambda>i. mchain (wt_manifest_validate_service manifest part (services_of part ! i))
             (if sd_signal (services_of part ! i) \<noteq> 0 \<and>
                 wt_manifest_signal_used part i 0 (sd_signal (services_of part ! i))
              then WT_MANIFEST_ERROR_SIGNAL else WT_MANIFEST_VALID))
             [0..<carray_count (pm_services part)])
          (mchain
            (mloop (wt_manifest_validate_interrupt d part) [0..<carray_count (pm_interrupts part)])
            (mloop (\<lambda>i. if deps_of part ! i = 0 then WT_MANIFEST_ERROR_DEPENDENCY
                        else mloop (\<lambda>j. if deps_of part ! i = deps_of part ! j
                                        then WT_MANIFEST_ERROR_DEPENDENCY else WT_MANIFEST_VALID)
                               [0..<i])
               [0..<carray_count (pm_dependencies part)])))"

text \<open>The partition that provides a service, in manifest order.\<close>

definition wt_manifest_find_service :: "wt_system_manifest \<Rightarrow> u32 \<Rightarrow> nat option" where
  "wt_manifest_find_service manifest sid =
     first_idx (\<lambda>p. list_ex (\<lambda>s. sd_sid s = sid) (services_of p)) (partitions_of manifest)"

definition wt_manifest_validate_partition_uniqueness ::
  "wt_system_manifest \<Rightarrow> wt_manifest_validation_result" where
  "wt_manifest_validate_partition_uniqueness manifest =
     (let ps = partitions_of manifest in
      mloop (\<lambda>i. mloop (\<lambda>j.
         if wt_manifest_string_equal (cstr (pm_name (ps ! i))) (cstr (pm_name (ps ! j))) \<or>
            pm_domain_id (ps ! i) = pm_domain_id (ps ! j)
         then WT_MANIFEST_ERROR_PARTITION_ID else WT_MANIFEST_VALID) [0..<i])
       [0..<length ps])"

definition wt_manifest_validate_domain_coverage ::
  "wt_system_manifest \<Rightarrow> wt_manifest_validation_result" where
  "wt_manifest_validate_domain_coverage manifest =
     mloop (\<lambda>d. if dd_domain_class d \<noteq> Enum WT_DOMAIN_CLASS_SECURE_PARTITION
                then WT_MANIFEST_VALID
                else if list_ex (\<lambda>p. pm_domain_id p = dd_id d) (partitions_of manifest)
                then WT_MANIFEST_VALID else WT_MANIFEST_ERROR_PARTITION_ID)
       (domains_of manifest)"

definition service_pair_check ::
  "wt_service_descriptor \<Rightarrow> wt_service_descriptor \<Rightarrow> wt_manifest_validation_result" where
  "service_pair_check first second =
     (if sd_sid first = sd_sid second \<or>
         wt_manifest_string_equal (cstr (sd_name first)) (cstr (sd_name second))
      then WT_MANIFEST_ERROR_SERVICE_ID
      else if sd_stateless_handle_index first \<noteq> 0 \<and>
              sd_stateless_handle_index first = sd_stateless_handle_index second
      then WT_MANIFEST_ERROR_STATELESS_HANDLE
      else WT_MANIFEST_VALID)"

definition wt_manifest_validate_service_uniqueness ::
  "wt_system_manifest \<Rightarrow> wt_manifest_validation_result" where
  "wt_manifest_validate_service_uniqueness manifest =
     (let ps = partitions_of manifest in
      mloop (\<lambda>i. mloop (\<lambda>si. mloop (\<lambda>j.
          mloop (\<lambda>sj. service_pair_check (services_of (ps ! i) ! si) (services_of (ps ! j) ! sj))
            [0..<(if j = i then si else carray_count (pm_services (ps ! j)))])
          [0..<Suc i])
        [0..<carray_count (pm_services (ps ! i))])
       [0..<length ps])"

definition wt_manifest_validate_symbol_uniqueness ::
  "wt_system_manifest \<Rightarrow> wt_manifest_validation_result" where
  "wt_manifest_validate_symbol_uniqueness manifest =
     (let ps = partitions_of manifest; clash = (\<lambda>b. if b then WT_MANIFEST_ERROR_SYMBOL
                                                     else WT_MANIFEST_VALID) in
      mloop (\<lambda>i. let part = ps ! i in
        mchain
         (mloop (\<lambda>other.
            mchain (clash (wt_manifest_partition_symbol_collision (cstr (pm_name part)) other))
            (mchain
              (mloop (\<lambda>s. clash
                 (wt_manifest_service_symbol_collision (cstr (pm_name part)) other s \<or>
                  wt_manifest_service_model_symbol_collision part other s)) (services_of other))
              (mloop (\<lambda>x. clash
                 (wt_manifest_string_equal (cstr (pm_name part)) (cstr (mi_signal_name x))))
                 (irqs_of other)))) ps)
         (mloop (\<lambda>j. let name = cstr (mi_signal_name (irqs_of part ! j)) in
            mchain
             (mloop (\<lambda>other.
                mchain (clash (wt_manifest_partition_symbol_collision name other))
                 (mloop (\<lambda>s. clash (wt_manifest_service_symbol_collision name other s))
                    (services_of other))) ps)
             (mloop (\<lambda>pp.
                mloop (\<lambda>pi. clash (wt_manifest_string_equal name
                          (cstr (mi_signal_name (irqs_of (ps ! pp) ! pi)))))
                  [0..<(if pp = i then j else carray_count (pm_interrupts (ps ! pp)))])
                [0..<Suc i]))
            [0..<carray_count (pm_interrupts part)]))
       [0..<length ps])"

section \<open>Dependencies\<close>

text \<open>
  The edge matrix is filled partition by partition; an unresolved dependency or one on the
  partition itself ends the validation.
\<close>

fun dep_edges_of ::
  "wt_system_manifest \<Rightarrow> nat \<Rightarrow> u32 list \<Rightarrow> (nat \<Rightarrow> nat \<Rightarrow> bool) \<Rightarrow> (nat \<Rightarrow> nat \<Rightarrow> bool) option" where
  "dep_edges_of manifest i [] edges = Some edges"
| "dep_edges_of manifest i (sid # sids) edges =
     (case wt_manifest_find_service manifest sid of
        None \<Rightarrow> None
      | Some target \<Rightarrow>
         (if target = i then None
          else dep_edges_of manifest i sids (edges(i := (edges i)(target := True)))))"

fun dep_edges ::
  "wt_system_manifest \<Rightarrow> nat list \<Rightarrow> (nat \<Rightarrow> nat \<Rightarrow> bool) \<Rightarrow> (nat \<Rightarrow> nat \<Rightarrow> bool) option" where
  "dep_edges manifest [] edges = Some edges"
| "dep_edges manifest (i # is) edges =
     (case dep_edges_of manifest i (deps_of (partitions_of manifest ! i)) edges of
        None \<Rightarrow> None
      | Some edges' \<Rightarrow> dep_edges manifest is edges')"

record removal_state =
  rs_edges :: "nat \<Rightarrow> nat \<Rightarrow> bool"
  rs_removed :: "nat \<Rightarrow> bool"
  rs_removed_count :: nat
  rs_progress :: bool

text \<open>One iteration of the \<open>for\<close> loop inside the \<open>do\<close> loop.\<close>

definition removal_visit :: "nat \<Rightarrow> nat \<Rightarrow> removal_state \<Rightarrow> removal_state" where
  "removal_visit n i s =
     (if rs_removed s i then s
      else if list_ex (\<lambda>j. \<not> rs_removed s j \<and> rs_edges s i j) [0..<n] then s
      else s\<lparr>rs_removed := (rs_removed s)(i := True),
             rs_removed_count := rs_removed_count s + 1,
             rs_progress := True,
             rs_edges := (\<lambda>k j. if j = i \<and> k < n then False else rs_edges s k j)\<rparr>)"

definition removal_pass :: "nat \<Rightarrow> removal_state \<Rightarrow> removal_state" where
  "removal_pass n s = fold (removal_visit n) [0..<n] (s\<lparr>rs_progress := False\<rparr>)"

text \<open>A pass that made progress removed a partition that was still there.\<close>

lemma removal_visit_mono: "rs_removed s k \<Longrightarrow> rs_removed (removal_visit n i s) k"
  by (simp add: removal_visit_def)

lemma removal_fold_mono: "rs_removed s k \<Longrightarrow> rs_removed (fold (removal_visit n) is s) k"
  by (induction "is" arbitrary: s) (simp_all add: removal_visit_mono)

lemma removal_fold_progress:
  assumes "rs_progress (fold (removal_visit n) is s)" "\<not> rs_progress s"
  shows "\<exists>k \<in> set is. \<not> rs_removed s k \<and> rs_removed (fold (removal_visit n) is s) k"
  using assms
proof (induction "is" arbitrary: s)
  case Nil
  then show ?case by simp
next
  case (Cons i "is")
  show ?case
  proof (cases "removal_visit n i s = s")
    case True
    then show ?thesis using Cons by auto
  next
    case False
    then have "\<not> rs_removed s i" "rs_removed (removal_visit n i s) i"
      by (auto simp: removal_visit_def split: if_splits)
    then show ?thesis using removal_fold_mono by auto
  qed
qed

definition remaining :: "nat \<Rightarrow> removal_state \<Rightarrow> nat" where
  "remaining n s = card {i. i < n \<and> \<not> rs_removed s i}"

lemma removal_pass_decreases:
  assumes "rs_progress (removal_pass n s)"
  shows "remaining n (removal_pass n s) < remaining n s"
proof -
  let ?s = "s\<lparr>rs_progress := False\<rparr>"
  obtain k where k: "k < n" "\<not> rs_removed s k" "rs_removed (removal_pass n s) k"
    using removal_fold_progress [of n "[0..<n]" ?s] assms by (auto simp: removal_pass_def)
  have "{i. i < n \<and> \<not> rs_removed (removal_pass n s) i} \<subset> {i. i < n \<and> \<not> rs_removed s i}"
    using k removal_fold_mono [of ?s _ n "[0..<n]"] by (auto simp: removal_pass_def)
  then show ?thesis unfolding remaining_def by (intro psubset_card_mono) auto
qed

text \<open>The \<open>do ... while (progress != 0)\<close> loop.\<close>

function removal_loop :: "nat \<Rightarrow> removal_state \<Rightarrow> removal_state" where
  "removal_loop n s =
     (let s' = removal_pass n s in if rs_progress s' then removal_loop n s' else s')"
  by pat_completeness auto
termination
  by (relation "measure (\<lambda>(n, s). remaining n s)") (auto simp: removal_pass_decreases)

declare removal_loop.simps [simp del]

definition wt_manifest_validate_dependencies ::
  "wt_system_manifest \<Rightarrow> wt_manifest_validation_result" where
  "wt_manifest_validate_dependencies manifest =
     (let n = length (partitions_of manifest) in
      case dep_edges manifest [0..<n] (\<lambda>_ _. False) of
        None \<Rightarrow> WT_MANIFEST_ERROR_DEPENDENCY
      | Some edges \<Rightarrow>
         (if rs_removed_count (removal_loop n \<lparr>rs_edges = edges, rs_removed = (\<lambda>_. False),
                                  rs_removed_count = 0, rs_progress = False\<rparr>) \<noteq> n
          then WT_MANIFEST_ERROR_DEPENDENCY_CYCLE else WT_MANIFEST_VALID))"

definition wt_manifest_validate ::
  "wt_system_manifest option \<Rightarrow> u32 \<Rightarrow> wt_profile_capabilities option \<Rightarrow>
   wt_manifest_validation_result" where
  "wt_manifest_validate manifest supported_features platform =
     (case manifest of
        None \<Rightarrow> WT_MANIFEST_ERROR_ARGUMENT
      | Some m \<Rightarrow>
         mchain (wt_manifest_validate_header m supported_features platform)
         (mchain (mloop (wt_manifest_validate_partition_header m) (partitions_of m))
         (mchain (wt_manifest_validate_partition_uniqueness m)
         (mchain (wt_manifest_validate_domain_coverage m)
         (mchain (mloop (wt_manifest_validate_partition m) (partitions_of m))
         (mchain (wt_manifest_validate_service_uniqueness m)
         (mchain (wt_manifest_validate_symbol_uniqueness m)
           (wt_manifest_validate_dependencies m))))))))"

section \<open>The dependency check decides acyclicity\<close>

text \<open>Partition \<open>i\<close> depends on partition \<open>j\<close>.\<close>

definition depends :: "wt_system_manifest \<Rightarrow> (nat \<times> nat) set" where
  "depends m = {(i, j). i < length (partitions_of m) \<and>
     (\<exists>sid \<in> set (deps_of (partitions_of m ! i)). wt_manifest_find_service m sid = Some j)}"

definition deps_resolved :: "wt_system_manifest \<Rightarrow> bool" where
  "deps_resolved m \<longleftrightarrow> (\<forall>i < length (partitions_of m). \<forall>sid \<in> set (deps_of (partitions_of m ! i)).
     \<exists>j. wt_manifest_find_service m sid = Some j \<and> j \<noteq> i)"

definition resolves :: "wt_system_manifest \<Rightarrow> nat \<Rightarrow> u32 list \<Rightarrow> bool" where
  "resolves m i sids \<longleftrightarrow> (\<forall>sid \<in> set sids. \<exists>j. wt_manifest_find_service m sid = Some j \<and> j \<noteq> i)"

definition targets :: "wt_system_manifest \<Rightarrow> u32 list \<Rightarrow> nat \<Rightarrow> bool" where
  "targets m sids j \<longleftrightarrow> (\<exists>sid \<in> set sids. wt_manifest_find_service m sid = Some j)"

lemma dep_edges_of_eq:
  "dep_edges_of m i sids e =
     (if resolves m i sids then Some (\<lambda>k j. e k j \<or> k = i \<and> targets m sids j) else None)"
proof (induction sids arbitrary: e)
  case Nil
  then show ?case by (simp add: resolves_def targets_def)
next
  case (Cons sid sids)
  show ?case
  proof (cases "\<exists>j. wt_manifest_find_service m sid = Some j \<and> j \<noteq> i")
    case True
    then obtain j where j: "wt_manifest_find_service m sid = Some j" "j \<noteq> i" by blast
    have "(\<lambda>k l. (e(i := (e i)(j := True))) k l \<or> k = i \<and> targets m sids l) =
        (\<lambda>k l. e k l \<or> k = i \<and> targets m (sid # sids) l)"
      by (intro ext) (auto simp: targets_def j)
    moreover have "resolves m i (sid # sids) = resolves m i sids"
      using j by (simp add: resolves_def)
    moreover have "dep_edges_of m i (sid # sids) e = dep_edges_of m i sids (e(i := (e i)(j := True)))"
      using j by simp
    ultimately show ?thesis by (simp only: Cons.IH)
  next
    case False
    then show ?thesis
      by (auto simp: resolves_def split: option.splits)
  qed
qed

lemma dep_edges_eq:
  "dep_edges m is e =
     (if \<forall>i \<in> set is. resolves m i (deps_of (partitions_of m ! i))
      then Some (\<lambda>k j. e k j \<or> k \<in> set is \<and> targets m (deps_of (partitions_of m ! k)) j)
      else None)"
proof (induction "is" arbitrary: e)
  case Nil
  then show ?case by simp
next
  case (Cons i "is")
  show ?case
  proof (cases "resolves m i (deps_of (partitions_of m ! i))")
    case True
    have "(\<lambda>k j. (e k j \<or> k = i \<and> targets m (deps_of (partitions_of m ! i)) j) \<or>
            k \<in> set is \<and> targets m (deps_of (partitions_of m ! k)) j) =
        (\<lambda>k j. e k j \<or> k \<in> set (i # is) \<and> targets m (deps_of (partitions_of m ! k)) j)"
      by (intro ext) auto
    with True show ?thesis
      by (simp only: dep_edges.simps dep_edges_of_eq if_True option.case Cons.IH) simp
  next
    case False
    then show ?thesis by (simp add: dep_edges_of_eq)
  qed
qed

lemma dep_edges_start:
  "dep_edges m [0..<length (partitions_of m)] (\<lambda>_ _. False) =
     (if deps_resolved m then Some (\<lambda>i j. (i, j) \<in> depends m) else None)"
proof -
  have "(\<forall>i \<in> set [0..<length (partitions_of m)]. resolves m i (deps_of (partitions_of m ! i))) =
      deps_resolved m"
    by (auto simp: resolves_def deps_resolved_def)
  moreover have "(\<lambda>k j. False \<or> k \<in> set [0..<length (partitions_of m)] \<and>
      targets m (deps_of (partitions_of m ! k)) j) = (\<lambda>i j. (i, j) \<in> depends m)"
    by (intro ext) (auto simp: targets_def depends_def)
  ultimately show ?thesis by (simp only: dep_edges_eq)
qed

lemma depends_bounded: "(i, j) \<in> depends m \<Longrightarrow> i < length (partitions_of m) \<and> j < length (partitions_of m)"
  by (auto simp: depends_def wt_manifest_find_service_def dest: first_idx_Some)

text \<open>
  The invariant of the removal loop: the matrix holds the edges to partitions that remain,
  the counter counts the removed ones, and no infinite dependency chain starts at one.
\<close>

definition no_chain :: "(nat \<times> nat) set \<Rightarrow> nat \<Rightarrow> bool" where
  "no_chain G i \<longleftrightarrow> i \<in> Wellfounded.acc (G\<inverse>)"

lemma no_chainI: "(\<And>j. (i, j) \<in> G \<Longrightarrow> no_chain G j) \<Longrightarrow> no_chain G i"
  unfolding no_chain_def by (rule acc.accI) simp

lemma no_chain_acyclic: "(\<And>i. no_chain G i) \<Longrightarrow> acyclic G"
  using acc_wfI [of "G\<inverse>"] wf_acyclic [of "G\<inverse>"] by (simp only: no_chain_def acyclic_converse) blast

definition removal_inv :: "nat \<Rightarrow> (nat \<times> nat) set \<Rightarrow> removal_state \<Rightarrow> bool" where
  "removal_inv n G s \<longleftrightarrow>
     (\<forall>i j. i < n \<longrightarrow> rs_edges s i j \<longleftrightarrow> (i, j) \<in> G \<and> \<not> rs_removed s j) \<and>
     (\<forall>i. rs_removed s i \<longrightarrow> i < n \<and> no_chain G i) \<and>
     rs_removed_count s = card {i. rs_removed s i}"

lemma removal_visit_inv:
  assumes inv: "removal_inv n G s" and i: "i < n" and G: "G \<subseteq> {..<n} \<times> {..<n}"
  shows "removal_inv n G (removal_visit n i s)"
proof (cases "rs_removed s i \<or> list_ex (\<lambda>j. \<not> rs_removed s j \<and> rs_edges s i j) [0..<n]")
  case True
  then have "removal_visit n i s = s"
    unfolding removal_visit_def by (cases "rs_removed s i") (simp_all only: simp_thms if_True if_False)
  then show ?thesis using inv by simp
next
  case False
  then have nr: "\<not> rs_removed s i" and ne: "\<And>j. j < n \<Longrightarrow> rs_removed s j \<or> \<not> rs_edges s i j"
    by (simp_all add: list_ex_iff)
  from False have v: "removal_visit n i s = s\<lparr>rs_removed := (rs_removed s)(i := True),
             rs_removed_count := rs_removed_count s + 1, rs_progress := True,
             rs_edges := (\<lambda>k j. if j = i \<and> k < n then False else rs_edges s k j)\<rparr>"
    unfolding removal_visit_def by (simp only: de_Morgan_disj if_False)
  have e: "\<And>k j. k < n \<Longrightarrow> rs_edges s k j \<longleftrightarrow> (k, j) \<in> G \<and> \<not> rs_removed s j"
    and r: "\<And>k. rs_removed s k \<Longrightarrow> k < n" and c: "\<And>k. rs_removed s k \<Longrightarrow> no_chain G k"
    and count: "rs_removed_count s = card {k. rs_removed s k}"
    using inv unfolding removal_inv_def by blast+
  have succ: "rs_removed s j" if "(i, j) \<in> G" for j
    using ne [of j] that G e [OF i, of j] by blast
  have "no_chain G i" by (rule no_chainI) (rule c, rule succ)
  then have c': "no_chain G k" if "((rs_removed s)(i := True)) k" for k
    using that c by (cases "k = i") simp_all
  have r': "k < n" if "((rs_removed s)(i := True)) k" for k
    using that r i by (cases "k = i") simp_all
  have "finite {k. rs_removed s k}"
    by (rule finite_subset [of _ "{..<n}"]) (use r in auto)
  moreover have "{k. ((rs_removed s)(i := True)) k} = insert i {k. rs_removed s k}" by auto
  ultimately have cc: "card {k. ((rs_removed s)(i := True)) k} = Suc (card {k. rs_removed s k})"
    using nr by simp
  show ?thesis
    unfolding removal_inv_def v
  proof (intro conjI allI impI, goal_cases)
    case (1 k j)
    then show ?case using e [of k j] by simp
  next
    case (2 k)
    then show ?case using r' [of k] by simp
  next
    case (3 k)
    then show ?case using c' [of k] by simp
  next
    case 4
    then show ?case using count cc by (simp del: fun_upd_apply)
  qed
qed

lemma removal_fold_inv:
  "removal_inv n G s \<Longrightarrow> set is \<subseteq> {..<n} \<Longrightarrow> G \<subseteq> {..<n} \<times> {..<n} \<Longrightarrow>
     removal_inv n G (fold (removal_visit n) is s)"
  by (induction "is" arbitrary: s) (simp_all add: removal_visit_inv)

lemma removal_pass_inv:
  assumes "removal_inv n G s" "G \<subseteq> {..<n} \<times> {..<n}"
  shows "removal_inv n G (removal_pass n s)"
  unfolding removal_pass_def
  by (rule removal_fold_inv) (use assms in \<open>auto simp: removal_inv_def\<close>)

lemma removal_visit_progress: "rs_progress s \<Longrightarrow> rs_progress (removal_visit n i s)"
  by (simp add: removal_visit_def)

lemma removal_fold_progress_mono: "rs_progress s \<Longrightarrow> rs_progress (fold (removal_visit n) is s)"
  by (induction "is" arbitrary: s) (simp_all add: removal_visit_progress)

text \<open>A pass without progress found every remaining partition blocked by a remaining one.\<close>

lemma removal_fold_stuck:
  assumes "\<not> rs_progress (fold (removal_visit n) is s)"
  shows "fold (removal_visit n) is s = s \<and>
    (\<forall>i \<in> set is. rs_removed s i \<or> (\<exists>j<n. \<not> rs_removed s j \<and> rs_edges s i j))"
  using assms
proof (induction "is" arbitrary: s)
  case Nil
  then show ?case by simp
next
  case (Cons i "is")
  then have "\<not> rs_progress (removal_visit n i s)"
    using removal_fold_progress_mono by fastforce
  then have "removal_visit n i s = s"
    and "rs_removed s i \<or> (\<exists>j<n. \<not> rs_removed s j \<and> rs_edges s i j)"
    by (auto simp: removal_visit_def list_ex_iff split: if_splits)
  then show ?case using Cons by auto
qed

lemma removal_loop_final:
  assumes "removal_inv n G s" "G \<subseteq> {..<n} \<times> {..<n}"
  shows "removal_inv n G (removal_loop n s) \<and>
    (\<forall>i<n. rs_removed (removal_loop n s) i \<or>
       (\<exists>j. (i, j) \<in> G \<and> \<not> rs_removed (removal_loop n s) j))"
  using assms
proof (induction n s rule: removal_loop.induct)
  case (1 n s)
  let ?t = "removal_pass n s"
  have inv: "removal_inv n G ?t" using 1(2,3) by (rule removal_pass_inv)
  show ?case
  proof (cases "rs_progress ?t")
    case True
    then have "removal_loop n s = removal_loop n ?t" by (subst removal_loop.simps) (simp add: Let_def)
    then show ?thesis using 1(1) [OF refl True inv 1(3)] by simp
  next
    case False
    then have loop: "removal_loop n s = ?t" by (subst removal_loop.simps) (simp add: Let_def)
    have t: "?t = s\<lparr>rs_progress := False\<rparr>" and
      st: "\<forall>i<n. rs_removed s i \<or> (\<exists>j<n. \<not> rs_removed s j \<and> rs_edges s i j)"
      using removal_fold_stuck [of n "[0..<n]" "s\<lparr>rs_progress := False\<rparr>"] False
      by (auto simp: removal_pass_def)
    have "rs_removed ?t = rs_removed s" by (simp add: t)
    moreover have "\<forall>i<n. rs_removed s i \<or> (\<exists>j. (i, j) \<in> G \<and> \<not> rs_removed s j)"
      using st 1(2) unfolding removal_inv_def by blast
    ultimately show ?thesis using inv by (simp only: loop)
  qed
qed

lemma removal_count_iff_acyclic:
  assumes G: "G \<subseteq> {..<n} \<times> {..<n}"
  shows "rs_removed_count (removal_loop n \<lparr>rs_edges = (\<lambda>i j. (i, j) \<in> G),
           rs_removed = (\<lambda>_. False), rs_removed_count = 0, rs_progress = False\<rparr>) = n \<longleftrightarrow> acyclic G"
proof -
  define f where "f = removal_loop n \<lparr>rs_edges = (\<lambda>i j. (i, j) \<in> G),
           rs_removed = (\<lambda>_. False), rs_removed_count = 0, rs_progress = False\<rparr>"
  have start: "removal_inv n G \<lparr>rs_edges = (\<lambda>i j. (i, j) \<in> G), rs_removed = (\<lambda>_. False),
      rs_removed_count = 0, rs_progress = False\<rparr>"
    by (simp add: removal_inv_def)
  have inv: "removal_inv n G f"
    and stuck: "\<And>i. i < n \<Longrightarrow> rs_removed f i \<or> (\<exists>j. (i, j) \<in> G \<and> \<not> rs_removed f j)"
    using removal_loop_final [OF start G] unfolding f_def by blast+
  have finG: "finite G" using G by (rule finite_subset) simp
  have sub: "{i. rs_removed f i} \<subseteq> {..<n}" using inv by (auto simp: removal_inv_def)
  have "card {i. rs_removed f i} = n \<longleftrightarrow> {i. rs_removed f i} = {..<n}"
    using card_subset_eq [OF finite_lessThan sub] by (metis card_lessThan)
  moreover have "rs_removed_count f = card {i. rs_removed f i}"
    using inv by (simp only: removal_inv_def)
  moreover have "{i. rs_removed f i} = {..<n} \<longleftrightarrow> (\<forall>i<n. rs_removed f i)"
    using sub by (auto simp: set_eq_iff subset_iff)
  ultimately have all: "rs_removed_count f = n \<longleftrightarrow> (\<forall>i<n. rs_removed f i)"
    by (simp only:)
  have "rs_removed_count f = n \<longleftrightarrow> acyclic G"
  proof
    assume "rs_removed_count f = n"
    then have "no_chain G i" if "i < n" for i
      using all inv that unfolding removal_inv_def by blast
    moreover have "no_chain G i" if "\<not> i < n" for i
      by (rule no_chainI) (use G that in auto)
    ultimately have "no_chain G i" for i by blast
    then show "acyclic G" by (rule no_chain_acyclic)
  next
    assume "acyclic G"
    then have "wf (G\<inverse>)" using finG by (simp only: finite_converse acyclic_converse wf_iff_acyclic_if_finite)
    have "rs_removed f i" if "i < n" for i
      using \<open>wf (G\<inverse>)\<close> that
    proof (induction i rule: wf_induct_rule)
      case (less i)
      then show ?case using stuck [OF less.prems] G by blast
    qed
    then show "rs_removed_count f = n" using all by blast
  qed
  then show ?thesis by (simp only: f_def)
qed

text \<open>
  C9: The dependency validation terminates and accepts a manifest exactly when every declared
  dependency resolves to a service of another partition and the dependency graph between
  partitions has no cycle; it reports a cycle exactly when the dependencies resolve but the
  graph is cyclic.
\<close>

theorem wt_manifest_validate_dependencies_correct:
  "wt_manifest_validate_dependencies m =
     (if \<not> deps_resolved m then WT_MANIFEST_ERROR_DEPENDENCY
      else if \<not> acyclic (depends m) then WT_MANIFEST_ERROR_DEPENDENCY_CYCLE
      else WT_MANIFEST_VALID)"
proof (cases "deps_resolved m")
  case False
  then show ?thesis by (simp add: wt_manifest_validate_dependencies_def Let_def dep_edges_start)
next
  case True
  have "depends m \<subseteq> {..<length (partitions_of m)} \<times> {..<length (partitions_of m)}"
    using depends_bounded by auto
  then show ?thesis
    using True removal_count_iff_acyclic
    by (simp add: wt_manifest_validate_dependencies_def Let_def dep_edges_start)
qed

end
