(* ===== verification/Manifest_Safety.thy ===== *)
theory Manifest_Safety
  imports Manifest
begin

text \<open>
  What an accepted manifest guarantees to the runtime that is built on it: separate signals
  inside each partition, unique partition and service identities, resolved dependencies, and
  generated symbols that cannot clash.
\<close>

section \<open>Reading off the validator\<close>

lemma validate_parts:
  assumes "wt_manifest_validate (Some m) features platform = WT_MANIFEST_VALID"
  shows "wt_manifest_validate_header m features platform = WT_MANIFEST_VALID"
    and "p \<in> set (partitions_of m) \<Longrightarrow> wt_manifest_validate_partition m p = WT_MANIFEST_VALID"
    and "wt_manifest_validate_partition_uniqueness m = WT_MANIFEST_VALID"
    and "wt_manifest_validate_domain_coverage m = WT_MANIFEST_VALID"
    and "wt_manifest_validate_service_uniqueness m = WT_MANIFEST_VALID"
    and "wt_manifest_validate_dependencies m = WT_MANIFEST_VALID"
  using assms by (auto simp: wt_manifest_validate_def)

lemma validate_partition_parts:
  assumes "wt_manifest_validate_partition m p = WT_MANIFEST_VALID"
  shows "\<exists>d. wt_manifest_find_domain m (pm_domain_id p) = Some d \<and>
      (\<forall>i < carray_count (pm_services p).
           wt_manifest_validate_service m p (services_of p ! i) = WT_MANIFEST_VALID \<and>
           (sd_signal (services_of p ! i) = 0 \<or>
            \<not> wt_manifest_signal_used p i 0 (sd_signal (services_of p ! i)))) \<and>
      (\<forall>i < carray_count (pm_interrupts p).
           wt_manifest_validate_interrupt d p i = WT_MANIFEST_VALID)"
  using assms
  by (fastforce simp: wt_manifest_validate_partition_def split: option.splits if_splits)

lemma validate_partition_header_valid:
  "wt_manifest_validate_partition m p = WT_MANIFEST_VALID \<Longrightarrow>
   wt_manifest_validate_partition_header m p = WT_MANIFEST_VALID"
  by (simp add: wt_manifest_validate_partition_def)

lemma partition_header_arrays:
  assumes "wt_manifest_validate_partition_header m p = WT_MANIFEST_VALID"
  shows "carray_count (pm_services p) = length (services_of p)"
    and "carray_count (pm_interrupts p) = length (irqs_of p)"
  using assms
  by (cases "pm_services p"; cases "pm_interrupts p";
      simp add: wt_manifest_validate_partition_header_def Let_def
        split: option.splits if_splits)+

lemma signal_valid_iff:
  "wt_manifest_signal_valid s \<longleftrightarrow> single_bit s \<and> s AND WT_MANIFEST_RESERVED_SIGNALS = 0"
  by (auto simp: wt_manifest_signal_valid_def single_bit_def)

text \<open>
  The signals of a partition: the ones of its services followed by the ones of its
  interrupts.
\<close>

definition partition_signals :: "wt_partition_manifest \<Rightarrow> u32 list" where
  "partition_signals p = map sd_signal (services_of p) @ map mi_signal (irqs_of p)"

definition signals_separate :: "wt_partition_manifest \<Rightarrow> bool" where
  "signals_separate p \<longleftrightarrow> distinct (partition_signals p) \<and>
     (\<forall>s \<in> set (partition_signals p). single_bit s \<and> s AND WT_MANIFEST_RESERVED_SIGNALS = 0)"

lemma service_valid_signal:
  assumes "wt_manifest_validate_service m p s = WT_MANIFEST_VALID"
    and "pm_model p = Enum WT_PARTITION_MODEL_IPC"
  shows "wt_manifest_signal_valid (sd_signal s)"
  using assms by (simp add: wt_manifest_validate_service_def split: if_splits)

lemma interrupt_valid_signal:
  assumes "wt_manifest_validate_interrupt d p i = WT_MANIFEST_VALID"
  shows "wt_manifest_signal_valid (mi_signal (irqs_of p ! i))"
    and "\<not> wt_manifest_signal_used p (carray_count (pm_services p)) i (mi_signal (irqs_of p ! i))"
  using assms by (simp_all add: wt_manifest_validate_interrupt_def Let_def split: if_splits)

lemma distinct_prior: "(\<And>i j. i < length xs \<Longrightarrow> j < i \<Longrightarrow> xs ! i \<noteq> xs ! j) \<Longrightarrow> distinct xs"
  by (auto simp: distinct_conv_nth) (metis linorder_neqE_nat)

lemma validate_partition_signals:
  assumes v: "wt_manifest_validate_partition m p = WT_MANIFEST_VALID"
    and ipc: "pm_model p = Enum WT_PARTITION_MODEL_IPC"
  shows "signals_separate p"
proof -
  obtain d where sv: "\<forall>i < carray_count (pm_services p).
           wt_manifest_validate_service m p (services_of p ! i) = WT_MANIFEST_VALID \<and>
           (sd_signal (services_of p ! i) = 0 \<or>
            \<not> wt_manifest_signal_used p i 0 (sd_signal (services_of p ! i)))"
    and iv: "\<forall>i < carray_count (pm_interrupts p).
           wt_manifest_validate_interrupt d p i = WT_MANIFEST_VALID"
    using validate_partition_parts [OF v] by blast
  note len = partition_header_arrays [OF validate_partition_header_valid [OF v]]
  have s_ok: "wt_manifest_signal_valid (sd_signal s)" if mem: "s \<in> set (services_of p)" for s
  proof -
    obtain i where "i < carray_count (pm_services p)" "s = services_of p ! i"
      using mem unfolding in_set_conv_nth len(1) by blast
    then show ?thesis using sv service_valid_signal [OF _ ipc] by blast
  qed
  have i_ok: "wt_manifest_signal_valid (mi_signal x)" if mem: "x \<in> set (irqs_of p)" for x
  proof -
    obtain i where "i < carray_count (pm_interrupts p)" "x = irqs_of p ! i"
      using mem unfolding in_set_conv_nth len(2) by blast
    then show ?thesis using iv interrupt_valid_signal(1) by blast
  qed
  have ss: "sd_signal (services_of p ! i) \<noteq> sd_signal (services_of p ! j)"
    if "i < length (services_of p)" "j < i" for i j
  proof -
    have "sd_signal (services_of p ! i) \<noteq> 0"
      using s_ok [of "services_of p ! i"] that(1) by (auto simp: wt_manifest_signal_valid_def)
    then have "\<not> wt_manifest_signal_used p i 0 (sd_signal (services_of p ! i))"
      using sv that(1) len(1) by auto
    then show ?thesis using that(2) by (auto simp: wt_manifest_signal_used_def list_ex_iff)
  qed
  have is': "mi_signal (irqs_of p ! i) \<noteq> sd_signal s"
    if "i < length (irqs_of p)" "s \<in> set (services_of p)" for i s
    using interrupt_valid_signal(2) [of d p i] iv that len
    by (auto simp: wt_manifest_signal_used_def list_ex_iff in_set_conv_nth)
  have ii: "mi_signal (irqs_of p ! i) \<noteq> mi_signal (irqs_of p ! j)"
    if "i < length (irqs_of p)" "j < i" for i j
    using interrupt_valid_signal(2) [of d p i] iv that len
    by (auto simp: wt_manifest_signal_used_def list_ex_iff)
  have "distinct (map sd_signal (services_of p))" by (rule distinct_prior) (simp add: ss)
  moreover have "distinct (map mi_signal (irqs_of p))" by (rule distinct_prior) (simp add: ii)
  moreover have "sd_signal s \<noteq> mi_signal x" if "s \<in> set (services_of p)" "x \<in> set (irqs_of p)" for s x
    using that is' unfolding in_set_conv_nth [of x] by metis
  ultimately have "distinct (partition_signals p)" by (auto simp: partition_signals_def)
  then show ?thesis
    using s_ok i_ok by (auto simp: signals_separate_def signal_valid_iff partition_signals_def)
qed

text \<open>
  C10: In an accepted manifest every IPC-model partition has separate signals: each service
  and each interrupt owns exactly one bit, no two of them share a bit, and none touches the
  four reserved bits, the doorbell among them.
\<close>

theorem wt_manifest_validate_signals:
  assumes "wt_manifest_validate (Some m) features platform = WT_MANIFEST_VALID"
    and "p \<in> set (partitions_of m)" "pm_model p = Enum WT_PARTITION_MODEL_IPC"
  shows "signals_separate p"
  using validate_partition_signals [OF validate_parts(2) [OF assms(1,2)] assms(3)] .

section \<open>Identities\<close>

lemma service_pair_check_valid:
  "service_pair_check a b = WT_MANIFEST_VALID \<Longrightarrow> sd_sid a \<noteq> sd_sid b"
  by (simp add: service_pair_check_def split: if_splits)

lemma service_uniqueness_valid:
  assumes "wt_manifest_validate_service_uniqueness m = WT_MANIFEST_VALID"
    and "i < length (partitions_of m)" "j \<le> i"
    and "si < carray_count (pm_services (partitions_of m ! i))"
    and "sj < (if j = i then si else carray_count (pm_services (partitions_of m ! j)))"
  shows "sd_sid (services_of (partitions_of m ! i) ! si) \<noteq>
         sd_sid (services_of (partitions_of m ! j) ! sj)"
proof (rule service_pair_check_valid)
  let ?ps = "partitions_of m"
  have "\<forall>i < length ?ps. \<forall>si < carray_count (pm_services (?ps ! i)). \<forall>j \<le> i.
      \<forall>sj < (if j = i then si else carray_count (pm_services (?ps ! j))).
        service_pair_check (services_of (?ps ! i) ! si) (services_of (?ps ! j) ! sj) = WT_MANIFEST_VALID"
    using assms(1) unfolding wt_manifest_validate_service_uniqueness_def Let_def first_err_ok
      set_upt Ball_def atLeastLessThan_iff less_Suc_eq_le by blast
  then show "service_pair_check (services_of (?ps ! i) ! si) (services_of (?ps ! j) ! sj) =
      WT_MANIFEST_VALID"
    using assms(2-5) by blast
qed

lemma partition_uniqueness_distinct:
  assumes "wt_manifest_validate_partition_uniqueness m = WT_MANIFEST_VALID"
  shows "distinct (map pm_domain_id (partitions_of m))"
  using assms
  by (intro distinct_prior)
    (fastforce simp: wt_manifest_validate_partition_uniqueness_def Let_def split: if_splits)

lemma partition_header_identity:
  assumes "wt_manifest_validate_partition_header m p = WT_MANIFEST_VALID"
  shows "pm_domain_id p \<noteq> 0 \<and> pm_domain_id p \<le> 0x7FFFFFFF \<and>
    (\<exists>d. wt_manifest_find_domain m (pm_domain_id p) = Some d \<and>
         dd_domain_class d = Enum WT_DOMAIN_CLASS_SECURE_PARTITION)"
  using assms
  by (simp add: wt_manifest_validate_partition_header_def Let_def split: option.splits if_splits)

text \<open>All services of a manifest, partition by partition.\<close>

definition all_services :: "wt_system_manifest \<Rightarrow> wt_service_descriptor list" where
  "all_services m = concat (map services_of (partitions_of m))"

lemma distinct_map_concat:
  assumes "\<And>i. i < length xss \<Longrightarrow> distinct (map f (xss ! i))"
    and "\<And>i j. i < length xss \<Longrightarrow> j < i \<Longrightarrow> f ` set (xss ! i) \<inter> f ` set (xss ! j) = {}"
  shows "distinct (map f (concat xss))"
  using assms
proof (induction xss rule: rev_induct)
  case Nil
  then show ?case by simp
next
  case (snoc xs xss)
  have "distinct (map f (concat xss))"
  proof (rule snoc.IH)
    fix i assume "i < length xss"
    then show "distinct (map f (xss ! i))" using snoc.prems(1) [of i] by (simp add: nth_append)
  next
    fix i j assume "i < length xss" "j < i"
    then show "f ` set (xss ! i) \<inter> f ` set (xss ! j) = {}"
      using snoc.prems(2) [of i j] by (simp add: nth_append)
  qed
  moreover have "f ` set xs \<inter> f ` set ys = {}" if mem: "ys \<in> set xss" for ys
  proof -
    obtain j where "j < length xss" "ys = xss ! j" using mem by (metis in_set_conv_nth)
    then show ?thesis using snoc.prems(2) [of "length xss" j] by (simp add: nth_append)
  qed
  moreover have "distinct (map f xs)" using snoc.prems(1) [of "length xss"] by simp
  ultimately show ?case by (auto simp del: distinct_map)
qed

lemma validate_all_services_distinct:
  assumes v: "wt_manifest_validate (Some m) features platform = WT_MANIFEST_VALID"
  shows "distinct (map sd_sid (all_services m))"
proof -
  let ?ps = "partitions_of m"
  have cnt: "carray_count (pm_services (?ps ! i)) = length (services_of (?ps ! i))"
    if "i < length ?ps" for i
    using that by (intro partition_header_arrays(1) [of m] validate_partition_header_valid
        validate_parts(2) [OF v]) simp
  note u = service_uniqueness_valid [OF validate_parts(5) [OF v]]
  have "distinct (map sd_sid (services_of (?ps ! i)))" if "i < length ?ps" for i
  proof (rule distinct_prior)
    fix a b assume "a < length (map sd_sid (services_of (?ps ! i)))" "b < a"
    then show "map sd_sid (services_of (?ps ! i)) ! a \<noteq> map sd_sid (services_of (?ps ! i)) ! b"
      using u [of i i a b] that cnt by simp
  qed
  moreover have "sd_sid ` set (services_of (?ps ! i)) \<inter> sd_sid ` set (services_of (?ps ! j)) = {}"
    if "i < length ?ps" "j < i" for i j
  proof -
    have "sd_sid x \<noteq> sd_sid y"
      if "x \<in> set (services_of (?ps ! i))" "y \<in> set (services_of (?ps ! j))" for x y
      using that \<open>i < length ?ps\<close> \<open>j < i\<close> u [of i j] cnt
      by (force simp: in_set_conv_nth)
    then show ?thesis by blast
  qed
  ultimately show ?thesis
    unfolding all_services_def by (intro distinct_map_concat) simp_all
qed

lemma distinct_concat_same:
  assumes "distinct (map f (concat xss))" "i < length xss" "j < length xss"
    and "x \<in> set (xss ! i)" "y \<in> set (xss ! j)" "f x = f y"
  shows "i = j"
  using assms
proof (induction xss arbitrary: i j)
  case Nil
  then show ?case by simp
next
  case (Cons xs xss)
  have *: "f a \<noteq> f b" if "a \<in> set xs" "b \<in> set (xss ! k)" "k < length xss" for a b k
  proof
    assume "f a = f b"
    moreover have "b \<in> set (concat xss)" using that nth_mem by fastforce
    ultimately show False using Cons.prems(1) that(1) by (auto simp: image_def)
  qed
  show ?case
  proof (cases i; cases j)
    fix i' j' assume "i = Suc i'" "j = Suc j'"
    then show ?thesis using Cons.IH [of i' j'] Cons.prems by simp
  qed (use * Cons.prems in \<open>auto dest: sym\<close>)
qed

text \<open>
  C11: In an accepted manifest the service identifiers are pairwise different over the whole
  system, so looking a service up by its identifier finds exactly the partition that declares
  it.
\<close>

theorem wt_manifest_validate_services:
  assumes v: "wt_manifest_validate (Some m) features platform = WT_MANIFEST_VALID"
  shows "distinct (map sd_sid (all_services m)) \<and>
    (\<forall>i < length (partitions_of m). \<forall>s \<in> set (services_of (partitions_of m ! i)).
       wt_manifest_find_service m (sd_sid s) = Some i)"
proof -
  note d = validate_all_services_distinct [OF v]
  have "wt_manifest_find_service m (sd_sid s) = Some i"
    if i: "i < length (partitions_of m)" and s: "s \<in> set (services_of (partitions_of m ! i))" for i s
    unfolding wt_manifest_find_service_def
  proof (rule first_idx_unique)
    show "i < length (partitions_of m)" by (rule i)
    show "list_ex (\<lambda>t. sd_sid t = sd_sid s) (services_of (partitions_of m ! i))"
      using s by (auto simp: list_ex_iff)
  next
    fix j assume "j < length (partitions_of m)"
      "list_ex (\<lambda>t. sd_sid t = sd_sid s) (services_of (partitions_of m ! j))"
    then show "j = i"
      using distinct_concat_same [OF d [unfolded all_services_def], of j i] i s
      by (auto simp: list_ex_iff)
  qed
  then show ?thesis using d by blast
qed

text \<open>
  C12: In an accepted manifest the partitions and the secure-partition domains are in
  bijection: partition ids are pairwise different, non-zero and fit a signed 32-bit id, each
  names a secure-partition domain, and each secure-partition domain is named by a partition.
\<close>

theorem wt_manifest_validate_partition_domains:
  assumes v: "wt_manifest_validate (Some m) features platform = WT_MANIFEST_VALID"
  shows "distinct (map pm_domain_id (partitions_of m)) \<and>
    (\<forall>p \<in> set (partitions_of m). pm_domain_id p \<noteq> 0 \<and> pm_domain_id p \<le> 0x7FFFFFFF) \<and>
    pm_domain_id ` set (partitions_of m) =
      {dd_id d | d. d \<in> set (domains_of m) \<and>
                    dd_domain_class d = Enum WT_DOMAIN_CLASS_SECURE_PARTITION}"
proof -
  have h: "wt_manifest_validate_partition_header m p = WT_MANIFEST_VALID"
    if "p \<in> set (partitions_of m)" for p
    by (rule validate_partition_header_valid [OF validate_parts(2) [OF v that]])
  have "\<exists>p \<in> set (partitions_of m). pm_domain_id p = dd_id d"
    if "d \<in> set (domains_of m)" "dd_domain_class d = Enum WT_DOMAIN_CLASS_SECURE_PARTITION" for d
    using validate_parts(4) [OF v] that
    by (auto simp: wt_manifest_validate_domain_coverage_def list_ex_iff split: if_splits)
  moreover have "\<exists>d \<in> set (domains_of m). dd_id d = pm_domain_id p \<and>
      dd_domain_class d = Enum WT_DOMAIN_CLASS_SECURE_PARTITION"
    if "p \<in> set (partitions_of m)" for p
    using partition_header_identity [OF h [OF that]]
    by (auto simp: wt_manifest_find_domain_def find_Some_iff)
  ultimately show ?thesis
    using partition_uniqueness_distinct [OF validate_parts(3) [OF v]]
      partition_header_identity [OF h] by (auto simp: image_iff) metis+
qed

section \<open>Names\<close>

text \<open>A NUL-free HOL string is what a C string holds.\<close>

definition nul_free :: "string \<Rightarrow> bool" where
  "nul_free s \<longleftrightarrow> CHR 0x00 \<notin> set s"

lemma name_length_nul_free [simp]: "nul_free s \<Longrightarrow> wt_manifest_name_length s = length s"
  by (auto simp: wt_manifest_name_length_def nul_free_def
      intro!: arg_cong [where f = length] takeWhile_eq_all_conv [THEN iffD2])

lemma generated_char_append:
  assumes "i < length b + length s"
  shows "wt_manifest_generated_char b (length b) s i = (b @ s) ! i"
  using assms by (auto simp: wt_manifest_generated_char_def cstr_at_def nth_append)

text \<open>
  C13: Comparing two generated symbols, each a base name with a suffix appended, decides
  whether the two concatenations are the same string, although the two parts are cut at
  different places and no buffer holds them.
\<close>

theorem wt_manifest_generated_names_equal_correct:
  assumes "nul_free b1" "nul_free s1" "nul_free b2" "nul_free s2"
  shows "wt_manifest_generated_names_equal b1 s1 b2 s2 \<longleftrightarrow> b1 @ s1 = b2 @ s2"
proof (cases "length b1 + length s1 = length b2 + length s2")
  case True
  then have "wt_manifest_generated_names_equal b1 s1 b2 s2 \<longleftrightarrow>
      (\<forall>i < length (b1 @ s1). (b1 @ s1) ! i = (b2 @ s2) ! i)"
    using assms by (auto simp: wt_manifest_generated_names_equal_def list_all_iff generated_char_append)
  then show ?thesis using True nth_equalityI [of "b1 @ s1" "b2 @ s2"] by auto
next
  case False
  then have "b1 @ s1 \<noteq> b2 @ s2" using length_append by metis
  then show ?thesis using False assms by (simp add: wt_manifest_generated_names_equal_def)
qed

section \<open>A concrete manifest\<close>

definition example_service :: "string \<Rightarrow> u32 \<Rightarrow> u32 \<Rightarrow> wt_service_descriptor" where
  "example_service name sid signal = \<lparr>sd_name = Some name, sd_sid = sid, sd_version = 1,
     sd_version_policy = Enum WT_SERVICE_VERSION_STRICT, sd_signal = signal,
     sd_stateless_handle_index = 0, sd_nonsecure_clients = 1, sd_connection_based = 1\<rparr>"

definition example_partition ::
  "string \<Rightarrow> u32 \<Rightarrow> wt_service_descriptor list \<Rightarrow> u32 list \<Rightarrow> wt_manifest_interrupt list \<Rightarrow>
   wt_partition_manifest" where
  "example_partition name did ss deps is = \<lparr>pm_name = Some name, pm_domain_id = did,
     pm_framework_version = WT_FFM_VERSION_1_0, pm_model = Enum WT_PARTITION_MODEL_IPC,
     pm_priority = Enum WT_PARTITION_PRIORITY_NORMAL, pm_services = CArray ss,
     pm_dependencies = CArray deps, pm_interrupts = CArray is\<rparr>"

definition example_manifest :: wt_system_manifest where
  "example_manifest = \<lparr>sm_format_version = 1, sm_generator_version = Some ''G1'',
     sm_input_digest = CArray (replicate 32 1), sm_features = 1,
     sm_isolation_profile = Enum WT_ISOLATION_PROFILE_LEVEL_3,
     sm_profile_capabilities = Some example_caps, sm_domains = CArray example_domains,
     sm_partitions = CArray
       [example_partition ''PA'' 2 [example_service ''SA'' 100 16, example_service ''SB'' 101 32] []
          [\<lparr>mi_signal_name = Some ''IA'', mi_interrupt = 40, mi_signal = 64\<rparr>],
        example_partition ''PB'' 3 [example_service ''SC'' 102 16] [100] []],
     sm_limits = \<lparr>ml_max_partitions = 8, ml_max_services_per_partition = 8,
       ml_max_dependencies_per_partition = 8, ml_max_stateless_handles = 32\<rparr>\<rparr>"

lemma example_accepted:
  "wt_manifest_validate (Some example_manifest) 1 (Some example_caps) = WT_MANIFEST_VALID"
  by code_simp

theorem wt_manifest_validate_signals_witness:
  "signals_separate (partitions_of example_manifest ! 0)"
  by (rule wt_manifest_validate_signals [OF example_accepted])
    (simp_all add: example_manifest_def example_partition_def)

theorem wt_manifest_validate_services_witness:
  "wt_manifest_find_service example_manifest 102 = Some 1"
proof -
  have "wt_manifest_find_service example_manifest
      (sd_sid (services_of (partitions_of example_manifest ! 1) ! 0)) = Some 1"
    using wt_manifest_validate_services [OF example_accepted]
    by (simp add: example_manifest_def example_partition_def)
  then show ?thesis
    by (simp add: example_manifest_def example_partition_def example_service_def)
qed

theorem wt_manifest_validate_partition_domains_witness:
  "distinct (map pm_domain_id (partitions_of example_manifest))"
  using wt_manifest_validate_partition_domains [OF example_accepted] by blast

theorem wt_manifest_generated_names_equal_correct_witness:
  "wt_manifest_generated_names_equal ''KEY_MODEL'' ''_IPC'' ''KEY'' ''_MODEL_IPC''"
  using wt_manifest_generated_names_equal_correct [of "''KEY_MODEL''" "''_IPC''" "''KEY''" "''_MODEL_IPC''"]
  by (simp add: nul_free_def)

end
