(* ===== verification/Wt_Memory.thy ===== *)
theory Wt_Memory
  imports Wt_Prelude
begin

text \<open>
  The byte-addressed memory behind the pointers of the sources: \<open>memcpy\<close> out of and into a
  32-bit address space, the addresses of a range, and 32-bit objects stored with the least
  significant byte first.
\<close>

definition mem_read :: "(u32 \<Rightarrow> u8) \<Rightarrow> u32 \<Rightarrow> nat \<Rightarrow> u8 list" where
  "mem_read m base n = map (\<lambda>k. m (base + of_nat k)) [0..<n]"

definition mem_write :: "(u32 \<Rightarrow> u8) \<Rightarrow> u32 \<Rightarrow> u8 list \<Rightarrow> (u32 \<Rightarrow> u8)" where
  "mem_write m base bs = (\<lambda>a. if unat (a - base) < length bs then bs ! unat (a - base) else m a)"

text \<open>The addresses \<open>[base, base + n)\<close>.\<close>

definition in_range :: "u32 \<Rightarrow> u32 \<Rightarrow> nat \<Rightarrow> bool" where
  "in_range a base n \<longleftrightarrow> unat (a - base) < n"

lemma length_mem_read [simp]: "length (mem_read mem base n) = n"
  by (simp add: mem_read_def)

lemma mem_write_outside: "\<not> in_range a base (length bs) \<Longrightarrow> mem_write mem base bs a = mem a"
  by (simp add: mem_write_def in_range_def)

lemma in_range_index:
  assumes "k < n" "n \<le> 2 ^ 32"
  shows "in_range (base + of_nat k) base n" "unat (base + of_nat k - base) = k"
proof -
  have "unat (of_nat k :: u32) = k" using assms by (simp add: unat_of_nat)
  then show "unat (base + of_nat k - base) = k" by simp
  then show "in_range (base + of_nat k) base n" using assms by (simp add: in_range_def)
qed

lemma mem_read_write: "length bs \<le> 2 ^ 32 \<Longrightarrow> mem_read (mem_write mem base bs) base (length bs) = bs"
  by (rule nth_equalityI) (simp_all add: mem_read_def mem_write_def unat_of_nat)

lemma mem_read_outside:
  assumes "\<And>a. in_range a base n \<Longrightarrow> mem a = mem' a" "n \<le> 2 ^ 32"
  shows "mem_read mem base n = mem_read mem' base n"
  using assms in_range_index(1) by (simp add: mem_read_def)

lemma in_range_unat:
  assumes "unat base + n \<le> 2 ^ 32"
  shows "in_range a base n \<longleftrightarrow> unat base \<le> unat a \<and> unat a < unat base + n"
proof (cases "base \<le> a")
  case True
  then have "unat (a - base) = unat a - unat base" by (simp add: unat_sub)
  with True show ?thesis by (auto simp: in_range_def word_le_nat_alt)
next
  case False
  then have "a < base" by simp
  have "unat (a - base) = 2 ^ 32 + unat a - unat base"
    using False unat_u32_less [of base] by (simp add: unat_sub_if' word_le_nat_alt)
  with \<open>a < base\<close> assms show ?thesis by (auto simp: in_range_def word_less_nat_alt)
qed

section \<open>Words in memory\<close>

definition word_bytes :: "u32 \<Rightarrow> u8 list" where
  "word_bytes w = [ucast w, ucast (drop_bit 8 w), ucast (drop_bit 16 w), ucast (drop_bit 24 w)]"

definition bytes_word :: "u8 list \<Rightarrow> u32" where
  "bytes_word bs =
     (ucast (bs ! 0) OR push_bit 8 (ucast (bs ! 1)) OR push_bit 16 (ucast (bs ! 2)) OR
      push_bit 24 (ucast (bs ! 3)))"

definition load_word :: "(u32 \<Rightarrow> u8) \<Rightarrow> u32 \<Rightarrow> u32" where
  "load_word mem a = bytes_word (mem_read mem a 4)"

definition store_word :: "(u32 \<Rightarrow> u8) \<Rightarrow> u32 \<Rightarrow> u32 \<Rightarrow> (u32 \<Rightarrow> u8)" where
  "store_word mem a w = mem_write mem a (word_bytes w)"

lemma length_word_bytes [simp]: "length (word_bytes w) = 4"
  by (simp add: word_bytes_def)

lemma bytes_word_bytes [simp]: "bytes_word (word_bytes w) = w"
proof (rule bit_word_eqI)
  fix n
  assume "n < LENGTH(32)"
  then consider "n < 8" | "8 \<le> n" "n < 16" | "16 \<le> n" "n < 24" | "24 \<le> n" "n < 32" by force
  then show "bit (bytes_word (word_bytes w)) n = bit w n"
    by cases (auto simp: bytes_word_def word_bytes_def bit_simps)
qed

lemma load_store_word [simp]: "load_word (store_word mem a w) a = w"
  using mem_read_write [of "word_bytes w" mem a] by (simp add: load_word_def store_word_def)

lemma store_word_outside: "\<not> in_range b a 4 \<Longrightarrow> store_word mem a w b = mem b"
  by (simp add: store_word_def mem_write_outside)

text \<open>An array of words written at once.\<close>

lemma length_words_bytes [simp]: "length (concat (map word_bytes ws)) = 4 * length ws"
  by (induction ws) simp_all

lemma take_word_bytes: "k < length ws \<Longrightarrow>
    take 4 (drop (4 * k) (concat (map word_bytes ws))) = word_bytes (ws ! k)"
proof (induction ws arbitrary: k)
  case (Cons w ws)
  then show ?case by (cases k) simp_all
qed simp

lemma mem_read_written:
  assumes "i + n \<le> length bs" "length bs \<le> 2 ^ 32"
  shows "mem_read (mem_write mem base bs) (base + of_nat i) n = take n (drop i bs)"
proof (rule nth_equalityI)
  fix k
  assume "k < length (mem_read (mem_write mem base bs) (base + of_nat i) n)"
  then have k: "k < n" by simp
  then have "unat (base + of_nat i + of_nat k - base :: u32) = i + k"
    using in_range_index(2) [of "i + k" "length bs" base] assms by (simp add: add.assoc)
  then show "mem_read (mem_write mem base bs) (base + of_nat i) n ! k = take n (drop i bs) ! k"
    using k assms by (simp add: mem_read_def mem_write_def)
qed (use assms in simp)

lemma load_written_word:
  assumes "k < length ws" "4 * length ws \<le> 2 ^ 32"
  shows "load_word (mem_write mem base (concat (map word_bytes ws))) (base + of_nat (4 * k)) = ws ! k"
  using mem_read_written [of "4 * k" 4 "concat (map word_bytes ws)" mem base] assms
  by (simp add: load_word_def take_word_bytes)

lemma load_word_outside:
  "(\<And>b. in_range b a 4 \<Longrightarrow> mem b = mem' b) \<Longrightarrow> load_word mem a = load_word mem' a"
  using mem_read_outside [of a 4 mem mem'] by (simp add: load_word_def)

end
