(* ===== verification/Ffm_State.thy ===== *)
theory Ffm_State
  imports Ipc Manifest Wt_Memory
begin

text \<open>
  The runtime of \<open>src/ffm.c\<close>: its records (\<open>include/wolftrust/ffm.h\<close>), the handle codec,
  the lookups and access policy, the connection and message pools, and the intrusive queue
  of each service.

  The runtime pointer is the state itself, so the guards \<open>runtime == NULL\<close> have no
  counterpart. \<open>rt_partitions\<close> and \<open>rt_services\<close> hold the entries below
  \<open>partition_count\<close> and \<open>service_count\<close>; the connection and message pools are whole. The
  arrays inside a message are functions of their index. Handles, ids and status codes are
  the integers of the 32-bit types. The trace globals of the file and the memory of the
  clients are kept beside the runtime.
\<close>

section \<open>Constants\<close>

abbreviation (input) PSA_MAX_IOVEC :: nat where "PSA_MAX_IOVEC \<equiv> 4"
abbreviation (input) PSA_FRAMEWORK_VERSION :: u32 where "PSA_FRAMEWORK_VERSION \<equiv> 0x0100"
abbreviation (input) PSA_VERSION_NONE :: u32 where "PSA_VERSION_NONE \<equiv> 0"
abbreviation (input) PSA_NULL_HANDLE :: int where "PSA_NULL_HANDLE \<equiv> 0"
abbreviation (input) PSA_IPC_CALL :: int where "PSA_IPC_CALL \<equiv> 0"
abbreviation (input) PSA_IPC_CONNECT :: int where "PSA_IPC_CONNECT \<equiv> - 1"
abbreviation (input) PSA_IPC_DISCONNECT :: int where "PSA_IPC_DISCONNECT \<equiv> - 2"
abbreviation (input) PSA_DOORBELL :: u32 where "PSA_DOORBELL \<equiv> 8"

abbreviation (input) PSA_SUCCESS :: int where "PSA_SUCCESS \<equiv> 0"
abbreviation (input) PSA_ERROR_PROGRAMMER_ERROR :: int where "PSA_ERROR_PROGRAMMER_ERROR \<equiv> - 129"
abbreviation (input) PSA_ERROR_CONNECTION_REFUSED :: int where "PSA_ERROR_CONNECTION_REFUSED \<equiv> - 130"
abbreviation (input) PSA_ERROR_CONNECTION_BUSY :: int where "PSA_ERROR_CONNECTION_BUSY \<equiv> - 131"
abbreviation (input) PSA_ERROR_GENERIC_ERROR :: int where "PSA_ERROR_GENERIC_ERROR \<equiv> - 132"
abbreviation (input) PSA_ERROR_NOT_SUPPORTED :: int where "PSA_ERROR_NOT_SUPPORTED \<equiv> - 134"
abbreviation (input) PSA_ERROR_INVALID_ARGUMENT :: int where "PSA_ERROR_INVALID_ARGUMENT \<equiv> - 135"
abbreviation (input) PSA_ERROR_DOES_NOT_EXIST :: int where "PSA_ERROR_DOES_NOT_EXIST \<equiv> - 140"
abbreviation (input) PSA_ERROR_INSUFFICIENT_MEMORY :: int where "PSA_ERROR_INSUFFICIENT_MEMORY \<equiv> - 141"

abbreviation (input) WT_FFM_SUCCESS :: int where "WT_FFM_SUCCESS \<equiv> 0"
abbreviation (input) WT_FFM_ERROR_ARGUMENT :: int where "WT_FFM_ERROR_ARGUMENT \<equiv> - 600"
abbreviation (input) WT_FFM_ERROR_MANIFEST :: int where "WT_FFM_ERROR_MANIFEST \<equiv> - 601"
abbreviation (input) WT_FFM_ERROR_POLICY :: int where "WT_FFM_ERROR_POLICY \<equiv> - 602"
abbreviation (input) WT_FFM_ERROR_RESOURCE :: int where "WT_FFM_ERROR_RESOURCE \<equiv> - 603"
abbreviation (input) WT_FFM_ERROR_HANDLE :: int where "WT_FFM_ERROR_HANDLE \<equiv> - 604"
abbreviation (input) WT_FFM_ERROR_STATE :: int where "WT_FFM_ERROR_STATE \<equiv> - 605"
abbreviation (input) WT_FFM_ERROR_NOT_READY :: int where "WT_FFM_ERROR_NOT_READY \<equiv> - 606"
abbreviation (input) WT_FFM_ERROR_BUFFER :: int where "WT_FFM_ERROR_BUFFER \<equiv> - 607"

abbreviation (input) WT_FFM_MAX_PARTITIONS :: nat where "WT_FFM_MAX_PARTITIONS \<equiv> 9"
abbreviation (input) WT_FFM_MAX_SERVICES :: nat where "WT_FFM_MAX_SERVICES \<equiv> 20"
abbreviation (input) WT_FFM_MAX_CONNECTIONS :: nat where "WT_FFM_MAX_CONNECTIONS \<equiv> 16"
abbreviation (input) WT_FFM_MAX_CONNECTIONS_PER_CLIENT :: nat where
  "WT_FFM_MAX_CONNECTIONS_PER_CLIENT \<equiv> 8"
abbreviation (input) WT_FFM_MAX_NS_CONNECTIONS :: nat where "WT_FFM_MAX_NS_CONNECTIONS \<equiv> 12"
abbreviation (input) WT_FFM_MAX_MESSAGES :: nat where "WT_FFM_MAX_MESSAGES \<equiv> 8"
abbreviation (input) WT_FFM_TRANSFER_BYTES :: nat where "WT_FFM_TRANSFER_BYTES \<equiv> 1024"
abbreviation (input) WT_FFM_QUEUE_NONE :: nat where "WT_FFM_QUEUE_NONE \<equiv> 65535"

abbreviation (input) WT_FFM_HANDLE_INDEX_MASK :: u32 where "WT_FFM_HANDLE_INDEX_MASK \<equiv> 0x1F"
abbreviation (input) WT_FFM_HANDLE_TYPE_SHIFT :: nat where "WT_FFM_HANDLE_TYPE_SHIFT \<equiv> 5"
abbreviation (input) WT_FFM_HANDLE_TYPE_MASK :: u32 where "WT_FFM_HANDLE_TYPE_MASK \<equiv> 3"
abbreviation (input) WT_FFM_HANDLE_GEN_SHIFT :: nat where "WT_FFM_HANDLE_GEN_SHIFT \<equiv> 7"
abbreviation (input) WT_FFM_HANDLE_GEN_MASK :: u32 where "WT_FFM_HANDLE_GEN_MASK \<equiv> 0x00FFFFFF"
abbreviation (input) WT_FFM_HANDLE_CONNECTION :: u32 where "WT_FFM_HANDLE_CONNECTION \<equiv> 1"
abbreviation (input) WT_FFM_HANDLE_MESSAGE :: u32 where "WT_FFM_HANDLE_MESSAGE \<equiv> 2"

section \<open>Records\<close>

record psa_invec =
  inv_base :: u32
  inv_len :: u32

record psa_outvec =
  outv_base :: u32
  outv_len :: u32

record psa_msg_t =
  pm_type :: int
  pm_handle :: int
  pm_client_id :: int
  pm_rhandle :: u32
  pm_in_size :: "nat \<Rightarrow> nat"
  pm_out_size :: "nat \<Rightarrow> nat"

text \<open>A registered dispatch function with its context is named by a number.\<close>

record wt_ffm_partition_runtime =
  pr_manifest :: wt_partition_manifest
  pr_dispatch :: "nat option"
  pr_asserted_signals :: u32
  pr_instance :: u32

record wt_ffm_service_runtime =
  sr_descriptor :: wt_service_descriptor
  sr_partition_index :: nat
  sr_queue_head :: nat
  sr_queue_tail :: nat

record wt_ffm_connection_runtime =
  conn_state :: wt_ipc_connection_state
  conn_caller :: int
  conn_generation :: u32
  conn_client_instance :: u32
  conn_rhandle :: u32
  conn_service_index :: nat
  conn_allocated :: bool
  conn_error_latch :: bool

text \<open>The three values of the \<open>abandoned\<close> flag.\<close>

datatype ffm_abandoned = NOT_ABANDONED | WT_FFM_ABANDONED_REPLY | WT_FFM_ABANDONED_CLOSE

record wt_ffm_message_runtime =
  msg_caller :: int
  msg_reply_status :: int
  msg_generation :: u32
  msg_connection_index :: nat
  msg_service_index :: nat
  msg_next :: nat
  msg_type :: int
  msg_in_count :: nat
  msg_out_count :: nat
  msg_in_size :: "nat \<Rightarrow> nat"
  msg_out_size :: "nat \<Rightarrow> nat"
  msg_in_offset :: "nat \<Rightarrow> nat"
  msg_out_offset :: "nat \<Rightarrow> nat"
  msg_in_position :: "nat \<Rightarrow> nat"
  msg_out_position :: "nat \<Rightarrow> nat"
  msg_client_output :: "nat \<Rightarrow> u32"
  msg_input :: "nat \<Rightarrow> u8"
  msg_output :: "nat \<Rightarrow> u8"
  msg_allocated :: bool
  msg_active :: bool
  msg_complete :: bool
  msg_abandoned :: ffm_abandoned

record wt_ffm_runtime =
  rt_manifest :: wt_system_manifest
  rt_partitions :: "wt_ffm_partition_runtime list"
  rt_services :: "wt_ffm_service_runtime list"
  rt_connections :: "wt_ffm_connection_runtime list"
  rt_messages :: "wt_ffm_message_runtime list"
  rt_lifecycle :: u32
  g_wt_ffm_refuse_info :: u32
  g_wt_ffm_refuse_base :: u32
  g_wt_ffm_call_trace :: u32
  client_memory :: "u32 \<Rightarrow> u8"

text \<open>
  The port operations and the registered dispatch functions are code outside this file; a
  dispatch function works on the runtime it is given.
\<close>

record wt_ffm_port_ops =
  po_check_read :: "int \<Rightarrow> u32 \<Rightarrow> u32 \<Rightarrow> bool"
  po_check_write :: "int \<Rightarrow> u32 \<Rightarrow> u32 \<Rightarrow> bool"
  po_dispatch :: "wt_ffm_runtime \<Rightarrow> int \<Rightarrow> wt_ffm_runtime \<times> int"
  po_registered :: "nat \<Rightarrow> wt_ffm_runtime \<Rightarrow> int \<Rightarrow> wt_ffm_runtime \<times> int"

definition zero_ffm_connection :: wt_ffm_connection_runtime where
  "zero_ffm_connection = \<lparr>conn_state = WT_IPC_CONNECTION_FREE, conn_caller = 0, conn_generation = 0,
     conn_client_instance = 0, conn_rhandle = 0, conn_service_index = 0, conn_allocated = False,
     conn_error_latch = False\<rparr>"

definition zero_ffm_message :: wt_ffm_message_runtime where
  "zero_ffm_message = \<lparr>msg_caller = 0, msg_reply_status = 0, msg_generation = 0,
     msg_connection_index = 0, msg_service_index = 0, msg_next = 0, msg_type = 0,
     msg_in_count = 0, msg_out_count = 0, msg_in_size = (\<lambda>_. 0), msg_out_size = (\<lambda>_. 0),
     msg_in_offset = (\<lambda>_. 0), msg_out_offset = (\<lambda>_. 0), msg_in_position = (\<lambda>_. 0),
     msg_out_position = (\<lambda>_. 0), msg_client_output = (\<lambda>_. 0), msg_input = (\<lambda>_. 0),
     msg_output = (\<lambda>_. 0), msg_allocated = False, msg_active = False, msg_complete = False,
     msg_abandoned = NOT_ABANDONED\<rparr>"

section \<open>Reading and updating the state\<close>

definition conn_of :: "wt_ffm_runtime \<Rightarrow> nat \<Rightarrow> wt_ffm_connection_runtime" where
  "conn_of rt i = rt_connections rt ! i"

definition msg_of :: "wt_ffm_runtime \<Rightarrow> nat \<Rightarrow> wt_ffm_message_runtime" where
  "msg_of rt i = rt_messages rt ! i"

definition svc_of :: "wt_ffm_runtime \<Rightarrow> nat \<Rightarrow> wt_ffm_service_runtime" where
  "svc_of rt i = rt_services rt ! i"

definition part_of :: "wt_ffm_runtime \<Rightarrow> nat \<Rightarrow> wt_ffm_partition_runtime" where
  "part_of rt i = rt_partitions rt ! i"

definition upd_conn :: "nat \<Rightarrow> (wt_ffm_connection_runtime \<Rightarrow> wt_ffm_connection_runtime) \<Rightarrow>
    wt_ffm_runtime \<Rightarrow> wt_ffm_runtime" where
  "upd_conn i f rt = rt\<lparr>rt_connections := upd_at i f (rt_connections rt)\<rparr>"

definition upd_msg :: "nat \<Rightarrow> (wt_ffm_message_runtime \<Rightarrow> wt_ffm_message_runtime) \<Rightarrow>
    wt_ffm_runtime \<Rightarrow> wt_ffm_runtime" where
  "upd_msg i f rt = rt\<lparr>rt_messages := upd_at i f (rt_messages rt)\<rparr>"

definition upd_svc :: "nat \<Rightarrow> (wt_ffm_service_runtime \<Rightarrow> wt_ffm_service_runtime) \<Rightarrow>
    wt_ffm_runtime \<Rightarrow> wt_ffm_runtime" where
  "upd_svc i f rt = rt\<lparr>rt_services := upd_at i f (rt_services rt)\<rparr>"

definition upd_part :: "nat \<Rightarrow> (wt_ffm_partition_runtime \<Rightarrow> wt_ffm_partition_runtime) \<Rightarrow>
    wt_ffm_runtime \<Rightarrow> wt_ffm_runtime" where
  "upd_part i f rt = rt\<lparr>rt_partitions := upd_at i f (rt_partitions rt)\<rparr>"

text \<open>\<open>memcpy\<close> between a message buffer and a list of bytes.\<close>

definition buf_read :: "(nat \<Rightarrow> u8) \<Rightarrow> nat \<Rightarrow> nat \<Rightarrow> u8 list" where
  "buf_read b off n = map (\<lambda>k. b (off + k)) [0..<n]"

definition buf_write :: "(nat \<Rightarrow> u8) \<Rightarrow> nat \<Rightarrow> u8 list \<Rightarrow> (nat \<Rightarrow> u8)" where
  "buf_write b off bs = (\<lambda>k. if off \<le> k \<and> k < off + length bs then bs ! (k - off) else b k)"

section \<open>Handles\<close>

definition wt_ffm_next_generation :: "u32 \<Rightarrow> u32" where
  "wt_ffm_next_generation generation =
     (let g = (generation + 1) AND WT_FFM_HANDLE_GEN_MASK in if g = 0 then 1 else g)"

definition wt_ffm_make_handle :: "u32 \<Rightarrow> nat \<Rightarrow> u32 \<Rightarrow> int" where
  "wt_ffm_make_handle type index generation =
     sint (push_bit WT_FFM_HANDLE_GEN_SHIFT (generation AND WT_FFM_HANDLE_GEN_MASK) OR
           push_bit WT_FFM_HANDLE_TYPE_SHIFT (type AND WT_FFM_HANDLE_TYPE_MASK) OR
           (of_nat index + 1))"

definition wt_ffm_decode_handle :: "int \<Rightarrow> u32 \<Rightarrow> nat \<Rightarrow> int + (nat \<times> u32)" where
  "wt_ffm_decode_handle handle type limit =
     (if handle \<le> 0 then Inl WT_FFM_ERROR_HANDLE
      else let value = word_of_int handle;
               encoded_type = drop_bit WT_FFM_HANDLE_TYPE_SHIFT value AND WT_FFM_HANDLE_TYPE_MASK;
               encoded_index = value AND WT_FFM_HANDLE_INDEX_MASK in
        if encoded_type \<noteq> type \<or> encoded_index = 0 \<or> unat encoded_index > limit
        then Inl WT_FFM_ERROR_HANDLE
        else let generation = drop_bit WT_FFM_HANDLE_GEN_SHIFT value in
          if generation = 0 then Inl WT_FFM_ERROR_HANDLE
          else Inr (unat (encoded_index - 1), generation))"

section \<open>Lookups and access policy\<close>

definition wt_ffm_find_partition :: "wt_ffm_runtime \<Rightarrow> int \<Rightarrow> int + nat" where
  "wt_ffm_find_partition rt partition_id =
     (if partition_id \<le> 0 then Inl WT_FFM_ERROR_ARGUMENT
      else case first_idx (\<lambda>p. pm_domain_id (pr_manifest p) = word_of_int partition_id)
                  (rt_partitions rt) of
             None \<Rightarrow> Inl WT_FFM_ERROR_POLICY
           | Some i \<Rightarrow> Inr i)"

definition wt_ffm_caller_instance :: "wt_ffm_runtime \<Rightarrow> int \<Rightarrow> u32" where
  "wt_ffm_caller_instance rt caller =
     (case wt_ffm_find_partition rt caller of
        Inl _ \<Rightarrow> 0 | Inr i \<Rightarrow> pr_instance (part_of rt i))"

definition wt_ffm_find_service :: "wt_ffm_runtime \<Rightarrow> u32 \<Rightarrow> int + nat" where
  "wt_ffm_find_service rt sid =
     (if sid = 0 then Inl WT_FFM_ERROR_ARGUMENT
      else case first_idx (\<lambda>s. sd_sid (sr_descriptor s) = sid) (rt_services rt) of
             None \<Rightarrow> Inl WT_FFM_ERROR_POLICY
           | Some i \<Rightarrow> Inr i)"

definition wt_ffm_caller_allowed :: "wt_ffm_runtime \<Rightarrow> int \<Rightarrow> nat \<Rightarrow> bool" where
  "wt_ffm_caller_allowed rt caller service_index =
     (if caller = 0 \<or> service_index \<ge> length (rt_services rt) then False
      else let service = svc_of rt service_index in
        if caller < 0 then sd_nonsecure_clients (sr_descriptor service) \<noteq> 0
        else case first_idx (\<lambda>p. pm_domain_id (pr_manifest p) = word_of_int caller)
                    (rt_partitions rt) of
               None \<Rightarrow> False
             | Some i \<Rightarrow>
                (if i = sr_partition_index service then False
                 else list_ex (\<lambda>d. d = sd_sid (sr_descriptor service))
                        (deps_of (pr_manifest (part_of rt i)))))"

definition wt_ffm_version_allowed :: "wt_service_descriptor \<Rightarrow> u32 \<Rightarrow> bool" where
  "wt_ffm_version_allowed service requested =
     (if requested = 0 then False
      else if sd_version_policy service = Enum WT_SERVICE_VERSION_UNSPECIFIED then True
      else if sd_version_policy service = Enum WT_SERVICE_VERSION_STRICT
      then requested = sd_version service
      else requested \<le> sd_version service)"

section \<open>The connection pool\<close>

definition wt_ffm_alloc_connection :: "wt_ffm_runtime \<Rightarrow> int + (wt_ffm_runtime \<times> nat)" where
  "wt_ffm_alloc_connection rt =
     (case first_idx (\<lambda>c. \<not> conn_allocated c) (rt_connections rt) of
        None \<Rightarrow> Inl WT_FFM_ERROR_RESOURCE
      | Some i \<Rightarrow> Inr (upd_conn i (\<lambda>c. c\<lparr>conn_allocated := True,
                          conn_state := WT_IPC_CONNECTION_FREE, conn_error_latch := False\<rparr>) rt, i))"

definition wt_ffm_release_connection :: "wt_ffm_runtime \<Rightarrow> nat \<Rightarrow> wt_ffm_runtime" where
  "wt_ffm_release_connection rt connection_index =
     upd_conn connection_index (\<lambda>c. zero_ffm_connection
       \<lparr>conn_generation := wt_ffm_next_generation (conn_generation c),
        conn_state := WT_IPC_CONNECTION_FREE\<rparr>) rt"

definition wt_ffm_connection_from_handle :: "wt_ffm_runtime \<Rightarrow> int \<Rightarrow> int \<Rightarrow> int + nat" where
  "wt_ffm_connection_from_handle rt caller handle =
     (case wt_ffm_decode_handle handle WT_FFM_HANDLE_CONNECTION WT_FFM_MAX_CONNECTIONS of
        Inl e \<Rightarrow> Inl e
      | Inr (index, generation) \<Rightarrow>
         (let connection = conn_of rt index in
          if \<not> conn_allocated connection \<or> conn_generation connection \<noteq> generation
          then Inl WT_FFM_ERROR_HANDLE
          else if conn_caller connection \<noteq> caller then Inl WT_FFM_ERROR_POLICY
          else if conn_client_instance connection \<noteq> wt_ffm_caller_instance rt caller
          then Inl WT_FFM_ERROR_HANDLE
          else Inr index))"

section \<open>The message pool\<close>

definition wt_ffm_alloc_message :: "wt_ffm_runtime \<Rightarrow> int + (wt_ffm_runtime \<times> nat)" where
  "wt_ffm_alloc_message rt =
     (case first_idx (\<lambda>m. \<not> msg_allocated m) (rt_messages rt) of
        None \<Rightarrow> Inl WT_FFM_ERROR_RESOURCE
      | Some i \<Rightarrow> Inr (upd_msg i (\<lambda>m. m\<lparr>msg_allocated := True, msg_next := WT_FFM_QUEUE_NONE\<rparr>) rt, i))"

definition wt_ffm_release_message :: "wt_ffm_runtime \<Rightarrow> nat \<Rightarrow> wt_ffm_runtime" where
  "wt_ffm_release_message rt message_index =
     upd_msg message_index (\<lambda>m. zero_ffm_message
       \<lparr>msg_generation := wt_ffm_next_generation (msg_generation m),
        msg_next := WT_FFM_QUEUE_NONE\<rparr>) rt"

definition wt_ffm_message_from_handle :: "wt_ffm_runtime \<Rightarrow> int \<Rightarrow> int \<Rightarrow> int + nat" where
  "wt_ffm_message_from_handle rt partition_id handle =
     (case wt_ffm_decode_handle handle WT_FFM_HANDLE_MESSAGE WT_FFM_MAX_MESSAGES of
        Inl e \<Rightarrow> Inl e
      | Inr (index, generation) \<Rightarrow>
         (let message = msg_of rt index in
          if \<not> msg_allocated message \<or> \<not> msg_active message \<or> msg_generation message \<noteq> generation
          then Inl WT_FFM_ERROR_HANDLE
          else let service = svc_of rt (msg_service_index message) in
            if pm_domain_id (pr_manifest (part_of rt (sr_partition_index service))) \<noteq>
                 word_of_int partition_id
            then Inl WT_FFM_ERROR_POLICY
            else Inr index))"

definition wt_ffm_close_abandoned :: "wt_ffm_runtime \<Rightarrow> nat \<Rightarrow> wt_ffm_runtime \<times> bool" where
  "wt_ffm_close_abandoned rt connection_index =
     (case first_idx (\<lambda>m. msg_allocated m \<and> msg_abandoned m \<noteq> NOT_ABANDONED \<and>
                          msg_connection_index m = connection_index) (rt_messages rt) of
        None \<Rightarrow> (rt, False)
      | Some i \<Rightarrow>
         (upd_conn connection_index (\<lambda>c. c\<lparr>conn_state := WT_IPC_CONNECTION_DISCONNECTING\<rparr>)
            (upd_msg i (\<lambda>m. m\<lparr>msg_abandoned := WT_FFM_ABANDONED_CLOSE\<rparr>) rt), True))"

section \<open>The service queues\<close>

definition wt_ffm_update_service_signal :: "wt_ffm_runtime \<Rightarrow> nat \<Rightarrow> wt_ffm_runtime" where
  "wt_ffm_update_service_signal rt service_index =
     (let service = svc_of rt service_index; signal = sd_signal (sr_descriptor service) in
      upd_part (sr_partition_index service) (\<lambda>p. p\<lparr>pr_asserted_signals :=
         (if sr_queue_head service = WT_FFM_QUEUE_NONE
          then pr_asserted_signals p AND NOT signal
          else pr_asserted_signals p OR signal)\<rparr>) rt)"

definition wt_ffm_enqueue :: "wt_ffm_runtime \<Rightarrow> nat \<Rightarrow> nat \<Rightarrow> wt_ffm_runtime" where
  "wt_ffm_enqueue rt service_index message_index =
     (let service = svc_of rt service_index;
          rt1 = (if sr_queue_tail service = WT_FFM_QUEUE_NONE
                 then upd_svc service_index (\<lambda>s. s\<lparr>sr_queue_head := message_index\<rparr>) rt
                 else upd_msg (sr_queue_tail service) (\<lambda>m. m\<lparr>msg_next := message_index\<rparr>) rt) in
      wt_ffm_update_service_signal
        (upd_svc service_index (\<lambda>s. s\<lparr>sr_queue_tail := message_index\<rparr>) rt1) service_index)"

text \<open>
  The unlink loop of \<open>wt_ffm_dequeue_message\<close>. A cyclic queue would keep it running, so it
  has a bound on its iterations and answers \<open>None\<close> when that is used up.
\<close>

definition ffm_unlink :: "wt_ffm_runtime \<Rightarrow> nat \<Rightarrow> nat \<Rightarrow> nat \<Rightarrow> wt_ffm_runtime" where
  "ffm_unlink rt service_index current previous =
     (let nxt = msg_next (msg_of rt current);
          rt1 = (if previous = WT_FFM_QUEUE_NONE
                 then upd_svc service_index (\<lambda>s. s\<lparr>sr_queue_head := nxt\<rparr>) rt
                 else upd_msg previous (\<lambda>m. m\<lparr>msg_next := nxt\<rparr>) rt);
          rt2 = (if sr_queue_tail (svc_of rt1 service_index) = current
                 then upd_svc service_index (\<lambda>s. s\<lparr>sr_queue_tail := previous\<rparr>) rt1 else rt1) in
      upd_msg current (\<lambda>m. m\<lparr>msg_next := WT_FFM_QUEUE_NONE\<rparr>) rt2)"

fun ffm_dequeue_loop ::
  "nat \<Rightarrow> wt_ffm_runtime \<Rightarrow> nat \<Rightarrow> nat \<Rightarrow> nat \<Rightarrow> nat \<Rightarrow> wt_ffm_runtime option" where
  "ffm_dequeue_loop 0 rt service_index message_index current previous = None"
| "ffm_dequeue_loop (Suc n) rt service_index message_index current previous =
     (if current = WT_FFM_QUEUE_NONE then Some rt
      else if current = message_index then Some (ffm_unlink rt service_index current previous)
      else ffm_dequeue_loop n rt service_index message_index (msg_next (msg_of rt current)) current)"

definition wt_ffm_dequeue_message :: "wt_ffm_runtime \<Rightarrow> nat \<Rightarrow> nat \<Rightarrow> wt_ffm_runtime option" where
  "wt_ffm_dequeue_message rt service_index message_index =
     (case ffm_dequeue_loop (Suc WT_FFM_MAX_MESSAGES) rt service_index message_index
             (sr_queue_head (svc_of rt service_index)) WT_FFM_QUEUE_NONE of
        None \<Rightarrow> None
      | Some rt' \<Rightarrow> Some (wt_ffm_update_service_signal rt' service_index))"

end
