(* ===== verification/Ffm_Client.thy ===== *)
theory Ffm_Client
  imports Ffm_State
begin

text \<open>
  The client side of \<open>src/ffm.c\<close>: initialisation, version discovery, and the connect, call
  and close operations, synchronous and split into begin and finish. The synchronous form of
  an operation is its begin form, the dispatch of the partition, and what the code does with
  the outcome (the \<open>_tail\<close> definitions); the file writes the common prefix twice.

  An operation that unlinks a queued message returns an option, \<open>None\<close> standing for an
  unlink loop that did not end. Output parameters are returned; the guards that compare
  \<open>msg_index\<close> with \<open>NULL\<close> have no counterpart.
\<close>

section \<open>Request vectors\<close>

text \<open>The copy loop over the input vectors, and the layout loop over the output vectors.\<close>

fun ffm_copy_in ::
  "(u32 \<Rightarrow> u8) \<Rightarrow> psa_invec list \<Rightarrow> nat \<Rightarrow> nat \<Rightarrow> wt_ffm_message_runtime \<Rightarrow> wt_ffm_message_runtime" where
  "ffm_copy_in mem [] i input_offset m = m"
| "ffm_copy_in mem (v # vs) i input_offset m =
     ffm_copy_in mem vs (Suc i) (input_offset + unat (inv_len v))
       (m\<lparr>msg_in_offset := (msg_in_offset m)(i := input_offset),
          msg_in_size := (msg_in_size m)(i := unat (inv_len v)),
          msg_input := (if inv_len v \<noteq> 0
            then buf_write (msg_input m) input_offset (mem_read mem (inv_base v) (unat (inv_len v)))
            else msg_input m)\<rparr>)"

fun ffm_layout_out ::
  "psa_outvec list \<Rightarrow> nat \<Rightarrow> nat \<Rightarrow> wt_ffm_message_runtime \<Rightarrow> wt_ffm_message_runtime" where
  "ffm_layout_out [] i output_offset m = m"
| "ffm_layout_out (v # vs) i output_offset m =
     ffm_layout_out vs (Suc i) (output_offset + unat (outv_len v))
       (m\<lparr>msg_out_offset := (msg_out_offset m)(i := output_offset),
          msg_out_size := (msg_out_size m)(i := unat (outv_len v)),
          msg_client_output := (msg_client_output m)(i := outv_base v)\<rparr>)"

definition ffm_refuse_info :: "u32 \<Rightarrow> nat \<Rightarrow> int \<Rightarrow> u32 \<Rightarrow> u32" where
  "ffm_refuse_info kind i caller len =
     push_bit 28 kind OR push_bit 24 (of_nat i) OR push_bit 16 (word_of_int caller AND 0xFF) OR
     (len AND 0xFFFF)"

definition wt_ffm_prepare_vectors ::
  "wt_ffm_port_ops \<Rightarrow> wt_ffm_runtime \<Rightarrow> nat \<Rightarrow> psa_invec carray \<Rightarrow> psa_outvec carray \<Rightarrow>
   wt_ffm_runtime \<times> int" where
  "wt_ffm_prepare_vectors ops rt message_index in_vec out_vec =
     (let caller = msg_caller (msg_of rt message_index);
          ins = carray_list in_vec; outs = carray_list out_vec in
      if (carray_count in_vec \<noteq> 0 \<and> carray_null in_vec) \<or>
         (carray_count out_vec \<noteq> 0 \<and> carray_null out_vec)
      then (rt, WT_FFM_ERROR_ARGUMENT)
      else case first_idx (\<lambda>v. inv_len v \<noteq> 0 \<and> \<not> po_check_read ops caller (inv_base v) (inv_len v))
                  (take PSA_MAX_IOVEC ins) of
        Some i \<Rightarrow>
          (rt\<lparr>g_wt_ffm_refuse_info := ffm_refuse_info 1 i caller (inv_len (ins ! i)),
              g_wt_ffm_refuse_base := inv_base (ins ! i)\<rparr>, WT_FFM_ERROR_POLICY)
      | None \<Rightarrow>
         (case first_idx (\<lambda>v. outv_len v \<noteq> 0 \<and> \<not> po_check_write ops caller (outv_base v) (outv_len v))
                  (take PSA_MAX_IOVEC outs) of
            Some i \<Rightarrow>
              (rt\<lparr>g_wt_ffm_refuse_info := ffm_refuse_info 2 i caller (outv_len (outs ! i)),
                  g_wt_ffm_refuse_base := outv_base (outs ! i)\<rparr>, WT_FFM_ERROR_POLICY)
          | None \<Rightarrow>
             (case wt_ipc_validate_vectors
                     (CArray (map (\<lambda>v. \<lparr>iv_base = inv_base v, iv_length = inv_len v\<rparr>) ins))
                     (CArray (map (\<lambda>v. \<lparr>iv_base = outv_base v, iv_length = outv_len v\<rparr>) outs))
                     (of_nat WT_FFM_TRANSFER_BYTES) (Some 0) of
                (ret, tot) \<Rightarrow>
                 (if ret \<noteq> WT_IPC_VALID
                  then (rt\<lparr>g_wt_ffm_refuse_info := push_bit 28 3 OR
                             ((case tot of None \<Rightarrow> 0 | Some t \<Rightarrow> t) AND 0xFFFF),
                           g_wt_ffm_refuse_base := 0\<rparr>, WT_FFM_ERROR_BUFFER)
                  else (upd_msg message_index (\<lambda>m.
                          ffm_layout_out outs 0 0 (ffm_copy_in (client_memory rt) ins 0 0
                            (m\<lparr>msg_in_count := length ins, msg_out_count := length outs\<rparr>))) rt,
                        WT_FFM_SUCCESS)))))"

section \<open>Dispatch\<close>

definition wt_ffm_dispatch_message ::
  "wt_ffm_port_ops \<Rightarrow> wt_ffm_runtime \<Rightarrow> nat \<Rightarrow> wt_ffm_runtime \<times> int" where
  "wt_ffm_dispatch_message ops rt message_index =
     (let part = part_of rt (sr_partition_index (svc_of rt (msg_service_index (msg_of rt message_index))));
          partition_id = sint (pm_domain_id (pr_manifest part));
          (rt', ret) = (case pr_dispatch part of
                          Some f \<Rightarrow> po_registered ops f rt partition_id
                        | None \<Rightarrow> po_dispatch ops rt partition_id) in
      if ret \<noteq> WT_FFM_SUCCESS then (rt', ret)
      else if \<not> msg_complete (msg_of rt' message_index) then (rt', WT_FFM_ERROR_NOT_READY)
      else (rt', WT_FFM_SUCCESS))"

definition wt_ffm_dispatch_pending ::
  "wt_ffm_port_ops \<Rightarrow> wt_ffm_runtime \<Rightarrow> nat \<Rightarrow> wt_ffm_runtime \<times> int" where
  "wt_ffm_dispatch_pending ops rt msg_index =
     (if msg_index \<ge> WT_FFM_MAX_MESSAGES \<or> \<not> msg_allocated (msg_of rt msg_index)
      then (rt, WT_FFM_ERROR_ARGUMENT)
      else wt_ffm_dispatch_message ops rt msg_index)"

section \<open>Initialisation and discovery\<close>

text \<open>The acceptance loop of \<open>wt_ffm_init\<close>: the total number of services, or a refusal.\<close>

fun ffm_init_check :: "wt_partition_manifest list \<Rightarrow> nat \<Rightarrow> nat option" where
  "ffm_init_check [] service_count = Some service_count"
| "ffm_init_check (p # ps) service_count =
     (if pm_model p \<noteq> Enum WT_PARTITION_MODEL_IPC then None
      else if pm_framework_version p > PSA_FRAMEWORK_VERSION then None
      else if carray_count (pm_services p) > WT_FFM_MAX_SERVICES - service_count then None
      else ffm_init_check ps (service_count + carray_count (pm_services p)))"

fun ffm_init_services :: "nat \<Rightarrow> wt_partition_manifest list \<Rightarrow> wt_ffm_service_runtime list" where
  "ffm_init_services i [] = []"
| "ffm_init_services i (p # ps) =
     map (\<lambda>d. \<lparr>sr_descriptor = d, sr_partition_index = i, sr_queue_head = WT_FFM_QUEUE_NONE,
               sr_queue_tail = WT_FFM_QUEUE_NONE\<rparr>) (services_of p) @
     ffm_init_services (Suc i) ps"

text \<open>
  The trace globals and the client memory, which \<open>wt_ffm_init\<close> does not touch, are taken
  from the state before.
\<close>

definition wt_ffm_init ::
  "wt_ffm_runtime \<Rightarrow> wt_system_manifest option \<Rightarrow> wt_ffm_runtime \<times> int" where
  "wt_ffm_init rt manifest =
     (case manifest of
        None \<Rightarrow> (rt, WT_FFM_ERROR_ARGUMENT)
      | Some m \<Rightarrow>
         (if carray_count (sm_partitions m) > WT_FFM_MAX_PARTITIONS then (rt, WT_FFM_ERROR_MANIFEST)
          else case ffm_init_check (partitions_of m) 0 of
            None \<Rightarrow> (rt, WT_FFM_ERROR_MANIFEST)
          | Some n \<Rightarrow>
             (rt\<lparr>rt_manifest := m,
                 rt_partitions := map (\<lambda>p. \<lparr>pr_manifest = p, pr_dispatch = None,
                    pr_asserted_signals = 0, pr_instance = 0\<rparr>) (partitions_of m),
                 rt_services := ffm_init_services 0 (partitions_of m),
                 rt_connections := replicate WT_FFM_MAX_CONNECTIONS
                    (zero_ffm_connection\<lparr>conn_generation := 1\<rparr>),
                 rt_messages := replicate WT_FFM_MAX_MESSAGES
                    (zero_ffm_message\<lparr>msg_generation := 1, msg_next := WT_FFM_QUEUE_NONE\<rparr>),
                 rt_lifecycle := 0\<rparr>, WT_FFM_SUCCESS)))"

definition wt_ffm_register_partition ::
  "wt_ffm_runtime \<Rightarrow> int \<Rightarrow> nat option \<Rightarrow> wt_ffm_runtime \<times> int" where
  "wt_ffm_register_partition rt partition_id dispatch =
     (if dispatch = None then (rt, WT_FFM_ERROR_ARGUMENT)
      else case wt_ffm_find_partition rt partition_id of
        Inl e \<Rightarrow> (rt, e)
      | Inr i \<Rightarrow> (upd_part i (\<lambda>p. p\<lparr>pr_dispatch := dispatch\<rparr>) rt, WT_FFM_SUCCESS))"

definition wt_ffm_framework_version :: "wt_ffm_runtime \<Rightarrow> u32" where
  "wt_ffm_framework_version rt =
     (let m = rt_manifest rt;
          version = (if sm_features m AND (WT_MANIFEST_FEATURE_SFN OR WT_MANIFEST_FEATURE_STATELESS OR
                          WT_MANIFEST_FEATURE_MM_IOVEC) \<noteq> 0 \<or>
                        list_ex (\<lambda>p. pm_framework_version p = WT_FFM_VERSION_1_1) (partitions_of m)
                     then WT_FFM_VERSION_1_1 else WT_FFM_VERSION_1_0) in
      if version > PSA_FRAMEWORK_VERSION then PSA_FRAMEWORK_VERSION else version)"

definition wt_ffm_set_lifecycle :: "wt_ffm_runtime \<Rightarrow> u32 \<Rightarrow> wt_ffm_runtime" where
  "wt_ffm_set_lifecycle rt lifecycle = rt\<lparr>rt_lifecycle := lifecycle\<rparr>"

definition wt_ffm_service_version :: "wt_ffm_runtime \<Rightarrow> int \<Rightarrow> u32 \<Rightarrow> u32" where
  "wt_ffm_service_version rt caller sid =
     (case wt_ffm_find_service rt sid of
        Inl _ \<Rightarrow> PSA_VERSION_NONE
      | Inr s \<Rightarrow> (if wt_ffm_caller_allowed rt caller s then sd_version (sr_descriptor (svc_of rt s))
                  else PSA_VERSION_NONE))"

section \<open>Connect\<close>

definition wt_ffm_client_connection_count :: "wt_ffm_runtime \<Rightarrow> int \<Rightarrow> nat" where
  "wt_ffm_client_connection_count rt caller =
     count_if (\<lambda>c. conn_allocated c \<and> conn_caller c = caller) (rt_connections rt)"

definition wt_ffm_ns_connection_count :: "wt_ffm_runtime \<Rightarrow> nat" where
  "wt_ffm_ns_connection_count rt =
     count_if (\<lambda>c. conn_allocated c \<and> conn_caller c < 0) (rt_connections rt)"

text \<open>The request message a client operation puts into its service's queue.\<close>

definition ffm_post ::
  "wt_ffm_runtime \<Rightarrow> nat \<Rightarrow> int \<Rightarrow> nat \<Rightarrow> nat \<Rightarrow> int \<Rightarrow> wt_ffm_runtime" where
  "ffm_post rt message_index caller connection_index service_index type =
     wt_ffm_enqueue
       (upd_msg message_index (\<lambda>m. m\<lparr>msg_caller := caller, msg_connection_index := connection_index,
          msg_service_index := service_index, msg_type := type\<rparr>) rt)
       service_index message_index"

definition wt_ffm_connect_begin ::
  "wt_ffm_runtime \<Rightarrow> int \<Rightarrow> u32 \<Rightarrow> u32 \<Rightarrow> wt_ffm_runtime \<times> int \<times> nat option" where
  "wt_ffm_connect_begin rt caller sid version =
     (if caller = 0 then (rt, PSA_ERROR_INVALID_ARGUMENT, None)
      else case wt_ffm_find_service rt sid of
        Inl _ \<Rightarrow> (rt, PSA_ERROR_CONNECTION_REFUSED, None)
      | Inr s \<Rightarrow>
         (let d = sr_descriptor (svc_of rt s) in
          if \<not> wt_ffm_caller_allowed rt caller s \<or> \<not> wt_ffm_version_allowed d version
          then (rt, PSA_ERROR_CONNECTION_REFUSED, None)
          else if sd_connection_based d = 0 then (rt, PSA_ERROR_NOT_SUPPORTED, None)
          else if wt_ffm_client_connection_count rt caller \<ge> WT_FFM_MAX_CONNECTIONS_PER_CLIENT
          then (rt, PSA_ERROR_CONNECTION_BUSY, None)
          else if caller < 0 \<and> wt_ffm_ns_connection_count rt \<ge> WT_FFM_MAX_NS_CONNECTIONS
          then (rt, PSA_ERROR_CONNECTION_BUSY, None)
          else case wt_ffm_alloc_connection rt of
            Inl _ \<Rightarrow> (rt, PSA_ERROR_CONNECTION_BUSY, None)
          | Inr (rt1, c) \<Rightarrow>
             (case wt_ffm_alloc_message rt1 of
                Inl _ \<Rightarrow> (wt_ffm_release_connection rt1 c, PSA_ERROR_CONNECTION_BUSY, None)
              | Inr (rt2, m) \<Rightarrow>
                 (let rt3 = upd_conn c (\<lambda>x. x\<lparr>conn_caller := caller,
                                 conn_client_instance := wt_ffm_caller_instance rt2 caller,
                                 conn_service_index := s,
                                 conn_state := WT_IPC_CONNECTION_PENDING_CONNECT\<rparr>) rt2;
                      handle = wt_ffm_make_handle WT_FFM_HANDLE_CONNECTION c
                                 (conn_generation (conn_of rt3 c)) in
                  (ffm_post rt3 m caller c s PSA_IPC_CONNECT, handle, Some m)))))"

definition ffm_connect_tail ::
  "wt_ffm_runtime \<Rightarrow> int \<Rightarrow> int \<Rightarrow> nat \<Rightarrow> nat \<Rightarrow> nat \<Rightarrow> (wt_ffm_runtime \<times> int) option" where
  "ffm_connect_tail rt ret handle service_index connection_index message_index =
     (let status = msg_reply_status (msg_of rt message_index) in
      if ret \<noteq> WT_FFM_SUCCESS \<and> msg_active (msg_of rt message_index)
      then Some (upd_msg message_index (\<lambda>m. m\<lparr>msg_abandoned := WT_FFM_ABANDONED_CLOSE\<rparr>) rt,
                 if ret = WT_FFM_ERROR_RESOURCE then PSA_ERROR_CONNECTION_BUSY
                 else PSA_ERROR_GENERIC_ERROR)
      else case (if ret \<noteq> WT_FFM_SUCCESS then wt_ffm_dequeue_message rt service_index message_index
                 else Some rt) of
        None \<Rightarrow> None
      | Some rt1 \<Rightarrow>
         (let rt2 = wt_ffm_release_message rt1 message_index in
          if ret \<noteq> WT_FFM_SUCCESS \<or> status \<noteq> PSA_SUCCESS
          then Some (wt_ffm_release_connection rt2 connection_index,
                     if ret = WT_FFM_ERROR_RESOURCE then PSA_ERROR_CONNECTION_BUSY
                     else if status = PSA_SUCCESS then PSA_ERROR_GENERIC_ERROR else status)
          else Some (rt2, handle)))"

definition wt_ffm_connect ::
  "wt_ffm_port_ops \<Rightarrow> wt_ffm_runtime \<Rightarrow> int \<Rightarrow> u32 \<Rightarrow> u32 \<Rightarrow> (wt_ffm_runtime \<times> int) option" where
  "wt_ffm_connect ops rt caller sid version =
     (case wt_ffm_connect_begin rt caller sid version of
        (rt1, handle, None) \<Rightarrow> Some (rt1, handle)
      | (rt1, handle, Some m) \<Rightarrow>
         (case wt_ffm_dispatch_message ops rt1 m of
            (rt2, ret) \<Rightarrow> ffm_connect_tail rt2 ret handle (msg_service_index (msg_of rt1 m))
                            (msg_connection_index (msg_of rt1 m)) m))"

definition wt_ffm_connect_finish :: "wt_ffm_runtime \<Rightarrow> nat \<Rightarrow> wt_ffm_runtime \<times> int" where
  "wt_ffm_connect_finish rt msg_index =
     (if msg_index \<ge> WT_FFM_MAX_MESSAGES then (rt, PSA_ERROR_INVALID_ARGUMENT)
      else let message = msg_of rt msg_index;
               connection_index = msg_connection_index message;
               status = msg_reply_status message;
               rt1 = wt_ffm_release_message rt msg_index in
        if status \<noteq> PSA_SUCCESS then (wt_ffm_release_connection rt1 connection_index, status)
        else (rt1, wt_ffm_make_handle WT_FFM_HANDLE_CONNECTION connection_index
                     (conn_generation (conn_of rt1 connection_index))))"

section \<open>Call\<close>

text \<open>
  The checks and the enqueue that \<open>wt_ffm_call\<close> and \<open>wt_ffm_call_begin\<close> share. \<open>site\<close> is
  what the operation records when it refuses at one of its numbered sites; \<open>Inl\<close> is the
  status of a refusal.
\<close>

definition ffm_drop_connection :: "wt_ffm_runtime \<Rightarrow> nat \<Rightarrow> wt_ffm_runtime" where
  "ffm_drop_connection rt c =
     (if conn_state (conn_of rt c) = WT_IPC_CONNECTION_IDLE
      then upd_conn c (\<lambda>x. x\<lparr>conn_state := WT_IPC_CONNECTION_ERROR\<rparr>) rt
      else upd_conn c (\<lambda>x. x\<lparr>conn_error_latch := True\<rparr>) rt)"

definition ffm_call_enqueue ::
  "wt_ffm_port_ops \<Rightarrow> (u32 \<Rightarrow> wt_ffm_runtime \<Rightarrow> wt_ffm_runtime) \<Rightarrow> wt_ffm_runtime \<Rightarrow> int \<Rightarrow> int \<Rightarrow>
   int \<Rightarrow> psa_invec carray \<Rightarrow> psa_outvec carray \<Rightarrow> wt_ffm_runtime \<times> (int + nat)" where
  "ffm_call_enqueue ops site rt caller handle type in_vec out_vec =
     (case wt_ffm_connection_from_handle rt caller handle of
        Inl _ \<Rightarrow> (site 5 rt, Inl PSA_ERROR_PROGRAMMER_ERROR)
      | Inr c \<Rightarrow>
         (if type < 0 \<or> carray_count in_vec > PSA_MAX_IOVEC \<or> carray_count out_vec > PSA_MAX_IOVEC \<or>
             carray_count in_vec + carray_count out_vec > PSA_MAX_IOVEC
          then (ffm_drop_connection (site 4 rt) c, Inl PSA_ERROR_PROGRAMMER_ERROR)
          else if conn_state (conn_of rt c) \<noteq> WT_IPC_CONNECTION_IDLE
          then (upd_conn c (\<lambda>x. x\<lparr>conn_error_latch := True\<rparr>) (site 6 rt),
                Inl PSA_ERROR_PROGRAMMER_ERROR)
          else case wt_ffm_alloc_message rt of
            Inl _ \<Rightarrow> (site 7 rt, Inl PSA_ERROR_INSUFFICIENT_MEMORY)
          | Inr (rt1, m) \<Rightarrow>
             (let s = conn_service_index (conn_of rt1 c);
                  rt2 = upd_msg m (\<lambda>x. x\<lparr>msg_caller := caller, msg_connection_index := c,
                          msg_service_index := s, msg_type := type\<rparr>) rt1 in
              case wt_ffm_prepare_vectors ops rt2 m in_vec out_vec of
                (rt3, ret) \<Rightarrow>
                 (if ret \<noteq> WT_FFM_SUCCESS
                  then let rt4 = wt_ffm_release_message rt3 m in
                    (if ret \<noteq> WT_FFM_ERROR_BUFFER
                     then upd_conn c (\<lambda>x. x\<lparr>conn_state := WT_IPC_CONNECTION_ERROR\<rparr>) rt4 else rt4,
                     Inl (if ret = WT_FFM_ERROR_BUFFER then PSA_ERROR_INVALID_ARGUMENT
                          else PSA_ERROR_PROGRAMMER_ERROR))
                  else (wt_ffm_enqueue
                          (upd_conn c (\<lambda>x. x\<lparr>conn_state := WT_IPC_CONNECTION_PENDING_REQUEST\<rparr>) rt3)
                          s m, Inr m)))))"

definition wt_ffm_call_begin ::
  "wt_ffm_port_ops \<Rightarrow> wt_ffm_runtime \<Rightarrow> int \<Rightarrow> int \<Rightarrow> int \<Rightarrow> psa_invec carray \<Rightarrow> psa_outvec carray \<Rightarrow>
   wt_ffm_runtime \<times> int \<times> nat option" where
  "wt_ffm_call_begin ops rt caller handle type in_vec out_vec =
     (if caller = 0 then (rt, PSA_ERROR_INVALID_ARGUMENT, None)
      else case ffm_call_enqueue ops (\<lambda>_. id) rt caller handle type in_vec out_vec of
        (rt', Inl status) \<Rightarrow> (rt', status, None)
      | (rt', Inr m) \<Rightarrow> (rt', PSA_SUCCESS, Some m))"

text \<open>The output loops: every destination is checked again before the first is written.\<close>

definition ffm_outputs_writable :: "wt_ffm_port_ops \<Rightarrow> wt_ffm_message_runtime \<Rightarrow> bool" where
  "ffm_outputs_writable ops m =
     list_all (\<lambda>i. msg_out_position m i = 0 \<or>
                 po_check_write ops (msg_caller m) (msg_client_output m i) (of_nat (msg_out_position m i)))
       [0..<msg_out_count m]"

definition ffm_publish :: "wt_ffm_message_runtime \<Rightarrow> (u32 \<Rightarrow> u8) \<Rightarrow> (u32 \<Rightarrow> u8)" where
  "ffm_publish m mem =
     fold (\<lambda>i mem. if msg_out_position m i \<noteq> 0
                   then mem_write mem (msg_client_output m i)
                          (buf_read (msg_output m) (msg_out_offset m i) (msg_out_position m i))
                   else mem) [0..<msg_out_count m] mem"

definition ffm_publish_lengths ::
  "wt_ffm_message_runtime \<Rightarrow> psa_outvec list \<Rightarrow> psa_outvec list" where
  "ffm_publish_lengths m vs =
     map (\<lambda>i. if i < msg_out_count m then (vs ! i)\<lparr>outv_len := of_nat (msg_out_position m i)\<rparr>
              else vs ! i) [0..<length vs]"

definition ffm_harvest_call ::
  "wt_ffm_port_ops \<Rightarrow> wt_ffm_runtime \<Rightarrow> nat \<Rightarrow> nat \<Rightarrow> psa_outvec list \<Rightarrow>
   wt_ffm_runtime \<times> int \<times> psa_outvec list" where
  "ffm_harvest_call ops rt c m vs =
     (let message = msg_of rt m; status = msg_reply_status message in
      if \<not> ffm_outputs_writable ops message
      then (wt_ffm_release_message
              (upd_conn c (\<lambda>x. x\<lparr>conn_state := WT_IPC_CONNECTION_ERROR\<rparr>) rt) m,
            PSA_ERROR_PROGRAMMER_ERROR, vs)
      else (wt_ffm_release_message (rt\<lparr>client_memory := ffm_publish message (client_memory rt)\<rparr>) m,
            status, ffm_publish_lengths message vs))"

definition ffm_call_tail ::
  "wt_ffm_port_ops \<Rightarrow> wt_ffm_runtime \<Rightarrow> int \<Rightarrow> nat \<Rightarrow> nat \<Rightarrow> psa_outvec list \<Rightarrow>
   (wt_ffm_runtime \<times> int \<times> psa_outvec list) option" where
  "ffm_call_tail ops rt ret c m vs =
     (if ret \<noteq> WT_FFM_SUCCESS
      then let rt1 = upd_conn c (\<lambda>x. x\<lparr>conn_state := WT_IPC_CONNECTION_ERROR\<rparr>) rt in
        if msg_active (msg_of rt m)
        then Some (upd_msg m (\<lambda>x. x\<lparr>msg_abandoned := WT_FFM_ABANDONED_REPLY,
                                     msg_client_output := (\<lambda>_. 0)\<rparr>)
                     (upd_conn c (\<lambda>x. x\<lparr>conn_error_latch := True\<rparr>) rt1),
                   PSA_ERROR_GENERIC_ERROR, vs)
        else case wt_ffm_dequeue_message rt1 (conn_service_index (conn_of rt1 c)) m of
            None \<Rightarrow> None
          | Some rt2 \<Rightarrow> Some (wt_ffm_release_message rt2 m, PSA_ERROR_GENERIC_ERROR, vs)
      else Some (ffm_harvest_call ops rt c m vs))"

text \<open>What \<open>wt_ffm_call\<close> leaves in the trace globals.\<close>

definition ffm_trace_shape ::
  "int \<Rightarrow> psa_invec carray \<Rightarrow> psa_outvec carray \<Rightarrow> wt_ffm_runtime \<Rightarrow> wt_ffm_runtime" where
  "ffm_trace_shape type in_vec out_vec rt =
     (if g_wt_ffm_call_trace rt AND 0xF0000000 = 0
      then rt\<lparr>g_wt_ffm_call_trace := push_bit 16 (word_of_int type) OR
                push_bit 8 (of_nat (carray_count in_vec) AND 0xFF) OR
                (of_nat (carray_count out_vec) AND 0xFF)\<rparr>
      else rt)"

definition ffm_trace_site :: "int \<Rightarrow> u32 \<Rightarrow> wt_ffm_runtime \<Rightarrow> wt_ffm_runtime" where
  "ffm_trace_site handle n rt =
     rt\<lparr>g_wt_ffm_call_trace := g_wt_ffm_call_trace rt OR push_bit 28 n,
        g_wt_ffm_refuse_base := (if n = 5 then word_of_int handle else g_wt_ffm_refuse_base rt)\<rparr>"

definition wt_ffm_call ::
  "wt_ffm_port_ops \<Rightarrow> wt_ffm_runtime \<Rightarrow> int \<Rightarrow> int \<Rightarrow> int \<Rightarrow> psa_invec carray \<Rightarrow> psa_outvec carray \<Rightarrow>
   (wt_ffm_runtime \<times> int \<times> psa_outvec list) option" where
  "wt_ffm_call ops rt caller handle type in_vec out_vec =
     (if caller = 0 then Some (rt, PSA_ERROR_INVALID_ARGUMENT, carray_list out_vec)
      else case ffm_call_enqueue ops (ffm_trace_site handle) (ffm_trace_shape type in_vec out_vec rt)
                  caller handle type in_vec out_vec of
        (rt1, Inl status) \<Rightarrow> Some (rt1, status, carray_list out_vec)
      | (rt1, Inr m) \<Rightarrow>
         (case wt_ffm_dispatch_message ops rt1 m of
            (rt2, ret) \<Rightarrow> ffm_call_tail ops rt2 ret (msg_connection_index (msg_of rt1 m)) m
                            (carray_list out_vec)))"

definition wt_ffm_call_refuse :: "wt_ffm_runtime \<Rightarrow> int \<Rightarrow> int \<Rightarrow> wt_ffm_runtime" where
  "wt_ffm_call_refuse rt caller handle =
     (if caller = 0 then rt
      else case wt_ffm_connection_from_handle rt caller handle of
        Inl _ \<Rightarrow> rt
      | Inr c \<Rightarrow> ffm_drop_connection rt c)"

definition wt_ffm_call_finish ::
  "wt_ffm_port_ops \<Rightarrow> wt_ffm_runtime \<Rightarrow> nat \<Rightarrow> psa_outvec carray \<Rightarrow>
   wt_ffm_runtime \<times> int \<times> psa_outvec list" where
  "wt_ffm_call_finish ops rt msg_index out_vec =
     (if msg_index \<ge> WT_FFM_MAX_MESSAGES then (rt, PSA_ERROR_INVALID_ARGUMENT, carray_list out_vec)
      else ffm_harvest_call ops rt (msg_connection_index (msg_of rt msg_index)) msg_index
             (carray_list out_vec))"

section \<open>Close\<close>

definition wt_ffm_close_begin ::
  "wt_ffm_runtime \<Rightarrow> int \<Rightarrow> int \<Rightarrow> wt_ffm_runtime \<times> int \<times> nat option" where
  "wt_ffm_close_begin rt caller handle =
     (if handle = PSA_NULL_HANDLE then (rt, WT_FFM_SUCCESS, Some WT_FFM_QUEUE_NONE)
      else if caller = 0 then (rt, WT_FFM_ERROR_ARGUMENT, None)
      else case wt_ffm_connection_from_handle rt caller handle of
        Inl e \<Rightarrow> (rt, e, None)
      | Inr c \<Rightarrow>
         (if conn_state (conn_of rt c) \<noteq> WT_IPC_CONNECTION_IDLE \<and>
             conn_state (conn_of rt c) \<noteq> WT_IPC_CONNECTION_ERROR
          then (rt, WT_FFM_ERROR_STATE, None)
          else case wt_ffm_close_abandoned rt c of
            (rt1, True) \<Rightarrow> (rt1, WT_FFM_SUCCESS, Some WT_FFM_QUEUE_NONE)
          | (rt1, False) \<Rightarrow>
             (case wt_ffm_alloc_message rt1 of
                Inl _ \<Rightarrow> (rt1, WT_FFM_ERROR_RESOURCE, None)
              | Inr (rt2, m) \<Rightarrow>
                 (let rt3 = upd_conn c (\<lambda>x. x\<lparr>conn_state := WT_IPC_CONNECTION_DISCONNECTING\<rparr>) rt2 in
                  (ffm_post rt3 m caller c (conn_service_index (conn_of rt3 c)) PSA_IPC_DISCONNECT,
                   WT_FFM_SUCCESS, Some m)))))"

definition ffm_close_tail ::
  "wt_ffm_runtime \<Rightarrow> int \<Rightarrow> nat \<Rightarrow> nat \<Rightarrow> (wt_ffm_runtime \<times> int) option" where
  "ffm_close_tail rt ret c m =
     (if ret \<noteq> WT_FFM_SUCCESS \<and> msg_active (msg_of rt m)
      then Some (upd_msg m (\<lambda>x. x\<lparr>msg_abandoned := WT_FFM_ABANDONED_CLOSE\<rparr>) rt, ret)
      else case (if ret \<noteq> WT_FFM_SUCCESS
                 then wt_ffm_dequeue_message rt (conn_service_index (conn_of rt c)) m
                 else Some rt) of
        None \<Rightarrow> None
      | Some rt1 \<Rightarrow>
         (let rt2 = wt_ffm_release_message rt1 m in
          Some (if ret = WT_FFM_SUCCESS then wt_ffm_release_connection rt2 c else rt2, ret)))"

text \<open>The synchronous close does not write \<open>*msg_index\<close>; its early successes are the same.\<close>

definition wt_ffm_close ::
  "wt_ffm_port_ops \<Rightarrow> wt_ffm_runtime \<Rightarrow> int \<Rightarrow> int \<Rightarrow> (wt_ffm_runtime \<times> int) option" where
  "wt_ffm_close ops rt caller handle =
     (case wt_ffm_close_begin rt caller handle of
        (rt1, ret, None) \<Rightarrow> Some (rt1, ret)
      | (rt1, ret, Some m) \<Rightarrow>
         (if m = WT_FFM_QUEUE_NONE then Some (rt1, ret)
          else case wt_ffm_dispatch_message ops rt1 m of
            (rt2, ret) \<Rightarrow> ffm_close_tail rt2 ret (msg_connection_index (msg_of rt1 m)) m))"

definition wt_ffm_close_finish :: "wt_ffm_runtime \<Rightarrow> nat \<Rightarrow> wt_ffm_runtime \<times> int" where
  "wt_ffm_close_finish rt msg_index =
     (if msg_index \<ge> WT_FFM_MAX_MESSAGES then (rt, WT_FFM_ERROR_ARGUMENT)
      else (wt_ffm_release_connection (wt_ffm_release_message rt msg_index)
              (msg_connection_index (msg_of rt msg_index)), WT_FFM_SUCCESS))"

definition wt_ffm_msg_complete :: "wt_ffm_runtime \<Rightarrow> nat \<Rightarrow> bool" where
  "wt_ffm_msg_complete rt msg_index =
     (if msg_index \<ge> WT_FFM_MAX_MESSAGES then False
      else msg_allocated (msg_of rt msg_index) \<and> msg_complete (msg_of rt msg_index))"

end
