(* ===== verification/Ffm_Service.thy ===== *)
theory Ffm_Service
  imports Ffm_Client
begin

text \<open>
  The partition side of \<open>src/ffm.c\<close>: signals, message delivery, the input and output
  streams of a request, replies, and the clean-up after a fault of a partition or a client.
\<close>

section \<open>Signals\<close>

definition wt_ffm_partition_signal_set :: "wt_ffm_runtime \<Rightarrow> nat \<Rightarrow> u32" where
  "wt_ffm_partition_signal_set rt partition_index =
     fold (\<lambda>x acc. acc OR mi_signal x) (irqs_of (pr_manifest (part_of rt partition_index)))
       (fold (\<lambda>s acc. if sr_partition_index s = partition_index
                      then acc OR sd_signal (sr_descriptor s) else acc)
          (rt_services rt) PSA_DOORBELL)"

text \<open>The second component is what \<open>*asserted\<close> is set to, if it is written.\<close>

definition wt_ffm_wait :: "wt_ffm_runtime \<Rightarrow> int \<Rightarrow> u32 \<Rightarrow> int \<times> u32 option" where
  "wt_ffm_wait rt partition_id signal_mask =
     (if signal_mask = 0 then (WT_FFM_ERROR_ARGUMENT, None)
      else case wt_ffm_find_partition rt partition_id of
        Inl _ \<Rightarrow> (WT_FFM_ERROR_POLICY, None)
      | Inr p \<Rightarrow>
         (if signal_mask AND wt_ffm_partition_signal_set rt p = 0 then (WT_FFM_ERROR_ARGUMENT, None)
          else let a = pr_asserted_signals (part_of rt p) AND signal_mask in
            (if a = 0 then WT_FFM_ERROR_NOT_READY else WT_FFM_SUCCESS, Some a)))"

definition wt_ffm_notify :: "wt_ffm_runtime \<Rightarrow> int \<Rightarrow> wt_ffm_runtime \<times> int" where
  "wt_ffm_notify rt partition_id =
     (case wt_ffm_find_partition rt partition_id of
        Inl _ \<Rightarrow> (rt, WT_FFM_ERROR_POLICY)
      | Inr p \<Rightarrow> (upd_part p (\<lambda>x. x\<lparr>pr_asserted_signals := pr_asserted_signals x OR PSA_DOORBELL\<rparr>) rt,
                  WT_FFM_SUCCESS))"

definition wt_ffm_clear :: "wt_ffm_runtime \<Rightarrow> int \<Rightarrow> wt_ffm_runtime \<times> int" where
  "wt_ffm_clear rt partition_id =
     (case wt_ffm_find_partition rt partition_id of
        Inl _ \<Rightarrow> (rt, WT_FFM_ERROR_POLICY)
      | Inr p \<Rightarrow>
         (if pr_asserted_signals (part_of rt p) AND PSA_DOORBELL = 0 then (rt, WT_FFM_ERROR_STATE)
          else (upd_part p (\<lambda>x. x\<lparr>pr_asserted_signals := pr_asserted_signals x AND NOT PSA_DOORBELL\<rparr>) rt,
                WT_FFM_SUCCESS)))"

definition ffm_interrupt_mask :: "wt_partition_manifest \<Rightarrow> u32" where
  "ffm_interrupt_mask p = fold (\<lambda>x acc. acc OR mi_signal x) (irqs_of p) 0"

definition wt_ffm_eoi :: "wt_ffm_runtime \<Rightarrow> int \<Rightarrow> u32 \<Rightarrow> wt_ffm_runtime \<times> int" where
  "wt_ffm_eoi rt partition_id irq_signal =
     (case wt_ffm_find_partition rt partition_id of
        Inl _ \<Rightarrow> (rt, WT_FFM_ERROR_POLICY)
      | Inr p \<Rightarrow>
         (if irq_signal = 0 \<or> irq_signal AND (irq_signal - 1) \<noteq> 0 then (rt, WT_FFM_ERROR_ARGUMENT)
          else if irq_signal AND ffm_interrupt_mask (pr_manifest (part_of rt p)) = 0
          then (rt, WT_FFM_ERROR_POLICY)
          else if pr_asserted_signals (part_of rt p) AND irq_signal = 0 then (rt, WT_FFM_ERROR_STATE)
          else (upd_part p (\<lambda>x. x\<lparr>pr_asserted_signals := pr_asserted_signals x AND NOT irq_signal\<rparr>) rt,
                WT_FFM_SUCCESS)))"

definition wt_ffm_irq_lookup :: "wt_ffm_runtime \<Rightarrow> int \<Rightarrow> u32 \<Rightarrow> int + u32" where
  "wt_ffm_irq_lookup rt partition_id irq_signal =
     (case wt_ffm_find_partition rt partition_id of
        Inl _ \<Rightarrow> Inl WT_FFM_ERROR_POLICY
      | Inr p \<Rightarrow>
         (if irq_signal = 0 \<or> irq_signal AND (irq_signal - 1) \<noteq> 0 then Inl WT_FFM_ERROR_ARGUMENT
          else case find (\<lambda>x. mi_signal x = irq_signal) (irqs_of (pr_manifest (part_of rt p))) of
            None \<Rightarrow> Inl WT_FFM_ERROR_POLICY
          | Some x \<Rightarrow> Inr (mi_interrupt x)))"

text \<open>The partition id and the signal of the first declaration of an interrupt line.\<close>

fun ffm_irq_route_loop :: "wt_ffm_partition_runtime list \<Rightarrow> u32 \<Rightarrow> (int \<times> u32) option" where
  "ffm_irq_route_loop [] irq = None"
| "ffm_irq_route_loop (p # ps) irq =
     (case find (\<lambda>x. mi_interrupt x = irq) (irqs_of (pr_manifest p)) of
        Some x \<Rightarrow> Some (sint (pm_domain_id (pr_manifest p)), mi_signal x)
      | None \<Rightarrow> ffm_irq_route_loop ps irq)"

definition wt_ffm_irq_route :: "wt_ffm_runtime \<Rightarrow> u32 \<Rightarrow> int + (int \<times> u32)" where
  "wt_ffm_irq_route rt irq =
     (case ffm_irq_route_loop (rt_partitions rt) irq of
        None \<Rightarrow> Inl WT_FFM_ERROR_POLICY
      | Some r \<Rightarrow> Inr r)"

definition wt_ffm_assert_signal :: "wt_ffm_runtime \<Rightarrow> int \<Rightarrow> u32 \<Rightarrow> wt_ffm_runtime \<times> int" where
  "wt_ffm_assert_signal rt partition_id irq_signal =
     (case wt_ffm_irq_lookup rt partition_id irq_signal of
        Inl e \<Rightarrow> (rt, e)
      | Inr _ \<Rightarrow>
         (case wt_ffm_find_partition rt partition_id of
            Inl _ \<Rightarrow> (rt, WT_FFM_ERROR_POLICY)
          | Inr p \<Rightarrow>
             (upd_part p (\<lambda>x. x\<lparr>pr_asserted_signals := pr_asserted_signals x OR irq_signal\<rparr>) rt,
              WT_FFM_SUCCESS)))"

section \<open>Delivery\<close>

definition wt_ffm_get ::
  "wt_ffm_runtime \<Rightarrow> int \<Rightarrow> u32 \<Rightarrow> wt_ffm_runtime \<times> int \<times> psa_msg_t option" where
  "wt_ffm_get rt partition_id signal =
     (case (if signal = 0 then Inl 0 else wt_ffm_find_partition rt partition_id) of
        Inl _ \<Rightarrow> (rt, PSA_ERROR_PROGRAMMER_ERROR, None)
      | Inr p \<Rightarrow>
         (case first_idx (\<lambda>s. sr_partition_index s = p \<and> sd_signal (sr_descriptor s) = signal)
                 (rt_services rt) of
            None \<Rightarrow> (rt, PSA_ERROR_DOES_NOT_EXIST, None)
          | Some s \<Rightarrow>
             (let m = sr_queue_head (svc_of rt s) in
              if m = WT_FFM_QUEUE_NONE then (rt, PSA_ERROR_DOES_NOT_EXIST, None)
              else let message = msg_of rt m;
                       rt1 = upd_svc s (\<lambda>x. x\<lparr>sr_queue_head := msg_next message,
                               sr_queue_tail := (if msg_next message = WT_FFM_QUEUE_NONE
                                                 then WT_FFM_QUEUE_NONE else sr_queue_tail x)\<rparr>) rt;
                       rt2 = upd_msg m (\<lambda>x. x\<lparr>msg_next := WT_FFM_QUEUE_NONE, msg_active := True\<rparr>) rt1;
                       rt3 = wt_ffm_update_service_signal rt2 (msg_service_index message);
                       c = msg_connection_index message;
                       rt4 = (if msg_type message = PSA_IPC_CONNECT
                              then upd_conn c (\<lambda>x. x\<lparr>conn_state := WT_IPC_CONNECTION_CONNECTING\<rparr>) rt3
                              else if msg_type message \<ge> PSA_IPC_CALL
                              then upd_conn c (\<lambda>x. x\<lparr>conn_state := WT_IPC_CONNECTION_ACTIVE\<rparr>) rt3
                              else rt3) in
                (rt4, PSA_SUCCESS,
                 Some \<lparr>pm_type = msg_type message,
                       pm_handle = wt_ffm_make_handle WT_FFM_HANDLE_MESSAGE m (msg_generation message),
                       pm_client_id = msg_caller message,
                       pm_rhandle = conn_rhandle (conn_of rt4 c),
                       pm_in_size = msg_in_size message,
                       pm_out_size = msg_out_size message\<rparr>))))"

definition wt_ffm_set_rhandle :: "wt_ffm_runtime \<Rightarrow> int \<Rightarrow> int \<Rightarrow> u32 \<Rightarrow> wt_ffm_runtime \<times> int" where
  "wt_ffm_set_rhandle rt partition_id msg_handle rhandle =
     (case wt_ffm_message_from_handle rt partition_id msg_handle of
        Inl _ \<Rightarrow> (rt, WT_FFM_ERROR_HANDLE)
      | Inr m \<Rightarrow>
         (if msg_type (msg_of rt m) = PSA_IPC_DISCONNECT then (rt, WT_FFM_SUCCESS)
          else (upd_conn (msg_connection_index (msg_of rt m)) (\<lambda>c. c\<lparr>conn_rhandle := rhandle\<rparr>) rt,
                WT_FFM_SUCCESS)))"

section \<open>Request streams\<close>

definition wt_ffm_msg_access_check :: "wt_ffm_runtime \<Rightarrow> int \<Rightarrow> int \<Rightarrow> nat \<Rightarrow> int" where
  "wt_ffm_msg_access_check rt partition_id msg_handle vec_idx =
     (if vec_idx \<ge> PSA_MAX_IOVEC then WT_FFM_ERROR_ARGUMENT
      else case wt_ffm_message_from_handle rt partition_id msg_handle of
        Inl _ \<Rightarrow> WT_FFM_ERROR_HANDLE
      | Inr m \<Rightarrow> (if msg_type (msg_of rt m) < PSA_IPC_CALL then WT_FFM_ERROR_STATE else WT_FFM_SUCCESS))"

text \<open>\<open>wt_ffm_read\<close> also returns the bytes it stores through \<open>buffer\<close>.\<close>

definition wt_ffm_read ::
  "wt_ffm_runtime \<Rightarrow> int \<Rightarrow> int \<Rightarrow> nat \<Rightarrow> bool \<Rightarrow> nat \<Rightarrow> wt_ffm_runtime \<times> nat \<times> u8 list" where
  "wt_ffm_read rt partition_id msg_handle invec_idx buffer_null num_bytes =
     (if buffer_null \<or> invec_idx \<ge> PSA_MAX_IOVEC then (rt, 0, [])
      else case wt_ffm_message_from_handle rt partition_id msg_handle of
        Inl _ \<Rightarrow> (rt, 0, [])
      | Inr m \<Rightarrow>
         (let message = msg_of rt m in
          if msg_type message < PSA_IPC_CALL \<or> invec_idx \<ge> msg_in_count message then (rt, 0, [])
          else let remaining = msg_in_size message invec_idx - msg_in_position message invec_idx;
                   length = (if num_bytes < remaining then num_bytes else remaining) in
            if length \<noteq> 0
            then (upd_msg m (\<lambda>x. x\<lparr>msg_in_position := (msg_in_position x)
                      (invec_idx := msg_in_position x invec_idx + length)\<rparr>) rt, length,
                  buf_read (msg_input message)
                    (msg_in_offset message invec_idx + msg_in_position message invec_idx) length)
            else (rt, length, [])))"

definition wt_ffm_skip ::
  "wt_ffm_runtime \<Rightarrow> int \<Rightarrow> int \<Rightarrow> nat \<Rightarrow> nat \<Rightarrow> wt_ffm_runtime \<times> nat" where
  "wt_ffm_skip rt partition_id msg_handle invec_idx num_bytes =
     (if invec_idx \<ge> PSA_MAX_IOVEC then (rt, 0)
      else case wt_ffm_message_from_handle rt partition_id msg_handle of
        Inl _ \<Rightarrow> (rt, 0)
      | Inr m \<Rightarrow>
         (let message = msg_of rt m in
          if msg_type message < PSA_IPC_CALL \<or> invec_idx \<ge> msg_in_count message then (rt, 0)
          else let remaining = msg_in_size message invec_idx - msg_in_position message invec_idx;
                   length = (if num_bytes < remaining then num_bytes else remaining) in
            (upd_msg m (\<lambda>x. x\<lparr>msg_in_position := (msg_in_position x)
                (invec_idx := msg_in_position x invec_idx + length)\<rparr>) rt, length)))"

definition wt_ffm_write ::
  "wt_ffm_runtime \<Rightarrow> int \<Rightarrow> int \<Rightarrow> nat \<Rightarrow> u8 carray \<Rightarrow> wt_ffm_runtime \<times> int" where
  "wt_ffm_write rt partition_id msg_handle outvec_idx buffer =
     (let num_bytes = carray_count buffer in
      if carray_null buffer \<and> num_bytes \<noteq> 0 \<or> outvec_idx \<ge> PSA_MAX_IOVEC
      then (rt, WT_FFM_ERROR_ARGUMENT)
      else case wt_ffm_message_from_handle rt partition_id msg_handle of
        Inl _ \<Rightarrow> (rt, WT_FFM_ERROR_ARGUMENT)
      | Inr m \<Rightarrow>
         (let message = msg_of rt m in
          if msg_type message < PSA_IPC_CALL then (rt, WT_FFM_ERROR_STATE)
          else if outvec_idx \<ge> msg_out_count message
          then (rt, if num_bytes = 0 then WT_FFM_SUCCESS else WT_FFM_ERROR_BUFFER)
          else if num_bytes > msg_out_size message outvec_idx - msg_out_position message outvec_idx
          then (rt, WT_FFM_ERROR_BUFFER)
          else if num_bytes \<noteq> 0
          then (upd_msg m (\<lambda>x. x\<lparr>msg_output := buf_write (msg_output x)
                      (msg_out_offset x outvec_idx + msg_out_position x outvec_idx)
                      (carray_list buffer),
                    msg_out_position := (msg_out_position x)
                      (outvec_idx := msg_out_position x outvec_idx + num_bytes)\<rparr>) rt, WT_FFM_SUCCESS)
          else (rt, WT_FFM_SUCCESS)))"

section \<open>Replies\<close>

definition wt_ffm_finish_abandoned :: "wt_ffm_runtime \<Rightarrow> nat \<Rightarrow> wt_ffm_runtime" where
  "wt_ffm_finish_abandoned rt message_index =
     (let message = msg_of rt message_index;
          c = msg_connection_index message;
          disconnect = (msg_type message = PSA_IPC_CONNECT \<and> msg_reply_status message = PSA_SUCCESS) \<or>
                       (msg_type message \<ge> PSA_IPC_CALL \<and> msg_abandoned message = WT_FFM_ABANDONED_CLOSE);
          rt1 = (if \<not> disconnect \<and> msg_type message < PSA_IPC_CALL
                 then wt_ffm_release_connection rt c else rt);
          rt2 = wt_ffm_release_message rt1 message_index in
      if disconnect
      then let s = conn_service_index (conn_of rt2 c);
               rt3 = upd_msg message_index (\<lambda>m. m\<lparr>msg_allocated := True,
                       msg_abandoned := WT_FFM_ABANDONED_CLOSE,
                       msg_caller := conn_caller (conn_of rt2 c), msg_connection_index := c,
                       msg_service_index := s, msg_type := PSA_IPC_DISCONNECT\<rparr>) rt2;
               rt4 = upd_conn c (\<lambda>x. x\<lparr>conn_state := WT_IPC_CONNECTION_DISCONNECTING\<rparr>) rt3 in
        wt_ffm_enqueue rt4 s message_index
      else rt2)"

text \<open>
  The connection state a reply leads to, or the code of a reply the message does not admit.
\<close>

definition ffm_reply_state ::
  "wt_ffm_message_runtime \<Rightarrow> wt_ffm_connection_runtime \<Rightarrow> int \<Rightarrow> int + wt_ipc_connection_state" where
  "ffm_reply_state message connection status =
     (if msg_type message = PSA_IPC_CONNECT
      then (if status \<noteq> PSA_SUCCESS \<and> status \<noteq> PSA_ERROR_CONNECTION_REFUSED \<and>
               status \<noteq> PSA_ERROR_CONNECTION_BUSY
            then Inl WT_FFM_ERROR_ARGUMENT
            else Inr (if status = PSA_SUCCESS then WT_IPC_CONNECTION_IDLE else WT_IPC_CONNECTION_ERROR))
      else if msg_type message = PSA_IPC_DISCONNECT then Inr WT_IPC_CONNECTION_TERMINAL
      else if msg_type message \<ge> PSA_IPC_CALL
      then (if status = PSA_ERROR_CONNECTION_REFUSED \<or> status = PSA_ERROR_CONNECTION_BUSY
            then Inl WT_FFM_ERROR_ARGUMENT
            else Inr (if status = PSA_ERROR_PROGRAMMER_ERROR \<or> conn_error_latch connection
                      then WT_IPC_CONNECTION_ERROR else WT_IPC_CONNECTION_IDLE))
      else Inl WT_FFM_ERROR_STATE)"

definition wt_ffm_reply :: "wt_ffm_runtime \<Rightarrow> int \<Rightarrow> int \<Rightarrow> int \<Rightarrow> wt_ffm_runtime \<times> int" where
  "wt_ffm_reply rt partition_id msg_handle status =
     (case wt_ffm_message_from_handle rt partition_id msg_handle of
        Inl _ \<Rightarrow> (rt, WT_FFM_ERROR_HANDLE)
      | Inr m \<Rightarrow>
         (let message = msg_of rt m; c = msg_connection_index message in
          case ffm_reply_state message (conn_of rt c) status of
            Inl e \<Rightarrow> (rt, e)
          | Inr st \<Rightarrow>
             (let rt1 = upd_msg m (\<lambda>x. x\<lparr>msg_reply_status := status, msg_active := False,
                          msg_complete := True\<rparr>) (upd_conn c (\<lambda>x. x\<lparr>conn_state := st\<rparr>) rt) in
              (if msg_abandoned message \<noteq> NOT_ABANDONED then wt_ffm_finish_abandoned rt1 m else rt1,
               WT_FFM_SUCCESS))))"

section \<open>Faults\<close>

definition ffm_served_by :: "wt_ffm_runtime \<Rightarrow> nat \<Rightarrow> int \<Rightarrow> bool" where
  "ffm_served_by rt service_index partition_id \<longleftrightarrow>
     pm_domain_id (pr_manifest (part_of rt (sr_partition_index (svc_of rt service_index)))) =
       word_of_int partition_id"

text \<open>One round of each of the three loops of \<open>wt_ffm_fail_partition_messages\<close>.\<close>

definition ffm_fail_message :: "int \<Rightarrow> int \<Rightarrow> nat \<Rightarrow> wt_ffm_runtime \<times> int \<Rightarrow> wt_ffm_runtime \<times> int" where
  "ffm_fail_message partition_id status i = (\<lambda>(rt, failed).
     (let message = msg_of rt i; c = msg_connection_index message in
      if \<not> msg_allocated message \<or> msg_complete message then (rt, failed)
      else if \<not> ffm_served_by rt (msg_service_index message) partition_id then (rt, failed)
      else let rt1 = upd_conn c (\<lambda>x. x\<lparr>conn_state := WT_IPC_CONNECTION_ERROR\<rparr>)
                 (upd_msg i (\<lambda>x. x\<lparr>msg_reply_status := status, msg_active := False,
                    msg_complete := True\<rparr>) rt);
               rt2 = (if msg_abandoned message \<noteq> NOT_ABANDONED
                      then wt_ffm_release_message
                             (if msg_abandoned message = WT_FFM_ABANDONED_CLOSE
                              then wt_ffm_release_connection rt1 c else rt1) i
                      else rt1) in
        (rt2, failed + 1)))"

definition ffm_drain_service :: "int \<Rightarrow> nat \<Rightarrow> wt_ffm_runtime \<Rightarrow> wt_ffm_runtime" where
  "ffm_drain_service partition_id i rt =
     (if \<not> ffm_served_by rt i partition_id then rt
      else wt_ffm_update_service_signal
             (upd_svc i (\<lambda>s. s\<lparr>sr_queue_head := WT_FFM_QUEUE_NONE,
                                sr_queue_tail := WT_FFM_QUEUE_NONE\<rparr>) rt) i)"

definition ffm_fail_connection :: "int \<Rightarrow> nat \<Rightarrow> wt_ffm_runtime \<Rightarrow> wt_ffm_runtime" where
  "ffm_fail_connection partition_id i rt =
     (let connection = conn_of rt i in
      if \<not> conn_allocated connection \<or> conn_state connection = WT_IPC_CONNECTION_FREE \<or>
         conn_state connection = WT_IPC_CONNECTION_TERMINAL
      then rt
      else if \<not> ffm_served_by rt (conn_service_index connection) partition_id then rt
      else upd_conn i (\<lambda>c. c\<lparr>conn_state := WT_IPC_CONNECTION_ERROR, conn_rhandle := 0\<rparr>) rt)"

definition wt_ffm_fail_partition_messages ::
  "wt_ffm_runtime \<Rightarrow> int \<Rightarrow> int \<Rightarrow> wt_ffm_runtime \<times> int" where
  "wt_ffm_fail_partition_messages rt partition_id status =
     (case fold (ffm_fail_message partition_id status) [0..<WT_FFM_MAX_MESSAGES] (rt, 0) of
        (rt1, failed) \<Rightarrow>
          (fold (ffm_fail_connection partition_id) [0..<WT_FFM_MAX_CONNECTIONS]
             (fold (ffm_drain_service partition_id) [0..<length (rt_services rt1)] rt1), failed))"

text \<open>The two loops of \<open>wt_ffm_fail_client_connections\<close>.\<close>

fun ffm_fail_client_messages :: "int \<Rightarrow> nat list \<Rightarrow> wt_ffm_runtime \<Rightarrow> wt_ffm_runtime option" where
  "ffm_fail_client_messages caller [] rt = Some rt"
| "ffm_fail_client_messages caller (i # is) rt =
     (let message = msg_of rt i in
      if \<not> msg_allocated message \<or> msg_caller message \<noteq> caller
      then ffm_fail_client_messages caller is rt
      else case (if \<not> msg_complete message \<and> \<not> msg_active message
                 then wt_ffm_dequeue_message rt (msg_service_index message) i else Some rt) of
        None \<Rightarrow> None
      | Some rt1 \<Rightarrow> ffm_fail_client_messages caller is (wt_ffm_release_message rt1 i))"

definition ffm_free_connection :: "int \<Rightarrow> nat \<Rightarrow> wt_ffm_runtime \<times> int \<Rightarrow> wt_ffm_runtime \<times> int" where
  "ffm_free_connection caller i = (\<lambda>(rt, freed).
     (if \<not> conn_allocated (conn_of rt i) \<or> conn_caller (conn_of rt i) \<noteq> caller then (rt, freed)
      else (wt_ffm_release_connection rt i, freed + 1)))"

definition wt_ffm_fail_client_connections ::
  "wt_ffm_runtime \<Rightarrow> int \<Rightarrow> (wt_ffm_runtime \<times> int) option" where
  "wt_ffm_fail_client_connections rt caller =
     (case ffm_fail_client_messages caller [0..<WT_FFM_MAX_MESSAGES] rt of
        None \<Rightarrow> None
      | Some rt1 \<Rightarrow> Some (fold (ffm_free_connection caller) [0..<WT_FFM_MAX_CONNECTIONS] (rt1, 0)))"

definition wt_ffm_partition_restarted ::
  "wt_ffm_runtime \<Rightarrow> int \<Rightarrow> int \<Rightarrow> (wt_ffm_runtime \<times> int) option" where
  "wt_ffm_partition_restarted rt partition_id status =
     (case wt_ffm_find_partition rt partition_id of
        Inl _ \<Rightarrow> Some (rt, WT_FFM_ERROR_POLICY)
      | Inr p \<Rightarrow>
         (case wt_ffm_fail_partition_messages rt partition_id status of
            (rt1, failed) \<Rightarrow>
             (case wt_ffm_fail_client_connections rt1 partition_id of
                None \<Rightarrow> None
              | Some (rt2, _) \<Rightarrow>
                 Some (upd_part p (\<lambda>x. x\<lparr>pr_asserted_signals := 0, pr_instance := pr_instance x + 1\<rparr>) rt2,
                       failed))))"

end
