(* ===== verification/Linked_List.thy ===== *)
theory Linked_List
  imports Wt_Prelude
begin

text \<open>
  Singly linked queues threaded through a \<open>next\<close> field, with a head and a tail link: the
  representation the message queues, the run queue and the wait queues of the sources
  share. \<open>nul\<close> is the link that ends a list.
\<close>

text \<open>
  \<open>threaded nul nx h t q\<close>: following \<open>nx\<close> from the head \<open>h\<close> visits exactly the list \<open>q\<close>,
  without repetition, and \<open>t\<close> is its last element.
\<close>

fun follows :: "'a \<Rightarrow> ('a \<Rightarrow> 'a) \<Rightarrow> 'a \<Rightarrow> 'a list \<Rightarrow> bool" where
  "follows nul nx h [] \<longleftrightarrow> h = nul"
| "follows nul nx h (m # ms) \<longleftrightarrow> h = m \<and> m \<noteq> nul \<and> follows nul nx (nx m) ms"

definition threaded :: "'a \<Rightarrow> ('a \<Rightarrow> 'a) \<Rightarrow> 'a \<Rightarrow> 'a \<Rightarrow> 'a list \<Rightarrow> bool" where
  "threaded nul nx h t q \<longleftrightarrow> follows nul nx h q \<and> distinct q \<and>
     t = (if q = [] then nul else last q)"

lemma follows_not_none: "follows nul nx h q \<Longrightarrow> nul \<notin> set q"
  by (induction q arbitrary: h) auto

lemma follows_cong: "(\<And>x. x \<in> set q \<Longrightarrow> nx x = nx' x) \<Longrightarrow> follows nul nx h q = follows nul nx' h q"
  by (induction q arbitrary: h) auto

lemma follows_skip [simp]:
  "m \<notin> set q \<Longrightarrow> follows nul (nx(m := x)) h q = follows nul nx h q"
  "m \<notin> set q \<Longrightarrow> follows nul (\<lambda>a. if a = m then x else nx a) h q = follows nul nx h q"
  by (rule follows_cong, force)+

lemma last_not_in: "x \<notin> set q \<Longrightarrow> q \<noteq> [] \<Longrightarrow> last q \<noteq> x"
  by (metis last_in_set)

lemma follows_unique: "follows nul nx h q \<Longrightarrow> follows nul nx h q' \<Longrightarrow> q = q'"
proof (induction q arbitrary: h q')
  case Nil
  then show ?case by (cases q') auto
next
  case (Cons m q)
  then show ?case by (cases q') auto
qed

lemma follows_snoc:
  assumes "follows nul nx h q" "distinct q" "m \<notin> set q" "m \<noteq> nul" "nx m = nul"
  shows "follows nul (if q = [] then nx else nx(last q := m)) (if q = [] then m else h) (q @ [m])"
  using assms
proof (induction q arbitrary: h)
  case Nil
  then show ?case by simp
next
  case (Cons a q)
  show ?case
  proof (cases "q = []")
    case True
    then show ?thesis using Cons.prems by auto
  next
    case False
    then have "a \<noteq> last q" using Cons.prems by auto
    then show ?thesis using Cons.IH [of "nx a"] Cons.prems False by auto
  qed
qed

lemma threaded_cong:
  "(\<And>x. x \<in> set q \<Longrightarrow> nx x = nx' x) \<Longrightarrow> threaded nul nx h t q = threaded nul nx' h t q"
  unfolding threaded_def using follows_cong [of q nx nx' nul h] by blast

lemma threaded_skip [simp]: "m \<notin> set q \<Longrightarrow> threaded nul (nx(m := x)) h t q = threaded nul nx h t q"
  by (simp add: threaded_def)

lemma follows_append:
  "follows nul nx h (xs @ ys) \<Longrightarrow> follows nul nx (if xs = [] then h else nx (last xs)) ys"
  by (induction xs arbitrary: h) auto

lemma threaded_enqueue:
  assumes "threaded nul nx h t q" "m \<notin> set q" "m \<noteq> nul" "nx m = nul"
  shows "threaded nul (if t = nul then nx else nx(t := m))
           (if t = nul then m else h) m (q @ [m])"
proof -
  have "t = nul \<longleftrightarrow> q = []"
    using assms(1) follows_not_none [of nul nx h q] last_not_in [of _ q] by (auto simp: threaded_def)
  then show ?thesis using follows_snoc [of nul nx h q m] assms by (auto simp: threaded_def)
qed

lemma threaded_head: "threaded nul nx h t q \<Longrightarrow> h = (if q = [] then nul else hd q)"
  by (cases q) (auto simp: threaded_def)

lemma threaded_pop:
  assumes "threaded nul nx h t (m # q)"
  shows "threaded nul (nx(m := nul)) (nx m)
           (if nx m = nul then nul else t) q"
proof -
  have "follows nul (nx(m := nul)) (nx m) q"
    using assms by (simp add: threaded_def)
  moreover have "nx m = nul \<longleftrightarrow> q = []"
    using assms by (cases q) (auto simp: threaded_def)
  ultimately show ?thesis using assms by (auto simp: threaded_def)
qed

text \<open>Unlinking \<open>m\<close> behind its predecessor.\<close>

lemma follows_unlink:
  assumes "follows nul nx h (q1 @ m # q2)" "distinct (q1 @ m # q2)"
  shows "follows nul ((if q1 = [] then nx else nx(last q1 := nx m))(m := nul))
           (if q1 = [] then nx m else h) (q1 @ q2)"
  using assms
proof (induction q1 arbitrary: h)
  case Nil
  then show ?case by simp
next
  case (Cons a q1)
  show ?case
  proof (cases "q1 = []")
    case True
    have "follows nul (nx(a := nx m, m := nul)) (nx m) q2 = follows nul nx (nx m) q2"
      using Cons.prems True by (intro follows_cong) auto
    then show ?thesis using Cons.prems True by auto
  next
    case False
    then have "a \<noteq> last q1" "a \<noteq> m" using Cons.prems by auto
    then show ?thesis using Cons.IH [of "nx a"] Cons.prems False by auto
  qed
qed

lemma threaded_unlink:
  assumes th: "threaded nul nx h t (q1 @ m # q2)"
    and p: "p = (if q1 = [] then nul else last q1)"
  shows "threaded nul ((if p = nul then nx else nx(p := nx m))(m := nul))
           (if p = nul then nx m else h) (if t = m then p else t) (q1 @ q2)"
proof -
  have nn: "nul \<notin> set (q1 @ m # q2)"
    using th by (auto simp: threaded_def dest: follows_not_none)
  then have pn: "p = nul \<longleftrightarrow> q1 = []" using p last_not_in [of _ q1] by auto
  have d: "distinct (q1 @ m # q2)" and t: "t = last (q1 @ m # q2)" using th by (auto simp: threaded_def)
  have "t = m \<longleftrightarrow> q2 = []" using t d last_not_in [of m q2] by auto
  then have "(if t = m then p else t) = (if q1 @ q2 = [] then nul else last (q1 @ q2))"
    using t p by auto
  then show ?thesis
    using follows_unlink [of nul nx h q1 m q2] th d pn p by (auto simp: threaded_def)
qed

end
