(* ===== verification/Ffm_Queue.thy ===== *)
theory Ffm_Queue
  imports Ffm_Service Linked_List
begin

text \<open>
  The message queue of a service is a list threaded through the \<open>next\<close> fields of the
  message pool. This theory shows that enqueue, delivery and unlink act on it as append,
  tail and removal act on a list, and which parts of the runtime they leave alone.
\<close>

named_theorems ffm_simps \<open>reads of an updated runtime\<close>

section \<open>Reads of an updated runtime\<close>

lemma conn_of_upd [ffm_simps, simp]:
  "conn_of (upd_conn i f rt) j =
     (if j = i \<and> i < length (rt_connections rt) then f (conn_of rt j) else conn_of rt j)"
  "conn_of (upd_msg i g rt) j = conn_of rt j"
  "conn_of (upd_svc i h rt) j = conn_of rt j"
  "conn_of (upd_part i k rt) j = conn_of rt j"
  by (auto simp: conn_of_def upd_conn_def upd_msg_def upd_svc_def upd_part_def upd_at_def not_less list_update_beyond)

lemma msg_of_upd [ffm_simps, simp]:
  "msg_of (upd_msg i g rt) j =
     (if j = i \<and> i < length (rt_messages rt) then g (msg_of rt j) else msg_of rt j)"
  "msg_of (upd_conn i f rt) j = msg_of rt j"
  "msg_of (upd_svc i h rt) j = msg_of rt j"
  "msg_of (upd_part i k rt) j = msg_of rt j"
  by (auto simp: msg_of_def upd_conn_def upd_msg_def upd_svc_def upd_part_def upd_at_def not_less list_update_beyond)

lemma svc_of_upd [ffm_simps, simp]:
  "svc_of (upd_svc i h rt) j =
     (if j = i \<and> i < length (rt_services rt) then h (svc_of rt j) else svc_of rt j)"
  "svc_of (upd_conn i f rt) j = svc_of rt j"
  "svc_of (upd_msg i g rt) j = svc_of rt j"
  "svc_of (upd_part i k rt) j = svc_of rt j"
  by (auto simp: svc_of_def upd_conn_def upd_msg_def upd_svc_def upd_part_def upd_at_def not_less list_update_beyond)

lemma part_of_upd [ffm_simps, simp]:
  "part_of (upd_part i k rt) j =
     (if j = i \<and> i < length (rt_partitions rt) then k (part_of rt j) else part_of rt j)"
  "part_of (upd_conn i f rt) j = part_of rt j"
  "part_of (upd_msg i g rt) j = part_of rt j"
  "part_of (upd_svc i h rt) j = part_of rt j"
  by (auto simp: part_of_def upd_conn_def upd_msg_def upd_svc_def upd_part_def upd_at_def not_less list_update_beyond)

lemma ffm_lengths [ffm_simps, simp]:
  "length (rt_connections (upd_conn i f rt)) = length (rt_connections rt)"
  "length (rt_connections (upd_msg i g rt)) = length (rt_connections rt)"
  "length (rt_connections (upd_svc i h rt)) = length (rt_connections rt)"
  "length (rt_connections (upd_part i k rt)) = length (rt_connections rt)"
  "length (rt_messages (upd_conn i f rt)) = length (rt_messages rt)"
  "length (rt_messages (upd_msg i g rt)) = length (rt_messages rt)"
  "length (rt_messages (upd_svc i h rt)) = length (rt_messages rt)"
  "length (rt_messages (upd_part i k rt)) = length (rt_messages rt)"
  "length (rt_services (upd_conn i f rt)) = length (rt_services rt)"
  "length (rt_services (upd_msg i g rt)) = length (rt_services rt)"
  "length (rt_services (upd_svc i h rt)) = length (rt_services rt)"
  "length (rt_services (upd_part i k rt)) = length (rt_services rt)"
  "length (rt_partitions (upd_conn i f rt)) = length (rt_partitions rt)"
  "length (rt_partitions (upd_msg i g rt)) = length (rt_partitions rt)"
  "length (rt_partitions (upd_svc i h rt)) = length (rt_partitions rt)"
  "length (rt_partitions (upd_part i k rt)) = length (rt_partitions rt)"
  by (simp_all add: upd_conn_def upd_msg_def upd_svc_def upd_part_def)

section \<open>The queue of a service\<close>

definition nx_of :: "wt_ffm_runtime \<Rightarrow> nat \<Rightarrow> nat" where
  "nx_of rt m = msg_next (msg_of rt m)"

definition hd_of :: "wt_ffm_runtime \<Rightarrow> nat \<Rightarrow> nat" where
  "hd_of rt s = sr_queue_head (svc_of rt s)"

definition tl_of :: "wt_ffm_runtime \<Rightarrow> nat \<Rightarrow> nat" where
  "tl_of rt s = sr_queue_tail (svc_of rt s)"

definition pidx_of :: "wt_ffm_runtime \<Rightarrow> nat \<Rightarrow> nat" where
  "pidx_of rt s = sr_partition_index (svc_of rt s)"

definition sig_of :: "wt_ffm_runtime \<Rightarrow> nat \<Rightarrow> u32" where
  "sig_of rt s = sd_signal (sr_descriptor (svc_of rt s))"

definition asserted :: "wt_ffm_runtime \<Rightarrow> nat \<Rightarrow> u32" where
  "asserted rt p = pr_asserted_signals (part_of rt p)"

definition queue_is :: "wt_ffm_runtime \<Rightarrow> nat \<Rightarrow> nat list \<Rightarrow> bool" where
  "queue_is rt s q \<longleftrightarrow> threaded WT_FFM_QUEUE_NONE (nx_of rt) (hd_of rt s) (tl_of rt s) q"

lemmas ffm_views = nx_of_def hd_of_def tl_of_def pidx_of_def sig_of_def asserted_def

lemma queue_is_unique: "queue_is rt s q \<Longrightarrow> queue_is rt s q' \<Longrightarrow> q = q'"
  by (auto simp: queue_is_def threaded_def dest: follows_unique)

text \<open>
  What a queue operation may change: the links of the messages, the head and tail of the
  services and the asserted signals of the partitions.
\<close>

definition queue_frame :: "wt_ffm_runtime \<Rightarrow> wt_ffm_runtime \<Rightarrow> bool" where
  "queue_frame rt rt' \<longleftrightarrow>
     rt_connections rt' = rt_connections rt \<and> rt_manifest rt' = rt_manifest rt \<and>
     client_memory rt' = client_memory rt \<and>
     length (rt_messages rt') = length (rt_messages rt) \<and>
     length (rt_services rt') = length (rt_services rt) \<and>
     length (rt_partitions rt') = length (rt_partitions rt) \<and>
     (\<forall>m. msg_of rt' m = (msg_of rt m)\<lparr>msg_next := nx_of rt' m\<rparr>) \<and>
     (\<forall>s. svc_of rt' s = (svc_of rt s)\<lparr>sr_queue_head := hd_of rt' s, sr_queue_tail := tl_of rt' s\<rparr>) \<and>
     (\<forall>p. part_of rt' p = (part_of rt p)\<lparr>pr_asserted_signals := asserted rt' p\<rparr>)"

lemma ffm_rest_upd [ffm_simps, simp]:
  "rt_connections (upd_msg i g rt) = rt_connections rt"
  "rt_connections (upd_svc i h rt) = rt_connections rt"
  "rt_connections (upd_part i k rt) = rt_connections rt"
  "rt_manifest (upd_conn i f rt) = rt_manifest rt"
  "rt_manifest (upd_msg i g rt) = rt_manifest rt"
  "rt_manifest (upd_svc i h rt) = rt_manifest rt"
  "rt_manifest (upd_part i k rt) = rt_manifest rt"
  "client_memory (upd_conn i f rt) = client_memory rt"
  "client_memory (upd_msg i g rt) = client_memory rt"
  "client_memory (upd_svc i h rt) = client_memory rt"
  "client_memory (upd_part i k rt) = client_memory rt"
  by (simp_all add: upd_conn_def upd_msg_def upd_svc_def upd_part_def)

lemma queue_frame_refl: "queue_frame rt rt"
  by (simp add: queue_frame_def ffm_views)

lemma queue_frame_trans:
  assumes "queue_frame a b" "queue_frame b c"
  shows "queue_frame a c"
  using assms unfolding queue_frame_def by simp

lemma queue_frame_upd:
  "queue_frame rt (upd_svc s (\<lambda>x. x\<lparr>sr_queue_head := a\<rparr>) rt)"
  "queue_frame rt (upd_svc s (\<lambda>x. x\<lparr>sr_queue_tail := b\<rparr>) rt)"
  "queue_frame rt (upd_svc s (\<lambda>x. x\<lparr>sr_queue_head := a, sr_queue_tail := b\<rparr>) rt)"
  "queue_frame rt (upd_msg m (\<lambda>x. x\<lparr>msg_next := n\<rparr>) rt)"
  by (auto simp: queue_frame_def ffm_views)

lemma update_signal_frame: "queue_frame rt (wt_ffm_update_service_signal rt s)"
  by (auto simp: queue_frame_def ffm_views wt_ffm_update_service_signal_def Let_def)

lemma update_signal_views [simp]:
  "nx_of (wt_ffm_update_service_signal rt s) = nx_of rt"
  "hd_of (wt_ffm_update_service_signal rt s) = hd_of rt"
  "tl_of (wt_ffm_update_service_signal rt s) = tl_of rt"
  by (auto simp: ffm_views wt_ffm_update_service_signal_def Let_def)

lemma update_signal_asserted:
  assumes "pidx_of rt s < length (rt_partitions rt)"
  shows "asserted (wt_ffm_update_service_signal rt s) p =
    (if p \<noteq> pidx_of rt s then asserted rt p
     else if hd_of rt s = WT_FFM_QUEUE_NONE then asserted rt p AND NOT (sig_of rt s)
     else asserted rt p OR sig_of rt s)"
  using assms by (auto simp: ffm_views wt_ffm_update_service_signal_def Let_def)

lemma enqueue_frame: "queue_frame rt (wt_ffm_enqueue rt s m)"
  unfolding wt_ffm_enqueue_def Let_def
  by (intro queue_frame_trans [OF _ update_signal_frame] queue_frame_trans [OF _ queue_frame_upd(2)])
    (simp add: queue_frame_upd)

lemma enqueue_views:
  assumes "s < length (rt_services rt)"
    and "tl_of rt s = WT_FFM_QUEUE_NONE \<or> tl_of rt s < length (rt_messages rt)"
  shows "nx_of (wt_ffm_enqueue rt s m) =
      (if tl_of rt s = WT_FFM_QUEUE_NONE then nx_of rt else (nx_of rt)(tl_of rt s := m))"
    and "hd_of (wt_ffm_enqueue rt s m) =
      (if tl_of rt s = WT_FFM_QUEUE_NONE then (hd_of rt)(s := m) else hd_of rt)"
    and "tl_of (wt_ffm_enqueue rt s m) = (tl_of rt)(s := m)"
  unfolding wt_ffm_enqueue_def Let_def update_signal_views
  using assms by (auto simp: nx_of_def hd_of_def tl_of_def fun_eq_iff)

lemma unlink_frame: "queue_frame rt (ffm_unlink rt s cur prev)"
  unfolding ffm_unlink_def Let_def
  by (intro queue_frame_trans [OF _ queue_frame_upd(4)])
    (auto intro: queue_frame_upd queue_frame_trans [OF queue_frame_upd(1) queue_frame_upd(2)]
      queue_frame_trans [OF queue_frame_upd(4) queue_frame_upd(2)])

lemma unlink_views:
  assumes "s < length (rt_services rt)" "cur < length (rt_messages rt)"
    and "prev = WT_FFM_QUEUE_NONE \<or> prev < length (rt_messages rt)"
  shows "nx_of (ffm_unlink rt s cur prev) =
      (if prev = WT_FFM_QUEUE_NONE then nx_of rt else (nx_of rt)(prev := nx_of rt cur))
        (cur := WT_FFM_QUEUE_NONE)"
    and "hd_of (ffm_unlink rt s cur prev) =
      (if prev = WT_FFM_QUEUE_NONE then (hd_of rt)(s := nx_of rt cur) else hd_of rt)"
    and "tl_of (ffm_unlink rt s cur prev) =
      (if tl_of rt s = cur then (tl_of rt)(s := prev) else tl_of rt)"
  unfolding ffm_unlink_def Let_def
  using assms by (auto simp: nx_of_def hd_of_def tl_of_def fun_eq_iff)

text \<open>The pool is smaller than the end marker, so an index of it is never the marker.\<close>

definition in_pool :: "wt_ffm_runtime \<Rightarrow> nat list \<Rightarrow> bool" where
  "in_pool rt q \<longleftrightarrow> (\<forall>m \<in> set q. m < length (rt_messages rt))"

lemma queue_tail_cases:
  assumes "queue_is rt s q" "in_pool rt q"
  shows "tl_of rt s = WT_FFM_QUEUE_NONE \<or> tl_of rt s < length (rt_messages rt)"
  using assms last_in_set [of q] by (auto simp: queue_is_def threaded_def in_pool_def)

lemma queue_tail_none:
  assumes "queue_is rt s q"
  shows "tl_of rt s = WT_FFM_QUEUE_NONE \<longleftrightarrow> q = []"
  using assms last_not_in [of WT_FFM_QUEUE_NONE q] follows_not_none [of WT_FFM_QUEUE_NONE "nx_of rt" "hd_of rt s" q]
  by (auto simp: queue_is_def threaded_def)

lemma queue_head_none:
  assumes "queue_is rt s q"
  shows "hd_of rt s = WT_FFM_QUEUE_NONE \<longleftrightarrow> q = []"
  using assms by (cases q) (auto simp: queue_is_def threaded_def)

lemma enqueue_queue:
  assumes q: "queue_is rt s q" "in_pool rt q" and s: "s < length (rt_services rt)"
    and m: "m \<notin> set q" "m \<noteq> WT_FFM_QUEUE_NONE" "nx_of rt m = WT_FFM_QUEUE_NONE"
  shows "queue_is (wt_ffm_enqueue rt s m) s (q @ [m])"
  using threaded_enqueue [of WT_FFM_QUEUE_NONE "nx_of rt" "hd_of rt s" "tl_of rt s" q m] assms
    enqueue_views [OF s queue_tail_cases [OF q], of m]
  by (auto simp: queue_is_def)

lemma enqueue_queue_other:
  assumes q: "queue_is rt s q" "in_pool rt q" and s: "s < length (rt_services rt)"
    and t: "t \<noteq> s" "queue_is rt t q'" "set q \<inter> set q' = {}"
  shows "queue_is (wt_ffm_enqueue rt s m) t q'"
proof -
  have "nx_of (wt_ffm_enqueue rt s m) x = nx_of rt x" if "x \<in> set q'" for x
  proof -
    have "q \<noteq> [] \<Longrightarrow> x \<noteq> last q" using that t(3) last_in_set [of q] by blast
    then show ?thesis
      using q enqueue_views(1) [OF s queue_tail_cases [OF q], of m]
      by (auto simp: queue_is_def threaded_def)
  qed
  then show ?thesis
    using t enqueue_views(2,3) [OF s queue_tail_cases [OF q], of m]
      threaded_cong [of q' "nx_of (wt_ffm_enqueue rt s m)" "nx_of rt"]
    by (simp add: queue_is_def)
qed

lemma dequeue_loop_result:
  assumes "follows WT_FFM_QUEUE_NONE (nx_of rt) cur q" "length q < n"
  shows "ffm_dequeue_loop n rt s m cur prev =
    Some (if m \<in> set q
          then ffm_unlink rt s m (last (prev # takeWhile (\<lambda>x. x \<noteq> m) q)) else rt)"
  using assms
proof (induction q arbitrary: n cur prev)
  case Nil
  then show ?case by (cases n) auto
next
  case (Cons a q)
  then obtain k where k: "n = Suc k" by (cases n) auto
  show ?case
  proof (cases "a = m")
    case True
    then show ?thesis using Cons.prems k by auto
  next
    case False
    then have "ffm_dequeue_loop n rt s m cur prev = ffm_dequeue_loop k rt s m (nx_of rt a) a"
      using Cons.prems k by (simp add: nx_of_def)
    then show ?thesis using Cons.IH [of "nx_of rt a" k a] Cons.prems k False by auto
  qed
qed

lemma dequeue_message_eq:
  assumes "queue_is rt s q" "length q \<le> WT_FFM_MAX_MESSAGES"
  shows "wt_ffm_dequeue_message rt s m =
    Some (wt_ffm_update_service_signal (if m \<in> set q
       then ffm_unlink rt s m (last (WT_FFM_QUEUE_NONE # takeWhile (\<lambda>x. x \<noteq> m) q)) else rt) s)"
  using assms dequeue_loop_result [of rt "hd_of rt s" q "Suc WT_FFM_MAX_MESSAGES" s m WT_FFM_QUEUE_NONE]
  by (simp add: wt_ffm_dequeue_message_def queue_is_def threaded_def hd_of_def
      del: ffm_dequeue_loop.simps)

lemma split_at_member:
  assumes "m \<in> set q" "distinct q"
  shows "\<exists>q1 q2. q = q1 @ m # q2 \<and> takeWhile (\<lambda>x. x \<noteq> m) q = q1 \<and> remove1 m q = q1 @ q2 \<and> m \<notin> set q1"
proof -
  obtain q1 q2 where q: "q = q1 @ m # q2" using assms(1) by (meson split_list)
  then have "m \<notin> set q1" using assms(2) by simp
  then have "takeWhile (\<lambda>x. x \<noteq> m) q1 = q1" by (auto simp: takeWhile_eq_all_conv)
  with \<open>m \<notin> set q1\<close> have "q = q1 @ m # q2 \<and> takeWhile (\<lambda>x. x \<noteq> m) q = q1 \<and>
      remove1 m q = q1 @ q2 \<and> m \<notin> set q1"
    by (simp add: q remove1_append takeWhile_tail)
  then show ?thesis by blast
qed

lemma unlink_queue:
  assumes q: "queue_is rt s q" "in_pool rt q" and s: "s < length (rt_services rt)" and m: "m \<in> set q"
    and prev: "prev = last (WT_FFM_QUEUE_NONE # takeWhile (\<lambda>x. x \<noteq> m) q)"
  shows "queue_is (ffm_unlink rt s m prev) s (remove1 m q)"
    and "t \<noteq> s \<Longrightarrow> queue_is rt t q' \<Longrightarrow> set q \<inter> set q' = {} \<Longrightarrow> queue_is (ffm_unlink rt s m prev) t q'"
proof -
  have d: "distinct q" using q by (simp add: queue_is_def threaded_def)
  obtain q1 q2 where sp: "q = q1 @ m # q2" "takeWhile (\<lambda>x. x \<noteq> m) q = q1" "remove1 m q = q1 @ q2"
    using split_at_member [OF m d] by blast
  have p: "prev = (if q1 = [] then WT_FFM_QUEUE_NONE else last q1)" using prev sp by auto
  have pm: "prev = WT_FFM_QUEUE_NONE \<or> prev \<in> set q" using p sp(1) by auto
  then have pl: "prev = WT_FFM_QUEUE_NONE \<or> prev < length (rt_messages rt)"
    using q(2) by (auto simp: in_pool_def)
  have ml: "m < length (rt_messages rt)" using q(2) m by (auto simp: in_pool_def)
  note v = unlink_views [OF s ml pl]
  show "queue_is (ffm_unlink rt s m prev) s (remove1 m q)"
    using threaded_unlink [OF _ p, of "nx_of rt" "hd_of rt s" "tl_of rt s" m q2] q(1) sp(1,3)
    unfolding queue_is_def v by (cases "prev = WT_FFM_QUEUE_NONE"; cases "tl_of rt s = m") simp_all
  assume t: "t \<noteq> s" "queue_is rt t q'" "set q \<inter> set q' = {}"
  have "nx_of (ffm_unlink rt s m prev) x = nx_of rt x" if "x \<in> set q'" for x
  proof -
    have "x \<noteq> WT_FFM_QUEUE_NONE"
      using that t(2) by (auto simp: queue_is_def threaded_def dest: follows_not_none)
    then show ?thesis using that t(3) pm m by (auto simp: v)
  qed
  then show "queue_is (ffm_unlink rt s m prev) t q'"
    using t threaded_cong [of q' "nx_of (ffm_unlink rt s m prev)" "nx_of rt"]
    by (simp add: queue_is_def v)
qed

text \<open>
  The unlink operation as a whole: it returns, removes the message from the list and leaves
  the other queues as they were.
\<close>

lemma dequeue_message_queue:
  assumes q: "queue_is rt s q" "in_pool rt q" "length q \<le> WT_FFM_MAX_MESSAGES"
    and s: "s < length (rt_services rt)"
    and p: "pidx_of rt s < length (rt_partitions rt)"
  shows "\<exists>rt'. wt_ffm_dequeue_message rt s m = Some rt' \<and> queue_frame rt rt' \<and>
    queue_is rt' s (remove1 m q) \<and>
    (\<forall>t q'. t \<noteq> s \<longrightarrow> queue_is rt t q' \<longrightarrow> set q \<inter> set q' = {} \<longrightarrow> queue_is rt' t q') \<and>
    (\<forall>p. asserted rt' p =
      (if p \<noteq> pidx_of rt s then asserted rt p
       else if remove1 m q = [] then asserted rt p AND NOT (sig_of rt s)
       else asserted rt p OR sig_of rt s))"
proof -
  define prev where "prev = last (WT_FFM_QUEUE_NONE # takeWhile (\<lambda>x. x \<noteq> m) q)"
  define r where "r = (if m \<in> set q then ffm_unlink rt s m prev else rt)"
  have fr: "queue_frame rt r" by (simp add: r_def unlink_frame queue_frame_refl)
  have same: "pidx_of r s = pidx_of rt s" "sig_of r s = sig_of rt s" "asserted r p = asserted rt p" for p
    by (auto simp: r_def ffm_views ffm_unlink_def Let_def)
  have qs: "queue_is r s (remove1 m q)"
    using unlink_queue(1) [OF q(1,2) s _ prev_def] q(1) by (simp add: r_def remove1_idem)
  have "queue_is (wt_ffm_update_service_signal r s) t q' = queue_is r t q'" for t q'
    by (simp add: queue_is_def)
  moreover have "queue_is r t q'" if "t \<noteq> s" "queue_is rt t q'" "set q \<inter> set q' = {}" for t q'
    using unlink_queue(2) [OF q(1,2) s _ prev_def that] that(2) by (auto simp: r_def)
  moreover have "asserted (wt_ffm_update_service_signal r s) p =
      (if p \<noteq> pidx_of rt s then asserted rt p
       else if remove1 m q = [] then asserted rt p AND NOT (sig_of rt s)
       else asserted rt p OR sig_of rt s)" for p
    using p fr update_signal_asserted [of r s p] queue_head_none [OF qs] same
    by (simp add: queue_frame_def)
  ultimately show ?thesis
    using dequeue_message_eq [OF q(1,3), of m] qs queue_frame_trans [OF fr update_signal_frame]
    by (intro exI [of _ "wt_ffm_update_service_signal r s"]) (simp add: r_def prev_def)
qed

end
