(* ===== verification/Ffm_Inv.thy ===== *)
theory Ffm_Inv
  imports Ffm_Queue Manifest_Safety
begin

text \<open>
  The invariant of the runtime and its preservation by the building blocks of the
  operations: state changes of a connection, stream changes of a message, release,
  enqueue, unlink and the signal updates.
\<close>

section \<open>The invariant\<close>

text \<open>What the manifest fixes for good: every service sits in a partition and owns one signal
  bit that no other service or interrupt of that partition uses, outside the reserved bits.\<close>

definition ffm_static :: "wt_ffm_runtime \<Rightarrow> bool" where
  "ffm_static rt \<longleftrightarrow>
     length (rt_connections rt) = WT_FFM_MAX_CONNECTIONS \<and>
     length (rt_messages rt) = WT_FFM_MAX_MESSAGES \<and>
     (\<forall>s < length (rt_services rt). pidx_of rt s < length (rt_partitions rt) \<and>
        single_bit (sig_of rt s) \<and> sig_of rt s AND WT_MANIFEST_RESERVED_SIGNALS = 0) \<and>
     (\<forall>s < length (rt_services rt). \<forall>t < length (rt_services rt).
        s \<noteq> t \<longrightarrow> pidx_of rt s = pidx_of rt t \<longrightarrow> sig_of rt s AND sig_of rt t = 0) \<and>
     (\<forall>s < length (rt_services rt). \<forall>x \<in> set (irqs_of (pr_manifest (part_of rt (pidx_of rt s)))).
        mi_signal x AND sig_of rt s = 0)"

definition gen_ok :: "u32 \<Rightarrow> bool" where
  "gen_ok g \<longleftrightarrow> g \<noteq> 0 \<and> g \<le> WT_FFM_HANDLE_GEN_MASK"

text \<open>The input and output areas of a message lie in its buffers and do not overlap.\<close>

definition streams_ok :: "wt_ffm_message_runtime \<Rightarrow> bool" where
  "streams_ok m \<longleftrightarrow>
     msg_in_count m + msg_out_count m \<le> PSA_MAX_IOVEC \<and>
     (\<forall>i. msg_in_position m i \<le> msg_in_size m i) \<and>
     (\<forall>i. msg_out_position m i \<le> msg_out_size m i) \<and>
     (\<forall>i < msg_in_count m. msg_in_offset m i + msg_in_size m i \<le> WT_FFM_TRANSFER_BYTES) \<and>
     (\<forall>i < msg_out_count m. msg_out_offset m i + msg_out_size m i \<le> WT_FFM_TRANSFER_BYTES) \<and>
     (\<forall>j < msg_in_count m. \<forall>i < j. msg_in_offset m i + msg_in_size m i \<le> msg_in_offset m j) \<and>
     (\<forall>j < msg_out_count m. \<forall>i < j. msg_out_offset m i + msg_out_size m i \<le> msg_out_offset m j)"

definition conn_ok :: "wt_ffm_runtime \<Rightarrow> nat \<Rightarrow> bool" where
  "conn_ok rt c \<longleftrightarrow>
     gen_ok (conn_generation (conn_of rt c)) \<and>
     (conn_allocated (conn_of rt c) \<longrightarrow>
        conn_service_index (conn_of rt c) < length (rt_services rt) \<and>
        conn_caller (conn_of rt c) \<noteq> 0 \<and>
        conn_state (conn_of rt c) \<noteq> WT_IPC_CONNECTION_FREE)"

text \<open>A free slot holds nothing of its previous user but the next generation and a link.\<close>

definition msg_blank :: "wt_ffm_message_runtime \<Rightarrow> bool" where
  "msg_blank m \<longleftrightarrow>
     m = zero_ffm_message\<lparr>msg_generation := msg_generation m, msg_next := msg_next m\<rparr>"

text \<open>What holds between an allocated message and its connection.\<close>

definition msg_conn_ok ::
  "wt_ffm_message_runtime \<Rightarrow> wt_ffm_connection_runtime \<Rightarrow> bool" where
  "msg_conn_ok m c \<longleftrightarrow>
     conn_allocated c \<and> conn_service_index c = msg_service_index m \<and> conn_caller c = msg_caller m \<and>
     (\<not> msg_complete m \<longrightarrow> conn_state c \<noteq> WT_IPC_CONNECTION_IDLE)"

definition msg_self_ok :: "wt_ffm_message_runtime \<Rightarrow> bool" where
  "msg_self_ok m \<longleftrightarrow>
     msg_type m \<ge> PSA_IPC_DISCONNECT \<and> streams_ok m \<and> \<not> (msg_active m \<and> msg_complete m) \<and>
     (msg_abandoned m \<noteq> NOT_ABANDONED \<longrightarrow>
        \<not> msg_complete m \<and> (msg_active m \<or> msg_type m = PSA_IPC_DISCONNECT))"

definition msg_ok :: "wt_ffm_runtime \<Rightarrow> nat \<Rightarrow> bool" where
  "msg_ok rt m \<longleftrightarrow>
     gen_ok (msg_generation (msg_of rt m)) \<and>
     (\<not> msg_allocated (msg_of rt m) \<longrightarrow> msg_blank (msg_of rt m)) \<and>
     (msg_allocated (msg_of rt m) \<longrightarrow>
        msg_self_ok (msg_of rt m) \<and>
        msg_connection_index (msg_of rt m) < WT_FFM_MAX_CONNECTIONS \<and>
        msg_conn_ok (msg_of rt m) (conn_of rt (msg_connection_index (msg_of rt m))))"

definition one_message :: "wt_ffm_runtime \<Rightarrow> bool" where
  "one_message rt \<longleftrightarrow>
     (\<forall>m < WT_FFM_MAX_MESSAGES. \<forall>m' < WT_FFM_MAX_MESSAGES.
        msg_allocated (msg_of rt m) \<longrightarrow> msg_allocated (msg_of rt m') \<longrightarrow>
        msg_connection_index (msg_of rt m) = msg_connection_index (msg_of rt m') \<longrightarrow> m = m')"

definition quotas :: "wt_ffm_runtime \<Rightarrow> bool" where
  "quotas rt \<longleftrightarrow>
     (\<forall>caller. wt_ffm_client_connection_count rt caller \<le> WT_FFM_MAX_CONNECTIONS_PER_CLIENT) \<and>
     wt_ffm_ns_connection_count rt \<le> WT_FFM_MAX_NS_CONNECTIONS"

definition ffm_core :: "wt_ffm_runtime \<Rightarrow> bool" where
  "ffm_core rt \<longleftrightarrow> ffm_static rt \<and> (\<forall>c < WT_FFM_MAX_CONNECTIONS. conn_ok rt c) \<and>
     (\<forall>m < WT_FFM_MAX_MESSAGES. msg_ok rt m) \<and> one_message rt \<and> quotas rt"

text \<open>The messages waiting for delivery to a service.\<close>

definition waiting :: "wt_ffm_runtime \<Rightarrow> nat \<Rightarrow> nat set" where
  "waiting rt s = {m. m < WT_FFM_MAX_MESSAGES \<and> msg_allocated (msg_of rt m) \<and>
     \<not> msg_active (msg_of rt m) \<and> \<not> msg_complete (msg_of rt m) \<and>
     msg_service_index (msg_of rt m) = s}"

text \<open>
  The queue of a service holds exactly the waiting messages, and its signal is asserted
  exactly when there is one. In the middle of an operation some messages \<open>X\<close> may wait
  without being queued.
\<close>

definition service_but :: "nat set \<Rightarrow> wt_ffm_runtime \<Rightarrow> nat \<Rightarrow> bool" where
  "service_but X rt s \<longleftrightarrow>
     (\<exists>q. queue_is rt s q \<and> set q = waiting rt s - X) \<and>
     (asserted rt (pidx_of rt s) AND sig_of rt s = 0 \<longleftrightarrow> hd_of rt s = WT_FFM_QUEUE_NONE)"

abbreviation service_ok :: "wt_ffm_runtime \<Rightarrow> nat \<Rightarrow> bool" where
  "service_ok rt s \<equiv> service_but {} rt s"

definition ffm_inv :: "wt_ffm_runtime \<Rightarrow> bool" where
  "ffm_inv rt \<longleftrightarrow> ffm_core rt \<and> (\<forall>s < length (rt_services rt). service_ok rt s)"

section \<open>Reading the invariant\<close>

lemma ffm_coreD:
  assumes "ffm_core rt"
  shows "ffm_static rt" "one_message rt" "quotas rt"
    and "length (rt_connections rt) = WT_FFM_MAX_CONNECTIONS"
    and "length (rt_messages rt) = WT_FFM_MAX_MESSAGES"
    and "c < WT_FFM_MAX_CONNECTIONS \<Longrightarrow> conn_ok rt c"
    and "m < WT_FFM_MAX_MESSAGES \<Longrightarrow> msg_ok rt m"
  using assms unfolding ffm_core_def ffm_static_def by blast+

lemma ffm_invD:
  assumes "ffm_inv rt"
  shows "ffm_core rt" and "s < length (rt_services rt) \<Longrightarrow> service_ok rt s"
  using assms unfolding ffm_inv_def by blast+

lemma ffm_staticD:
  assumes "ffm_static rt" "s < length (rt_services rt)"
  shows "pidx_of rt s < length (rt_partitions rt)" "single_bit (sig_of rt s)"
    and "sig_of rt s AND WT_MANIFEST_RESERVED_SIGNALS = 0"
    and "t < length (rt_services rt) \<Longrightarrow> s \<noteq> t \<Longrightarrow> pidx_of rt s = pidx_of rt t \<Longrightarrow>
           sig_of rt s AND sig_of rt t = 0"
    and "x \<in> set (irqs_of (pr_manifest (part_of rt (pidx_of rt s)))) \<Longrightarrow> mi_signal x AND sig_of rt s = 0"
  using assms unfolding ffm_static_def by blast+

lemma waiting_finite: "finite (waiting rt s)"
  by (rule finite_subset [of _ "{..<WT_FFM_MAX_MESSAGES}"]) (auto simp: waiting_def)

lemma waiting_queue_bounds:
  assumes "length (rt_messages rt) = WT_FFM_MAX_MESSAGES" "queue_is rt s q" "set q = waiting rt s - X"
  shows "in_pool rt q" and "length q \<le> WT_FFM_MAX_MESSAGES"
proof -
  show "in_pool rt q" using assms by (auto simp: in_pool_def waiting_def)
  have "distinct q" using assms(2) by (simp add: queue_is_def threaded_def)
  then have "length q = card (waiting rt s - X)" using assms(3) distinct_card by metis
  also have "\<dots> \<le> card {..<WT_FFM_MAX_MESSAGES}"
    by (rule card_mono) (auto simp: waiting_def)
  finally show "length q \<le> WT_FFM_MAX_MESSAGES" by simp
qed

lemma waiting_disjoint: "s \<noteq> t \<Longrightarrow> waiting rt s \<inter> waiting rt t = {}"
  by (auto simp: waiting_def)

section \<open>Queue operations keep the core\<close>

lemma queue_frame_views:
  assumes "queue_frame rt rt'"
  shows "conn_of rt' c = conn_of rt c" "pidx_of rt' s = pidx_of rt s" "sig_of rt' s = sig_of rt s"
    and "pr_manifest (part_of rt' p) = pr_manifest (part_of rt p)"
    and "length (rt_services rt') = length (rt_services rt)"
    and "length (rt_partitions rt') = length (rt_partitions rt)"
    and "length (rt_messages rt') = length (rt_messages rt)"
    and "waiting rt' s = waiting rt s"
  using assms unfolding queue_frame_def
  by (simp_all add: conn_of_def pidx_of_def sig_of_def waiting_def)

lemma msg_blank_next [simp]: "msg_blank (m\<lparr>msg_next := n\<rparr>) = msg_blank m"
  by (cases m) (simp add: msg_blank_def zero_ffm_message_def)

lemma msg_next_irrelevant [simp]:
  "streams_ok (m\<lparr>msg_next := n\<rparr>) = streams_ok m"
  "msg_conn_ok (m\<lparr>msg_next := n\<rparr>) c = msg_conn_ok m c"
  "msg_self_ok (m\<lparr>msg_next := n\<rparr>) = msg_self_ok m"
  by (simp_all add: streams_ok_def msg_conn_ok_def msg_self_ok_def)

lemma queue_frame_core:
  assumes f: "queue_frame rt rt'" and c: "ffm_core rt"
  shows "ffm_core rt'"
proof -
  note v = queue_frame_views [OF f]
  have m: "msg_of rt' m = (msg_of rt m)\<lparr>msg_next := nx_of rt' m\<rparr>" for m
    using f unfolding queue_frame_def by blast
  have conns: "rt_connections rt' = rt_connections rt" using f unfolding queue_frame_def by blast
  have "ffm_static rt'"
    using ffm_coreD(1) [OF c] unfolding ffm_static_def v conns by blast
  moreover have "conn_ok rt' i = conn_ok rt i" for i by (simp add: conn_ok_def v)
  moreover have "msg_ok rt' i = msg_ok rt i" for i by (simp add: msg_ok_def v m)
  moreover have "one_message rt' = one_message rt" by (simp add: one_message_def m)
  moreover have "quotas rt' = quotas rt"
    by (simp add: quotas_def wt_ffm_client_connection_count_def wt_ffm_ns_connection_count_def conns)
  ultimately show ?thesis using c by (simp add: ffm_core_def)
qed

section \<open>Changes of one message or one connection\<close>

lemma core_upd_msg:
  assumes c: "ffm_core rt" and m: "m < WT_FFM_MAX_MESSAGES" and N: "g (msg_of rt m) = N"
    and g: "gen_ok (msg_generation N)" and b: "\<not> msg_allocated N \<Longrightarrow> msg_blank N"
    and a: "msg_allocated N \<Longrightarrow> msg_self_ok N \<and> msg_connection_index N < WT_FFM_MAX_CONNECTIONS \<and>
        msg_conn_ok N (conn_of rt (msg_connection_index N))"
    and o: "\<And>m'. msg_allocated N \<Longrightarrow> m' < WT_FFM_MAX_MESSAGES \<Longrightarrow> m' \<noteq> m \<Longrightarrow>
        msg_allocated (msg_of rt m') \<Longrightarrow> msg_connection_index (msg_of rt m') \<noteq> msg_connection_index N"
  shows "ffm_core (upd_msg m g rt)"
proof -
  note d = ffm_coreD [OF c]
  have 1: "ffm_static (upd_msg m g rt)"
    using d(1) unfolding ffm_static_def ffm_views by simp
  have 2: "conn_ok (upd_msg m g rt) i" if "i < WT_FFM_MAX_CONNECTIONS" for i
    using d(6) [OF that] by (simp add: conn_ok_def)
  have 3: "msg_ok (upd_msg m g rt) i" if "i < WT_FFM_MAX_MESSAGES" for i
    using d(7) [OF that] m g b a N by (simp add: msg_ok_def d(5))
  have 4: "one_message (upd_msg m g rt)"
    using d(2) o m N unfolding one_message_def by (simp add: d(5)) metis
  have 5: "quotas (upd_msg m g rt)"
    using d(3) by (simp add: quotas_def wt_ffm_client_connection_count_def wt_ffm_ns_connection_count_def)
  show ?thesis using 1 2 3 4 5 unfolding ffm_core_def by blast
qed

lemma core_upd_conn:
  assumes c: "ffm_core rt" and i: "i < WT_FFM_MAX_CONNECTIONS" and D: "f (conn_of rt i) = D"
    and g: "gen_ok (conn_generation D)"
    and a: "conn_allocated D \<Longrightarrow> conn_service_index D < length (rt_services rt) \<and> conn_caller D \<noteq> 0 \<and>
        conn_state D \<noteq> WT_IPC_CONNECTION_FREE"
    and m: "\<And>m. m < WT_FFM_MAX_MESSAGES \<Longrightarrow> msg_allocated (msg_of rt m) \<Longrightarrow>
        msg_connection_index (msg_of rt m) = i \<Longrightarrow> msg_conn_ok (msg_of rt m) D"
    and q: "quotas (upd_conn i f rt)"
  shows "ffm_core (upd_conn i f rt)"
proof -
  note d = ffm_coreD [OF c]
  have 1: "ffm_static (upd_conn i f rt)"
    using d(1) unfolding ffm_static_def ffm_views by simp
  have 2: "conn_ok (upd_conn i f rt) j" if "j < WT_FFM_MAX_CONNECTIONS" for j
    using d(6) [OF that] i g a D by (simp add: conn_ok_def d(4))
  have 3: "msg_ok (upd_conn i f rt) j" if "j < WT_FFM_MAX_MESSAGES" for j
    using d(7) [OF that] m [OF that] i D by (auto simp: msg_ok_def d(4))
  have 4: "one_message (upd_conn i f rt)"
    using d(2) unfolding one_message_def by simp
  show ?thesis using 1 2 3 4 q unfolding ffm_core_def by blast
qed

lemma count_if_upd_same:
  assumes "i < length xs" "P (f (xs ! i)) \<Longrightarrow> P (xs ! i)"
  shows "count_if P (upd_at i f xs) \<le> count_if P xs"
  using count_if_upd_at [OF assms(1), of P f] assms(2) by (auto split: if_splits)

lemma quotas_upd_conn:
  assumes "quotas rt" "i < length (rt_connections rt)"
    and "conn_allocated (f (conn_of rt i)) \<Longrightarrow>
      conn_allocated (conn_of rt i) \<and> conn_caller (f (conn_of rt i)) = conn_caller (conn_of rt i)"
  shows "quotas (upd_conn i f rt)"
proof -
  have "count_if (\<lambda>c. conn_allocated c \<and> P (conn_caller c)) (upd_at i f (rt_connections rt)) \<le>
      count_if (\<lambda>c. conn_allocated c \<and> P (conn_caller c)) (rt_connections rt)" for P
    using assms(2,3) by (intro count_if_upd_same) (auto simp: conn_of_def)
  from this [of "\<lambda>x. x = _"] this [of "\<lambda>x. x < 0"] show ?thesis
    using assms(1) unfolding quotas_def wt_ffm_client_connection_count_def
      wt_ffm_ns_connection_count_def upd_conn_def by (auto intro: order_trans)
qed

text \<open>A change of state, latch or reverse handle of a connection.\<close>

lemma core_conn_state:
  assumes c: "ffm_core rt" and i: "i < WT_FFM_MAX_CONNECTIONS"
    and keep: "conn_allocated (f (conn_of rt i)) = conn_allocated (conn_of rt i)"
      "conn_caller (f (conn_of rt i)) = conn_caller (conn_of rt i)"
      "conn_generation (f (conn_of rt i)) = conn_generation (conn_of rt i)"
      "conn_service_index (f (conn_of rt i)) = conn_service_index (conn_of rt i)"
    and st: "conn_allocated (conn_of rt i) \<Longrightarrow> conn_state (f (conn_of rt i)) \<noteq> WT_IPC_CONNECTION_FREE"
    and ab: "\<And>m. conn_state (f (conn_of rt i)) = WT_IPC_CONNECTION_IDLE \<Longrightarrow>
        m < WT_FFM_MAX_MESSAGES \<Longrightarrow> msg_allocated (msg_of rt m) \<Longrightarrow>
        msg_connection_index (msg_of rt m) = i \<Longrightarrow> msg_complete (msg_of rt m)"
  shows "ffm_core (upd_conn i f rt)"
proof (rule core_upd_conn [OF c i refl])
  note d = ffm_coreD [OF c]
  show "gen_ok (conn_generation (f (conn_of rt i)))"
    using d(6) [OF i] keep by (simp add: conn_ok_def)
  show "quotas (upd_conn i f rt)"
    using quotas_upd_conn [of rt i f] d(3,4) i keep by simp
  show "conn_service_index (f (conn_of rt i)) < length (rt_services rt) \<and>
      conn_caller (f (conn_of rt i)) \<noteq> 0 \<and> conn_state (f (conn_of rt i)) \<noteq> WT_IPC_CONNECTION_FREE"
    if "conn_allocated (f (conn_of rt i))"
    using d(6) [OF i] keep st that by (simp add: conn_ok_def)
  show "msg_conn_ok (msg_of rt m) (f (conn_of rt i))"
    if "m < WT_FFM_MAX_MESSAGES" "msg_allocated (msg_of rt m)" "msg_connection_index (msg_of rt m) = i" for m
    using d(7) [OF that(1)] that keep ab [of m] by (auto simp: msg_ok_def msg_conn_ok_def)
qed

section \<open>Services\<close>

text \<open>A change that leaves the queues and signals alone and waits for the same messages.\<close>

lemma service_cong:
  assumes "service_but X rt s"
    and "hd_of rt' s = hd_of rt s" "tl_of rt' s = tl_of rt s" "pidx_of rt' s = pidx_of rt s"
    and "sig_of rt' s = sig_of rt s"
    and "asserted rt' (pidx_of rt s) AND sig_of rt s = asserted rt (pidx_of rt s) AND sig_of rt s"
    and "waiting rt' s - X' = waiting rt s - X"
    and "\<And>m. m \<in> waiting rt s - X \<Longrightarrow> nx_of rt' m = nx_of rt m"
  shows "service_but X' rt' s"
proof -
  obtain q where q: "queue_is rt s q" "set q = waiting rt s - X"
    using assms(1) unfolding service_but_def by blast
  have "queue_is rt' s q"
    using q threaded_cong [of q "nx_of rt'" "nx_of rt"] assms(2,3,8) by (simp add: queue_is_def)
  then show ?thesis using assms q unfolding service_but_def by metis
qed

lemma inv_upd_conn:
  assumes "ffm_inv rt" "ffm_core (upd_conn i f rt)"
  shows "ffm_inv (upd_conn i f rt)"
  unfolding ffm_inv_def
proof (intro conjI allI impI)
  show "ffm_core (upd_conn i f rt)" by (rule assms(2))
  fix s assume "s < length (rt_services (upd_conn i f rt))"
  then have "service_ok rt s" using ffm_invD(2) [OF assms(1)] by simp
  then show "service_ok (upd_conn i f rt) s"
    by (rule service_cong) (simp_all add: ffm_views waiting_def)
qed

text \<open>A change of a message that keeps its link and whether and for whom it waits.\<close>

lemma inv_upd_msg:
  assumes "ffm_inv rt" "ffm_core (upd_msg m g rt)"
    and "msg_next (g (msg_of rt m)) = msg_next (msg_of rt m)"
    and "msg_allocated (g (msg_of rt m)) = msg_allocated (msg_of rt m)"
    and "(msg_active (g (msg_of rt m)) \<or> msg_complete (g (msg_of rt m))) =
      (msg_active (msg_of rt m) \<or> msg_complete (msg_of rt m))"
    and "msg_service_index (g (msg_of rt m)) = msg_service_index (msg_of rt m)"
  shows "ffm_inv (upd_msg m g rt)"
  unfolding ffm_inv_def
proof (intro conjI allI impI)
  show "ffm_core (upd_msg m g rt)" by (rule assms(2))
  fix s assume "s < length (rt_services (upd_msg m g rt))"
  then have s: "service_ok rt s" using ffm_invD(2) [OF assms(1)] by simp
  have "waiting (upd_msg m g rt) s = waiting rt s"
    using assms(4-6) by (auto simp: waiting_def)
  then show "service_ok (upd_msg m g rt) s"
    by (intro service_cong [OF s]) (use assms(3) in \<open>simp_all add: ffm_views\<close>)
qed

section \<open>Release\<close>

lemma next_generation_ok: "gen_ok (wt_ffm_next_generation g)"
  by (simp add: gen_ok_def wt_ffm_next_generation_def Let_def word_and_le1)

lemma core_release_message:
  assumes "ffm_core rt" "m < WT_FFM_MAX_MESSAGES"
  shows "ffm_core (wt_ffm_release_message rt m)"
  unfolding wt_ffm_release_message_def
  by (rule core_upd_msg [OF assms refl])
    (simp_all add: next_generation_ok msg_blank_def zero_ffm_message_def)

lemma release_message_reads:
  assumes "m < length (rt_messages rt)"
  shows "msg_allocated (msg_of (wt_ffm_release_message rt m) j) = (j \<noteq> m \<and> msg_allocated (msg_of rt j))"
    and "j \<noteq> m \<Longrightarrow> msg_of (wt_ffm_release_message rt m) j = msg_of rt j"
    and "conn_of (wt_ffm_release_message rt m) c = conn_of rt c"
    and "length (rt_messages (wt_ffm_release_message rt m)) = length (rt_messages rt)"
    and "length (rt_connections (wt_ffm_release_message rt m)) = length (rt_connections rt)"
    and "length (rt_services (wt_ffm_release_message rt m)) = length (rt_services rt)"
  using assms by (auto simp: wt_ffm_release_message_def zero_ffm_message_def)

lemma waiting_release:
  assumes "length (rt_messages rt) = WT_FFM_MAX_MESSAGES" "m < WT_FFM_MAX_MESSAGES"
  shows "waiting (wt_ffm_release_message rt m) s = waiting rt s - {m}"
  using assms release_message_reads [of m rt] unfolding waiting_def by auto

lemma service_release:
  assumes "service_but X rt s" "waiting rt s - X - {m} = waiting rt s - X"
    and "length (rt_messages rt) = WT_FFM_MAX_MESSAGES" "m < WT_FFM_MAX_MESSAGES"
  shows "service_but (X - {m}) (wt_ffm_release_message rt m) s"
proof (rule service_cong [OF assms(1)])
  show "waiting (wt_ffm_release_message rt m) s - (X - {m}) = waiting rt s - X"
    using waiting_release [OF assms(3,4), of s] assms(2) by blast
  fix j assume "j \<in> waiting rt s - X"
  then have "j \<noteq> m" using assms(2) by blast
  then show "nx_of (wt_ffm_release_message rt m) j = nx_of rt j"
    by (simp add: nx_of_def wt_ffm_release_message_def)
qed (simp_all add: ffm_views wt_ffm_release_message_def)

text \<open>Releasing a delivered or completed message, or one that has been unlinked.\<close>

lemma inv_release_message:
  assumes c: "ffm_core rt" and m: "m < WT_FFM_MAX_MESSAGES"
    and s: "\<And>s. s < length (rt_services rt) \<Longrightarrow> service_but X rt s"
    and X: "X \<subseteq> {m}" and w: "\<And>s. m \<in> waiting rt s \<Longrightarrow> m \<in> X"
  shows "ffm_inv (wt_ffm_release_message rt m)"
  unfolding ffm_inv_def
proof (intro conjI allI impI)
  show "ffm_core (wt_ffm_release_message rt m)" by (rule core_release_message [OF c m])
  fix t assume "t < length (rt_services (wt_ffm_release_message rt m))"
  then have "service_but X rt t" using s by (simp add: wt_ffm_release_message_def)
  then have "service_but (X - {m}) (wt_ffm_release_message rt m) t"
    by (rule service_release) (use w [of t] ffm_coreD(5) [OF c] m in auto)
  moreover have "X - {m} = {}" using X by blast
  ultimately show "service_ok (wt_ffm_release_message rt m) t" by simp
qed

lemma core_release_connection:
  assumes c: "ffm_core rt" and i: "i < WT_FFM_MAX_CONNECTIONS"
    and m: "\<And>m. m < WT_FFM_MAX_MESSAGES \<Longrightarrow> msg_allocated (msg_of rt m) \<Longrightarrow>
        msg_connection_index (msg_of rt m) \<noteq> i"
  shows "ffm_core (wt_ffm_release_connection rt i)"
  unfolding wt_ffm_release_connection_def
proof (rule core_upd_conn [OF c i refl])
  show "quotas (upd_conn i (\<lambda>c. zero_ffm_connection\<lparr>conn_generation :=
      wt_ffm_next_generation (conn_generation c), conn_state := WT_IPC_CONNECTION_FREE\<rparr>) rt)"
    using ffm_coreD(3,4) [OF c] i by (intro quotas_upd_conn) (simp_all add: zero_ffm_connection_def)
qed (use m in \<open>auto simp: next_generation_ok zero_ffm_connection_def\<close>)

lemma inv_release_connection:
  assumes "ffm_inv rt" "i < WT_FFM_MAX_CONNECTIONS"
    and "\<And>m. m < WT_FFM_MAX_MESSAGES \<Longrightarrow> msg_allocated (msg_of rt m) \<Longrightarrow>
        msg_connection_index (msg_of rt m) \<noteq> i"
  shows "ffm_inv (wt_ffm_release_connection rt i)"
  using inv_upd_conn [OF assms(1)] core_release_connection [OF ffm_invD(1) [OF assms(1)] assms(2,3)]
  by (simp add: wt_ffm_release_connection_def)

section \<open>Enqueue and unlink\<close>

lemma signal_self:
  assumes "ffm_static rt" "s < length (rt_services rt)"
    and "asserted rt' (pidx_of rt s) = (if b then asserted rt (pidx_of rt s) AND NOT (sig_of rt s)
                                        else asserted rt (pidx_of rt s) OR sig_of rt s)"
  shows "asserted rt' (pidx_of rt s) AND sig_of rt s = 0 \<longleftrightarrow> b"
  using assms(3) single_bit_nonzero [OF ffm_staticD(2) [OF assms(1,2)]] by (simp add: mask_simps)

lemma signal_other:
  assumes st: "ffm_static rt" and s: "s < length (rt_services rt)"
    and t: "t < length (rt_services rt)" "t \<noteq> s"
    and a: "\<And>p. asserted rt' p = (if p \<noteq> pidx_of rt s then asserted rt p
              else if b then asserted rt p AND NOT (sig_of rt s) else asserted rt p OR sig_of rt s)"
  shows "asserted rt' (pidx_of rt t) AND sig_of rt t = asserted rt (pidx_of rt t) AND sig_of rt t"
proof (cases "pidx_of rt t = pidx_of rt s")
  case True
  then have "sig_of rt s AND sig_of rt t = 0" using ffm_staticD(4) [OF st s t(1)] t(2) by simp
  then show ?thesis using a [of "pidx_of rt t"] True by (simp add: mask_simps)
next
  case False
  then show ?thesis using a [of "pidx_of rt t"] by simp
qed

lemma inv_enqueue:
  assumes c: "ffm_core rt" and s: "s < length (rt_services rt)" and m: "m \<in> waiting rt s"
    and n: "nx_of rt m = WT_FFM_QUEUE_NONE"
    and sv: "\<And>t. t < length (rt_services rt) \<Longrightarrow> service_but {m} rt t"
  shows "ffm_inv (wt_ffm_enqueue rt s m)"
proof -
  note d = ffm_coreD [OF c]
  note fr = enqueue_frame [of rt s m]
  note v = queue_frame_views [OF fr]
  obtain q where q: "queue_is rt s q" "set q = waiting rt s - {m}"
    using sv [OF s] unfolding service_but_def by blast
  note qb = waiting_queue_bounds [OF d(5) q]
  have mn: "m \<noteq> WT_FFM_QUEUE_NONE" using m by (simp add: waiting_def)
  have qm: "queue_is (wt_ffm_enqueue rt s m) s (q @ [m])"
    using q(2) by (intro enqueue_queue [OF q(1) qb(1) s _ mn n]) simp
  have as: "asserted (wt_ffm_enqueue rt s m) p = (if p \<noteq> pidx_of rt s then asserted rt p
      else if False then asserted rt p AND NOT (sig_of rt s) else asserted rt p OR sig_of rt s)" for p
  proof -
    define r where "r = upd_svc s (\<lambda>x. x\<lparr>sr_queue_tail := m\<rparr>)
       (if tl_of rt s = WT_FFM_QUEUE_NONE then upd_svc s (\<lambda>x. x\<lparr>sr_queue_head := m\<rparr>) rt
        else upd_msg (tl_of rt s) (\<lambda>x. x\<lparr>msg_next := m\<rparr>) rt)"
    have e: "wt_ffm_enqueue rt s m = wt_ffm_update_service_signal r s"
      by (simp add: r_def wt_ffm_enqueue_def Let_def tl_of_def)
    have "pidx_of r s = pidx_of rt s" "sig_of r s = sig_of rt s" "asserted r p = asserted rt p"
      "length (rt_partitions r) = length (rt_partitions rt)"
      by (simp_all add: r_def ffm_views)
    moreover have "hd_of r s \<noteq> WT_FFM_QUEUE_NONE"
      using queue_head_none [OF qm] by (simp add: e)
    ultimately show ?thesis
      using update_signal_asserted [of r s p] ffm_staticD(1) [OF d(1) s] by (auto simp: e)
  qed
  have "service_ok (wt_ffm_enqueue rt s m) t" if t: "t < length (rt_services rt)" for t
  proof (cases "t = s")
    case True
    have "set (q @ [m]) = waiting (wt_ffm_enqueue rt s m) s" using q(2) m v(8) by auto
    moreover have "asserted (wt_ffm_enqueue rt s m) (pidx_of rt s) AND sig_of rt s = 0 \<longleftrightarrow> False"
      by (rule signal_self [OF d(1) s]) (simp add: as)
    ultimately show ?thesis
      using qm queue_head_none [OF qm] True unfolding service_but_def v by auto
  next
    case False
    obtain q' where q': "queue_is rt t q'" "set q' = waiting rt t - {m}"
      using sv [OF t] unfolding service_but_def by blast
    have "queue_is (wt_ffm_enqueue rt s m) t q'"
      using q'(2) q(2) False waiting_disjoint [of s t rt]
      by (intro enqueue_queue_other [OF q(1) qb(1) s False q'(1)]) blast
    moreover have "m \<notin> waiting rt t" using m False by (auto simp: waiting_def)
    moreover have "asserted (wt_ffm_enqueue rt s m) (pidx_of rt t) AND sig_of rt t =
        asserted rt (pidx_of rt t) AND sig_of rt t"
      by (rule signal_other [OF d(1) s t False as])
    moreover have "hd_of (wt_ffm_enqueue rt s m) t = hd_of rt t"
      using enqueue_views(2) [OF s queue_tail_cases [OF q(1) qb(1)], of m] False by simp
    ultimately show ?thesis using sv [OF t] q'(2) unfolding service_but_def v by auto
  qed
  then show ?thesis using queue_frame_core [OF fr c] v(5) unfolding ffm_inv_def by simp
qed

text \<open>Unlinking a waiting message, or looking for one that is not queued.\<close>

lemma inv_dequeue:
  assumes inv: "ffm_inv rt" and s: "s < length (rt_services rt)"
  shows "\<exists>rt'. wt_ffm_dequeue_message rt s m = Some rt' \<and> ffm_core rt' \<and> queue_frame rt rt' \<and>
    (\<forall>t < length (rt_services rt). service_but ({m} \<inter> waiting rt s) rt' t)"
proof -
  note c = ffm_invD(1) [OF inv]
  note d = ffm_coreD [OF c]
  obtain q where q: "queue_is rt s q" "set q = waiting rt s - {}"
    using ffm_invD(2) [OF inv s] unfolding service_but_def by blast
  note qb = waiting_queue_bounds [OF d(5) q]
  have ds: "distinct q" using q(1) by (simp add: queue_is_def threaded_def)
  obtain rt' where r: "wt_ffm_dequeue_message rt s m = Some rt'" and fr: "queue_frame rt rt'"
    and qs: "queue_is rt' s (remove1 m q)"
    and qo: "\<forall>t q'. t \<noteq> s \<longrightarrow> queue_is rt t q' \<longrightarrow> set q \<inter> set q' = {} \<longrightarrow> queue_is rt' t q'"
    and as: "\<forall>p. asserted rt' p =
      (if p \<noteq> pidx_of rt s then asserted rt p
       else if remove1 m q = [] then asserted rt p AND NOT (sig_of rt s)
       else asserted rt p OR sig_of rt s)"
    using dequeue_message_queue [OF q(1) qb s ffm_staticD(1) [OF d(1) s], of m] by blast
  note as' = as [rule_format]
  note v = queue_frame_views [OF fr]
  have sv: "service_but ({m} \<inter> waiting rt s) rt' t" if t: "t < length (rt_services rt)" for t
  proof (cases "t = s")
    case True
    have "set (remove1 m q) = waiting rt' s - {m} \<inter> waiting rt s"
      using q(2) ds v(8) by (auto simp: set_remove1_eq)
    moreover have "asserted rt' (pidx_of rt s) AND sig_of rt s = 0 \<longleftrightarrow> remove1 m q = []"
      by (rule signal_self [OF d(1) s]) (simp add: as')
    ultimately show ?thesis
      using qs queue_head_none [OF qs] True unfolding service_but_def v by auto
  next
    case False
    obtain q' where q': "queue_is rt t q'" "set q' = waiting rt t - {}"
      using ffm_invD(2) [OF inv t] unfolding service_but_def by blast
    have qt: "queue_is rt' t q'"
      using q'(2) q(2) False waiting_disjoint [of s t rt] by (intro qo [rule_format, OF False q'(1)]) blast
    moreover have "set q' = waiting rt' t - {m} \<inter> waiting rt s"
      using q'(2) v(8) False by (auto simp: waiting_def)
    moreover have "asserted rt' (pidx_of rt t) AND sig_of rt t =
        asserted rt (pidx_of rt t) AND sig_of rt t"
      by (rule signal_other [OF d(1) s t False as'])
    moreover have "hd_of rt' t = WT_FFM_QUEUE_NONE \<longleftrightarrow> hd_of rt t = WT_FFM_QUEUE_NONE"
      using queue_head_none [OF qt] queue_head_none [OF q'(1)] by simp
    ultimately show ?thesis using ffm_invD(2) [OF inv t] unfolding service_but_def v by auto
  qed
  show ?thesis using r queue_frame_core [OF fr c] fr sv by blast
qed

text \<open>Unlink and release, as every clean-up path does it.\<close>

lemma inv_dequeue_release:
  assumes inv: "ffm_inv rt" and m: "m < WT_FFM_MAX_MESSAGES"
    and s: "msg_service_index (msg_of rt m) < length (rt_services rt)"
  obtains rt' where "wt_ffm_dequeue_message rt (msg_service_index (msg_of rt m)) m = Some rt'"
    and "ffm_inv (wt_ffm_release_message rt' m)"
    and "queue_frame rt rt'"
proof -
  let ?s = "msg_service_index (msg_of rt m)"
  obtain rt' where r: "wt_ffm_dequeue_message rt ?s m = Some rt'" "ffm_core rt'" "queue_frame rt rt'"
    and sv: "\<forall>t < length (rt_services rt). service_but ({m} \<inter> waiting rt ?s) rt' t"
    using inv_dequeue [OF inv s, of m] by blast
  note v = queue_frame_views [OF r(3)]
  have "ffm_inv (wt_ffm_release_message rt' m)"
  proof (rule inv_release_message [OF r(2) m, where X = "{m} \<inter> waiting rt ?s"])
    show "service_but ({m} \<inter> waiting rt ?s) rt' t" if "t < length (rt_services rt')" for t
      using sv that v(5) by simp
    show "{m} \<inter> waiting rt ?s \<subseteq> {m}" by blast
    show "m \<in> {m} \<inter> waiting rt ?s" if "m \<in> waiting rt' t" for t
    proof -
      have "m \<in> waiting rt t" using that v(8) by simp
      then show ?thesis by (simp add: waiting_def)
    qed
  qed
  then show ?thesis by (rule that [OF r(1) _ r(3)])
qed

end
