(* ===== verification/Ffm_Vectors.thy ===== *)
theory Ffm_Vectors
  imports Ffm_Inv
begin

text \<open>
  The request vectors of a call: where \<open>wt_ffm_prepare_vectors\<close> places them in the buffers
  of the message, and that what it accepts fits.
\<close>

section \<open>Layout\<close>

definition in_lens :: "psa_invec list \<Rightarrow> nat list" where
  "in_lens vs = map (\<lambda>v. unat (inv_len v)) vs"

definition out_lens :: "psa_outvec list \<Rightarrow> nat list" where
  "out_lens vs = map (\<lambda>v. unat (outv_len v)) vs"

text \<open>The offset of entry \<open>k\<close>: the lengths of the entries before it.\<close>

definition offset_of :: "nat list \<Rightarrow> nat \<Rightarrow> nat" where
  "offset_of ls k = sum_list (take k ls)"

lemma offset_of_simps [simp]:
  "offset_of ls 0 = 0"
  "offset_of (l # ls) (Suc k) = l + offset_of ls k"
  by (simp_all add: offset_of_def)

lemma offset_of_step: "k < length ls \<Longrightarrow> offset_of ls (Suc k) = offset_of ls k + ls ! k"
  by (simp add: offset_of_def take_Suc_conv_app_nth)

lemma offset_of_mono: "i \<le> j \<Longrightarrow> offset_of ls i \<le> offset_of ls j"
proof -
  assume "i \<le> j"
  then obtain k where "j = i + k" using le_Suc_ex by blast
  then show ?thesis by (simp add: offset_of_def take_add)
qed

lemma offset_of_le: "offset_of ls k \<le> sum_list ls"
  using offset_of_mono [of k "max k (length ls)" ls] by (simp add: offset_of_def)

lemma offset_of_fits: "k < length ls \<Longrightarrow> offset_of ls k + ls ! k \<le> sum_list ls"
  using offset_of_step [of k ls] offset_of_le [of ls "Suc k"] by simp

lemma offset_of_disjoint: "i < j \<Longrightarrow> i < length ls \<Longrightarrow> offset_of ls i + ls ! i \<le> offset_of ls j"
  using offset_of_step [of i ls] offset_of_mono [of "Suc i" j ls] by simp

text \<open>The fields of a message the two loops leave alone.\<close>

lemma copy_in_keeps [simp]:
  "msg_caller (ffm_copy_in mem vs i off m) = msg_caller m"
  "msg_reply_status (ffm_copy_in mem vs i off m) = msg_reply_status m"
  "msg_generation (ffm_copy_in mem vs i off m) = msg_generation m"
  "msg_connection_index (ffm_copy_in mem vs i off m) = msg_connection_index m"
  "msg_service_index (ffm_copy_in mem vs i off m) = msg_service_index m"
  "msg_next (ffm_copy_in mem vs i off m) = msg_next m"
  "msg_type (ffm_copy_in mem vs i off m) = msg_type m"
  "msg_in_count (ffm_copy_in mem vs i off m) = msg_in_count m"
  "msg_out_count (ffm_copy_in mem vs i off m) = msg_out_count m"
  "msg_out_size (ffm_copy_in mem vs i off m) = msg_out_size m"
  "msg_out_offset (ffm_copy_in mem vs i off m) = msg_out_offset m"
  "msg_in_position (ffm_copy_in mem vs i off m) = msg_in_position m"
  "msg_out_position (ffm_copy_in mem vs i off m) = msg_out_position m"
  "msg_client_output (ffm_copy_in mem vs i off m) = msg_client_output m"
  "msg_output (ffm_copy_in mem vs i off m) = msg_output m"
  "msg_allocated (ffm_copy_in mem vs i off m) = msg_allocated m"
  "msg_active (ffm_copy_in mem vs i off m) = msg_active m"
  "msg_complete (ffm_copy_in mem vs i off m) = msg_complete m"
  "msg_abandoned (ffm_copy_in mem vs i off m) = msg_abandoned m"
  by (induction vs arbitrary: i off m) simp_all

lemma layout_out_keeps [simp]:
  "msg_caller (ffm_layout_out ws i off m) = msg_caller m"
  "msg_reply_status (ffm_layout_out ws i off m) = msg_reply_status m"
  "msg_generation (ffm_layout_out ws i off m) = msg_generation m"
  "msg_connection_index (ffm_layout_out ws i off m) = msg_connection_index m"
  "msg_service_index (ffm_layout_out ws i off m) = msg_service_index m"
  "msg_next (ffm_layout_out ws i off m) = msg_next m"
  "msg_type (ffm_layout_out ws i off m) = msg_type m"
  "msg_in_count (ffm_layout_out ws i off m) = msg_in_count m"
  "msg_out_count (ffm_layout_out ws i off m) = msg_out_count m"
  "msg_in_size (ffm_layout_out ws i off m) = msg_in_size m"
  "msg_in_offset (ffm_layout_out ws i off m) = msg_in_offset m"
  "msg_in_position (ffm_layout_out ws i off m) = msg_in_position m"
  "msg_out_position (ffm_layout_out ws i off m) = msg_out_position m"
  "msg_input (ffm_layout_out ws i off m) = msg_input m"
  "msg_output (ffm_layout_out ws i off m) = msg_output m"
  "msg_allocated (ffm_layout_out ws i off m) = msg_allocated m"
  "msg_active (ffm_layout_out ws i off m) = msg_active m"
  "msg_complete (ffm_layout_out ws i off m) = msg_complete m"
  "msg_abandoned (ffm_layout_out ws i off m) = msg_abandoned m"
  by (induction ws arbitrary: i off m) simp_all

lemma copy_in_before:
  "k < i \<Longrightarrow> msg_in_offset (ffm_copy_in mem vs i off m) k = msg_in_offset m k"
  "k < i \<Longrightarrow> msg_in_size (ffm_copy_in mem vs i off m) k = msg_in_size m k"
  by (induction vs arbitrary: i off m) simp_all

lemma copy_in_layout:
  assumes "k < length vs"
  shows "msg_in_offset (ffm_copy_in mem vs i off m) (i + k) = off + offset_of (in_lens vs) k"
    and "msg_in_size (ffm_copy_in mem vs i off m) (i + k) = in_lens vs ! k"
  using assms
proof (induction vs arbitrary: i off m k)
  case Nil
  { case 1 then show ?case by simp next case 2 then show ?case by simp }
next
  case (Cons v vs)
  { case 1
    then show ?case using Cons.IH(1) [of "k - 1" "Suc i"] by (cases k) (auto simp: copy_in_before in_lens_def)
  next
    case 2
    then show ?case using Cons.IH(2) [of "k - 1" "Suc i"] by (cases k) (auto simp: copy_in_before in_lens_def) }
qed

lemma copy_in_beyond:
  "i + length vs \<le> k \<Longrightarrow> msg_in_size (ffm_copy_in mem vs i off m) k = msg_in_size m k"
  by (induction vs arbitrary: i off m) simp_all

lemma layout_out_before:
  "k < i \<Longrightarrow> msg_out_offset (ffm_layout_out ws i off m) k = msg_out_offset m k"
  "k < i \<Longrightarrow> msg_out_size (ffm_layout_out ws i off m) k = msg_out_size m k"
  "k < i \<Longrightarrow> msg_client_output (ffm_layout_out ws i off m) k = msg_client_output m k"
  by (induction ws arbitrary: i off m) simp_all

lemma layout_out_layout:
  assumes "k < length ws"
  shows "msg_out_offset (ffm_layout_out ws i off m) (i + k) = off + offset_of (out_lens ws) k"
    and "msg_out_size (ffm_layout_out ws i off m) (i + k) = out_lens ws ! k"
    and "msg_client_output (ffm_layout_out ws i off m) (i + k) = outv_base (ws ! k)"
  using assms
proof (induction ws arbitrary: i off m k)
  case Nil
  { case 1 then show ?case by simp next case 2 then show ?case by simp next case 3 then show ?case by simp }
next
  case (Cons v ws)
  { case 1
    then show ?case using Cons.IH(1) [of "k - 1" "Suc i"] by (cases k) (auto simp: layout_out_before out_lens_def)
  next
    case 2
    then show ?case using Cons.IH(2) [of "k - 1" "Suc i"] by (cases k) (auto simp: layout_out_before out_lens_def)
  next
    case 3
    then show ?case using Cons.IH(3) [of "k - 1" "Suc i"] by (cases k) (auto simp: layout_out_before) }
qed

section \<open>Accepted vectors fit\<close>

lemma validate_vectors_accepted:
  assumes "wt_ipc_validate_vectors a b limit (Some t0) = (WT_IPC_VALID, t)"
  shows "carray_count a + carray_count b \<le> 4"
    and "limit \<noteq> 0 \<Longrightarrow> vectors_length (carray_list a) + vectors_length (carray_list b) \<le> unat limit"
proof -
  obtain t1 t2 where "wt_ipc_validate_vector_list a 0 = (WT_IPC_VALID, t1)"
    and "wt_ipc_validate_vector_list b t1 = (WT_IPC_VALID, t2)"
    and "carray_count a + carray_count b \<le> 4" and "limit \<noteq> 0 \<longrightarrow> t2 \<le> limit"
    using assms by (auto simp: wt_ipc_validate_vectors_def not_less split: if_splits prod.splits)
  then show "carray_count a + carray_count b \<le> 4"
    and "limit \<noteq> 0 \<Longrightarrow> vectors_length (carray_list a) + vectors_length (carray_list b) \<le> unat limit"
    by (auto simp: validate_vector_list_split word_le_nat_alt)
qed

lemma prepare_accepted:
  assumes "wt_ffm_prepare_vectors ops rt m in_vec out_vec = (rt', ret)" "ret = WT_FFM_SUCCESS"
  shows "rt' = upd_msg m (\<lambda>x. ffm_layout_out (carray_list out_vec) 0 0
      (ffm_copy_in (client_memory rt) (carray_list in_vec) 0 0
        (x\<lparr>msg_in_count := length (carray_list in_vec), msg_out_count := length (carray_list out_vec)\<rparr>))) rt"
    and "length (carray_list in_vec) + length (carray_list out_vec) \<le> PSA_MAX_IOVEC"
    and "sum_list (in_lens (carray_list in_vec)) + sum_list (out_lens (carray_list out_vec)) \<le>
           WT_FFM_TRANSFER_BYTES"
proof -
  let ?a = "CArray (map (\<lambda>v. \<lparr>iv_base = inv_base v, iv_length = inv_len v\<rparr>) (carray_list in_vec))"
  let ?b = "CArray (map (\<lambda>v. \<lparr>iv_base = outv_base v, iv_length = outv_len v\<rparr>) (carray_list out_vec))"
  have r: "fst (wt_ipc_validate_vectors ?a ?b 1024 (Some 0)) = WT_IPC_VALID \<and>
      rt' = upd_msg m (\<lambda>x. ffm_layout_out (carray_list out_vec) 0 0
      (ffm_copy_in (client_memory rt) (carray_list in_vec) 0 0
        (x\<lparr>msg_in_count := length (carray_list in_vec), msg_out_count := length (carray_list out_vec)\<rparr>))) rt"
    using assms unfolding wt_ffm_prepare_vectors_def Let_def
    by (auto split: if_splits option.splits prod.splits)
  then obtain t where v: "wt_ipc_validate_vectors ?a ?b 1024 (Some 0) = (WT_IPC_VALID, t)"
    by (cases "wt_ipc_validate_vectors ?a ?b 1024 (Some 0)") auto
  show "rt' = upd_msg m (\<lambda>x. ffm_layout_out (carray_list out_vec) 0 0
      (ffm_copy_in (client_memory rt) (carray_list in_vec) 0 0
        (x\<lparr>msg_in_count := length (carray_list in_vec), msg_out_count := length (carray_list out_vec)\<rparr>))) rt"
    using r by blast
  show "length (carray_list in_vec) + length (carray_list out_vec) \<le> PSA_MAX_IOVEC"
    using validate_vectors_accepted(1) [OF v] by simp
  have "sum_list (in_lens xs) = vectors_length (map (\<lambda>v. \<lparr>iv_base = inv_base v, iv_length = inv_len v\<rparr>) xs)" for xs
    by (simp add: in_lens_def vectors_length_def comp_def)
  moreover have "sum_list (out_lens xs) = vectors_length (map (\<lambda>v. \<lparr>iv_base = outv_base v, iv_length = outv_len v\<rparr>) xs)" for xs
    by (simp add: out_lens_def vectors_length_def comp_def)
  ultimately show "sum_list (in_lens (carray_list in_vec)) + sum_list (out_lens (carray_list out_vec)) \<le>
      WT_FFM_TRANSFER_BYTES"
    using validate_vectors_accepted(2) [OF v] by simp
qed

text \<open>A refused request changes nothing but the record of the refusal.\<close>

lemma prepare_refused:
  assumes "wt_ffm_prepare_vectors ops rt m in_vec out_vec = (rt', ret)" "ret \<noteq> WT_FFM_SUCCESS"
  shows "\<exists>a b. rt' = rt\<lparr>g_wt_ffm_refuse_info := a, g_wt_ffm_refuse_base := b\<rparr>"
proof -
  have "\<exists>a b. r = r\<lparr>g_wt_ffm_refuse_info := a, g_wt_ffm_refuse_base := b\<rparr>" for r :: wt_ffm_runtime
    by (rule exI [of _ "g_wt_ffm_refuse_info r"], rule exI [of _ "g_wt_ffm_refuse_base r"]) simp
  then show ?thesis
    using assms unfolding wt_ffm_prepare_vectors_def Let_def
    by (auto split: if_splits option.splits prod.splits)
qed

lemma streams_prepared:
  assumes "length ins + length outs \<le> PSA_MAX_IOVEC"
    and "sum_list (in_lens ins) + sum_list (out_lens outs) \<le> WT_FFM_TRANSFER_BYTES"
    and "\<And>i. msg_in_position m i = 0" "\<And>i. msg_out_position m i = 0"
  shows "streams_ok (ffm_layout_out outs 0 0 (ffm_copy_in mem ins 0 0
           (m\<lparr>msg_in_count := length ins, msg_out_count := length outs\<rparr>)))"
proof -
  let ?c = "ffm_copy_in mem ins 0 0 (m\<lparr>msg_in_count := length ins, msg_out_count := length outs\<rparr>)"
  note i = copy_in_layout [of _ ins mem 0 0, simplified] and o = layout_out_layout [of _ outs 0 0 ?c, simplified]
  have li: "length (in_lens ins) = length ins" and lo: "length (out_lens outs) = length outs"
    by (simp_all add: in_lens_def out_lens_def)
  show ?thesis
    unfolding streams_ok_def
    using assms offset_of_fits [of _ "in_lens ins"] offset_of_fits [of _ "out_lens outs"]
      offset_of_disjoint [of _ _ "in_lens ins"] offset_of_disjoint [of _ _ "out_lens outs"]
    by (auto simp: i o li lo) (meson add_leD1 add_leD2 le_trans)+
qed

end
