(* ===== verification/Ffm_Ops.thy ===== *)
theory Ffm_Ops
  imports Ffm_Vectors
begin

text \<open>
  Every operation of the runtime keeps the invariant. The begin operations assume that the
  calling client has no request of its own in flight, which is what a blocked client
  guarantees; the finish operations assume that their message is complete.
\<close>

section \<open>Composing updates\<close>

lemma upd_at_upd_at: "upd_at i f (upd_at i g xs) = upd_at i (f \<circ> g) xs"
  by (cases "i < length xs") (auto simp: upd_at_def list_update_beyond)

lemma upd_conn_conn: "upd_conn i f (upd_conn i g rt) = upd_conn i (f \<circ> g) rt"
  by (simp add: upd_conn_def upd_at_upd_at)

lemma upd_msg_msg: "upd_msg i f (upd_msg i g rt) = upd_msg i (f \<circ> g) rt"
  by (simp add: upd_msg_def upd_at_upd_at)

lemma upd_conn_msg: "upd_conn i f (upd_msg j g rt) = upd_msg j g (upd_conn i f rt)"
  by (simp add: upd_conn_def upd_msg_def)

section \<open>Handles and pools\<close>

lemma decode_handle_index:
  assumes "wt_ffm_decode_handle h t limit = Inr (i, g)"
  shows "i < limit" and "g \<noteq> 0"
proof -
  let ?e = "word_of_int h AND WT_FFM_HANDLE_INDEX_MASK :: u32"
  have e: "?e \<noteq> 0" "unat ?e \<le> limit" "i = unat (?e - 1)"
    using assms by (auto simp: wt_ffm_decode_handle_def Let_def split: if_splits)
  have "0 < unat ?e" using e(1) by (simp add: unat_gt_0)
  moreover have "unat (?e - 1) = unat ?e - 1" using e(1) by (rule unat_minus_one)
  ultimately show "i < limit" using e by linarith
  show "g \<noteq> 0" using assms by (auto simp: wt_ffm_decode_handle_def Let_def split: if_splits)
qed

lemma connection_from_handle_Inr:
  assumes "wt_ffm_connection_from_handle rt caller h = Inr c"
  shows "c < WT_FFM_MAX_CONNECTIONS" "conn_allocated (conn_of rt c)" "conn_caller (conn_of rt c) = caller"
    and "conn_client_instance (conn_of rt c) = wt_ffm_caller_instance rt caller"
  using assms decode_handle_index(1) [of h 1 16]
  by (auto simp: wt_ffm_connection_from_handle_def Let_def split: sum.splits if_splits)

lemma message_from_handle_Inr:
  assumes "wt_ffm_message_from_handle rt pid h = Inr m"
  shows "m < WT_FFM_MAX_MESSAGES" "msg_allocated (msg_of rt m)" "msg_active (msg_of rt m)"
    and "ffm_served_by rt (msg_service_index (msg_of rt m)) pid"
  using assms decode_handle_index(1) [of h 2 8]
  by (auto simp: wt_ffm_message_from_handle_def ffm_served_by_def Let_def split: sum.splits if_splits)

lemma alloc_connection_Inr:
  assumes "wt_ffm_alloc_connection rt = Inr (rt', c)"
  shows "c < length (rt_connections rt)" "\<not> conn_allocated (conn_of rt c)"
    and "rt' = upd_conn c (\<lambda>x. x\<lparr>conn_allocated := True, conn_state := WT_IPC_CONNECTION_FREE,
           conn_error_latch := False\<rparr>) rt"
  using assms first_idx_Some
  by (auto simp: wt_ffm_alloc_connection_def conn_of_def split: option.splits dest!: first_idx_Some)

lemma alloc_message_Inr:
  assumes "wt_ffm_alloc_message rt = Inr (rt', m)"
  shows "m < length (rt_messages rt)" "\<not> msg_allocated (msg_of rt m)"
    and "rt' = upd_msg m (\<lambda>x. x\<lparr>msg_allocated := True, msg_next := WT_FFM_QUEUE_NONE\<rparr>) rt"
  using assms first_idx_Some
  by (auto simp: wt_ffm_alloc_message_def msg_of_def split: option.splits dest!: first_idx_Some)

lemma free_connection_unused:
  assumes "ffm_core rt" "\<not> conn_allocated (conn_of rt c)" "m < WT_FFM_MAX_MESSAGES"
    and "msg_allocated (msg_of rt m)"
  shows "msg_connection_index (msg_of rt m) \<noteq> c"
  using ffm_coreD(7) [OF assms(1,3)] assms(2,4) by (auto simp: msg_ok_def msg_conn_ok_def)

section \<open>A new request\<close>

lemma inv_new_message:
  assumes inv: "ffm_inv rt" and m: "m < WT_FFM_MAX_MESSAGES" "\<not> msg_allocated (msg_of rt m)"
    and N: "g (msg_of rt m) = N"
    and fields: "msg_allocated N" "msg_next N = WT_FFM_QUEUE_NONE" "\<not> msg_active N" "\<not> msg_complete N"
      "msg_service_index N = s" "msg_connection_index N < WT_FFM_MAX_CONNECTIONS"
    and g: "gen_ok (msg_generation N)" and self: "msg_self_ok N"
    and conn: "msg_conn_ok N (conn_of rt (msg_connection_index N))"
    and one: "\<And>m'. m' < WT_FFM_MAX_MESSAGES \<Longrightarrow> m' \<noteq> m \<Longrightarrow> msg_allocated (msg_of rt m') \<Longrightarrow>
        msg_connection_index (msg_of rt m') \<noteq> msg_connection_index N"
  shows "ffm_inv (wt_ffm_enqueue (upd_msg m g rt) s m)"
proof -
  note c = ffm_invD(1) [OF inv]
  note d = ffm_coreD [OF c]
  have len: "m < length (rt_messages rt)" using m d(5) by simp
  have core: "ffm_core (upd_msg m g rt)"
    using fields g self conn one by (intro core_upd_msg [OF c m(1), where g = g and N = N] N) simp_all
  have s: "s < length (rt_services rt)"
    using d(6) [OF fields(6)] conn fields(5) by (simp add: conn_ok_def msg_conn_ok_def)
  show ?thesis
  proof (rule inv_enqueue [OF core])
    show "s < length (rt_services (upd_msg m g rt))" using s by simp
    show "m \<in> waiting (upd_msg m g rt) s" using m fields N len by (simp add: waiting_def)
    show "nx_of (upd_msg m g rt) m = WT_FFM_QUEUE_NONE" using fields N len by (simp add: nx_of_def)
    fix t assume "t < length (rt_services (upd_msg m g rt))"
    then have st: "service_ok rt t" using ffm_invD(2) [OF inv] by simp
    have w: "waiting (upd_msg m g rt) t - {m} = waiting rt t - {}"
      using m(2) by (auto simp: waiting_def)
    show "service_but {m} (upd_msg m g rt) t"
      using m(2) by (intro service_cong [OF st _ _ _ _ _ w]) (auto simp: ffm_views waiting_def)
  qed
qed

text \<open>The message built from a free slot by a connect or close request.\<close>

lemma blank_fields:
  assumes "msg_blank m"
  shows "streams_ok m" "\<not> msg_active m" "\<not> msg_complete m" "msg_abandoned m = NOT_ABANDONED"
    and "\<not> msg_allocated m" "msg_reply_status m = 0"
  using assms by (cases m; simp add: msg_blank_def zero_ffm_message_def streams_ok_def)+

lemma post_inv:
  assumes inv: "ffm_inv rt" and m: "m < WT_FFM_MAX_MESSAGES" "\<not> msg_allocated (msg_of rt m)"
    and c: "c < WT_FFM_MAX_CONNECTIONS" "conn_allocated (conn_of rt c)" "conn_caller (conn_of rt c) = caller"
      "conn_service_index (conn_of rt c) = s"
    and ty: "type \<ge> PSA_IPC_DISCONNECT" and st: "conn_state (conn_of rt c) \<noteq> WT_IPC_CONNECTION_IDLE"
    and one: "\<And>m'. m' < WT_FFM_MAX_MESSAGES \<Longrightarrow> msg_allocated (msg_of rt m') \<Longrightarrow>
        msg_connection_index (msg_of rt m') \<noteq> c"
  shows "ffm_inv (ffm_post (upd_msg m (\<lambda>x. x\<lparr>msg_allocated := True, msg_next := WT_FFM_QUEUE_NONE\<rparr>) rt)
           m caller c s type)"
proof -
  have ok: "msg_ok rt m" using ffm_coreD(7) [OF ffm_invD(1) [OF inv] m(1)] .
  then have b: "msg_blank (msg_of rt m)" using m(2) by (simp add: msg_ok_def)
  note bf = blank_fields [OF b]
  show ?thesis
    unfolding ffm_post_def upd_msg_msg
  proof (rule inv_new_message [OF inv m refl])
    show "msg_self_ok (((\<lambda>x. x\<lparr>msg_caller := caller, msg_connection_index := c, msg_service_index := s,
          msg_type := type\<rparr>) \<circ> (\<lambda>x. x\<lparr>msg_allocated := True, msg_next := WT_FFM_QUEUE_NONE\<rparr>))
          (msg_of rt m))"
      using bf ty by (simp add: msg_self_ok_def streams_ok_def)
  qed (use ok bf c st one in \<open>auto simp: msg_ok_def msg_conn_ok_def\<close>)
qed

section \<open>Connect\<close>

lemma quotas_new_connection:
  assumes q: "quotas rt" and i: "i < length (rt_connections rt)" "\<not> conn_allocated (conn_of rt i)"
    and D: "conn_allocated (f (conn_of rt i))" "conn_caller (f (conn_of rt i)) = caller"
    and b: "wt_ffm_client_connection_count rt caller < WT_FFM_MAX_CONNECTIONS_PER_CLIENT"
      "caller < 0 \<Longrightarrow> wt_ffm_ns_connection_count rt < WT_FFM_MAX_NS_CONNECTIONS"
  shows "quotas (upd_conn i f rt)"
proof -
  have cnt: "count_if (\<lambda>c. conn_allocated c \<and> P (conn_caller c)) (upd_at i f (rt_connections rt)) =
      count_if (\<lambda>c. conn_allocated c \<and> P (conn_caller c)) (rt_connections rt) + (if P caller then 1 else 0)"
    for P
    using count_if_upd_at [OF i(1), of "\<lambda>c. conn_allocated c \<and> P (conn_caller c)" f] i(2) D
    by (simp add: conn_of_def)
  have "wt_ffm_client_connection_count (upd_conn i f rt) x \<le> WT_FFM_MAX_CONNECTIONS_PER_CLIENT" for x
    using cnt [of "\<lambda>y. y = x"] q b(1)
    by (auto simp: quotas_def wt_ffm_client_connection_count_def upd_conn_def)
  moreover have "wt_ffm_ns_connection_count (upd_conn i f rt) \<le> WT_FFM_MAX_NS_CONNECTIONS"
    using cnt [of "\<lambda>y. y < 0"] q b(2)
    by (cases "caller < 0") (auto simp: quotas_def wt_ffm_ns_connection_count_def upd_conn_def)
  ultimately show ?thesis by (simp add: quotas_def)
qed

lemma find_service_Inr: "wt_ffm_find_service rt sid = Inr s \<Longrightarrow> s < length (rt_services rt)"
  by (auto simp: wt_ffm_find_service_def split: if_splits option.splits dest!: first_idx_Some)

lemma inv_new_connection:
  assumes inv: "ffm_inv rt" and c: "c < length (rt_connections rt)" "\<not> conn_allocated (conn_of rt c)"
    and D: "conn_allocated (f (conn_of rt c))" "conn_caller (f (conn_of rt c)) = caller"
      "conn_service_index (f (conn_of rt c)) < length (rt_services rt)" "caller \<noteq> 0"
      "conn_state (f (conn_of rt c)) \<noteq> WT_IPC_CONNECTION_FREE"
      "conn_generation (f (conn_of rt c)) = conn_generation (conn_of rt c)"
    and b: "wt_ffm_client_connection_count rt caller < WT_FFM_MAX_CONNECTIONS_PER_CLIENT"
      "caller < 0 \<Longrightarrow> wt_ffm_ns_connection_count rt < WT_FFM_MAX_NS_CONNECTIONS"
  shows "ffm_inv (upd_conn c f rt)"
proof (rule inv_upd_conn [OF inv], rule core_upd_conn [OF ffm_invD(1) [OF inv] _ refl])
  note d = ffm_coreD [OF ffm_invD(1) [OF inv]]
  show c16: "c < WT_FFM_MAX_CONNECTIONS" using c d(4) by simp
  show "gen_ok (conn_generation (f (conn_of rt c)))" using d(6) [OF c16] D(6) by (simp add: conn_ok_def)
  show "quotas (upd_conn c f rt)"
    using quotas_new_connection [OF d(3) c, where f = f] D b by blast
  show "msg_conn_ok (msg_of rt m) (f (conn_of rt c))"
    if "m < WT_FFM_MAX_MESSAGES" "msg_allocated (msg_of rt m)" "msg_connection_index (msg_of rt m) = c" for m
    using free_connection_unused [OF ffm_invD(1) [OF inv] c(2) that(1,2)] that(3) by simp
qed (use D in simp_all)

text \<open>The outcome of an accepted connect request.\<close>

definition connecting ::
  "wt_ffm_runtime \<Rightarrow> nat \<Rightarrow> int \<Rightarrow> int \<Rightarrow> bool" where
  "connecting rt m caller h \<longleftrightarrow> m < WT_FFM_MAX_MESSAGES \<and> msg_allocated (msg_of rt m) \<and>
     msg_caller (msg_of rt m) = caller \<and> msg_type (msg_of rt m) = PSA_IPC_CONNECT \<and>
     \<not> msg_active (msg_of rt m) \<and> \<not> msg_complete (msg_of rt m) \<and>
     msg_abandoned (msg_of rt m) = NOT_ABANDONED \<and>
     conn_state (conn_of rt (msg_connection_index (msg_of rt m))) = WT_IPC_CONNECTION_PENDING_CONNECT \<and>
     h = wt_ffm_make_handle WT_FFM_HANDLE_CONNECTION (msg_connection_index (msg_of rt m))
           (conn_generation (conn_of rt (msg_connection_index (msg_of rt m))))"

lemma enqueue_reads [simp]:
  "conn_of (wt_ffm_enqueue rt s m) c = conn_of rt c"
  "msg_allocated (msg_of (wt_ffm_enqueue rt s m) j) = msg_allocated (msg_of rt j)"
  "msg_active (msg_of (wt_ffm_enqueue rt s m) j) = msg_active (msg_of rt j)"
  "msg_complete (msg_of (wt_ffm_enqueue rt s m) j) = msg_complete (msg_of rt j)"
  "msg_abandoned (msg_of (wt_ffm_enqueue rt s m) j) = msg_abandoned (msg_of rt j)"
  "msg_caller (msg_of (wt_ffm_enqueue rt s m) j) = msg_caller (msg_of rt j)"
  "msg_type (msg_of (wt_ffm_enqueue rt s m) j) = msg_type (msg_of rt j)"
  "msg_connection_index (msg_of (wt_ffm_enqueue rt s m) j) = msg_connection_index (msg_of rt j)"
  "msg_service_index (msg_of (wt_ffm_enqueue rt s m) j) = msg_service_index (msg_of rt j)"
  using enqueue_frame [of rt s m] queue_frame_views(1) [OF enqueue_frame [of rt s m]]
  unfolding queue_frame_def by simp_all

lemma connect_begin_cases:
  assumes inv: "ffm_inv rt" and e: "wt_ffm_connect_begin rt caller sid version = (rt', h, r)"
  shows "ffm_inv rt' \<and> (case r of None \<Rightarrow> True | Some m \<Rightarrow> caller \<noteq> 0 \<and> connecting rt' m caller h)"
proof (cases "rt' = rt \<and> r = None")
  case True
  then show ?thesis using inv by simp
next
  case False
  note d = ffm_coreD [OF ffm_invD(1) [OF inv]]
  obtain s rt1 c where s: "wt_ffm_find_service rt sid = Inr s" and a: "wt_ffm_alloc_connection rt = Inr (rt1, c)"
    and cond: "caller \<noteq> 0" "wt_ffm_client_connection_count rt caller < WT_FFM_MAX_CONNECTIONS_PER_CLIENT"
      "caller < 0 \<longrightarrow> wt_ffm_ns_connection_count rt < WT_FFM_MAX_NS_CONNECTIONS"
    and pol: "wt_ffm_caller_allowed rt caller s" "sd_connection_based (sr_descriptor (svc_of rt s)) \<noteq> 0"
      "wt_ffm_version_allowed (sr_descriptor (svc_of rt s)) version"
    using e False unfolding wt_ffm_connect_begin_def Let_def
    by (auto split: if_splits sum.splits prod.splits simp: not_le)
  note ac = alloc_connection_Inr [OF a]
  show ?thesis
  proof (cases "wt_ffm_alloc_message rt1")
    case (Inl x)
    have r: "rt' = wt_ffm_release_connection rt1 c" "r = None"
      using e s a Inl False unfolding wt_ffm_connect_begin_def Let_def
      by (auto split: if_splits)
    let ?f = "(\<lambda>c. zero_ffm_connection\<lparr>conn_generation := wt_ffm_next_generation (conn_generation c),
          conn_state := WT_IPC_CONNECTION_FREE\<rparr>) \<circ>
        (\<lambda>x. x\<lparr>conn_allocated := True, conn_state := WT_IPC_CONNECTION_FREE, conn_error_latch := False\<rparr>)"
    have "ffm_inv (upd_conn c ?f rt)"
    proof (rule inv_upd_conn [OF inv], rule core_upd_conn [OF ffm_invD(1) [OF inv] _ refl])
      show "c < WT_FFM_MAX_CONNECTIONS" using ac d(4) by simp
      show "msg_conn_ok (msg_of rt m) (?f (conn_of rt c))"
        if "m < WT_FFM_MAX_MESSAGES" "msg_allocated (msg_of rt m)" "msg_connection_index (msg_of rt m) = c" for m
        using free_connection_unused [OF ffm_invD(1) [OF inv] ac(2)] that by blast
      show "quotas (upd_conn c ?f rt)"
        using ac d(3) by (intro quotas_upd_conn) (simp_all add: zero_ffm_connection_def)
    qed (simp_all add: next_generation_ok zero_ffm_connection_def)
    then show ?thesis using r ac(3) by (simp add: wt_ffm_release_connection_def upd_conn_conn)
  next
    case (Inr p)
    obtain rt2 m where p: "p = (rt2, m)" by (cases p)
    have am: "m < length (rt_messages rt)" "\<not> msg_allocated (msg_of rt m)"
      "rt2 = upd_msg m (\<lambda>x. x\<lparr>msg_allocated := True, msg_next := WT_FFM_QUEUE_NONE\<rparr>) rt1"
      using alloc_message_Inr [of rt1 rt2 m] Inr p ac(3) by simp_all
    define f :: "wt_ffm_connection_runtime \<Rightarrow> wt_ffm_connection_runtime"
      where "f = (\<lambda>x. x\<lparr>conn_caller := caller, conn_client_instance := wt_ffm_caller_instance rt2 caller,
        conn_service_index := s, conn_state := WT_IPC_CONNECTION_PENDING_CONNECT\<rparr>) \<circ>
      (\<lambda>x. x\<lparr>conn_allocated := True, conn_state := WT_IPC_CONNECTION_FREE, conn_error_latch := False\<rparr>)"
    have rt3: "upd_conn c (\<lambda>x. x\<lparr>conn_caller := caller,
        conn_client_instance := wt_ffm_caller_instance rt2 caller, conn_service_index := s,
        conn_state := WT_IPC_CONNECTION_PENDING_CONNECT\<rparr>) rt2 =
      upd_msg m (\<lambda>x. x\<lparr>msg_allocated := True, msg_next := WT_FFM_QUEUE_NONE\<rparr>) (upd_conn c f rt)"
      unfolding am(3) ac(3) upd_conn_msg upd_conn_conn f_def ..
    have r: "rt' = ffm_post (upd_msg m (\<lambda>x. x\<lparr>msg_allocated := True, msg_next := WT_FFM_QUEUE_NONE\<rparr>)
          (upd_conn c f rt)) m caller c s PSA_IPC_CONNECT" "r = Some m"
      "h = wt_ffm_make_handle WT_FFM_HANDLE_CONNECTION c
        (conn_generation (conn_of (upd_msg m (\<lambda>x. x\<lparr>msg_allocated := True,
           msg_next := WT_FFM_QUEUE_NONE\<rparr>) (upd_conn c f rt)) c))"
      using e rt3 cond by (auto simp: wt_ffm_connect_begin_def Let_def s a Inr p pol simp del: conn_of_upd)
    have i0: "ffm_inv (upd_conn c f rt)"
      using cond find_service_Inr [OF s] by (intro inv_new_connection [OF inv ac(1,2)]) (auto simp: f_def)
    have m8: "m < WT_FFM_MAX_MESSAGES" and c16: "c < WT_FFM_MAX_CONNECTIONS" using am(1) ac(1) d(4,5) by simp_all
    have "ffm_inv rt'"
      unfolding r(1)
    proof (rule post_inv [OF i0])
      fix m' assume "m' < WT_FFM_MAX_MESSAGES" "msg_allocated (msg_of (upd_conn c f rt) m')"
      then show "msg_connection_index (msg_of (upd_conn c f rt) m') \<noteq> c"
        using free_connection_unused [OF ffm_invD(1) [OF inv] ac(2)] by simp
    qed (use m8 c16 am(2) ac(1) in \<open>simp_all add: f_def\<close>)
    moreover have "connecting rt' m caller h"
      using m8 am(1) ac(1) blank_fields [of "msg_of rt m"] d(7) [OF m8] am(2)
      unfolding r(1,3) by (simp add: connecting_def ffm_post_def f_def msg_ok_def)
    ultimately show ?thesis using r(2) cond(1) by simp
  qed
qed

section \<open>Call\<close>

text \<open>The invariant speaks of the four tables only.\<close>

definition same_tables :: "wt_ffm_runtime \<Rightarrow> wt_ffm_runtime \<Rightarrow> bool" where
  "same_tables rt rt' \<longleftrightarrow> rt_connections rt' = rt_connections rt \<and> rt_messages rt' = rt_messages rt \<and>
     rt_services rt' = rt_services rt \<and> rt_partitions rt' = rt_partitions rt"

lemma same_tables_reads:
  assumes "same_tables rt rt'"
  shows "conn_of rt' = conn_of rt" "msg_of rt' = msg_of rt" "svc_of rt' = svc_of rt" "part_of rt' = part_of rt"
    and "rt_connections rt' = rt_connections rt" "rt_messages rt' = rt_messages rt"
    and "rt_services rt' = rt_services rt" "rt_partitions rt' = rt_partitions rt"
  using assms by (simp_all add: same_tables_def fun_eq_iff conn_of_def msg_of_def svc_of_def part_of_def)

lemma same_tables_inv:
  assumes "same_tables rt rt'"
  shows "ffm_inv rt' = ffm_inv rt"
proof -
  note r = same_tables_reads [OF assms]
  show ?thesis
    by (simp add: ffm_inv_def ffm_core_def ffm_static_def conn_ok_def msg_ok_def one_message_def quotas_def
        wt_ffm_client_connection_count_def wt_ffm_ns_connection_count_def service_but_def queue_is_def
        waiting_def nx_of_def [abs_def] hd_of_def tl_of_def pidx_of_def sig_of_def asserted_def r)
qed

text \<open>A client without a request of its own in flight.\<close>

definition client_quiet :: "wt_ffm_runtime \<Rightarrow> int \<Rightarrow> bool" where
  "client_quiet rt caller \<longleftrightarrow> (\<forall>m < WT_FFM_MAX_MESSAGES. msg_allocated (msg_of rt m) \<longrightarrow>
     msg_caller (msg_of rt m) = caller \<longrightarrow> msg_abandoned (msg_of rt m) \<noteq> NOT_ABANDONED)"

text \<open>An idle connection of a quiet client has no message at all.\<close>

lemma quiet_connection_unused:
  assumes c: "ffm_core rt" and q: "client_quiet rt (conn_caller (conn_of rt i))"
    and st: "conn_state (conn_of rt i) = WT_IPC_CONNECTION_IDLE \<or>
      (\<forall>m < WT_FFM_MAX_MESSAGES. msg_allocated (msg_of rt m) \<longrightarrow> msg_connection_index (msg_of rt m) = i \<longrightarrow>
         msg_abandoned (msg_of rt m) = NOT_ABANDONED)"
    and m: "m < WT_FFM_MAX_MESSAGES" "msg_allocated (msg_of rt m)"
  shows "msg_connection_index (msg_of rt m) \<noteq> i"
proof
  assume i: "msg_connection_index (msg_of rt m) = i"
  have "msg_conn_ok (msg_of rt m) (conn_of rt i)" "msg_self_ok (msg_of rt m)"
    using ffm_coreD(7) [OF c m(1)] m(2) i by (auto simp: msg_ok_def)
  then show False using q st m i by (auto simp: msg_conn_ok_def msg_self_ok_def client_quiet_def)
qed

lemma inv_drop_connection:
  assumes inv: "ffm_inv rt" and c: "c < WT_FFM_MAX_CONNECTIONS" "conn_allocated (conn_of rt c)"
  shows "ffm_inv (ffm_drop_connection rt c)"
proof -
  note d = ffm_coreD [OF ffm_invD(1) [OF inv]]
  have ok: "conn_ok rt c" using d(6) [OF c(1)] .
  have "ffm_inv (upd_conn c (\<lambda>x. x\<lparr>conn_state := WT_IPC_CONNECTION_ERROR\<rparr>) rt)"
    by (intro inv_upd_conn [OF inv] core_conn_state [OF ffm_invD(1) [OF inv] c(1)]) simp_all
  moreover have "ffm_inv (upd_conn c (\<lambda>x. x\<lparr>conn_error_latch := True\<rparr>) rt)"
    if "conn_state (conn_of rt c) \<noteq> WT_IPC_CONNECTION_IDLE"
    using that ok c(2)
    by (intro inv_upd_conn [OF inv] core_conn_state [OF ffm_invD(1) [OF inv] c(1)]) (simp_all add: conn_ok_def)
  ultimately show ?thesis by (simp add: ffm_drop_connection_def)
qed

lemma inv_latch:
  assumes inv: "ffm_inv rt" and c: "c < WT_FFM_MAX_CONNECTIONS" "conn_allocated (conn_of rt c)"
    and st: "conn_state (conn_of rt c) \<noteq> WT_IPC_CONNECTION_IDLE"
  shows "ffm_inv (upd_conn c (\<lambda>x. x\<lparr>conn_error_latch := True\<rparr>) rt)"
  using inv_drop_connection [OF inv c] st by (simp add: ffm_drop_connection_def)

lemma inv_conn_error:
  assumes inv: "ffm_inv rt" and c: "c < WT_FFM_MAX_CONNECTIONS"
  shows "ffm_inv (upd_conn c (\<lambda>x. x\<lparr>conn_state := WT_IPC_CONNECTION_ERROR\<rparr>) rt)"
  by (intro inv_upd_conn [OF inv] core_conn_state [OF ffm_invD(1) [OF inv] c]) simp_all

lemma inv_call_refuse:
  assumes "ffm_inv rt"
  shows "ffm_inv (wt_ffm_call_refuse rt caller h)"
  using assms connection_from_handle_Inr [of rt caller h]
  by (auto simp: wt_ffm_call_refuse_def inv_drop_connection split: sum.splits)

text \<open>The state of a slot that was taken and given back.\<close>

lemma inv_slot_returned:
  assumes inv: "ffm_inv rt" and m: "m < WT_FFM_MAX_MESSAGES" "\<not> msg_allocated (msg_of rt m)"
    and keep: "\<And>x. msg_generation (g x) = msg_generation x"
  shows "ffm_inv (wt_ffm_release_message (upd_msg m g rt) m)"
proof -
  note d = ffm_coreD [OF ffm_invD(1) [OF inv]]
  have "wt_ffm_release_message (upd_msg m g rt) m = wt_ffm_release_message rt m"
    by (simp add: wt_ffm_release_message_def upd_msg_msg comp_def keep)
  moreover have "ffm_inv (wt_ffm_release_message rt m)"
    by (rule inv_release_message [OF ffm_invD(1) [OF inv] m(1) ffm_invD(2) [OF inv]])
      (use m(2) in \<open>auto simp: waiting_def\<close>)
  ultimately show ?thesis by simp
qed

text \<open>The outcome of an accepted call.\<close>

definition requesting :: "wt_ffm_runtime \<Rightarrow> nat \<Rightarrow> int \<Rightarrow> int \<Rightarrow> bool" where
  "requesting rt m caller type \<longleftrightarrow> m < WT_FFM_MAX_MESSAGES \<and> msg_allocated (msg_of rt m) \<and>
     msg_caller (msg_of rt m) = caller \<and> msg_type (msg_of rt m) = type \<and>
     \<not> msg_active (msg_of rt m) \<and> \<not> msg_complete (msg_of rt m) \<and>
     msg_abandoned (msg_of rt m) = NOT_ABANDONED"

lemma call_enqueue_refused:
  assumes inv: "ffm_inv rt" and site: "\<And>n r. same_tables r (site n r)"
    and e: "ffm_call_enqueue ops site rt caller h type in_vec out_vec = (rt', Inl status)"
  shows "ffm_inv rt'"
proof (cases "wt_ffm_connection_from_handle rt caller h")
  case (Inl x)
  then show ?thesis using e inv same_tables_inv [OF site] by (auto simp: ffm_call_enqueue_def)
next
  case (Inr c)
  note c = connection_from_handle_Inr [OF Inr]
  note r = same_tables_reads [OF site]
  have si: "ffm_inv (site n rt)" for n using inv same_tables_inv [OF site] by simp
  show ?thesis
  proof (cases "wt_ffm_alloc_message rt")
    case (Inl x)
    then show ?thesis
      using e Inr c inv_drop_connection [OF si] inv_latch [OF si] si r
      by (auto simp: ffm_call_enqueue_def split: if_splits)
  next
    case (Inr p)
    obtain rt1 m where p: "p = (rt1, m)" by (cases p)
    have am: "m < length (rt_messages rt)" "\<not> msg_allocated (msg_of rt m)"
      "rt1 = upd_msg m (\<lambda>x. x\<lparr>msg_allocated := True, msg_next := WT_FFM_QUEUE_NONE\<rparr>) rt"
      using alloc_message_Inr [of rt rt1 m] Inr p by simp_all
    have m8: "m < WT_FFM_MAX_MESSAGES" using am(1) ffm_coreD(5) [OF ffm_invD(1) [OF inv]] by simp
    define rt2 where "rt2 = upd_msg m (\<lambda>x. x\<lparr>msg_caller := caller, msg_connection_index := c,
      msg_service_index := conn_service_index (conn_of rt1 c), msg_type := type\<rparr>) rt1"
    obtain rt3 ret where pv: "wt_ffm_prepare_vectors ops rt2 m in_vec out_vec = (rt3, ret)"
      by (cases "wt_ffm_prepare_vectors ops rt2 m in_vec out_vec")
    have rel: "ffm_inv (wt_ffm_release_message rt3 m)" if "ret \<noteq> WT_FFM_SUCCESS"
    proof -
      obtain a b where "rt3 = rt2\<lparr>g_wt_ffm_refuse_info := a, g_wt_ffm_refuse_base := b\<rparr>"
        using prepare_refused [OF pv \<open>ret \<noteq> WT_FFM_SUCCESS\<close>] by blast
      then have "same_tables (wt_ffm_release_message rt2 m) (wt_ffm_release_message rt3 m)"
        by (simp add: same_tables_def wt_ffm_release_message_def upd_msg_def)
      moreover have "ffm_inv (wt_ffm_release_message rt2 m)"
        unfolding rt2_def am(3) upd_msg_msg by (rule inv_slot_returned [OF inv m8 am(2)]) simp
      ultimately show ?thesis using same_tables_inv by blast
    qed
    show ?thesis
      using e \<open>wt_ffm_connection_from_handle rt caller h = Inr c\<close> Inr p c pv rel
        inv_drop_connection [OF si] inv_latch [OF si] inv_conn_error [OF rel] r
      by (auto simp: ffm_call_enqueue_def Let_def rt2_def [symmetric] split: if_splits)
  qed
qed

lemma call_enqueue_accepted:
  assumes inv: "ffm_inv rt" and q: "client_quiet rt caller"
    and e: "ffm_call_enqueue ops site rt caller h type in_vec out_vec = (rt', Inr m)"
  shows "ffm_inv rt'" and "requesting rt' m caller type"
proof -
  note co = ffm_invD(1) [OF inv]
  note d = ffm_coreD [OF co]
  obtain c rt1 where ch: "wt_ffm_connection_from_handle rt caller h = Inr c"
    and al: "wt_ffm_alloc_message rt = Inr (rt1, m)" and ty: "type \<ge> 0"
    and idle: "conn_state (conn_of rt c) = WT_IPC_CONNECTION_IDLE"
    using e by (auto simp: ffm_call_enqueue_def Let_def split: sum.splits if_splits prod.splits)
  note c = connection_from_handle_Inr [OF ch] and am = alloc_message_Inr [OF al]
  let ?s = "conn_service_index (conn_of rt1 c)"
  let ?P = "\<lambda>x. ffm_layout_out (carray_list out_vec) 0 0
    (ffm_copy_in (client_memory rt) (carray_list in_vec) 0 0
      (x\<lparr>msg_in_count := length (carray_list in_vec), msg_out_count := length (carray_list out_vec)\<rparr>))"
  let ?g = "?P \<circ> ((\<lambda>x. x\<lparr>msg_caller := caller, msg_connection_index := c, msg_service_index := ?s,
      msg_type := type\<rparr>) \<circ> (\<lambda>x. x\<lparr>msg_allocated := True, msg_next := WT_FFM_QUEUE_NONE\<rparr>))"
  let ?f = "\<lambda>x. x\<lparr>conn_state := WT_IPC_CONNECTION_PENDING_REQUEST\<rparr>"
  define rt2 where "rt2 = upd_msg m (\<lambda>x. x\<lparr>msg_caller := caller, msg_connection_index := c,
      msg_service_index := ?s, msg_type := type\<rparr>) rt1"
  obtain rt3 where pv: "wt_ffm_prepare_vectors ops rt2 m in_vec out_vec = (rt3, 0)"
    and r: "rt' = wt_ffm_enqueue (upd_conn c ?f rt3) ?s m"
    using e ch al ty idle
    by (auto simp: ffm_call_enqueue_def Let_def rt2_def [symmetric] split: if_splits prod.splits)
  note pa = prepare_accepted [OF pv refl]
  have r': "rt' = wt_ffm_enqueue (upd_msg m ?g (upd_conn c ?f rt)) ?s m"
    unfolding r pa(1) rt2_def am(3) upd_msg_msg upd_conn_msg by simp
  have m8: "m < WT_FFM_MAX_MESSAGES" using am(1) d(5) by simp
  have ok: "msg_ok rt m" using d(7) [OF m8] .
  then have b: "msg_blank (msg_of rt m)" using am(2) by (simp add: msg_ok_def)
  note bf = blank_fields [OF b]
  have pos: "msg_in_position (msg_of rt m) = (\<lambda>_. 0)" "msg_out_position (msg_of rt m) = (\<lambda>_. 0)"
    using b by (cases "msg_of rt m"; simp add: msg_blank_def zero_ffm_message_def)+
  have unused: "msg_connection_index (msg_of rt m') \<noteq> c"
    if "m' < WT_FFM_MAX_MESSAGES" "msg_allocated (msg_of rt m')" for m'
    using quiet_connection_unused [OF co, of c m'] q c(3) idle that by simp
  have i0: "ffm_inv (upd_conn c ?f rt)"
    by (intro inv_upd_conn [OF inv] core_conn_state [OF co c(1)]) simp_all
  show "ffm_inv rt'"
    unfolding r'
  proof (rule inv_new_message [OF i0 m8 _ refl])
    show "msg_self_ok (?g (msg_of (upd_conn c ?f rt) m))"
      using streams_prepared [OF pa(2,3)] bf ty pos by (simp add: msg_self_ok_def)
  qed (use ok bf am c unused d(4) in \<open>auto simp: msg_ok_def msg_conn_ok_def\<close>)
  show "requesting rt' m caller type"
    using m8 am bf unfolding r' by (simp add: requesting_def)
qed

lemma call_begin_inv:
  assumes "ffm_inv rt" "client_quiet rt caller"
    and "wt_ffm_call_begin ops rt caller h type in_vec out_vec = (rt', status, r)"
  shows "ffm_inv rt' \<and> (case r of None \<Rightarrow> True | Some m \<Rightarrow> requesting rt' m caller type)"
  using assms call_enqueue_refused [OF assms(1), of "\<lambda>_. id" ops caller h type in_vec out_vec]
    call_enqueue_accepted [OF assms(1,2), of ops "\<lambda>_. id" h type in_vec out_vec]
  by (auto simp: wt_ffm_call_begin_def same_tables_def split: if_splits prod.splits sum.splits)

section \<open>Close\<close>

definition closing :: "wt_ffm_runtime \<Rightarrow> nat \<Rightarrow> int \<Rightarrow> bool" where
  "closing rt m caller \<longleftrightarrow> m < WT_FFM_MAX_MESSAGES \<and> msg_allocated (msg_of rt m) \<and>
     msg_caller (msg_of rt m) = caller \<and> msg_type (msg_of rt m) = PSA_IPC_DISCONNECT \<and>
     \<not> msg_active (msg_of rt m) \<and> \<not> msg_complete (msg_of rt m) \<and>
     msg_abandoned (msg_of rt m) = NOT_ABANDONED"

lemma close_abandoned_found:
  assumes inv: "ffm_inv rt" and c: "c < WT_FFM_MAX_CONNECTIONS"
    and e: "wt_ffm_close_abandoned rt c = (rt', True)"
  shows "ffm_inv rt'"
proof -
  note co = ffm_invD(1) [OF inv]
  note d = ffm_coreD [OF co]
  obtain m where f: "first_idx (\<lambda>m. msg_allocated m \<and> msg_abandoned m \<noteq> NOT_ABANDONED \<and>
        msg_connection_index m = c) (rt_messages rt) = Some m"
    and r: "rt' = upd_conn c (\<lambda>c. c\<lparr>conn_state := WT_IPC_CONNECTION_DISCONNECTING\<rparr>)
            (upd_msg m (\<lambda>m. m\<lparr>msg_abandoned := WT_FFM_ABANDONED_CLOSE\<rparr>) rt)"
    using e by (auto simp: wt_ffm_close_abandoned_def split: option.splits)
  have m: "m < WT_FFM_MAX_MESSAGES" "msg_allocated (msg_of rt m)" "msg_abandoned (msg_of rt m) \<noteq> NOT_ABANDONED"
    using first_idx_Some [OF f] d(5) by (simp_all add: msg_of_def)
  have ok: "msg_ok rt m" using d(7) [OF m(1)] .
  have "ffm_core (upd_msg m (\<lambda>m. m\<lparr>msg_abandoned := WT_FFM_ABANDONED_CLOSE\<rparr>) rt)"
  proof (rule core_upd_msg [OF co m(1) refl])
    fix m' assume "m' < WT_FFM_MAX_MESSAGES" "m' \<noteq> m" "msg_allocated (msg_of rt m')"
    then show "msg_connection_index (msg_of rt m') \<noteq>
        msg_connection_index (msg_of rt m\<lparr>msg_abandoned := WT_FFM_ABANDONED_CLOSE\<rparr>)"
      using d(2) m unfolding one_message_def by auto
  qed (use ok m in \<open>auto simp: msg_ok_def msg_self_ok_def msg_conn_ok_def streams_ok_def\<close>)
  then have i: "ffm_inv (upd_msg m (\<lambda>m. m\<lparr>msg_abandoned := WT_FFM_ABANDONED_CLOSE\<rparr>) rt)"
    by (rule inv_upd_msg [OF inv]) simp_all
  show ?thesis
    unfolding r by (intro inv_upd_conn [OF i] core_conn_state [OF ffm_invD(1) [OF i] c]) simp_all
qed

lemma close_abandoned_none:
  assumes "wt_ffm_close_abandoned rt c = (rt', False)" "length (rt_messages rt) = WT_FFM_MAX_MESSAGES"
  shows "rt' = rt" and "m < WT_FFM_MAX_MESSAGES \<Longrightarrow> msg_allocated (msg_of rt m) \<Longrightarrow>
      msg_connection_index (msg_of rt m) = c \<Longrightarrow> msg_abandoned (msg_of rt m) = NOT_ABANDONED"
proof -
  show "rt' = rt" using assms by (auto simp: wt_ffm_close_abandoned_def split: option.splits)
  assume m: "m < WT_FFM_MAX_MESSAGES" "msg_allocated (msg_of rt m)" "msg_connection_index (msg_of rt m) = c"
  have "first_idx (\<lambda>m. msg_allocated m \<and> msg_abandoned m \<noteq> NOT_ABANDONED \<and>
      msg_connection_index m = c) (rt_messages rt) = None"
    using assms(1) by (auto simp: wt_ffm_close_abandoned_def split: option.splits)
  from first_idx_None_nth [OF this, of m] show "msg_abandoned (msg_of rt m) = NOT_ABANDONED"
    using m assms(2) by (simp add: msg_of_def)
qed

lemma close_begin_inv:
  assumes inv: "ffm_inv rt" and q: "client_quiet rt caller"
    and e: "wt_ffm_close_begin rt caller h = (rt', ret, r)"
  shows "ffm_inv rt' \<and> (case r of None \<Rightarrow> True | Some m \<Rightarrow> m = WT_FFM_QUEUE_NONE \<or> closing rt' m caller)"
proof (cases "rt' = rt \<and> (r = None \<or> r = Some WT_FFM_QUEUE_NONE)")
  case True
  then show ?thesis using inv by auto
next
  case False
  note co = ffm_invD(1) [OF inv]
  note d = ffm_coreD [OF co]
  obtain c where ch: "wt_ffm_connection_from_handle rt caller h = Inr c"
    and st: "h \<noteq> 0" "caller \<noteq> 0" "conn_state (conn_of rt c) = WT_IPC_CONNECTION_IDLE \<or>
      conn_state (conn_of rt c) = WT_IPC_CONNECTION_ERROR"
    using e False by (auto simp: wt_ffm_close_begin_def split: if_splits sum.splits)
  note c = connection_from_handle_Inr [OF ch]
  obtain rt1 found where ca: "wt_ffm_close_abandoned rt c = (rt1, found)"
    by (cases "wt_ffm_close_abandoned rt c")
  show ?thesis
  proof (cases found)
    case True
    then show ?thesis
      using e ch st ca close_abandoned_found [OF inv c(1)] by (auto simp: wt_ffm_close_begin_def)
  next
    case nf: False
    then have ab: "wt_ffm_close_abandoned rt c = (rt, False)"
      using ca close_abandoned_none(1) [OF _ d(5)] by simp
    then obtain rt2 m where al: "wt_ffm_alloc_message rt = Inr (rt2, m)"
      using e ch st False by (auto simp: wt_ffm_close_begin_def split: sum.splits)
    have r: "r = Some m" "rt' = ffm_post (upd_conn c (\<lambda>x. x\<lparr>conn_state := WT_IPC_CONNECTION_DISCONNECTING\<rparr>) rt2)
          m caller c (conn_service_index (conn_of (upd_conn c (\<lambda>x. x\<lparr>conn_state :=
            WT_IPC_CONNECTION_DISCONNECTING\<rparr>) rt2) c)) PSA_IPC_DISCONNECT"
      using e ch st ab al by (auto simp: wt_ffm_close_begin_def Let_def)
    note am = alloc_message_Inr [OF al]
    have m8: "m < WT_FFM_MAX_MESSAGES" using am(1) d(5) by simp
    let ?f = "\<lambda>x. x\<lparr>conn_state := WT_IPC_CONNECTION_DISCONNECTING\<rparr>"
    let ?s = "conn_service_index (conn_of rt c)"
    have i0: "ffm_inv (upd_conn c ?f rt)"
      by (intro inv_upd_conn [OF inv] core_conn_state [OF co c(1)]) simp_all
    have r': "rt' = ffm_post (upd_msg m (\<lambda>x. x\<lparr>msg_allocated := True, msg_next := WT_FFM_QUEUE_NONE\<rparr>)
        (upd_conn c ?f rt)) m caller c ?s PSA_IPC_DISCONNECT"
      using r(2) unfolding am(3) upd_conn_msg by simp
    have unused: "msg_connection_index (msg_of rt m') \<noteq> c"
      if "m' < WT_FFM_MAX_MESSAGES" "msg_allocated (msg_of rt m')" for m'
      using quiet_connection_unused [OF co, of c m'] q c(3) close_abandoned_none(2) [OF ab d(5)] that by blast
    have "ffm_inv rt'"
      unfolding r' by (rule post_inv [OF i0 m8]) (use am c unused d(4) in auto)
    moreover have "closing rt' m caller"
      using m8 am(1,2) blank_fields [of "msg_of rt m"] d(7) [OF m8]
      unfolding r' by (simp add: closing_def ffm_post_def msg_ok_def)
    ultimately show ?thesis using r(1) by simp
  qed
qed

end
