(* ===== verification/Ffm_Finish.thy ===== *)
theory Ffm_Finish
  imports Ffm_Ops
begin

text \<open>
  Preservation of the invariant by the second half of the client operations: harvesting a
  completed message, abandoning a delivered one, withdrawing an undelivered one.
\<close>

section \<open>Releasing the only message of a connection\<close>

lemma message_service:
  assumes "ffm_core rt" "m < WT_FFM_MAX_MESSAGES" "msg_allocated (msg_of rt m)"
  shows "msg_service_index (msg_of rt m) < length (rt_services rt)"
    and "msg_connection_index (msg_of rt m) < WT_FFM_MAX_CONNECTIONS"
    and "conn_allocated (conn_of rt (msg_connection_index (msg_of rt m)))"
    and "conn_service_index (conn_of rt (msg_connection_index (msg_of rt m))) = msg_service_index (msg_of rt m)"
proof -
  have m: "msg_ok rt m" using ffm_coreD(7) [OF assms(1,2)] .
  then show c: "msg_connection_index (msg_of rt m) < WT_FFM_MAX_CONNECTIONS"
    using assms(3) by (simp add: msg_ok_def)
  show "msg_service_index (msg_of rt m) < length (rt_services rt)"
    and "conn_allocated (conn_of rt (msg_connection_index (msg_of rt m)))"
    and "conn_service_index (conn_of rt (msg_connection_index (msg_of rt m))) = msg_service_index (msg_of rt m)"
    using m ffm_coreD(6) [OF assms(1) c] assms(3) by (auto simp: msg_ok_def msg_conn_ok_def conn_ok_def)
qed

text \<open>After the release no message uses the connection, so it may be released as well.\<close>

lemma inv_release_both:
  assumes i: "ffm_inv (wt_ffm_release_message rt' m)" and co: "ffm_core rt"
    and m: "m < WT_FFM_MAX_MESSAGES" "msg_allocated (msg_of rt m)"
    and same: "\<And>j. msg_allocated (msg_of rt' j) = msg_allocated (msg_of rt j)"
      "\<And>j. msg_connection_index (msg_of rt' j) = msg_connection_index (msg_of rt j)"
      "length (rt_messages rt') = length (rt_messages rt)"
  shows "ffm_inv (wt_ffm_release_connection (wt_ffm_release_message rt' m)
           (msg_connection_index (msg_of rt m)))"
proof (rule inv_release_connection [OF i])
  note d = ffm_coreD [OF co]
  show "msg_connection_index (msg_of rt m) < WT_FFM_MAX_CONNECTIONS"
    by (rule message_service(2) [OF co m])
  fix j assume j: "j < WT_FFM_MAX_MESSAGES" "msg_allocated (msg_of (wt_ffm_release_message rt' m) j)"
  have len: "m < length (rt_messages rt')" using m(1) d(5) same(3) by simp
  have nj: "j \<noteq> m" "msg_allocated (msg_of rt j)" using j(2) release_message_reads(1) [OF len] same(1) by auto
  then have "msg_connection_index (msg_of rt j) \<noteq> msg_connection_index (msg_of rt m)"
    using d(2) j(1) m unfolding one_message_def by blast
  then show "msg_connection_index (msg_of (wt_ffm_release_message rt' m) j) \<noteq>
      msg_connection_index (msg_of rt m)"
    using release_message_reads(2) [OF len nj(1)] same(2) by simp
qed

lemma inv_release_done:
  assumes inv: "ffm_inv rt" and m: "m < WT_FFM_MAX_MESSAGES"
    and c: "msg_complete (msg_of rt m) \<or> msg_active (msg_of rt m) \<or> \<not> msg_allocated (msg_of rt m)"
  shows "ffm_inv (wt_ffm_release_message rt m)"
  by (rule inv_release_message [OF ffm_invD(1) [OF inv] m ffm_invD(2) [OF inv]])
    (use c in \<open>auto simp: waiting_def\<close>)

section \<open>Finish operations\<close>

lemma connect_finish_inv:
  assumes inv: "ffm_inv rt" and m: "m < WT_FFM_MAX_MESSAGES" "msg_allocated (msg_of rt m)"
    and c: "msg_complete (msg_of rt m)" and e: "wt_ffm_connect_finish rt m = (rt', h)"
  shows "ffm_inv rt'"
proof -
  have r: "ffm_inv (wt_ffm_release_message rt m)" using inv_release_done [OF inv m(1)] c by blast
  show ?thesis
    using e m(1) r inv_release_both [OF r ffm_invD(1) [OF inv] m]
    by (auto simp: wt_ffm_connect_finish_def Let_def split: if_splits)
qed

lemma close_finish_inv:
  assumes inv: "ffm_inv rt" and m: "m < WT_FFM_MAX_MESSAGES" "msg_allocated (msg_of rt m)"
    and c: "msg_complete (msg_of rt m)" and e: "wt_ffm_close_finish rt m = (rt', ret)"
  shows "ffm_inv rt'"
proof -
  have r: "ffm_inv (wt_ffm_release_message rt m)" using inv_release_done [OF inv m(1)] c by blast
  show ?thesis
    using e m(1) inv_release_both [OF r ffm_invD(1) [OF inv] m]
    by (auto simp: wt_ffm_close_finish_def split: if_splits)
qed

lemma harvest_call_inv:
  assumes inv: "ffm_inv rt" and m: "m < WT_FFM_MAX_MESSAGES" "c < WT_FFM_MAX_CONNECTIONS"
    and c: "msg_complete (msg_of rt m)" and e: "ffm_harvest_call ops rt c m vs = (rt', status, vs')"
  shows "ffm_inv rt'"
proof -
  have "ffm_inv (wt_ffm_release_message
      (upd_conn c (\<lambda>x. x\<lparr>conn_state := WT_IPC_CONNECTION_ERROR\<rparr>) rt) m)"
    using c by (intro inv_release_done [OF inv_conn_error [OF inv m(2)] m(1)]) simp
  moreover have "ffm_inv (wt_ffm_release_message (rt\<lparr>client_memory := x\<rparr>) m)" for x
  proof -
    have "same_tables (wt_ffm_release_message rt m) (wt_ffm_release_message (rt\<lparr>client_memory := x\<rparr>) m)"
      by (simp add: same_tables_def wt_ffm_release_message_def upd_msg_def)
    then show ?thesis using inv_release_done [OF inv m(1)] c same_tables_inv by blast
  qed
  ultimately show ?thesis using e by (auto simp: ffm_harvest_call_def Let_def split: if_splits)
qed

lemma call_finish_inv:
  assumes inv: "ffm_inv rt" and m: "m < WT_FFM_MAX_MESSAGES" "msg_allocated (msg_of rt m)"
    and c: "msg_complete (msg_of rt m)" and e: "wt_ffm_call_finish ops rt m out_vec = (rt', status, vs)"
  shows "ffm_inv rt'"
  using harvest_call_inv [OF inv m(1) message_service(2) [OF ffm_invD(1) [OF inv] m] c] e m(1)
  by (simp add: wt_ffm_call_finish_def)

section \<open>The end of a synchronous operation\<close>

text \<open>
  What the caller of a dispatch can rely on when it comes back: its message is still its own.
\<close>

definition own_message :: "wt_ffm_runtime \<Rightarrow> nat \<Rightarrow> int \<Rightarrow> bool" where
  "own_message rt m ret \<longleftrightarrow> m < WT_FFM_MAX_MESSAGES \<and> msg_allocated (msg_of rt m) \<and>
     msg_abandoned (msg_of rt m) = NOT_ABANDONED \<and> (ret = WT_FFM_SUCCESS \<longrightarrow> msg_complete (msg_of rt m))"

lemma inv_abandon:
  assumes inv: "ffm_inv rt" and m: "m < WT_FFM_MAX_MESSAGES" "msg_allocated (msg_of rt m)"
    and a: "msg_active (msg_of rt m)"
    and g: "\<And>x. g x = x\<lparr>msg_abandoned := msg_abandoned (g x), msg_client_output := msg_client_output (g x)\<rparr>"
  shows "ffm_inv (upd_msg m g rt)"
proof -
  note co = ffm_invD(1) [OF inv]
  note d = ffm_coreD [OF co]
  have ok: "msg_ok rt m" using d(7) [OF m(1)] .
  let ?N = "g (msg_of rt m)"
  have f: "msg_generation ?N = msg_generation (msg_of rt m)" "msg_allocated ?N" "msg_type ?N = msg_type (msg_of rt m)"
    "msg_active ?N = msg_active (msg_of rt m)" "msg_complete ?N = msg_complete (msg_of rt m)"
    "msg_connection_index ?N = msg_connection_index (msg_of rt m)" "msg_next ?N = msg_next (msg_of rt m)"
    "msg_service_index ?N = msg_service_index (msg_of rt m)" "msg_caller ?N = msg_caller (msg_of rt m)"
    "streams_ok ?N = streams_ok (msg_of rt m)"
    using m(2) by (subst g, simp add: streams_ok_def)+
  have "ffm_core (upd_msg m g rt)"
  proof (rule core_upd_msg [OF co m(1) refl])
    show "gen_ok (msg_generation ?N)" using ok f by (simp add: msg_ok_def)
    show "msg_blank ?N" if "\<not> msg_allocated ?N" using that f by simp
    show "msg_self_ok ?N \<and> msg_connection_index ?N < WT_FFM_MAX_CONNECTIONS \<and>
        msg_conn_ok ?N (conn_of rt (msg_connection_index ?N))"
      using ok f m a by (auto simp: msg_ok_def msg_self_ok_def msg_conn_ok_def)
    show "msg_connection_index (msg_of rt m') \<noteq> msg_connection_index ?N"
      if "m' < WT_FFM_MAX_MESSAGES" "m' \<noteq> m" "msg_allocated (msg_of rt m')" for m'
      using d(2) m f that unfolding one_message_def by metis
  qed
  then show ?thesis by (rule inv_upd_msg [OF inv]) (simp_all add: f m(2))
qed

lemma connect_tail_inv:
  assumes inv: "ffm_inv rt" and o: "own_message rt m ret"
    and e: "ffm_connect_tail rt ret h (msg_service_index (msg_of rt m)) (msg_connection_index (msg_of rt m)) m = r"
  shows "\<exists>rt' status. r = Some (rt', status) \<and> ffm_inv rt'"
proof -
  note co = ffm_invD(1) [OF inv]
  have m: "m < WT_FFM_MAX_MESSAGES" "msg_allocated (msg_of rt m)"
    and fin: "ret = WT_FFM_SUCCESS \<Longrightarrow> msg_complete (msg_of rt m)"
    using o by (auto simp: own_message_def)
  show ?thesis
  proof (cases "ret = WT_FFM_SUCCESS")
    case True
    have i: "ffm_inv (wt_ffm_release_message rt m)" using inv_release_done [OF inv m(1)] fin True by blast
    then show ?thesis
      using e True inv_release_both [OF i co m] by (auto simp: ffm_connect_tail_def Let_def)
  next
    case False
    obtain rt1 where dq: "wt_ffm_dequeue_message rt (msg_service_index (msg_of rt m)) m = Some rt1"
      and i: "ffm_inv (wt_ffm_release_message rt1 m)" and fr: "queue_frame rt rt1"
      by (rule inv_dequeue_release [OF inv m(1) message_service(1) [OF co m]])
    have "ffm_inv (wt_ffm_release_connection (wt_ffm_release_message rt1 m) (msg_connection_index (msg_of rt m)))"
      by (rule inv_release_both [OF i co m]) (use fr in \<open>simp_all add: queue_frame_def\<close>)
    moreover have "ffm_inv (upd_msg m (\<lambda>x. x\<lparr>msg_abandoned := WT_FFM_ABANDONED_CLOSE\<rparr>) rt)"
      if "msg_active (msg_of rt m)"
      by (rule inv_abandon [OF inv m that]) simp
    ultimately show ?thesis using e False dq by (auto simp: ffm_connect_tail_def Let_def)
  qed
qed

lemma call_tail_inv:
  assumes inv: "ffm_inv rt" and o: "own_message rt m ret"
    and e: "ffm_call_tail ops rt ret (msg_connection_index (msg_of rt m)) m vs = r"
  shows "\<exists>rt' status vs'. r = Some (rt', status, vs') \<and> ffm_inv rt'"
proof -
  note co = ffm_invD(1) [OF inv]
  let ?c = "msg_connection_index (msg_of rt m)"
  let ?e = "\<lambda>x. x\<lparr>conn_state := WT_IPC_CONNECTION_ERROR\<rparr>"
  let ?l = "\<lambda>x. x\<lparr>conn_error_latch := True\<rparr>"
  have m: "m < WT_FFM_MAX_MESSAGES" "msg_allocated (msg_of rt m)"
    and fin: "ret = WT_FFM_SUCCESS \<Longrightarrow> msg_complete (msg_of rt m)"
    using o by (auto simp: own_message_def)
  note s = message_service [OF co m]
  show ?thesis
  proof (cases "ret = WT_FFM_SUCCESS")
    case True
    then show ?thesis
      using e harvest_call_inv [OF inv m(1) s(2) fin] by (cases "ffm_harvest_call ops rt ?c m vs")
        (auto simp: ffm_call_tail_def)
  next
    case False
    note i1 = inv_conn_error [OF inv s(2)]
    have len: "?c < length (rt_connections rt)" using s(2) ffm_coreD(4) [OF co] by simp
    obtain rt2 where dq: "wt_ffm_dequeue_message (upd_conn ?c ?e rt) (msg_service_index (msg_of rt m)) m = Some rt2"
      and i2: "ffm_inv (wt_ffm_release_message rt2 m)"
      using inv_dequeue_release [OF i1 m(1)] s(1) by auto
    have i3: "ffm_inv (upd_conn ?c ?l (upd_conn ?c ?e rt))"
      by (rule inv_latch [OF i1 s(2)]) (use s(3) len in simp_all)
    have "ffm_inv (upd_msg m (\<lambda>x. x\<lparr>msg_abandoned := WT_FFM_ABANDONED_REPLY,
        msg_client_output := (\<lambda>_. 0)\<rparr>) (upd_conn ?c ?l (upd_conn ?c ?e rt)))" if "msg_active (msg_of rt m)"
      by (rule inv_abandon [OF i3 m(1)]) (use m(2) that in simp_all)
    then show ?thesis using e False dq i2 s(4) len by (auto simp: ffm_call_tail_def Let_def)
  qed
qed

lemma close_tail_inv:
  assumes inv: "ffm_inv rt" and o: "own_message rt m ret"
    and e: "ffm_close_tail rt ret (msg_connection_index (msg_of rt m)) m = r"
  shows "\<exists>rt'. r = Some (rt', ret) \<and> ffm_inv rt'"
proof -
  note co = ffm_invD(1) [OF inv]
  have m: "m < WT_FFM_MAX_MESSAGES" "msg_allocated (msg_of rt m)"
    and fin: "ret = WT_FFM_SUCCESS \<Longrightarrow> msg_complete (msg_of rt m)"
    using o by (auto simp: own_message_def)
  note s = message_service [OF co m]
  show ?thesis
  proof (cases "ret = WT_FFM_SUCCESS")
    case True
    have i: "ffm_inv (wt_ffm_release_message rt m)" using inv_release_done [OF inv m(1)] fin True by blast
    show ?thesis using e True inv_release_both [OF i co m] by (auto simp: ffm_close_tail_def Let_def)
  next
    case False
    obtain rt1 where dq: "wt_ffm_dequeue_message rt (msg_service_index (msg_of rt m)) m = Some rt1"
      and i: "ffm_inv (wt_ffm_release_message rt1 m)"
      using inv_dequeue_release [OF inv m(1) s(1)] by blast
    have "ffm_inv (upd_msg m (\<lambda>x. x\<lparr>msg_abandoned := WT_FFM_ABANDONED_CLOSE\<rparr>) rt)"
      if "msg_active (msg_of rt m)"
      by (rule inv_abandon [OF inv m that]) simp
    then show ?thesis using e False dq i s(4) by (auto simp: ffm_close_tail_def Let_def)
  qed
qed

end
