(* ===== verification/Ffm_Serve.thy ===== *)
theory Ffm_Serve
  imports Ffm_Finish
begin

text \<open>
  Preservation of the invariant by the operations of a partition: delivery, the request
  streams, replies and signals.
\<close>

section \<open>Delivery\<close>

lemma upd_svc_svc: "upd_svc i f (upd_svc i g rt) = upd_svc i (f \<circ> g) rt"
  by (simp add: upd_svc_def upd_at_upd_at)

lemma upd_svc_cong: "f (svc_of rt i) = g (svc_of rt i) \<Longrightarrow> upd_svc i f rt = upd_svc i g rt"
  by (simp add: upd_svc_def upd_at_def svc_of_def)

lemma update_signal_msg:
  "wt_ffm_update_service_signal (upd_msg m g rt) s = upd_msg m g (wt_ffm_update_service_signal rt s)"
  by (simp add: wt_ffm_update_service_signal_def Let_def upd_part_def upd_msg_def svc_of_def)

lemma upd_conn_id: "(\<And>x. f x = x) \<Longrightarrow> upd_conn c f rt = rt"
  by (simp add: upd_conn_def upd_at_def)

text \<open>Taking the head off a queue is what the unlink loop does with it.\<close>

lemma pop_is_dequeue:
  assumes q: "queue_is rt s (m # q)" and n: "length (m # q) \<le> WT_FFM_MAX_MESSAGES"
  shows "wt_ffm_dequeue_message rt s m = Some (wt_ffm_update_service_signal
      (upd_msg m (\<lambda>x. x\<lparr>msg_next := WT_FFM_QUEUE_NONE\<rparr>)
        (upd_svc s (\<lambda>x. x\<lparr>sr_queue_head := msg_next (msg_of rt m),
           sr_queue_tail := (if msg_next (msg_of rt m) = WT_FFM_QUEUE_NONE
                             then WT_FFM_QUEUE_NONE else sr_queue_tail x)\<rparr>) rt)) s)"
proof -
  let ?n = "msg_next (msg_of rt m)"
  have th: "threaded WT_FFM_QUEUE_NONE (nx_of rt) (hd_of rt s) (tl_of rt s) (m # q)" using q by (simp add: queue_is_def)
  have f: "follows WT_FFM_QUEUE_NONE (nx_of rt) ?n q" "distinct (m # q)" using th by (simp_all add: threaded_def nx_of_def)
  have nn: "?n = WT_FFM_QUEUE_NONE \<longleftrightarrow> q = []" using f(1) by (cases q) auto
  have tl: "sr_queue_tail (svc_of rt s) = m \<longleftrightarrow> q = []"
    using th last_not_in [of m q] by (auto simp: threaded_def tl_of_def)
  have "ffm_unlink rt s m WT_FFM_QUEUE_NONE = upd_msg m (\<lambda>x. x\<lparr>msg_next := WT_FFM_QUEUE_NONE\<rparr>)
      (upd_svc s (\<lambda>x. x\<lparr>sr_queue_head := ?n,
         sr_queue_tail := (if ?n = WT_FFM_QUEUE_NONE then WT_FFM_QUEUE_NONE else sr_queue_tail x)\<rparr>) rt)"
    using tl nn by (auto simp: ffm_unlink_def Let_def upd_svc_svc intro!: arg_cong [of _ _ "upd_msg m _"] upd_svc_cong)
  then show ?thesis using dequeue_message_eq [OF q n, of m] by simp
qed

lemma inv_deliver:
  assumes c: "ffm_core rt" and m: "m < WT_FFM_MAX_MESSAGES" "msg_allocated (msg_of rt m)" "\<not> msg_complete (msg_of rt m)"
    and sv: "\<And>t. t < length (rt_services rt) \<Longrightarrow> service_but {m} rt t"
  shows "ffm_inv (upd_msg m (\<lambda>x. x\<lparr>msg_active := True\<rparr>) rt)"
proof -
  note d = ffm_coreD [OF c]
  have ok: "msg_ok rt m" using d(7) [OF m(1)] .
  have "ffm_core (upd_msg m (\<lambda>x. x\<lparr>msg_active := True\<rparr>) rt)"
  proof (rule core_upd_msg [OF c m(1) refl])
    fix m' assume "m' < WT_FFM_MAX_MESSAGES" "m' \<noteq> m" "msg_allocated (msg_of rt m')"
    then show "msg_connection_index (msg_of rt m') \<noteq> msg_connection_index ((msg_of rt m)\<lparr>msg_active := True\<rparr>)"
      using d(2) m unfolding one_message_def by auto
  qed (use ok m in \<open>auto simp: msg_ok_def msg_self_ok_def msg_conn_ok_def streams_ok_def\<close>)
  moreover have "service_ok (upd_msg m (\<lambda>x. x\<lparr>msg_active := True\<rparr>) rt) t"
    if "t < length (rt_services rt)" for t
    by (rule service_cong [OF sv [OF that]]) (use m(1) d(5) in \<open>auto simp: ffm_views waiting_def\<close>)
  ultimately show ?thesis by (simp add: ffm_inv_def)
qed

text \<open>What a successful delivery found and left behind.\<close>

lemma get_cases:
  assumes inv: "ffm_inv rt" and e: "wt_ffm_get rt pid signal = (rt', st, r)"
  obtains "rt' = rt" "r = None" "st \<noteq> PSA_SUCCESS"
  | p s m q rt1 where "wt_ffm_find_partition rt pid = Inr p" "s < length (rt_services rt)" "pidx_of rt s = p"
      "sig_of rt s = signal" "queue_is rt s (m # q)" "m \<in> waiting rt s" "st = PSA_SUCCESS"
      "ffm_inv (upd_msg m (\<lambda>x. x\<lparr>msg_active := True\<rparr>) rt1)"
      "wt_ffm_dequeue_message rt s m = Some rt1"
      "rt' = upd_conn (msg_connection_index (msg_of rt m)) (\<lambda>x. x\<lparr>conn_state :=
          (if msg_type (msg_of rt m) = PSA_IPC_CONNECT then WT_IPC_CONNECTION_CONNECTING
           else if msg_type (msg_of rt m) \<ge> PSA_IPC_CALL then WT_IPC_CONNECTION_ACTIVE else conn_state x)\<rparr>)
        (upd_msg m (\<lambda>x. x\<lparr>msg_active := True\<rparr>) rt1)"
      "r = Some \<lparr>pm_type = msg_type (msg_of rt m),
             pm_handle = wt_ffm_make_handle WT_FFM_HANDLE_MESSAGE m (msg_generation (msg_of rt m)),
             pm_client_id = msg_caller (msg_of rt m),
             pm_rhandle = conn_rhandle (conn_of rt (msg_connection_index (msg_of rt m))),
             pm_in_size = msg_in_size (msg_of rt m), pm_out_size = msg_out_size (msg_of rt m)\<rparr>"
proof (cases "r = None")
  case True
  then have "rt' = rt \<and> st \<noteq> PSA_SUCCESS"
    using e by (auto simp: wt_ffm_get_def Let_def split: if_splits sum.splits option.splits)
  then show ?thesis using that(1) True by blast
next
  case False
  note co = ffm_invD(1) [OF inv]
  note d = ffm_coreD [OF co]
  obtain p s where p: "wt_ffm_find_partition rt pid = Inr p"
    and s: "first_idx (\<lambda>s. sr_partition_index s = p \<and> sd_signal (sr_descriptor s) = signal) (rt_services rt) = Some s"
    and hd: "sr_queue_head (svc_of rt s) \<noteq> WT_FFM_QUEUE_NONE" and sg: "signal \<noteq> 0"
    using e False by (auto simp: wt_ffm_get_def Let_def split: if_splits sum.splits option.splits)
  have sl: "s < length (rt_services rt)" "pidx_of rt s = p" "sig_of rt s = signal"
    using first_idx_Some [OF s] by (simp_all add: pidx_of_def sig_of_def svc_of_def)
  obtain q0 where q0: "queue_is rt s q0" "set q0 = waiting rt s - {}"
    using ffm_invD(2) [OF inv sl(1)] unfolding service_but_def by blast
  have "q0 \<noteq> []" using queue_head_none [OF q0(1)] hd by (simp add: hd_of_def)
  then obtain m q where q: "q0 = m # q" by (cases q0) auto
  have m: "m \<in> waiting rt s" using q0(2) q by auto
  have hm: "sr_queue_head (svc_of rt s) = m"
    using threaded_head [of _ _ _ _ q0] q0(1) q by (simp add: queue_is_def hd_of_def)
  obtain rt1 where dq: "wt_ffm_dequeue_message rt s m = Some rt1" "ffm_core rt1" "queue_frame rt rt1"
    and sv: "\<forall>t < length (rt_services rt). service_but ({m} \<inter> waiting rt s) rt1 t"
    using inv_dequeue [OF inv sl(1), of m] by blast
  note v = queue_frame_views [OF dq(3)]
  have mf: "msg_of rt1 m = (msg_of rt m)\<lparr>msg_next := nx_of rt1 m\<rparr>" using dq(3) by (simp add: queue_frame_def)
  have wm: "m < WT_FFM_MAX_MESSAGES" "msg_allocated (msg_of rt m)" "\<not> msg_complete (msg_of rt m)"
    "msg_service_index (msg_of rt m) = s"
    using m by (simp_all add: waiting_def)
  have i: "ffm_inv (upd_msg m (\<lambda>x. x\<lparr>msg_active := True\<rparr>) rt1)"
    by (rule inv_deliver [OF dq(2) wm(1)]) (use wm mf sv m v(5) in \<open>simp_all\<close>)
  have dq1: "rt1 = wt_ffm_update_service_signal (upd_msg m (\<lambda>x. x\<lparr>msg_next := WT_FFM_QUEUE_NONE\<rparr>)
        (upd_svc s (\<lambda>x. x\<lparr>sr_queue_head := msg_next (msg_of rt m),
           sr_queue_tail := (if msg_next (msg_of rt m) = WT_FFM_QUEUE_NONE
                             then WT_FFM_QUEUE_NONE else sr_queue_tail x)\<rparr>) rt)) s"
    using pop_is_dequeue [of rt s m q] q0(1) q waiting_queue_bounds(2) [OF d(5) q0] dq(1) by simp
  let ?g = "\<lambda>x. x\<lparr>msg_next := WT_FFM_QUEUE_NONE, msg_active := True\<rparr>"
  have fuse: "wt_ffm_update_service_signal (upd_msg m ?g
        (upd_svc s (\<lambda>x. x\<lparr>sr_queue_head := msg_next (msg_of rt m),
           sr_queue_tail := (if msg_next (msg_of rt m) = WT_FFM_QUEUE_NONE
                             then WT_FFM_QUEUE_NONE else sr_queue_tail x)\<rparr>) rt)) s =
      upd_msg m (\<lambda>x. x\<lparr>msg_active := True\<rparr>) rt1"
    unfolding dq1 update_signal_msg upd_msg_msg comp_def by simp
  show ?thesis
  proof (rule that(2) [OF p sl, of m q rt1])
    show "queue_is rt s (m # q)" using q0(1) q by simp
  qed (use m i dq(1) e p s sg hm hd fuse wm v(1) in
    \<open>auto simp: wt_ffm_get_def Let_def upd_conn_id split: if_splits\<close>)
qed

lemma get_inv:
  assumes inv: "ffm_inv rt" and e: "wt_ffm_get rt pid signal = (rt', st, r)"
  shows "ffm_inv rt'"
proof (rule get_cases [OF inv e])
  fix p s m q rt1
  let ?a = "upd_msg m (\<lambda>x. x\<lparr>msg_active := True\<rparr>) rt1"
  let ?c = "msg_connection_index (msg_of rt m)"
  assume m: "m \<in> waiting rt s" and i: "ffm_inv ?a"
    and dq: "wt_ffm_dequeue_message rt s m = Some rt1" and sl: "s < length (rt_services rt)"
    and r: "rt' = upd_conn ?c (\<lambda>x. x\<lparr>conn_state :=
          (if msg_type (msg_of rt m) = PSA_IPC_CONNECT then WT_IPC_CONNECTION_CONNECTING
           else if msg_type (msg_of rt m) \<ge> PSA_IPC_CALL then WT_IPC_CONNECTION_ACTIVE else conn_state x)\<rparr>) ?a"
  have fr: "queue_frame rt rt1" using inv_dequeue [OF inv sl, of m] dq by auto
  have wm: "m < WT_FFM_MAX_MESSAGES" "msg_allocated (msg_of rt m)" "\<not> msg_complete (msg_of rt m)"
    using m by (simp_all add: waiting_def)
  note s = message_service [OF ffm_invD(1) [OF inv] wm(1,2)]
  have c: "conn_of ?a ?c = conn_of rt ?c" using queue_frame_views(1) [OF fr] by simp
  have st: "conn_state (conn_of rt ?c) \<noteq> WT_IPC_CONNECTION_FREE"
    "conn_state (conn_of rt ?c) \<noteq> WT_IPC_CONNECTION_IDLE"
    using ffm_coreD(6) [OF ffm_invD(1) [OF inv] s(2)] ffm_coreD(7) [OF ffm_invD(1) [OF inv] wm(1)] s(3) wm
    by (auto simp: conn_ok_def msg_ok_def msg_conn_ok_def)
  show "ffm_inv rt'"
    unfolding r by (intro inv_upd_conn [OF i] core_conn_state [OF ffm_invD(1) [OF i] s(2)])
      (use c st in \<open>simp_all split: if_splits\<close>)
qed (use inv in simp)

lemma set_rhandle_inv:
  assumes inv: "ffm_inv rt" and e: "wt_ffm_set_rhandle rt pid h rh = (rt', ret)"
  shows "ffm_inv rt'"
proof (cases "rt' = rt")
  case True
  then show ?thesis using inv by simp
next
  case False
  note co = ffm_invD(1) [OF inv]
  obtain m where h: "wt_ffm_message_from_handle rt pid h = Inr m"
    and r: "rt' = upd_conn (msg_connection_index (msg_of rt m)) (\<lambda>c. c\<lparr>conn_rhandle := rh\<rparr>) rt"
    using e False by (auto simp: wt_ffm_set_rhandle_def split: sum.splits if_splits)
  note m = message_from_handle_Inr [OF h]
  note s = message_service [OF co m(1,2)]
  have ok: "msg_ok rt m" "conn_ok rt (msg_connection_index (msg_of rt m))"
    using ffm_coreD(6) [OF co s(2)] ffm_coreD(7) [OF co m(1)] by blast+
  show ?thesis
    unfolding r
    by (intro inv_upd_conn [OF inv] core_conn_state [OF co s(2)])
      (use ok m s in \<open>auto simp: msg_ok_def msg_self_ok_def msg_conn_ok_def conn_ok_def
         dest: ffm_coreD(7) [OF co]\<close>)
qed

section \<open>Streams\<close>

text \<open>A step of the streams of a message touches only positions and the output buffer.\<close>

lemma inv_stream:
  assumes inv: "ffm_inv rt" and m: "m < WT_FFM_MAX_MESSAGES" "msg_allocated (msg_of rt m)"
    and g: "g (msg_of rt m) = (msg_of rt m)\<lparr>msg_in_position := ip, msg_out_position := op, msg_output := buf\<rparr>"
    and b: "\<And>i. ip i \<le> msg_in_size (msg_of rt m) i" "\<And>i. op i \<le> msg_out_size (msg_of rt m) i"
  shows "ffm_inv (upd_msg m g rt)"
proof -
  note co = ffm_invD(1) [OF inv]
  note d = ffm_coreD [OF co]
  have ok: "msg_ok rt m" using d(7) [OF m(1)] .
  have "ffm_core (upd_msg m g rt)"
  proof (rule core_upd_msg [where g = g, OF co m(1) g])
    fix m' assume "m' < WT_FFM_MAX_MESSAGES" "m' \<noteq> m" "msg_allocated (msg_of rt m')"
    then show "msg_connection_index (msg_of rt m') \<noteq> msg_connection_index
        ((msg_of rt m)\<lparr>msg_in_position := ip, msg_out_position := op, msg_output := buf\<rparr>)"
      using d(2) m unfolding one_message_def by auto
  qed (use ok m b in \<open>auto simp: msg_ok_def msg_self_ok_def msg_conn_ok_def streams_ok_def\<close>)
  then show ?thesis by (rule inv_upd_msg [OF inv]) (simp_all add: g)
qed

lemma message_streams:
  assumes "ffm_inv rt" "m < WT_FFM_MAX_MESSAGES" "msg_allocated (msg_of rt m)"
  shows "streams_ok (msg_of rt m)"
  using ffm_coreD(7) [OF ffm_invD(1) [OF assms(1)] assms(2)] assms(3) by (simp add: msg_ok_def msg_self_ok_def)

lemma inv_advance_in:
  assumes inv: "ffm_inv rt" and m: "m < WT_FFM_MAX_MESSAGES" "msg_allocated (msg_of rt m)"
    and n: "n \<le> msg_in_size (msg_of rt m) i - msg_in_position (msg_of rt m) i"
  shows "ffm_inv (upd_msg m (\<lambda>x. x\<lparr>msg_in_position := (msg_in_position x)(i := msg_in_position x i + n)\<rparr>) rt)"
proof -
  have so: "streams_ok (msg_of rt m)" by (rule message_streams [OF inv m])
  then have "msg_in_position (msg_of rt m) i \<le> msg_in_size (msg_of rt m) i" by (simp add: streams_ok_def)
  then have le: "msg_in_position (msg_of rt m) i + n \<le> msg_in_size (msg_of rt m) i" using n by linarith
  show ?thesis
    by (rule inv_stream [OF inv m, where
          ip = "(msg_in_position (msg_of rt m))(i := msg_in_position (msg_of rt m) i + n)"
          and op = "msg_out_position (msg_of rt m)" and buf = "msg_output (msg_of rt m)"])
      (use so le in \<open>auto simp: streams_ok_def\<close>)
qed

lemma read_inv:
  assumes inv: "ffm_inv rt" and e: "wt_ffm_read rt pid h i nul n = (rt', k, bs)"
  shows "ffm_inv rt'"
proof (cases "wt_ffm_message_from_handle rt pid h")
  case (Inl x)
  then show ?thesis using e inv by (auto simp: wt_ffm_read_def split: if_splits)
next
  case (Inr m)
  note m = message_from_handle_Inr(1,2) [OF Inr]
  show ?thesis
    using e Inr inv inv_advance_in [OF inv m, of n i] inv_advance_in [OF inv m order_refl, of i]
    by (auto simp: wt_ffm_read_def Let_def split: if_splits)
qed

lemma skip_inv:
  assumes inv: "ffm_inv rt" and e: "wt_ffm_skip rt pid h i n = (rt', k)"
  shows "ffm_inv rt'"
proof (cases "wt_ffm_message_from_handle rt pid h")
  case (Inl x)
  then show ?thesis using e inv by (auto simp: wt_ffm_skip_def split: if_splits)
next
  case (Inr m)
  note m = message_from_handle_Inr(1,2) [OF Inr]
  show ?thesis
    using e Inr inv inv_advance_in [OF inv m, of n i] inv_advance_in [OF inv m order_refl, of i]
    by (auto simp: wt_ffm_skip_def Let_def split: if_splits)
qed

lemma write_inv:
  assumes inv: "ffm_inv rt" and e: "wt_ffm_write rt pid h i buffer = (rt', ret)"
  shows "ffm_inv rt'"
proof (cases "rt' = rt")
  case True
  then show ?thesis using inv by simp
next
  case False
  let ?n = "carray_count buffer"
  let ?g = "\<lambda>x. x\<lparr>msg_output := buf_write (msg_output x)
      (msg_out_offset x i + msg_out_position x i) (carray_list buffer),
      msg_out_position := (msg_out_position x)(i := msg_out_position x i + ?n)\<rparr>"
  obtain m where h: "wt_ffm_message_from_handle rt pid h = Inr m"
    and r: "rt' = upd_msg m ?g rt"
    and n: "?n \<le> msg_out_size (msg_of rt m) i - msg_out_position (msg_of rt m) i"
    using e False by (auto simp: wt_ffm_write_def Let_def split: sum.splits if_splits)
  note m = message_from_handle_Inr(1,2) [OF h]
  have so: "streams_ok (msg_of rt m)" by (rule message_streams [OF inv m])
  then have "msg_out_position (msg_of rt m) i \<le> msg_out_size (msg_of rt m) i" by (simp add: streams_ok_def)
  then have le: "msg_out_position (msg_of rt m) i + ?n \<le> msg_out_size (msg_of rt m) i" using n by linarith
  show ?thesis
    unfolding r
    by (rule inv_stream [OF inv m, where ip = "msg_in_position (msg_of rt m)"
          and op = "(msg_out_position (msg_of rt m))(i := msg_out_position (msg_of rt m) i + ?n)"
          and buf = "buf_write (msg_output (msg_of rt m))
            (msg_out_offset (msg_of rt m) i + msg_out_position (msg_of rt m) i) (carray_list buffer)"])
      (use so le in \<open>auto simp: streams_ok_def\<close>)
qed

section \<open>Replies\<close>

lemma release_upd_msg:
  "(\<And>x. msg_generation (g x) = msg_generation x) \<Longrightarrow>
     wt_ffm_release_message (upd_msg m g rt) m = wt_ffm_release_message rt m"
  by (simp add: wt_ffm_release_message_def upd_msg_msg comp_def)

lemma release_upd_conn: "wt_ffm_release_message (upd_conn c f rt) m = upd_conn c f (wt_ffm_release_message rt m)"
  by (simp add: wt_ffm_release_message_def upd_conn_msg)

lemma inv_complete:
  assumes inv: "ffm_inv rt" and m: "m < WT_FFM_MAX_MESSAGES" "msg_allocated (msg_of rt m)"
    and a: "msg_active (msg_of rt m)" "msg_abandoned (msg_of rt m) = NOT_ABANDONED"
    and st: "st \<noteq> WT_IPC_CONNECTION_FREE"
  shows "ffm_inv (upd_msg m (\<lambda>x. x\<lparr>msg_reply_status := status, msg_active := False, msg_complete := True\<rparr>)
           (upd_conn (msg_connection_index (msg_of rt m)) (\<lambda>x. x\<lparr>conn_state := st\<rparr>) rt))"
proof -
  note co = ffm_invD(1) [OF inv]
  note d = ffm_coreD [OF co]
  let ?g = "\<lambda>x. x\<lparr>msg_reply_status := status, msg_active := False, msg_complete := True\<rparr>"
  have ok: "msg_ok rt m" using d(7) [OF m(1)] .
  have one: "msg_connection_index (msg_of rt m') \<noteq> msg_connection_index (msg_of rt m)"
    if "m' < WT_FFM_MAX_MESSAGES" "m' \<noteq> m" "msg_allocated (msg_of rt m')" for m'
    using d(2) m that unfolding one_message_def by blast
  have "ffm_core (upd_msg m ?g rt)"
    by (rule core_upd_msg [OF co m(1) refl])
      (use ok m a one in \<open>auto simp: msg_ok_def msg_self_ok_def msg_conn_ok_def streams_ok_def\<close>)
  then have i: "ffm_inv (upd_msg m ?g rt)" by (rule inv_upd_msg [OF inv]) (use a in simp_all)
  show ?thesis
    unfolding upd_conn_msg [symmetric]
    by (intro inv_upd_conn [OF i] core_conn_state [OF ffm_invD(1) [OF i] message_service(2) [OF co m]])
      (use st one d(5) m in \<open>auto split: if_splits\<close>)
qed

text \<open>The reply to an abandoned message frees its slot, or turns it into a disconnect.\<close>

lemma finish_abandoned_inv:
  assumes inv: "ffm_inv rt" and m: "m < WT_FFM_MAX_MESSAGES" "msg_allocated (msg_of rt m)"
    and a: "msg_active (msg_of rt m)" and st: "st \<noteq> WT_IPC_CONNECTION_FREE"
    and c: "c = msg_connection_index (msg_of rt m)"
  shows "ffm_inv (wt_ffm_finish_abandoned
           (upd_msg m (\<lambda>x. x\<lparr>msg_reply_status := status, msg_active := False, msg_complete := True\<rparr>)
             (upd_conn c (\<lambda>x. x\<lparr>conn_state := st\<rparr>) rt)) m)"
proof -
  note co = ffm_invD(1) [OF inv]
  note d = ffm_coreD [OF co]
  note s = message_service [OF co m, folded c]
  define B where "B = upd_conn c (\<lambda>x. x\<lparr>conn_state := st\<rparr>) (wt_ffm_release_message rt m)"
  let ?rt1 = "upd_msg m (\<lambda>x. x\<lparr>msg_reply_status := status, msg_active := False, msg_complete := True\<rparr>)
      (upd_conn c (\<lambda>x. x\<lparr>conn_state := st\<rparr>) rt)"
  have len: "m < length (rt_messages rt)" "c < length (rt_connections rt)" using m s d(4,5) by simp_all
  have iA: "ffm_inv (wt_ffm_release_message rt m)" by (rule inv_release_done [OF inv m(1)]) (use a in simp)
  have unused: "msg_connection_index (msg_of B j) \<noteq> c" if "j < WT_FFM_MAX_MESSAGES" "msg_allocated (msg_of B j)" for j
  proof -
    have "j \<noteq> m" "msg_allocated (msg_of rt j)" "msg_of B j = msg_of rt j"
      using that release_message_reads(1,2) [OF len(1), of j] by (auto simp: B_def)
    then show ?thesis using d(2) m that(1) c unfolding one_message_def by metis
  qed
  have iB: "ffm_inv B"
    unfolding B_def
    by (intro inv_upd_conn [OF iA] core_conn_state [OF ffm_invD(1) [OF iA] s(2)])
      (use st unused in \<open>simp_all add: B_def\<close>)
  have rel: "wt_ffm_release_message ?rt1 m = B"
    by (simp add: release_upd_msg release_upd_conn B_def)
  have both: "wt_ffm_release_message (wt_ffm_release_connection ?rt1 c) m = wt_ffm_release_connection B c"
    using rel by (simp add: wt_ffm_release_connection_def release_upd_conn)
  have iC: "ffm_inv (wt_ffm_release_connection B c)"
    by (rule inv_release_connection [OF iB s(2) unused])
  let ?f = "\<lambda>x. x\<lparr>conn_state := WT_IPC_CONNECTION_DISCONNECTING\<rparr>"
  let ?g = "\<lambda>x. x\<lparr>msg_allocated := True, msg_abandoned := WT_FFM_ABANDONED_CLOSE,
      msg_caller := conn_caller (conn_of B c), msg_connection_index := c,
      msg_service_index := conn_service_index (conn_of B c), msg_type := PSA_IPC_DISCONNECT\<rparr>"
  have blank: "msg_of B m = zero_ffm_message\<lparr>msg_generation := wt_ffm_next_generation (msg_generation (msg_of rt m)),
      msg_next := WT_FFM_QUEUE_NONE\<rparr>"
    using len by (simp add: B_def wt_ffm_release_message_def)
  have cB: "conn_of B c = (conn_of rt c)\<lparr>conn_state := st\<rparr>" "length (rt_connections B) = length (rt_connections rt)"
    using len by (simp_all add: B_def wt_ffm_release_message_def)
  have iD: "ffm_inv (upd_conn c ?f B)"
    by (intro inv_upd_conn [OF iB] core_conn_state [OF ffm_invD(1) [OF iB] s(2)]) simp_all
  have "ffm_inv (wt_ffm_enqueue (upd_msg m ?g (upd_conn c ?f B)) (conn_service_index (conn_of B c)) m)"
    by (rule inv_new_message [OF iD m(1) _ refl])
      (use blank cB len s unused in \<open>auto simp: zero_ffm_message_def msg_self_ok_def streams_ok_def
        next_generation_ok msg_conn_ok_def\<close>)
  then show ?thesis
    using iB iC rel both len c m
    by (simp add: wt_ffm_finish_abandoned_def Let_def upd_conn_msg del: conn_of_upd)
qed

lemma reply_inv:
  assumes inv: "ffm_inv rt" and e: "wt_ffm_reply rt pid h status = (rt', ret)"
  shows "ffm_inv rt'"
proof (cases "rt' = rt")
  case True
  then show ?thesis using inv by simp
next
  case False
  obtain m st where h: "wt_ffm_message_from_handle rt pid h = Inr m"
    and st: "ffm_reply_state (msg_of rt m) (conn_of rt (msg_connection_index (msg_of rt m))) status = Inr st"
    using e False by (auto simp: wt_ffm_reply_def Let_def split: sum.splits)
  note m = message_from_handle_Inr [OF h]
  have nf: "st \<noteq> WT_IPC_CONNECTION_FREE"
    using st by (auto simp: ffm_reply_state_def split: if_splits)
  show ?thesis
    using e h st inv_complete [OF inv m(1-3) _ nf, of status] finish_abandoned_inv [OF inv m(1-3) nf refl, of status]
    by (auto simp: wt_ffm_reply_def Let_def split: if_splits)
qed

section \<open>Signals\<close>

lemma core_upd_part:
  assumes "ffm_core rt" "\<And>x. pr_manifest (f x) = pr_manifest x"
  shows "ffm_core (upd_part p f rt)"
proof -
  note d = ffm_coreD [OF assms(1)]
  have "ffm_static (upd_part p f rt)"
    using d(1) unfolding ffm_static_def by (simp add: ffm_views assms(2))
  moreover have "conn_ok (upd_part p f rt) i = conn_ok rt i" "msg_ok (upd_part p f rt) i = msg_ok rt i" for i
    by (simp_all add: conn_ok_def msg_ok_def)
  moreover have "one_message (upd_part p f rt)" "quotas (upd_part p f rt)"
    using d(2,3) by (simp_all add: one_message_def quotas_def wt_ffm_client_connection_count_def
        wt_ffm_ns_connection_count_def)
  ultimately show ?thesis using assms(1) by (simp add: ffm_core_def)
qed

text \<open>A change of signals that no service of the partition owns.\<close>

lemma inv_signal:
  assumes inv: "ffm_inv rt" and f: "\<And>x. pr_manifest (f x) = pr_manifest x"
    and o: "\<And>s. s < length (rt_services rt) \<Longrightarrow> pidx_of rt s = p \<Longrightarrow>
      pr_asserted_signals (f (part_of rt p)) AND sig_of rt s = pr_asserted_signals (part_of rt p) AND sig_of rt s"
  shows "ffm_inv (upd_part p f rt)"
proof -
  have "service_ok (upd_part p f rt) s" if "s < length (rt_services rt)" for s
    by (rule service_cong [OF ffm_invD(2) [OF inv that]])
      (use o [OF that] in \<open>auto simp: ffm_views waiting_def\<close>)
  then show ?thesis using core_upd_part [OF ffm_invD(1) [OF inv] f] by (simp add: ffm_inv_def)
qed

lemma doorbell_disjoint:
  assumes "ffm_inv rt" "s < length (rt_services rt)"
  shows "PSA_DOORBELL AND sig_of rt s = 0"
proof -
  have "sig_of rt s AND WT_MANIFEST_RESERVED_SIGNALS = 0"
    by (rule ffm_staticD(3) [OF ffm_coreD(1) [OF ffm_invD(1) [OF assms(1)]] assms(2)])
  then have "sig_of rt s AND (WT_MANIFEST_RESERVED_SIGNALS AND PSA_DOORBELL) = 0"
    by (simp only: and.assoc [symmetric]) simp
  then show ?thesis by (simp add: and.commute)
qed

lemma interrupt_mask_disjoint:
  assumes "\<forall>x \<in> set xs. mi_signal x AND w = 0" "acc AND w = 0"
  shows "fold (\<lambda>x acc. acc OR mi_signal x) xs acc AND w = 0"
  using assms by (induction xs arbitrary: acc) (auto simp: bit.conj_disj_distrib2)

lemma single_bit_within:
  assumes "single_bit b" "b AND m \<noteq> 0" "m AND w = 0"
  shows "b AND w = 0"
proof -
  obtain n where "b = push_bit n 1" using assms(1) by (auto simp: single_bit_iff)
  then have "b AND m = b" using and_push_bit_cases [of m n] assms(2) by (auto simp: and.commute)
  then have "b AND w = b AND (m AND w)" by (metis and.assoc)
  then show ?thesis using assms(3) by simp
qed

lemma signal_ops_inv:
  assumes inv: "ffm_inv rt"
  shows "ffm_inv (fst (wt_ffm_notify rt pid))" "ffm_inv (fst (wt_ffm_clear rt pid))"
    and "ffm_inv (fst (wt_ffm_eoi rt pid sg))" "ffm_inv (fst (wt_ffm_assert_signal rt pid sg))"
proof -
  note st = ffm_coreD(1) [OF ffm_invD(1) [OF inv]]
  note db = doorbell_disjoint [OF inv]
  have db': "(w AND - 9) AND sig_of rt s = w AND sig_of rt s" if "s < length (rt_services rt)" for w s
    using mask_clear_other [OF db [OF that], of w] by simp
  show "ffm_inv (fst (wt_ffm_notify rt pid))" "ffm_inv (fst (wt_ffm_clear rt pid))"
    using inv db db' by (auto simp: wt_ffm_notify_def wt_ffm_clear_def mask_simps split: sum.splits intro!: inv_signal)
  have irq: "sg AND sig_of rt s = 0"
    if "single_bit sg" "sg AND ffm_interrupt_mask (pr_manifest (part_of rt (pidx_of rt s))) \<noteq> 0"
      "s < length (rt_services rt)" for s
    by (rule single_bit_within [OF that(1,2)])
      (unfold ffm_interrupt_mask_def, rule interrupt_mask_disjoint, use ffm_staticD(5) [OF st that(3)] in auto)
  show "ffm_inv (fst (wt_ffm_eoi rt pid sg))"
    using inv irq by (auto simp: wt_ffm_eoi_def single_bit_def mask_simps split: sum.splits intro!: inv_signal)
  have look: "sg AND sig_of rt s = 0"
    if "find (\<lambda>x. mi_signal x = sg) (irqs_of (pr_manifest (part_of rt (pidx_of rt s)))) = Some x"
      "s < length (rt_services rt)" for s x
    using that(1) ffm_staticD(5) [OF st that(2), of x] by (auto simp: find_Some_iff)
  show "ffm_inv (fst (wt_ffm_assert_signal rt pid sg))"
    using inv look by (auto simp: wt_ffm_assert_signal_def wt_ffm_irq_lookup_def mask_simps
        split: sum.splits if_splits option.splits intro!: inv_signal)
qed

lemma register_inv:
  assumes inv: "ffm_inv rt"
  shows "ffm_inv (fst (wt_ffm_register_partition rt pid f))" "ffm_inv (wt_ffm_set_lifecycle rt l)"
proof -
  show "ffm_inv (fst (wt_ffm_register_partition rt pid f))"
    using inv by (auto simp: wt_ffm_register_partition_def split: sum.splits intro!: inv_signal)
  show "ffm_inv (wt_ffm_set_lifecycle rt l)"
    using inv same_tables_inv [of rt "wt_ffm_set_lifecycle rt l"] by (simp add: same_tables_def wt_ffm_set_lifecycle_def)
qed

end
