(* ===== verification/Ffm_Fault.thy ===== *)
theory Ffm_Fault
  imports Ffm_Serve
begin

text \<open>
  Clean-up after a fault: the messages and connections of a failed client are gone, the
  requests in flight at a failed partition are failed, and the invariant holds again.
\<close>

section \<open>A failed client\<close>

text \<open>What the message loop may change: queues, and the slots it releases.\<close>

definition only_frees :: "wt_ffm_runtime \<Rightarrow> wt_ffm_runtime \<Rightarrow> bool" where
  "only_frees rt rt' \<longleftrightarrow>
     rt_connections rt' = rt_connections rt \<and>
     length (rt_services rt') = length (rt_services rt) \<and>
     length (rt_partitions rt') = length (rt_partitions rt) \<and>
     (\<forall>s. pidx_of rt' s = pidx_of rt s \<and> sig_of rt' s = sig_of rt s) \<and>
     (\<forall>p. pr_manifest (part_of rt' p) = pr_manifest (part_of rt p)) \<and>
     (\<forall>j. msg_allocated (msg_of rt' j) \<longrightarrow> msg_of rt' j = (msg_of rt j)\<lparr>msg_next := nx_of rt' j\<rparr>)"

lemma only_frees_refl: "only_frees rt rt"
  by (simp add: only_frees_def nx_of_def)

lemma only_frees_trans:
  assumes "only_frees a b" "only_frees b c"
  shows "only_frees a c"
proof -
  have "msg_of c j = (msg_of a j)\<lparr>msg_next := nx_of c j\<rparr>" if "msg_allocated (msg_of c j)" for j
  proof -
    have c: "msg_of c j = (msg_of b j)\<lparr>msg_next := nx_of c j\<rparr>" using assms(2) that by (simp add: only_frees_def)
    have "msg_allocated (msg_of b j)" using that by (subst (asm) c) simp
    then have "msg_of b j = (msg_of a j)\<lparr>msg_next := nx_of b j\<rparr>" using assms(1) by (simp add: only_frees_def)
    then have "(msg_of b j)\<lparr>msg_next := nx_of c j\<rparr> = (msg_of a j)\<lparr>msg_next := nx_of c j\<rparr>" by (rule ssubst) simp
    then show ?thesis using c by simp
  qed
  then show ?thesis using assms by (simp add: only_frees_def)
qed

lemma only_frees_release:
  assumes "queue_frame rt rt'" "i < length (rt_messages rt)"
  shows "only_frees rt (wt_ffm_release_message rt' i)"
proof -
  note v = queue_frame_views [OF assms(1)]
  have m: "\<forall>j. msg_of rt' j = (msg_of rt j)\<lparr>msg_next := nx_of rt' j\<rparr>" using assms(1) by (simp add: queue_frame_def)
  have "rt_connections rt' = rt_connections rt" using assms(1) by (simp add: queue_frame_def)
  moreover have "msg_of (wt_ffm_release_message rt' i) j =
      (msg_of rt j)\<lparr>msg_next := nx_of (wt_ffm_release_message rt' i) j\<rparr>"
    if "msg_allocated (msg_of (wt_ffm_release_message rt' i) j)" for j
  proof -
    have "j \<noteq> i" using that release_message_reads(1) [of i rt' j] assms(2) v(7) by simp
    then show ?thesis using m by (simp add: wt_ffm_release_message_def nx_of_def)
  qed
  ultimately show ?thesis
    using v(2-6) by (simp add: only_frees_def ffm_views wt_ffm_release_message_def)
qed

lemma fail_client_messages_inv:
  assumes "ffm_inv rt" "set is \<subseteq> {..<WT_FFM_MAX_MESSAGES}"
  shows "\<exists>rt'. ffm_fail_client_messages caller is rt = Some rt' \<and> ffm_inv rt' \<and> only_frees rt rt' \<and>
    (\<forall>j \<in> set is. msg_allocated (msg_of rt' j) \<longrightarrow> msg_caller (msg_of rt' j) \<noteq> caller)"
  using assms
proof (induction "is" arbitrary: rt)
  case Nil
  then show ?case by (simp add: only_frees_refl)
next
  case (Cons i js)
  have i: "i < WT_FFM_MAX_MESSAGES" and js: "set js \<subseteq> {..<WT_FFM_MAX_MESSAGES}" using Cons.prems(2) by auto
  note co = ffm_invD(1) [OF Cons.prems(1)]
  have later: "msg_caller (msg_of rt2 i) \<noteq> caller"
    if "only_frees rt1 rt2" "msg_allocated (msg_of rt2 i)"
      "msg_allocated (msg_of rt1 i) \<Longrightarrow> msg_caller (msg_of rt1 i) \<noteq> caller" for rt1 rt2
  proof -
    have e: "msg_of rt2 i = (msg_of rt1 i)\<lparr>msg_next := nx_of rt2 i\<rparr>"
      using that(1,2) by (simp add: only_frees_def)
    have "msg_allocated (msg_of rt1 i)" using that(2) by (subst (asm) e) simp
    then show ?thesis using that(3) by (subst e) simp
  qed
  show ?case
  proof (cases "\<not> msg_allocated (msg_of rt i) \<or> msg_caller (msg_of rt i) \<noteq> caller")
    case True
    obtain rt' where r: "ffm_fail_client_messages caller js rt = Some rt'" "ffm_inv rt'" "only_frees rt rt'"
      "\<forall>j \<in> set js. msg_allocated (msg_of rt' j) \<longrightarrow> msg_caller (msg_of rt' j) \<noteq> caller"
      using Cons.IH [OF Cons.prems(1) js] by blast
    moreover have "msg_caller (msg_of rt' i) \<noteq> caller" if "msg_allocated (msg_of rt' i)"
      using later [OF r(3) that] True by blast
    ultimately show ?thesis using True by auto
  next
    case False
    let ?m = "msg_of rt i"
    obtain rt1 where dq: "(if \<not> msg_complete ?m \<and> \<not> msg_active ?m
        then wt_ffm_dequeue_message rt (msg_service_index ?m) i else Some rt) = Some rt1"
      and i1: "ffm_inv (wt_ffm_release_message rt1 i)" and fr: "queue_frame rt rt1"
    proof (cases "\<not> msg_complete ?m \<and> \<not> msg_active ?m")
      case True
      then show thesis
        using inv_dequeue_release [OF Cons.prems(1) i message_service(1) [OF co i]] False that by metis
    next
      case busy: False
      then show thesis
        using that [of rt] inv_release_done [OF Cons.prems(1) i] queue_frame_refl by auto
    qed
    have fre: "only_frees rt (wt_ffm_release_message rt1 i)"
      by (rule only_frees_release [OF fr]) (use i ffm_coreD(5) [OF co] in simp)
    have gone: "\<not> msg_allocated (msg_of (wt_ffm_release_message rt1 i) i)"
      using release_message_reads(1) [of i rt1 i] i ffm_coreD(5) [OF co] queue_frame_views(7) [OF fr] by simp
    obtain rt' where r: "ffm_fail_client_messages caller js (wt_ffm_release_message rt1 i) = Some rt'"
      "ffm_inv rt'" "only_frees (wt_ffm_release_message rt1 i) rt'"
      "\<forall>j \<in> set js. msg_allocated (msg_of rt' j) \<longrightarrow> msg_caller (msg_of rt' j) \<noteq> caller"
      using Cons.IH [OF i1 js] by blast
    moreover have "msg_caller (msg_of rt' i) \<noteq> caller" if "msg_allocated (msg_of rt' i)"
      using later [OF r(3) that] gone by blast
    moreover have "ffm_fail_client_messages caller (i # js) rt = Some rt'" using False dq r(1) by simp
    ultimately show ?thesis using only_frees_trans [OF fre r(3)] by auto
  qed
qed

text \<open>The connection loop, and its count.\<close>

definition no_messages_of :: "wt_ffm_runtime \<Rightarrow> int \<Rightarrow> bool" where
  "no_messages_of rt caller \<longleftrightarrow>
     (\<forall>m < WT_FFM_MAX_MESSAGES. msg_allocated (msg_of rt m) \<longrightarrow> msg_caller (msg_of rt m) \<noteq> caller)"

lemma free_connection_inv:
  assumes "ffm_inv rt" "no_messages_of rt caller" "i < WT_FFM_MAX_CONNECTIONS"
    and "ffm_free_connection caller i (rt, n) = (rt', n')"
  shows "ffm_inv rt'" "no_messages_of rt' caller"
proof -
  note co = ffm_invD(1) [OF assms(1)]
  have "msg_connection_index (msg_of rt m) \<noteq> i"
    if "m < WT_FFM_MAX_MESSAGES" "msg_allocated (msg_of rt m)" "conn_caller (conn_of rt i) = caller" for m
    using ffm_coreD(7) [OF co that(1)] that assms(2)
    by (auto simp: msg_ok_def msg_conn_ok_def no_messages_of_def)
  then show "ffm_inv rt'"
    using assms inv_release_connection [OF assms(1,3)] by (auto simp: ffm_free_connection_def split: if_splits)
  show "no_messages_of rt' caller"
    using assms by (auto simp: ffm_free_connection_def no_messages_of_def wt_ffm_release_connection_def split: if_splits)
qed

lemma free_connections_result:
  assumes "ffm_inv rt" "no_messages_of rt caller" "k \<le> WT_FFM_MAX_CONNECTIONS"
  shows "\<exists>rt'. fold (ffm_free_connection caller) [0..<k] (rt, 0) =
      (rt', int (count_if (\<lambda>c. conn_allocated c \<and> conn_caller c = caller) (take k (rt_connections rt)))) \<and>
    ffm_inv rt' \<and> no_messages_of rt' caller \<and>
    rt' = rt\<lparr>rt_connections := rt_connections rt'\<rparr> \<and>
    (\<forall>i. conn_of rt' i = (if i < k \<and> conn_allocated (conn_of rt i) \<and> conn_caller (conn_of rt i) = caller
       then zero_ffm_connection\<lparr>conn_generation := wt_ffm_next_generation (conn_generation (conn_of rt i))\<rparr>
       else conn_of rt i))"
  using assms(3)
proof (induction k)
  case 0
  then show ?case using assms by simp
next
  case (Suc k)
  then obtain r n where r: "fold (ffm_free_connection caller) [0..<k] (rt, 0) = (r, n)"
    "n = int (count_if (\<lambda>c. conn_allocated c \<and> conn_caller c = caller) (take k (rt_connections rt)))"
    "ffm_inv r" "no_messages_of r caller" "r = rt\<lparr>rt_connections := rt_connections r\<rparr>"
    "\<forall>i. conn_of r i = (if i < k \<and> conn_allocated (conn_of rt i) \<and> conn_caller (conn_of rt i) = caller
       then zero_ffm_connection\<lparr>conn_generation := wt_ffm_next_generation (conn_generation (conn_of rt i))\<rparr>
       else conn_of rt i)"
    by auto
  obtain r' n' where s: "ffm_free_connection caller k (r, n) = (r', n')"
    by (cases "ffm_free_connection caller k (r, n)")
  have k: "k < WT_FFM_MAX_CONNECTIONS" "k < length (rt_connections rt)" "k < length (rt_connections r)"
    using Suc.prems ffm_coreD(4) [OF ffm_invD(1)] assms(1) r(3) by simp_all
  note st = free_connection_inv [OF r(3,4) k(1) s]
  have ck: "conn_of r k = conn_of rt k" using r(6) by simp
  have tk: "take (Suc k) (rt_connections rt) = take k (rt_connections rt) @ [conn_of rt k]"
    using k(2) by (simp add: take_Suc_conv_app_nth conn_of_def)
  have "n' = int (count_if (\<lambda>c. conn_allocated c \<and> conn_caller c = caller) (take (Suc k) (rt_connections rt)))"
    using s r(2) ck by (auto simp: ffm_free_connection_def tk count_if_append split: if_splits)
  moreover have "\<forall>i. conn_of r' i = (if i < Suc k \<and> conn_allocated (conn_of rt i) \<and> conn_caller (conn_of rt i) = caller
       then zero_ffm_connection\<lparr>conn_generation := wt_ffm_next_generation (conn_generation (conn_of rt i))\<rparr>
       else conn_of rt i)"
    using s r(6) ck k(3) by (auto simp: ffm_free_connection_def wt_ffm_release_connection_def
        zero_ffm_connection_def less_Suc_eq split: if_splits)
  moreover have "r' = rt\<lparr>rt_connections := rt_connections r'\<rparr>"
  proof -
    have "r' = r\<lparr>rt_connections := rt_connections r'\<rparr>"
      using s by (auto simp: ffm_free_connection_def wt_ffm_release_connection_def upd_conn_def split: if_splits)
    then show ?thesis by (subst (asm) r(5)) simp
  qed
  ultimately show ?case using r(1) s st by simp
qed

lemma fail_client_connections_result:
  assumes inv: "ffm_inv rt"
  shows "\<exists>rt'. wt_ffm_fail_client_connections rt caller =
      Some (rt', int (wt_ffm_client_connection_count rt caller)) \<and>
    ffm_inv rt' \<and> no_messages_of rt' caller \<and> wt_ffm_client_connection_count rt' caller = 0 \<and>
    (\<forall>i < WT_FFM_MAX_CONNECTIONS. conn_caller (conn_of rt i) \<noteq> caller \<longrightarrow> conn_of rt' i = conn_of rt i) \<and>
    only_frees rt (rt'\<lparr>rt_connections := rt_connections rt\<rparr>)"
proof -
  obtain rt1 where m: "ffm_fail_client_messages caller [0..<WT_FFM_MAX_MESSAGES] rt = Some rt1" "ffm_inv rt1"
    "only_frees rt rt1" "no_messages_of rt1 caller"
    using fail_client_messages_inv [OF inv, of "[0..<WT_FFM_MAX_MESSAGES]" caller]
    by (auto simp: no_messages_of_def atLeast0LessThan)
  have cs: "rt_connections rt1 = rt_connections rt" using m(3) by (simp add: only_frees_def)
  have len: "length (rt_connections rt) = WT_FFM_MAX_CONNECTIONS" using ffm_coreD(4) [OF ffm_invD(1) [OF inv]] .
  obtain rt' where r: "fold (ffm_free_connection caller) [0..<WT_FFM_MAX_CONNECTIONS] (rt1, 0) =
      (rt', int (wt_ffm_client_connection_count rt caller))"
    "ffm_inv rt'" "no_messages_of rt' caller" "rt' = rt1\<lparr>rt_connections := rt_connections rt'\<rparr>"
    "\<forall>i. conn_of rt' i = (if i < WT_FFM_MAX_CONNECTIONS \<and> conn_allocated (conn_of rt1 i) \<and> conn_caller (conn_of rt1 i) = caller
       then zero_ffm_connection\<lparr>conn_generation := wt_ffm_next_generation (conn_generation (conn_of rt1 i))\<rparr>
       else conn_of rt1 i)"
    using free_connections_result [OF m(2,4) order_refl] len
    by (auto simp: wt_ffm_client_connection_count_def cs)
  have "count_if (\<lambda>c. conn_allocated c \<and> conn_caller c = caller) (rt_connections rt') = 0"
  proof -
    have "length (rt_connections rt') = WT_FFM_MAX_CONNECTIONS" using ffm_coreD(4) [OF ffm_invD(1) [OF r(2)]] .
    moreover have "\<not> (conn_allocated (conn_of rt' i) \<and> conn_caller (conn_of rt' i) = caller)"
      if "i < WT_FFM_MAX_CONNECTIONS" for i
      using r(5) [rule_format, of i] that by (auto simp: zero_ffm_connection_def)
    ultimately have "\<forall>x \<in> set (rt_connections rt'). \<not> (conn_allocated x \<and> conn_caller x = caller)"
      unfolding conn_of_def by (metis in_set_conv_nth)
    then show ?thesis by (simp add: count_if_def filter_empty_conv)
  qed
  moreover have "only_frees rt (rt'\<lparr>rt_connections := rt_connections rt\<rparr>)"
  proof -
    have "rt'\<lparr>rt_connections := rt_connections rt\<rparr> = rt1" by (subst r(4)) (simp add: cs [symmetric])
    then show ?thesis using m(3) by simp
  qed
  ultimately show ?thesis
    using m(1) r(1-3,5) cs by (auto simp: wt_ffm_fail_client_connections_def wt_ffm_client_connection_count_def conn_of_def)
qed

section \<open>A failed partition\<close>

lemma served_by_upd [simp]:
  "ffm_served_by (upd_conn i f rt) s p = ffm_served_by rt s p"
  "ffm_served_by (upd_msg i g rt) s p = ffm_served_by rt s p"
  by (simp_all add: ffm_served_by_def)

text \<open>The message loop restores nothing at the failed partition but harms no other service.\<close>

definition others_ok :: "int \<Rightarrow> wt_ffm_runtime \<Rightarrow> bool" where
  "others_ok pid rt \<longleftrightarrow> ffm_core rt \<and>
     (\<forall>t < length (rt_services rt). \<not> ffm_served_by rt t pid \<longrightarrow> service_ok rt t)"

definition in_flight :: "int \<Rightarrow> wt_ffm_runtime \<Rightarrow> nat \<Rightarrow> bool" where
  "in_flight pid rt i \<longleftrightarrow> msg_allocated (msg_of rt i) \<and> \<not> msg_complete (msg_of rt i) \<and>
     ffm_served_by rt (msg_service_index (msg_of rt i)) pid"

lemma others_ok_change:
  assumes o: "others_ok pid rt" and c: "ffm_core rt'" and i: "in_flight pid rt i" "i < WT_FFM_MAX_MESSAGES"
    and svc: "rt_services rt' = rt_services rt" "rt_partitions rt' = rt_partitions rt"
    and m: "\<And>j. j \<noteq> i \<Longrightarrow> msg_of rt' j = msg_of rt j"
    and gone: "\<not> (msg_allocated (msg_of rt' i) \<and> \<not> msg_complete (msg_of rt' i))"
  shows "others_ok pid rt'"
proof -
  have "service_ok rt' t" if t: "t < length (rt_services rt')" "\<not> ffm_served_by rt' t pid" for t
  proof -
    have s: "service_ok rt t" and ns: "\<not> ffm_served_by rt t pid"
      using o t svc by (auto simp: others_ok_def ffm_served_by_def svc_of_def part_of_def)
    have ni: "i \<notin> waiting rt t" using i(1) ns by (auto simp: waiting_def in_flight_def)
    have "j \<in> waiting rt' t \<longleftrightarrow> j \<in> waiting rt t" for j
      by (cases "j = i") (use gone ni m in \<open>auto simp: waiting_def\<close>)
    then have w: "waiting rt' t = waiting rt t" by blast
    have nx: "nx_of rt' j = nx_of rt j" if "j \<in> waiting rt t" for j
      using that ni m [of j] by (cases "j = i") (simp_all add: nx_of_def)
    show ?thesis
      by (rule service_cong [OF s])
        (use svc w nx in \<open>simp_all add: hd_of_def tl_of_def pidx_of_def sig_of_def asserted_def svc_of_def part_of_def\<close>)
  qed
  then show ?thesis using c by (simp add: others_ok_def)
qed

lemma fail_message_step:
  assumes o: "others_ok pid rt" and i: "i < WT_FFM_MAX_MESSAGES"
    and e: "ffm_fail_message pid status i (rt, n) = (rt', n')"
  shows "others_ok pid rt'" "\<not> in_flight pid rt' i"
    and "rt_services rt' = rt_services rt" "rt_partitions rt' = rt_partitions rt"
    and "\<And>j. j \<noteq> i \<Longrightarrow> msg_of rt' j = msg_of rt j"
    and "n' = (if in_flight pid rt i then n + 1 else n)"
proof -
  have co: "ffm_core rt" using o by (simp add: others_ok_def)
  note d = ffm_coreD [OF co]
  show "n' = (if in_flight pid rt i then n + 1 else n)"
    using e by (auto simp: ffm_fail_message_def in_flight_def Let_def split: if_splits)
  have "others_ok pid rt' \<and> \<not> in_flight pid rt' i \<and> rt_services rt' = rt_services rt \<and>
      rt_partitions rt' = rt_partitions rt \<and> (\<forall>j. j \<noteq> i \<longrightarrow> msg_of rt' j = msg_of rt j)"
  proof (cases "in_flight pid rt i")
    case False
    then have "rt' = rt" using e by (auto simp: ffm_fail_message_def in_flight_def Let_def split: if_splits)
    then show ?thesis using o False by simp
  next
    case True
    let ?m = "msg_of rt i"
    let ?c = "msg_connection_index ?m"
    let ?g = "\<lambda>x. x\<lparr>msg_reply_status := status, msg_active := False, msg_complete := True\<rparr>"
    let ?f = "\<lambda>x. x\<lparr>conn_state := WT_IPC_CONNECTION_ERROR\<rparr>"
    have m: "msg_allocated ?m" "\<not> msg_complete ?m" using True by (simp_all add: in_flight_def)
    note s = message_service [OF co i m(1)]
    have len: "i < length (rt_messages rt)" "?c < length (rt_connections rt)" using i s d(4,5) by simp_all
    have ok: "msg_ok rt i" using d(7) [OF i] .
    have one: "msg_connection_index (msg_of rt j) \<noteq> ?c"
      if "j < WT_FFM_MAX_MESSAGES" "j \<noteq> i" "msg_allocated (msg_of rt j)" for j
      using d(2) i m that unfolding one_message_def by blast
    define R where "R = upd_conn ?c ?f (wt_ffm_release_message rt i)"
    have cA: "ffm_core (wt_ffm_release_message rt i)" by (rule core_release_message [OF co i])
    have cR: "ffm_core R"
      unfolding R_def by (intro core_conn_state [OF cA s(2)]) simp_all
    have unused: "msg_connection_index (msg_of R j) \<noteq> ?c"
      if "j < WT_FFM_MAX_MESSAGES" "msg_allocated (msg_of R j)" for j
    proof -
      have "j \<noteq> i" "msg_allocated (msg_of rt j)" "msg_of R j = msg_of rt j"
        using that release_message_reads(1,2) [OF len(1), of j] by (auto simp: R_def)
      then show ?thesis using one that(1) by simp
    qed
    have cC: "ffm_core (wt_ffm_release_connection R ?c)"
      by (rule core_release_connection [OF cR s(2) unused])
    have cM: "ffm_core (upd_conn ?c ?f (upd_msg i ?g rt))" if "msg_abandoned ?m = NOT_ABANDONED"
    proof -
      have "ffm_core (upd_msg i ?g rt)"
        by (rule core_upd_msg [OF co i refl])
          (use ok m that one in \<open>auto simp: msg_ok_def msg_self_ok_def msg_conn_ok_def streams_ok_def\<close>)
      then show ?thesis by (rule core_conn_state [OF _ s(2)]) simp_all
    qed
    have rt': "rt' = (if msg_abandoned ?m = NOT_ABANDONED then upd_conn ?c ?f (upd_msg i ?g rt)
        else if msg_abandoned ?m = WT_FFM_ABANDONED_CLOSE then wt_ffm_release_connection R ?c else R)"
      using e True by (auto simp: ffm_fail_message_def in_flight_def Let_def R_def release_upd_conn
          wt_ffm_release_connection_def release_upd_msg split: if_splits)
    have c': "ffm_core rt'" using rt' cM cR cC by auto
    have fr: "rt_services rt' = rt_services rt" "rt_partitions rt' = rt_partitions rt"
      "\<And>j. j \<noteq> i \<Longrightarrow> msg_of rt' j = msg_of rt j"
      using rt' by (auto simp: R_def wt_ffm_release_connection_def wt_ffm_release_message_def
          upd_conn_def upd_msg_def msg_of_def nth_upd_at_neq)
    have gone: "\<not> (msg_allocated (msg_of rt' i) \<and> \<not> msg_complete (msg_of rt' i))"
      using rt' len by (auto simp: R_def wt_ffm_release_connection_def wt_ffm_release_message_def zero_ffm_message_def)
    show ?thesis
      using others_ok_change [OF o c' True i fr gone] gone fr by (auto simp: in_flight_def)
  qed
  then show "others_ok pid rt'" "\<not> in_flight pid rt' i"
    and "rt_services rt' = rt_services rt" "rt_partitions rt' = rt_partitions rt"
    and "\<And>j. j \<noteq> i \<Longrightarrow> msg_of rt' j = msg_of rt j" by blast+
qed

lemma in_flight_cong:
  assumes "rt_services rt' = rt_services rt" "rt_partitions rt' = rt_partitions rt" "msg_of rt' i = msg_of rt i"
  shows "in_flight pid rt' i = in_flight pid rt i"
  using assms by (simp add: in_flight_def ffm_served_by_def svc_of_def part_of_def)

lemma fail_messages_result:
  assumes "others_ok pid rt" "k \<le> WT_FFM_MAX_MESSAGES"
  shows "\<exists>rt'. fold (ffm_fail_message pid status) [0..<k] (rt, 0) = (rt', int (card {i. i < k \<and> in_flight pid rt i})) \<and>
    others_ok pid rt' \<and> (\<forall>i < k. \<not> in_flight pid rt' i) \<and> rt_services rt' = rt_services rt \<and>
    rt_partitions rt' = rt_partitions rt \<and> (\<forall>j \<ge> k. msg_of rt' j = msg_of rt j)"
  using assms(2)
proof (induction k)
  case 0
  then show ?case using assms(1) by simp
next
  case (Suc k)
  then obtain r where r: "fold (ffm_fail_message pid status) [0..<k] (rt, 0) = (r, int (card {i. i < k \<and> in_flight pid rt i}))"
    "others_ok pid r" "\<forall>i < k. \<not> in_flight pid r i" "rt_services r = rt_services rt"
    "rt_partitions r = rt_partitions rt" "\<forall>j \<ge> k. msg_of r j = msg_of rt j"
    by auto
  obtain r' n' where s: "ffm_fail_message pid status k (r, int (card {i. i < k \<and> in_flight pid rt i})) = (r', n')"
    by (cases "ffm_fail_message pid status k (r, int (card {i. i < k \<and> in_flight pid rt i}))")
  have k: "k < WT_FFM_MAX_MESSAGES" using Suc.prems by simp
  note st = fail_message_step [OF r(2) k s]
  have fk: "in_flight pid r k = in_flight pid rt k" using r(4-6) by (intro in_flight_cong) simp_all
  have "{i. i < Suc k \<and> in_flight pid rt i} =
      (if in_flight pid rt k then insert k {i. i < k \<and> in_flight pid rt i} else {i. i < k \<and> in_flight pid rt i})"
    by (auto simp: less_Suc_eq)
  then have "n' = int (card {i. i < Suc k \<and> in_flight pid rt i})" using st(6) fk by simp
  moreover have "\<not> in_flight pid r' i" if "i < Suc k" for i
    using that st(2) r(3) in_flight_cong [OF st(3,4), of i pid] st(5) [of i] by (cases "i = k") auto
  ultimately show ?case using r st s by auto
qed

lemma service_empty:
  assumes "waiting rt s = {}" "hd_of rt s = WT_FFM_QUEUE_NONE" "tl_of rt s = WT_FFM_QUEUE_NONE"
    and "asserted rt (pidx_of rt s) AND sig_of rt s = 0"
  shows "service_ok rt s"
  using assms by (auto simp: service_but_def queue_is_def threaded_def intro!: exI [of _ "[]"])

lemma drain_frame: "queue_frame rt (ffm_drain_service pid i rt)"
  using queue_frame_trans [OF queue_frame_upd(3) update_signal_frame] queue_frame_refl
  by (simp add: ffm_drain_service_def)

lemma drain_service_step:
  assumes c: "ffm_core rt" and i: "i < length (rt_services rt)" "ffm_served_by rt i pid" and w: "waiting rt i = {}"
  shows "service_ok (ffm_drain_service pid i rt) i"
    and "t < length (rt_services rt) \<Longrightarrow> t \<noteq> i \<Longrightarrow> service_ok rt t \<Longrightarrow> service_ok (ffm_drain_service pid i rt) t"
proof -
  let ?rt' = "ffm_drain_service pid i rt"
  define r where "r = upd_svc i (\<lambda>s. s\<lparr>sr_queue_head := WT_FFM_QUEUE_NONE, sr_queue_tail := WT_FFM_QUEUE_NONE\<rparr>) rt"
  have e: "?rt' = wt_ffm_update_service_signal r i" using i(2) by (simp add: ffm_drain_service_def r_def)
  note fr = drain_frame [of rt pid i]
  note v = queue_frame_views [OF fr]
  have hr: "hd_of r = (hd_of rt)(i := WT_FFM_QUEUE_NONE)" "tl_of r = (tl_of rt)(i := WT_FFM_QUEUE_NONE)" "nx_of r = nx_of rt"
    "pidx_of r = pidx_of rt" "sig_of r = sig_of rt" "asserted r = asserted rt"
    using i(1) by (auto simp: fun_eq_iff r_def ffm_views)
  have st: "ffm_static rt" using ffm_coreD(1) [OF c] .
  have as: "asserted ?rt' p = (if p \<noteq> pidx_of rt i then asserted rt p
      else if True then asserted rt p AND NOT (sig_of rt i) else asserted rt p OR sig_of rt i)" for p
    using update_signal_asserted [of r i p] ffm_staticD(1) [OF st i(1)] hr
    by (simp add: e r_def)
  show "service_ok ?rt' i"
    by (rule service_empty) (use w v as hr in \<open>simp_all add: e mask_simps\<close>)
  assume t: "t < length (rt_services rt)" "t \<noteq> i" "service_ok rt t"
  show "service_ok ?rt' t"
    by (rule service_cong [OF t(3)])
      (use v t(2) hr signal_other [OF st i(1) t(1,2) as] in \<open>simp_all add: e\<close>)
qed

lemma drain_services_result:
  assumes "others_ok pid rt" "\<forall>i < WT_FFM_MAX_MESSAGES. \<not> in_flight pid rt i" "k \<le> length (rt_services rt)"
  shows "\<exists>rt'. fold (ffm_drain_service pid) [0..<k] rt = rt' \<and> queue_frame rt rt' \<and> ffm_core rt' \<and>
    (\<forall>t < length (rt_services rt). (ffm_served_by rt t pid \<longrightarrow> t < k) \<longrightarrow> service_ok rt' t)"
  using assms(3)
proof (induction k)
  case 0
  then show ?case using assms(1) by (auto simp: others_ok_def queue_frame_refl)
next
  case (Suc k)
  then obtain r where r: "fold (ffm_drain_service pid) [0..<k] rt = r" "queue_frame rt r" "ffm_core r"
    "\<forall>t < length (rt_services rt). (ffm_served_by rt t pid \<longrightarrow> t < k) \<longrightarrow> service_ok r t"
    by auto
  note v = queue_frame_views [OF r(2)]
  let ?r' = "ffm_drain_service pid k r"
  have k: "k < length (rt_services r)" using Suc.prems v(5) by simp
  have sb: "ffm_served_by r t pid = ffm_served_by rt t pid" for t
    using v(2) [of t] v(4) by (simp add: ffm_served_by_def pidx_of_def)
  have f: "queue_frame rt ?r'" by (rule queue_frame_trans [OF r(2) drain_frame])
  have "service_ok ?r' t" if t: "t < length (rt_services rt)" "ffm_served_by rt t pid \<longrightarrow> t < Suc k" for t
  proof (cases "ffm_served_by r k pid")
    case False
    then show ?thesis using r(4) t sb by (auto simp: ffm_drain_service_def less_Suc_eq)
  next
    case True
    have w: "waiting r k = {}"
      using assms(2) True sb v(8) by (auto simp: waiting_def in_flight_def)
    show ?thesis
      using drain_service_step(1) [OF r(3) k True w] drain_service_step(2) [OF r(3) k True w, of t] t r(4) v(5)
      by (cases "t = k") auto
  qed
  then show ?case using r(1) f queue_frame_core [OF drain_frame r(3)] by auto
qed

lemma fail_connections_result:
  assumes "ffm_inv rt" "k \<le> WT_FFM_MAX_CONNECTIONS"
  shows "\<exists>rt'. fold (ffm_fail_connection pid) [0..<k] rt = rt' \<and> ffm_inv rt' \<and>
    rt' = rt\<lparr>rt_connections := rt_connections rt'\<rparr> \<and>
    (\<forall>c. conn_of rt' c = (if c < k \<and> conn_allocated (conn_of rt c) \<and>
        conn_state (conn_of rt c) \<noteq> WT_IPC_CONNECTION_TERMINAL \<and>
        ffm_served_by rt (conn_service_index (conn_of rt c)) pid
      then (conn_of rt c)\<lparr>conn_state := WT_IPC_CONNECTION_ERROR, conn_rhandle := 0\<rparr> else conn_of rt c))"
  using assms(2)
proof (induction k)
  case 0
  then show ?case using assms(1) by simp
next
  case (Suc k)
  then obtain r where r: "fold (ffm_fail_connection pid) [0..<k] rt = r" "ffm_inv r"
    "r = rt\<lparr>rt_connections := rt_connections r\<rparr>"
    "\<forall>c. conn_of r c = (if c < k \<and> conn_allocated (conn_of rt c) \<and>
        conn_state (conn_of rt c) \<noteq> WT_IPC_CONNECTION_TERMINAL \<and>
        ffm_served_by rt (conn_service_index (conn_of rt c)) pid
      then (conn_of rt c)\<lparr>conn_state := WT_IPC_CONNECTION_ERROR, conn_rhandle := 0\<rparr> else conn_of rt c)"
    by auto
  let ?r' = "ffm_fail_connection pid k r"
  note co = ffm_invD(1) [OF r(2)]
  have k: "k < WT_FFM_MAX_CONNECTIONS" "k < length (rt_connections r)" using Suc.prems ffm_coreD(4) [OF co] by simp_all
  have ck: "conn_of r k = conn_of rt k" using r(4) by simp
  have nf: "conn_state (conn_of rt k) \<noteq> WT_IPC_CONNECTION_FREE" if "conn_allocated (conn_of rt k)"
    using ffm_coreD(6) [OF co k(1)] that ck by (simp add: conn_ok_def)
  have sb: "ffm_served_by r t pid = ffm_served_by rt t pid" for t
    by (subst r(3)) (simp add: ffm_served_by_def svc_of_def part_of_def)
  have "ffm_inv (upd_conn k (\<lambda>c. c\<lparr>conn_state := WT_IPC_CONNECTION_ERROR, conn_rhandle := 0\<rparr>) r)"
    by (intro inv_upd_conn [OF r(2)] core_conn_state [OF co k(1)]) simp_all
  then have i: "ffm_inv ?r'" using r(2) by (simp add: ffm_fail_connection_def Let_def)
  have f: "?r' = rt\<lparr>rt_connections := rt_connections ?r'\<rparr>"
  proof -
    have "?r' = r\<lparr>rt_connections := rt_connections ?r'\<rparr>"
      by (simp add: ffm_fail_connection_def Let_def upd_conn_def)
    then show ?thesis by (subst (asm) (2) r(3)) simp
  qed
  have "conn_of ?r' c = (if c < Suc k \<and> conn_allocated (conn_of rt c) \<and>
        conn_state (conn_of rt c) \<noteq> WT_IPC_CONNECTION_TERMINAL \<and>
        ffm_served_by rt (conn_service_index (conn_of rt c)) pid
      then (conn_of rt c)\<lparr>conn_state := WT_IPC_CONNECTION_ERROR, conn_rhandle := 0\<rparr> else conn_of rt c)" for c
    using r(4) [rule_format, of c] ck k(2) nf sb by (auto simp: ffm_fail_connection_def Let_def less_Suc_eq)
  then show ?case using r(1) i f by simp
qed

text \<open>What a fault leaves of the static part.\<close>

definition same_static :: "wt_ffm_runtime \<Rightarrow> wt_ffm_runtime \<Rightarrow> bool" where
  "same_static rt rt' \<longleftrightarrow>
     length (rt_services rt') = length (rt_services rt) \<and>
     length (rt_partitions rt') = length (rt_partitions rt) \<and>
     (\<forall>s. pidx_of rt' s = pidx_of rt s) \<and>
     (\<forall>p. pr_manifest (part_of rt' p) = pr_manifest (part_of rt p))"

lemma same_static_served:
  assumes "same_static rt rt'"
  shows "ffm_served_by rt' s pid = ffm_served_by rt s pid"
  using assms unfolding same_static_def ffm_served_by_def pidx_of_def by metis

lemma first_idx_manifest: "first_idx (\<lambda>p. P (pr_manifest p)) xs = first_idx P (map pr_manifest xs)"
  by (induction xs) auto

lemma same_static_find:
  assumes "same_static rt rt'"
  shows "wt_ffm_find_partition rt' pid = wt_ffm_find_partition rt pid"
proof -
  have "map pr_manifest (rt_partitions rt') = map pr_manifest (rt_partitions rt)"
    using assms by (intro nth_equalityI) (simp_all add: same_static_def part_of_def)
  then show ?thesis
    unfolding wt_ffm_find_partition_def first_idx_manifest [of "\<lambda>m. pm_domain_id m = word_of_int pid"] by simp
qed

lemma fail_partition_result:
  assumes inv: "ffm_inv rt"
  shows "\<exists>rt'. wt_ffm_fail_partition_messages rt pid status =
      (rt', int (card {i. i < WT_FFM_MAX_MESSAGES \<and> in_flight pid rt i})) \<and>
    ffm_inv rt' \<and> same_static rt rt' \<and> (\<forall>i < WT_FFM_MAX_MESSAGES. \<not> in_flight pid rt' i) \<and>
    (\<forall>c < WT_FFM_MAX_CONNECTIONS. conn_allocated (conn_of rt' c) \<longrightarrow>
       ffm_served_by rt (conn_service_index (conn_of rt' c)) pid \<longrightarrow>
       conn_state (conn_of rt' c) = WT_IPC_CONNECTION_TERMINAL \<or>
       conn_state (conn_of rt' c) = WT_IPC_CONNECTION_ERROR \<and> conn_rhandle (conn_of rt' c) = 0)"
proof -
  have "others_ok pid rt" using inv by (simp add: others_ok_def ffm_inv_def)
  then obtain r1 where r1: "fold (ffm_fail_message pid status) [0..<WT_FFM_MAX_MESSAGES] (rt, 0) =
      (r1, int (card {i. i < WT_FFM_MAX_MESSAGES \<and> in_flight pid rt i}))"
    "others_ok pid r1" "\<forall>i < WT_FFM_MAX_MESSAGES. \<not> in_flight pid r1 i"
    "rt_services r1 = rt_services rt" "rt_partitions r1 = rt_partitions rt"
    using fail_messages_result [of pid rt WT_FFM_MAX_MESSAGES status] by auto
  obtain r2 where r2: "fold (ffm_drain_service pid) [0..<length (rt_services r1)] r1 = r2" "queue_frame r1 r2"
    "ffm_core r2" "\<forall>t < length (rt_services r1). service_ok r2 t"
    using drain_services_result [OF r1(2,3) order_refl] by auto
  note v = queue_frame_views [OF r2(2)]
  have i2: "ffm_inv r2" using r2(3,4) v(5) by (simp add: ffm_inv_def)
  have s2: "same_static rt r2"
    using v r1(4,5) by (simp add: same_static_def pidx_of_def svc_of_def part_of_def)
  have sb: "ffm_served_by r2 t pid = ffm_served_by rt t pid" for t by (rule same_static_served [OF s2])
  obtain r3 where r3: "fold (ffm_fail_connection pid) [0..<WT_FFM_MAX_CONNECTIONS] r2 = r3" "ffm_inv r3"
    "r3 = r2\<lparr>rt_connections := rt_connections r3\<rparr>"
    "\<forall>c. conn_of r3 c = (if c < WT_FFM_MAX_CONNECTIONS \<and> conn_allocated (conn_of r2 c) \<and>
        conn_state (conn_of r2 c) \<noteq> WT_IPC_CONNECTION_TERMINAL \<and>
        ffm_served_by r2 (conn_service_index (conn_of r2 c)) pid
      then (conn_of r2 c)\<lparr>conn_state := WT_IPC_CONNECTION_ERROR, conn_rhandle := 0\<rparr> else conn_of r2 c)"
    using fail_connections_result [OF i2 order_refl] by auto
  have tab: "rt_services r3 = rt_services r2" "rt_partitions r3 = rt_partitions r2" "rt_messages r3 = rt_messages r2"
    by (subst r3(3), simp)+
  then have s3: "same_static rt r3" using s2 by (simp add: same_static_def pidx_of_def svc_of_def part_of_def)
  have "\<not> in_flight pid r3 i" if "i < WT_FFM_MAX_MESSAGES" for i
  proof -
    have "in_flight pid r3 i = in_flight pid r2 i"
      using tab by (intro in_flight_cong) (simp_all add: msg_of_def)
    also have "\<dots> = in_flight pid r1 i"
    proof -
      have "msg_of r2 i = (msg_of r1 i)\<lparr>msg_next := nx_of r2 i\<rparr>" using r2(2) by (simp add: queue_frame_def)
      then show ?thesis
        using sb r1(4,5) by (simp add: in_flight_def) (simp add: ffm_served_by_def svc_of_def part_of_def)
    qed
    finally show ?thesis using r1(3) that by simp
  qed
  moreover have "conn_state (conn_of r3 c) = WT_IPC_CONNECTION_TERMINAL \<or>
       conn_state (conn_of r3 c) = WT_IPC_CONNECTION_ERROR \<and> conn_rhandle (conn_of r3 c) = 0"
    if "c < WT_FFM_MAX_CONNECTIONS" "conn_allocated (conn_of r3 c)"
      "ffm_served_by rt (conn_service_index (conn_of r3 c)) pid" for c
    using r3(4) [rule_format, of c] that sb by (auto split: if_splits)
  ultimately show ?thesis
    using r1(1) r2(1) r3(1,2) s3 by (simp add: wt_ffm_fail_partition_messages_def)
qed

lemma partition_restarted_result:
  assumes inv: "ffm_inv rt" and p: "wt_ffm_find_partition rt pid = Inr p"
  shows "\<exists>rt'. wt_ffm_partition_restarted rt pid status =
      Some (rt', int (card {i. i < WT_FFM_MAX_MESSAGES \<and> in_flight pid rt i})) \<and>
    ffm_inv rt' \<and> (\<forall>i < WT_FFM_MAX_MESSAGES. \<not> in_flight pid rt' i) \<and> no_messages_of rt' pid \<and>
    wt_ffm_client_connection_count rt' pid = 0 \<and> asserted rt' p = 0"
proof -
  obtain r1 where r1: "wt_ffm_fail_partition_messages rt pid status =
      (r1, int (card {i. i < WT_FFM_MAX_MESSAGES \<and> in_flight pid rt i}))" "ffm_inv r1" "same_static rt r1"
    "\<forall>i < WT_FFM_MAX_MESSAGES. \<not> in_flight pid r1 i"
    using fail_partition_result [OF inv, of pid status] by blast
  obtain r2 n where r2: "wt_ffm_fail_client_connections r1 pid = Some (r2, n)" "ffm_inv r2" "no_messages_of r2 pid"
    "wt_ffm_client_connection_count r2 pid = 0" "only_frees r1 (r2\<lparr>rt_connections := rt_connections r1\<rparr>)"
    using fail_client_connections_result [OF r1(2), of pid] by blast
  have fre: "length (rt_services r2) = length (rt_services r1)" "length (rt_partitions r2) = length (rt_partitions r1)"
    "\<And>s. pidx_of r2 s = pidx_of r1 s" "\<And>p. pr_manifest (part_of r2 p) = pr_manifest (part_of r1 p)"
    "\<And>j. msg_allocated (msg_of r2 j) \<Longrightarrow> msg_of r2 j = (msg_of r1 j)\<lparr>msg_next := nx_of r2 j\<rparr>"
    using r2(5) by (simp_all add: only_frees_def ffm_views svc_of_def part_of_def msg_of_def)
  have s2: "same_static r1 r2" using fre by (simp add: same_static_def)
  have fl: "\<not> in_flight pid r2 i" if i: "i < WT_FFM_MAX_MESSAGES" for i
  proof
    assume f: "in_flight pid r2 i"
    then have e: "msg_of r2 i = (msg_of r1 i)\<lparr>msg_next := nx_of r2 i\<rparr>" using fre(5) by (simp add: in_flight_def)
    have "in_flight pid r1 i"
      using f same_static_served [OF s2] unfolding in_flight_def by (subst (asm) (1 2 3) e) simp
    then show False using r1(4) i by blast
  qed
  let ?f = "\<lambda>x. x\<lparr>pr_asserted_signals := 0, pr_instance := pr_instance x + 1\<rparr>"
  have pd: "p < length (rt_partitions rt)" "pm_domain_id (pr_manifest (part_of rt p)) = word_of_int pid"
    using p by (auto simp: wt_ffm_find_partition_def part_of_def split: if_splits option.splits dest!: first_idx_Some)
  have i3: "ffm_inv (upd_part p ?f r2)"
  proof (rule inv_signal [OF r2(2)])
    fix s assume s: "s < length (rt_services r2)" "pidx_of r2 s = p"
    have "ffm_served_by r2 s pid"
      using s pd r1(3) fre(3,4) by (simp add: ffm_served_by_def pidx_of_def same_static_def)
    then have "waiting r2 s = {}" using fl by (auto simp: waiting_def in_flight_def)
    then have "asserted r2 (pidx_of r2 s) AND sig_of r2 s = 0"
      using ffm_invD(2) [OF r2(2) s(1)] queue_head_none [of r2 s] by (auto simp: service_but_def)
    then show "pr_asserted_signals (?f (part_of r2 p)) AND sig_of r2 s =
        pr_asserted_signals (part_of r2 p) AND sig_of r2 s"
      using s by (simp add: asserted_def)
  qed simp
  have "\<not> in_flight pid (upd_part p ?f r2) i" if "i < WT_FFM_MAX_MESSAGES" for i
    using fl [OF that] by (auto simp: in_flight_def ffm_served_by_def)
  moreover have "asserted (upd_part p ?f r2) p = 0"
    using pd r1(3) fre(2) by (simp add: asserted_def same_static_def)
  moreover have "no_messages_of (upd_part p ?f r2) pid" "wt_ffm_client_connection_count (upd_part p ?f r2) pid = 0"
    using r2(3,4) by (simp_all add: no_messages_of_def wt_ffm_client_connection_count_def)
  ultimately show ?thesis using p r1(1) r2(1) i3 by (simp add: wt_ffm_partition_restarted_def)
qed

end
