(* ===== verification/Ffm_Init.thy ===== *)
theory Ffm_Init
  imports Ffm_Fault
begin

text \<open>
  The state \<open>wt_ffm_init\<close> builds from an accepted manifest satisfies the invariant.
\<close>

lemma init_services_mem:
  assumes "x \<in> set (ffm_init_services i ps)"
  shows "i \<le> sr_partition_index x" "sr_partition_index x < i + length ps"
    and "sr_descriptor x \<in> set (services_of (ps ! (sr_partition_index x - i)))"
    and "sr_queue_head x = WT_FFM_QUEUE_NONE" "sr_queue_tail x = WT_FFM_QUEUE_NONE"
  using assms
proof (induction ps arbitrary: i)
  case (Cons p ps)
  {
    case 1 then show ?case using Cons.IH(1) [of "Suc i"] by fastforce
  next
    case 2 then show ?case using Cons.IH(2) [of "Suc i"] by fastforce
  next
    case 3
    then consider "x \<in> (\<lambda>d. \<lparr>sr_descriptor = d, sr_partition_index = i, sr_queue_head = WT_FFM_QUEUE_NONE,
        sr_queue_tail = WT_FFM_QUEUE_NONE\<rparr>) ` set (services_of p)" | "x \<in> set (ffm_init_services (Suc i) ps)"
      by auto
    then show ?case
    proof cases
      case 2
      have "sr_partition_index x - i = Suc (sr_partition_index x - Suc i)" using Cons.IH(1) [OF 2] by simp
      then show ?thesis using Cons.IH(3) [OF 2] by simp
    qed auto
  next
    case 4 then show ?case using Cons.IH(4) [of "Suc i"] by fastforce
  next
    case 5 then show ?case using Cons.IH(5) [of "Suc i"] by fastforce
  }
qed simp_all

lemma init_services_distinct:
  assumes "\<forall>p \<in> set ps. distinct (map sd_signal (services_of p))"
  shows "distinct (map (\<lambda>x. (sr_partition_index x, sd_signal (sr_descriptor x))) (ffm_init_services i ps))"
  using assms
proof (induction ps arbitrary: i)
  case (Cons p ps)
  have "distinct (map (\<lambda>d. (i, sd_signal d)) (services_of p))"
    using Cons.prems by (simp add: distinct_map inj_on_def)
  moreover have "sr_partition_index x \<noteq> i" if "x \<in> set (ffm_init_services (Suc i) ps)" for x
    using init_services_mem(1) [OF that] by simp
  ultimately show ?case
    using Cons.IH [of "Suc i"] Cons.prems by (auto simp: comp_def simp del: distinct_map)
qed simp

lemma init_check_models:
  "ffm_init_check ps n = Some k \<Longrightarrow> p \<in> set ps \<Longrightarrow> pm_model p = Enum WT_PARTITION_MODEL_IPC"
  by (induction ps arbitrary: n) (auto split: if_splits)

lemma init_static:
  assumes sep: "\<forall>p \<in> set ps. signals_separate p"
    and sv: "rt_services rt = ffm_init_services 0 ps"
    and pt: "length (rt_partitions rt) = length ps" "\<And>i. i < length ps \<Longrightarrow> pr_manifest (part_of rt i) = ps ! i"
    and len: "length (rt_connections rt) = WT_FFM_MAX_CONNECTIONS" "length (rt_messages rt) = WT_FFM_MAX_MESSAGES"
  shows "ffm_static rt"
proof -
  have mem: "pidx_of rt s < length ps \<and> sig_of rt s \<in> set (map sd_signal (services_of (ps ! pidx_of rt s)))"
    if "s < length (rt_services rt)" for s
  proof -
    have "svc_of rt s \<in> set (ffm_init_services 0 ps)" using that sv by (simp add: svc_of_def)
    from init_services_mem [OF this] show ?thesis by (simp add: pidx_of_def sig_of_def)
  qed
  have sp: "signals_separate (ps ! pidx_of rt s)" if "s < length (rt_services rt)" for s
    using mem [OF that] sep by simp
  have bits: "single_bit (sig_of rt s)" "sig_of rt s AND WT_MANIFEST_RESERVED_SIGNALS = 0"
    if "s < length (rt_services rt)" for s
    using sp [OF that] mem [OF that] by (auto simp: signals_separate_def partition_signals_def)
  have "distinct (map (\<lambda>x. (sr_partition_index x, sd_signal (sr_descriptor x))) (rt_services rt))"
    unfolding sv using sep by (intro init_services_distinct) (auto simp: signals_separate_def partition_signals_def)
  then have "sig_of rt s AND sig_of rt t = 0"
    if "s < length (rt_services rt)" "t < length (rt_services rt)" "s \<noteq> t" "pidx_of rt s = pidx_of rt t" for s t
    using that single_bit_disjoint [OF bits(1) bits(1)]
    by (simp add: distinct_conv_nth pidx_of_def sig_of_def svc_of_def)
  moreover have "mi_signal x AND sig_of rt s = 0"
    if s: "s < length (rt_services rt)" and x: "x \<in> set (irqs_of (pr_manifest (part_of rt (pidx_of rt s))))" for s x
  proof (rule single_bit_disjoint)
    have x': "x \<in> set (irqs_of (ps ! pidx_of rt s))" using x pt(2) mem [OF s] by simp
    show "single_bit (mi_signal x)" "single_bit (sig_of rt s)"
      using sp [OF s] x' bits [OF s] by (auto simp: signals_separate_def partition_signals_def)
    show "mi_signal x \<noteq> sig_of rt s"
    proof
      assume e: "mi_signal x = sig_of rt s"
      have "mi_signal x \<in> mi_signal ` set (irqs_of (ps ! pidx_of rt s))" using x' by simp
      moreover have "mi_signal x \<in> sd_signal ` set (services_of (ps ! pidx_of rt s))" using mem [OF s] e by simp
      ultimately show False using sp [OF s] by (auto simp: signals_separate_def partition_signals_def)
    qed
  qed
  ultimately show ?thesis using mem bits pt(1) len by (auto simp: ffm_static_def)
qed

lemma init_inv:
  assumes v: "wt_manifest_validate (Some m) features platform = WT_MANIFEST_VALID"
    and e: "wt_ffm_init rt0 (Some m) = (rt, WT_FFM_SUCCESS)"
  shows "ffm_inv rt"
proof -
  obtain k where ck: "ffm_init_check (partitions_of m) 0 = Some k"
    and rt: "rt = rt0\<lparr>rt_manifest := m,
                 rt_partitions := map (\<lambda>p. \<lparr>pr_manifest = p, pr_dispatch = None,
                    pr_asserted_signals = 0, pr_instance = 0\<rparr>) (partitions_of m),
                 rt_services := ffm_init_services 0 (partitions_of m),
                 rt_connections := replicate WT_FFM_MAX_CONNECTIONS
                    (zero_ffm_connection\<lparr>conn_generation := 1\<rparr>),
                 rt_messages := replicate WT_FFM_MAX_MESSAGES
                    (zero_ffm_message\<lparr>msg_generation := 1, msg_next := WT_FFM_QUEUE_NONE\<rparr>),
                 rt_lifecycle := 0\<rparr>"
    using e by (auto simp: wt_ffm_init_def split: if_splits option.splits)
  have c: "conn_of rt i = zero_ffm_connection\<lparr>conn_generation := 1\<rparr>" if "i < WT_FFM_MAX_CONNECTIONS" for i
    using that by (simp add: conn_of_def rt)
  have m: "msg_of rt i = zero_ffm_message\<lparr>msg_generation := 1, msg_next := WT_FFM_QUEUE_NONE\<rparr>"
    if "i < WT_FFM_MAX_MESSAGES" for i
    using that by (simp add: msg_of_def rt)
  have p: "part_of rt i = \<lparr>pr_manifest = partitions_of m ! i, pr_dispatch = None,
      pr_asserted_signals = 0, pr_instance = 0\<rparr>" if "i < length (partitions_of m)" for i
    using that by (simp add: part_of_def rt)
  have st: "ffm_static rt"
    by (rule init_static [of "partitions_of m"])
      (use validate_partition_signals [OF validate_parts(2) [OF v] init_check_models [OF ck]] p in
        \<open>simp_all add: rt\<close>)
  have "count_if (\<lambda>c. conn_allocated c \<and> P (conn_caller c)) (rt_connections rt) = 0" for P
    by (simp add: count_if_def rt zero_ffm_connection_def filter_empty_conv)
  from this [of "\<lambda>x. x = _"] this [of "\<lambda>x. x < 0"] have "quotas rt"
    by (simp add: quotas_def wt_ffm_client_connection_count_def wt_ffm_ns_connection_count_def)
  moreover have "conn_ok rt i" if "i < WT_FFM_MAX_CONNECTIONS" for i
    using c [OF that] by (simp add: conn_ok_def zero_ffm_connection_def gen_ok_def)
  moreover have "msg_ok rt i" if "i < WT_FFM_MAX_MESSAGES" for i
    using m [OF that] by (simp add: msg_ok_def zero_ffm_message_def gen_ok_def msg_blank_def)
  moreover have "one_message rt" using m by (simp add: one_message_def zero_ffm_message_def)
  ultimately have co: "ffm_core rt" using st by (simp add: ffm_core_def)
  have "service_ok rt s" if s: "s < length (rt_services rt)" for s
  proof (rule service_empty)
    have "svc_of rt s \<in> set (ffm_init_services 0 (partitions_of m))"
      using s by (simp add: svc_of_def rt)
    from init_services_mem(2,4,5) [OF this]
    show "hd_of rt s = WT_FFM_QUEUE_NONE" "tl_of rt s = WT_FFM_QUEUE_NONE"
      "asserted rt (pidx_of rt s) AND sig_of rt s = 0"
      using p by (simp_all add: ffm_views)
    show "waiting rt s = {}" using m by (auto simp: waiting_def zero_ffm_message_def)
  qed
  then show ?thesis using co by (simp add: ffm_inv_def)
qed

end
