(* ===== verification/Ffm_System.thy ===== *)
theory Ffm_System
  imports Ffm_Init
begin

text \<open>
  The runtime as a transition system. A step is one operation of \<open>ffm.c\<close> on behalf of a
  client, of a partition serving requests, or of the supervisor that handles faults. A
  client issues no second request while one of its own is in flight, which the blocked
  caller of the gate guarantees, and harvests a message only when it is complete.
\<close>

section \<open>Steps\<close>

datatype ffm_actor = Client int | Server | Supervisor

definition harvestable :: "wt_ffm_runtime \<Rightarrow> nat \<Rightarrow> int \<Rightarrow> bool" where
  "harvestable rt m caller \<longleftrightarrow> wt_ffm_msg_complete rt m \<and> msg_caller (msg_of rt m) = caller"

inductive ffm_step :: "wt_ffm_port_ops \<Rightarrow> ffm_actor \<Rightarrow> wt_ffm_runtime \<Rightarrow> wt_ffm_runtime \<Rightarrow> bool"
  for ops where
  connect_begin: "client_quiet rt caller \<Longrightarrow> wt_ffm_connect_begin rt caller sid version = (rt', h, r) \<Longrightarrow>
    ffm_step ops (Client caller) rt rt'"
| call_begin: "client_quiet rt caller \<Longrightarrow>
    wt_ffm_call_begin ops rt caller h type in_vec out_vec = (rt', status, r) \<Longrightarrow>
    ffm_step ops (Client caller) rt rt'"
| call_refuse: "ffm_step ops (Client caller) rt (wt_ffm_call_refuse rt caller h)"
| close_begin: "client_quiet rt caller \<Longrightarrow> wt_ffm_close_begin rt caller h = (rt', ret, r) \<Longrightarrow>
    ffm_step ops (Client caller) rt rt'"
| connect_finish: "harvestable rt m caller \<Longrightarrow> wt_ffm_connect_finish rt m = (rt', h) \<Longrightarrow>
    ffm_step ops (Client caller) rt rt'"
| call_finish: "harvestable rt m caller \<Longrightarrow> wt_ffm_call_finish ops rt m out_vec = (rt', status, vs) \<Longrightarrow>
    ffm_step ops (Client caller) rt rt'"
| close_finish: "harvestable rt m caller \<Longrightarrow> wt_ffm_close_finish rt m = (rt', ret) \<Longrightarrow>
    ffm_step ops (Client caller) rt rt'"
| connect_tail: "own_message rt m ret \<Longrightarrow> msg_caller (msg_of rt m) = caller \<Longrightarrow>
    ffm_connect_tail rt ret h (msg_service_index (msg_of rt m)) (msg_connection_index (msg_of rt m)) m =
      Some (rt', status) \<Longrightarrow> ffm_step ops (Client caller) rt rt'"
| call_tail: "own_message rt m ret \<Longrightarrow> msg_caller (msg_of rt m) = caller \<Longrightarrow>
    ffm_call_tail ops rt ret (msg_connection_index (msg_of rt m)) m vs = Some (rt', status, vs') \<Longrightarrow>
    ffm_step ops (Client caller) rt rt'"
| close_tail: "own_message rt m ret \<Longrightarrow> msg_caller (msg_of rt m) = caller \<Longrightarrow>
    ffm_close_tail rt ret (msg_connection_index (msg_of rt m)) m = Some (rt', ret') \<Longrightarrow>
    ffm_step ops (Client caller) rt rt'"
| client_store: "ffm_step ops (Client caller) rt (rt\<lparr>client_memory := mem\<rparr>)"
| get: "wt_ffm_get rt pid signal = (rt', st, r) \<Longrightarrow> ffm_step ops Server rt rt'"
| set_rhandle: "wt_ffm_set_rhandle rt pid h rh = (rt', ret) \<Longrightarrow> ffm_step ops Server rt rt'"
| read_in: "wt_ffm_read rt pid h i nul n = (rt', k, bs) \<Longrightarrow> ffm_step ops Server rt rt'"
| skip_in: "wt_ffm_skip rt pid h i n = (rt', k) \<Longrightarrow> ffm_step ops Server rt rt'"
| write_out: "wt_ffm_write rt pid h i buffer = (rt', ret) \<Longrightarrow> ffm_step ops Server rt rt'"
| reply: "wt_ffm_reply rt pid h status = (rt', ret) \<Longrightarrow> ffm_step ops Server rt rt'"
| notify: "wt_ffm_notify rt pid = (rt', ret) \<Longrightarrow> ffm_step ops Server rt rt'"
| clear: "wt_ffm_clear rt pid = (rt', ret) \<Longrightarrow> ffm_step ops Server rt rt'"
| eoi: "wt_ffm_eoi rt pid signal = (rt', ret) \<Longrightarrow> ffm_step ops Server rt rt'"
| assert_signal: "wt_ffm_assert_signal rt pid signal = (rt', ret) \<Longrightarrow> ffm_step ops Server rt rt'"
| fail_partition: "wt_ffm_fail_partition_messages rt pid status = (rt', n) \<Longrightarrow> ffm_step ops Supervisor rt rt'"
| fail_client: "wt_ffm_fail_client_connections rt caller = Some (rt', n) \<Longrightarrow> ffm_step ops Supervisor rt rt'"
| restarted: "wt_ffm_partition_restarted rt pid status = Some (rt', n) \<Longrightarrow> ffm_step ops Supervisor rt rt'"
| register_partition: "wt_ffm_register_partition rt pid f = (rt', ret) \<Longrightarrow> ffm_step ops Supervisor rt rt'"
| set_lifecycle: "ffm_step ops Supervisor rt (wt_ffm_set_lifecycle rt l)"

text \<open>The states a runtime starts in: initialised from an accepted manifest.\<close>

definition ffm_started :: "wt_ffm_runtime \<Rightarrow> bool" where
  "ffm_started rt \<longleftrightarrow> (\<exists>m features platform rt0.
     wt_manifest_validate (Some m) features platform = WT_MANIFEST_VALID \<and>
     wt_ffm_init rt0 (Some m) = (rt, WT_FFM_SUCCESS))"

lemma restarted_inv:
  assumes "ffm_inv rt" "wt_ffm_partition_restarted rt pid status = Some (rt', n)"
  shows "ffm_inv rt'"
proof (cases "wt_ffm_find_partition rt pid")
  case (Inl x)
  then show ?thesis using assms by (simp add: wt_ffm_partition_restarted_def)
next
  case (Inr p)
  then show ?thesis using assms partition_restarted_result [OF assms(1) Inr, of status] by auto
qed

lemma ffm_step_inv: "ffm_step ops a rt rt' \<Longrightarrow> ffm_inv rt \<Longrightarrow> ffm_inv rt'"
proof (induction rule: ffm_step.induct)
  case (connect_begin rt caller sid version rt' h r)
  then show ?case using connect_begin_cases by blast
next
  case (call_begin rt caller h type in_vec out_vec rt' status r)
  then show ?case using call_begin_inv by blast
next
  case (close_begin rt caller h rt' ret r)
  then show ?case using close_begin_inv by blast
next
  case (connect_finish rt m caller rt' h)
  then show ?case using connect_finish_inv [of rt m rt' h]
    by (simp add: harvestable_def wt_ffm_msg_complete_def split: if_splits)
next
  case (call_finish rt m caller out_vec rt' status vs)
  then show ?case using call_finish_inv [of rt m ops out_vec rt' status vs]
    by (simp add: harvestable_def wt_ffm_msg_complete_def split: if_splits)
next
  case (close_finish rt m caller rt' ret)
  then show ?case using close_finish_inv [of rt m rt' ret]
    by (simp add: harvestable_def wt_ffm_msg_complete_def split: if_splits)
next
  case (connect_tail rt m ret caller h rt' status)
  then show ?case using connect_tail_inv [OF connect_tail.prems connect_tail.hyps(1,3)] by simp
next
  case (call_tail rt m ret caller vs rt' status vs')
  then show ?case using call_tail_inv [OF call_tail.prems call_tail.hyps(1,3)] by simp
next
  case (close_tail rt m ret caller rt' ret')
  then show ?case using close_tail_inv [OF close_tail.prems close_tail.hyps(1,3)] by simp
next
  case (client_store caller rt mem)
  then show ?case using same_tables_inv [of rt "rt\<lparr>client_memory := mem\<rparr>"] by (simp add: same_tables_def)
next
  case (fail_partition rt pid status rt' n)
  then show ?case using fail_partition_result [OF fail_partition.prems, of pid status] by auto
next
  case (fail_client rt caller rt' n)
  then show ?case using fail_client_connections_result [OF fail_client.prems, of caller] by auto
next
  case (restarted rt pid status rt' n)
  then show ?case using restarted_inv by blast
next
  case (notify rt pid rt' ret)
  then show ?case using signal_ops_inv(1) [OF notify.prems, of pid] by simp
next
  case (clear rt pid rt' ret)
  then show ?case using signal_ops_inv(2) [OF clear.prems, of pid] by simp
next
  case (eoi rt pid signal rt' ret)
  then show ?case using signal_ops_inv(3) [OF eoi.prems, of pid signal] by simp
next
  case (assert_signal rt pid signal rt' ret)
  then show ?case using signal_ops_inv(4) [OF assert_signal.prems, of pid signal] by simp
next
  case (register_partition rt pid f rt' ret)
  then show ?case using register_inv(1) [OF register_partition.prems, of pid f] by simp
qed (blast intro: inv_call_refuse get_inv set_rhandle_inv read_inv skip_inv write_inv reply_inv register_inv(2))+

abbreviation ffm_moves :: "wt_ffm_port_ops \<Rightarrow> wt_ffm_runtime \<Rightarrow> wt_ffm_runtime \<Rightarrow> bool" where
  "ffm_moves ops rt rt' \<equiv> \<exists>a. ffm_step ops a rt rt'"

interpretation ffm_machine: invariant_system ffm_started "ffm_moves ops" ffm_inv for ops
proof
  show "ffm_inv s" if "ffm_started s" for s
    using that init_inv by (auto simp: ffm_started_def)
  show "ffm_inv t" if "ffm_inv s" "ffm_moves ops s t" for s t
    using that ffm_step_inv by blast
qed

end
