(* ===== verification/Ffm_Sync.thy ===== *)
theory Ffm_Sync
  imports Ffm_System
begin

text \<open>
  The synchronous operations hand the runtime to the dispatch function of a partition and
  take it back. The dispatch function is code outside \<open>ffm.c\<close>; what is assumed of it is
  that it acts on the runtime through the operations of \<open>ffm.c\<close>, serving requests or
  making requests of its own, and not on behalf of the caller it is serving. The message
  of the blocked caller then stays its own, and the operation completes.
\<close>

section \<open>The message of a blocked client\<close>

definition same_msg :: "nat \<Rightarrow> wt_ffm_runtime \<Rightarrow> wt_ffm_runtime \<Rightarrow> bool" where
  "same_msg m rt rt' \<longleftrightarrow>
     msg_allocated (msg_of rt' m) = msg_allocated (msg_of rt m) \<and>
     msg_abandoned (msg_of rt' m) = msg_abandoned (msg_of rt m) \<and>
     msg_caller (msg_of rt' m) = msg_caller (msg_of rt m) \<and>
     msg_connection_index (msg_of rt' m) = msg_connection_index (msg_of rt m) \<and>
     msg_service_index (msg_of rt' m) = msg_service_index (msg_of rt m) \<and>
     msg_type (msg_of rt' m) = msg_type (msg_of rt m)"

lemma same_msg_refl [simp]: "same_msg m rt rt"
  by (simp add: same_msg_def)

lemma same_msg_eq: "msg_of rt' m = msg_of rt m \<Longrightarrow> same_msg m rt rt'"
  by (simp add: same_msg_def)

lemma same_msg_trans: "same_msg m a b \<Longrightarrow> same_msg m b c \<Longrightarrow> same_msg m a c"
  by (simp add: same_msg_def)

lemma same_msg_upd [simp]:
  "same_msg m rt (upd_conn i f rt') = same_msg m rt rt'"
  "same_msg m rt (upd_svc i h rt') = same_msg m rt rt'"
  "same_msg m rt (upd_part i k rt') = same_msg m rt rt'"
  "same_msg m rt (wt_ffm_release_connection rt' i) = same_msg m rt rt'"
  "j \<noteq> m \<Longrightarrow> same_msg m rt (upd_msg j g rt') = same_msg m rt rt'"
  "j \<noteq> m \<Longrightarrow> same_msg m rt (wt_ffm_release_message rt' j) = same_msg m rt rt'"
  by (simp_all add: same_msg_def wt_ffm_release_connection_def wt_ffm_release_message_def)

lemma same_msg_fields [simp]:
  assumes "\<And>x. msg_allocated (g x) = msg_allocated x" "\<And>x. msg_abandoned (g x) = msg_abandoned x"
    "\<And>x. msg_caller (g x) = msg_caller x" "\<And>x. msg_connection_index (g x) = msg_connection_index x"
    "\<And>x. msg_service_index (g x) = msg_service_index x" "\<And>x. msg_type (g x) = msg_type x"
  shows "same_msg m rt (upd_msg j g rt') = same_msg m rt rt'"
  by (simp add: same_msg_def assms)

lemma same_msg_frame: "queue_frame rt' rt'' \<Longrightarrow> same_msg m rt rt'' = same_msg m rt rt'"
  by (simp add: same_msg_def queue_frame_def)

lemma same_msg_queue [simp]:
  "same_msg m rt (wt_ffm_enqueue rt' s j) = same_msg m rt rt'"
  "same_msg m rt (wt_ffm_update_service_signal rt' s) = same_msg m rt rt'"
  by (simp_all add: same_msg_frame [OF enqueue_frame] same_msg_frame [OF update_signal_frame])

lemma same_msg_tables: "same_tables rt' rt'' \<Longrightarrow> same_msg m rt rt'' = same_msg m rt rt'"
  by (simp add: same_msg_def same_tables_reads)

lemma dequeue_loop_frame: "ffm_dequeue_loop n rt s m cur prev = Some rt' \<Longrightarrow> queue_frame rt rt'"
  by (induction n arbitrary: cur prev) (auto simp: queue_frame_refl unlink_frame split: if_splits)

lemma dequeue_frame: "wt_ffm_dequeue_message rt s m = Some rt' \<Longrightarrow> queue_frame rt rt'"
  by (auto simp: wt_ffm_dequeue_message_def split: option.splits
      intro: queue_frame_trans [OF dequeue_loop_frame update_signal_frame])

section \<open>Other actors leave it alone\<close>

text \<open>Allocation picks another slot.\<close>

lemma alloc_other:
  "wt_ffm_alloc_message rt = Inr (rt', j) \<Longrightarrow> msg_allocated (msg_of rt m) \<Longrightarrow> j \<noteq> m \<and> same_msg m rt rt'"
  using alloc_message_Inr [of rt rt' j] by (auto simp: same_msg_def)

lemma connect_begin_keeps:
  assumes "wt_ffm_connect_begin rt caller sid version = (rt', h, r)" "msg_allocated (msg_of rt m)"
  shows "same_msg m rt rt'"
proof -
  have c: "msg_of rt1 m = msg_of rt m" if "wt_ffm_alloc_connection rt = Inr (rt1, c)" for rt1 c
    using that by (auto simp: wt_ffm_alloc_connection_def split: option.splits)
  have "j \<noteq> m \<and> same_msg m rt rt2"
    if "wt_ffm_alloc_connection rt = Inr (rt1, c)" "wt_ffm_alloc_message rt1 = Inr (rt2, j)" for rt1 c rt2 j
    using alloc_other [OF that(2), of m] c [OF that(1)] assms(2) by (simp add: same_msg_def)
  then show ?thesis
    using assms(1) c by (auto simp: wt_ffm_connect_begin_def Let_def ffm_post_def same_msg_eq
        split: if_splits sum.splits prod.splits)
qed

lemma prepare_other:
  assumes "wt_ffm_prepare_vectors ops rt j in_vec out_vec = (rt', ret)" "j \<noteq> m"
  shows "same_msg m rt rt'"
proof (cases "ret = WT_FFM_SUCCESS")
  case True
  then show ?thesis using prepare_accepted(1) [OF assms(1)] assms(2) by simp
next
  case False
  then obtain a b where "rt' = rt\<lparr>g_wt_ffm_refuse_info := a, g_wt_ffm_refuse_base := b\<rparr>"
    using prepare_refused [OF assms(1)] by blast
  then show ?thesis by (simp add: same_msg_def msg_of_def)
qed

lemma drop_connection_keeps [simp]: "same_msg m rt (ffm_drop_connection rt' c) = same_msg m rt rt'"
  by (simp add: ffm_drop_connection_def)

lemma call_enqueue_keeps:
  assumes e: "ffm_call_enqueue ops site rt caller h type in_vec out_vec = (rt', r)"
    and a: "msg_allocated (msg_of rt m)" and site: "\<And>n r. same_tables r (site n r)"
  shows "same_msg m rt rt'"
proof -
  have st: "same_msg m rt (site n rt)" for n using same_msg_tables [OF site] by simp
  have "j \<noteq> m \<and> same_msg m rt rt3"
    if "wt_ffm_alloc_message rt = Inr (rt1, j)"
      "wt_ffm_prepare_vectors ops (upd_msg j g rt1) j in_vec out_vec = (rt3, ret)" for rt1 j g rt3 ret
    using alloc_other [OF that(1) a] prepare_other [OF that(2)] same_msg_trans [of m rt "upd_msg j g rt1"] by simp
  then show ?thesis
    using e st by (auto simp: ffm_call_enqueue_def Let_def split: if_splits sum.splits prod.splits)
qed

lemma close_begin_keeps:
  assumes e: "wt_ffm_close_begin rt caller h = (rt', ret, r)"
    and a: "msg_allocated (msg_of rt m)" "msg_abandoned (msg_of rt m) = NOT_ABANDONED"
  shows "same_msg m rt rt'"
proof -
  have "j \<noteq> m" if "first_idx (\<lambda>m. msg_allocated m \<and> msg_abandoned m \<noteq> NOT_ABANDONED \<and>
      msg_connection_index m = c) (rt_messages rt) = Some j" for c j
    using first_idx_Some [OF that] a by (auto simp: msg_of_def)
  then have ab: "same_msg m rt rt1" if "wt_ffm_close_abandoned rt c = (rt1, b)" for rt1 c b
    using that by (auto simp: wt_ffm_close_abandoned_def split: option.splits)
  have "j \<noteq> m \<and> same_msg m rt rt2"
    if "wt_ffm_close_abandoned rt c = (rt1, b)" "wt_ffm_alloc_message rt1 = Inr (rt2, j)" for rt1 c b rt2 j
    using alloc_other [OF that(2), of m] ab [OF that(1)] a same_msg_trans [of m rt rt1 rt2] by (simp add: same_msg_def)
  then show ?thesis
    using e ab by (auto simp: wt_ffm_close_begin_def Let_def ffm_post_def
        split: if_splits sum.splits prod.splits bool.splits)
qed

lemma get_keeps:
  assumes "wt_ffm_get rt pid signal = (rt', st, r)"
  shows "same_msg m rt rt'"
  using assms by (auto simp: wt_ffm_get_def Let_def split: sum.splits option.splits if_splits)

lemma stream_keeps:
  "wt_ffm_set_rhandle rt pid h rh = (rt', ret) \<Longrightarrow> same_msg m rt rt'"
  "wt_ffm_read rt pid h i nul n = (rt', k, bs) \<Longrightarrow> same_msg m rt rt'"
  "wt_ffm_skip rt pid h i n = (rt', k) \<Longrightarrow> same_msg m rt rt'"
  "wt_ffm_write rt pid h i buffer = (rt', ret) \<Longrightarrow> same_msg m rt rt'"
  by (auto simp: wt_ffm_set_rhandle_def wt_ffm_read_def wt_ffm_skip_def wt_ffm_write_def Let_def
      split: sum.splits if_splits)

lemma signal_keeps:
  "wt_ffm_notify rt pid = (rt', ret) \<Longrightarrow> same_msg m rt rt'"
  "wt_ffm_clear rt pid = (rt', ret) \<Longrightarrow> same_msg m rt rt'"
  "wt_ffm_eoi rt pid signal = (rt', ret) \<Longrightarrow> same_msg m rt rt'"
  "wt_ffm_assert_signal rt pid signal = (rt', ret) \<Longrightarrow> same_msg m rt rt'"
  by (auto simp: wt_ffm_notify_def wt_ffm_clear_def wt_ffm_eoi_def wt_ffm_assert_signal_def
      split: sum.splits if_splits)

lemma finish_abandoned_keeps: "j \<noteq> m \<Longrightarrow> same_msg m rt (wt_ffm_finish_abandoned rt' j) = same_msg m rt rt'"
  by (simp add: wt_ffm_finish_abandoned_def Let_def)

lemma reply_keeps:
  assumes "wt_ffm_reply rt pid h status = (rt', ret)" "msg_abandoned (msg_of rt m) = NOT_ABANDONED"
  shows "same_msg m rt rt'"
proof -
  have "j \<noteq> m" if "msg_abandoned (msg_of rt j) \<noteq> NOT_ABANDONED" for j using that assms(2) by auto
  then show ?thesis
    using assms(1) by (auto simp: wt_ffm_reply_def Let_def finish_abandoned_keeps split: sum.splits if_splits)
qed

text \<open>Harvesting, abandoning and withdrawing concern the message of the acting client.\<close>

lemma harvest_keeps:
  assumes "j \<noteq> m"
  shows "wt_ffm_connect_finish rt j = (rt', h) \<Longrightarrow> same_msg m rt rt'"
    and "wt_ffm_call_finish ops rt j out_vec = (rt', status, vs) \<Longrightarrow> same_msg m rt rt'"
    and "wt_ffm_close_finish rt j = (rt', ret) \<Longrightarrow> same_msg m rt rt'"
  using assms
  by (auto simp: wt_ffm_connect_finish_def wt_ffm_call_finish_def ffm_harvest_call_def wt_ffm_close_finish_def
      Let_def same_msg_tables [of rt] same_tables_def split: if_splits)

lemma tail_keeps:
  assumes "j \<noteq> m"
  shows "ffm_connect_tail rt ret h s c j = Some (rt', status) \<Longrightarrow> same_msg m rt rt'"
    and "ffm_call_tail ops rt ret c j vs = Some (rt', status, vs') \<Longrightarrow> same_msg m rt rt'"
    and "ffm_close_tail rt ret c j = Some (rt', ret') \<Longrightarrow> same_msg m rt rt'"
proof -
  have d: "same_msg m rt rt1" if "wt_ffm_dequeue_message rt s j = Some rt1" for s rt1
    using same_msg_frame [OF dequeue_frame [OF that]] by simp
  have d': "same_msg m rt rt1" if "wt_ffm_dequeue_message (upd_conn i f rt) s j = Some rt1" for i f s rt1
    using same_msg_frame [OF dequeue_frame [OF that]] by simp
  show "same_msg m rt rt'" if "ffm_connect_tail rt ret h s c j = Some (rt', status)"
    using that assms d by (auto simp: ffm_connect_tail_def Let_def split: if_splits option.splits)
  show "same_msg m rt rt'" if "ffm_call_tail ops rt ret c j vs = Some (rt', status, vs')"
    using that assms d' by (auto simp: ffm_call_tail_def ffm_harvest_call_def Let_def
        same_msg_tables [of rt] same_tables_def split: if_splits option.splits)
  show "same_msg m rt rt'" if "ffm_close_tail rt ret c j = Some (rt', ret')"
    using that assms d by (auto simp: ffm_close_tail_def Let_def split: if_splits option.splits)
qed

lemma step_keeps:
  assumes "ffm_step ops a rt rt'" "a \<noteq> Client (msg_caller (msg_of rt m))" "a \<noteq> Supervisor"
    and "msg_allocated (msg_of rt m)" "msg_abandoned (msg_of rt m) = NOT_ABANDONED"
  shows "same_msg m rt rt'"
  using assms
proof (cases rule: ffm_step.cases)
  case (call_begin caller h type in_vec out_vec status r)
  then show ?thesis
    using assms(4) call_enqueue_keeps [of ops "\<lambda>_. id" rt caller h type in_vec out_vec _ _ m]
    by (auto simp: wt_ffm_call_begin_def same_tables_def split: if_splits prod.splits sum.splits)
next
  case (call_refuse caller h)
  then show ?thesis by (auto simp: wt_ffm_call_refuse_def split: sum.splits)
next
  case (connect_finish j caller h)
  then show ?thesis using assms(2) harvest_keeps(1) [of j m] by (auto simp: harvestable_def)
next
  case (call_finish j caller out_vec status vs)
  then show ?thesis using assms(2) harvest_keeps(2) [of j m ops rt out_vec rt' status vs] by (auto simp: harvestable_def)
next
  case (close_finish j caller ret)
  then show ?thesis using assms(2) harvest_keeps(3) [of j m] by (auto simp: harvestable_def)
next
  case (connect_tail j ret caller h status)
  then have "j \<noteq> m" using assms(2) by auto
  then show ?thesis by (rule tail_keeps(1)) (rule connect_tail)
next
  case (call_tail j ret caller vs status vs')
  then have "j \<noteq> m" using assms(2) by auto
  then show ?thesis by (rule tail_keeps(2)) (rule call_tail)
next
  case (close_tail j ret caller ret')
  then have "j \<noteq> m" using assms(2) by auto
  then show ?thesis by (rule tail_keeps(3)) (rule close_tail)
next
  case (client_store caller mem)
  then show ?thesis using same_msg_tables [of rt "rt\<lparr>client_memory := mem\<rparr>" m rt] by (simp add: same_tables_def)
qed (blast intro: connect_begin_keeps close_begin_keeps get_keeps stream_keeps signal_keeps reply_keeps)+

section \<open>Dispatch\<close>

text \<open>What a dispatch function may do while \<open>caller\<close> is blocked.\<close>

definition ffm_serves :: "wt_ffm_port_ops \<Rightarrow> int \<Rightarrow> wt_ffm_runtime \<Rightarrow> wt_ffm_runtime \<Rightarrow> bool" where
  "ffm_serves ops caller rt rt' \<longleftrightarrow> (\<exists>a. a \<noteq> Client caller \<and> a \<noteq> Supervisor \<and> ffm_step ops a rt rt')"

definition dispatch_serves :: "wt_ffm_port_ops \<Rightarrow> int \<Rightarrow> bool" where
  "dispatch_serves ops caller \<longleftrightarrow> (\<forall>rt pid.
     (ffm_serves ops caller)\<^sup>*\<^sup>* rt (fst (po_dispatch ops rt pid)) \<and>
     (\<forall>f. (ffm_serves ops caller)\<^sup>*\<^sup>* rt (fst (po_registered ops f rt pid))))"

lemma serves_keeps:
  assumes "(ffm_serves ops caller)\<^sup>*\<^sup>* rt rt'" "ffm_inv rt"
    and "msg_allocated (msg_of rt m)" "msg_abandoned (msg_of rt m) = NOT_ABANDONED" "msg_caller (msg_of rt m) = caller"
  shows "ffm_inv rt' \<and> same_msg m rt rt'"
  using assms(1)
proof (induction rule: rtranclp_induct)
  case base
  then show ?case using assms(2) by simp
next
  case (step a b)
  then obtain x where x: "x \<noteq> Client caller" "x \<noteq> Supervisor" "ffm_step ops x a b"
    by (auto simp: ffm_serves_def)
  have "same_msg m a b"
    using step_keeps [OF x(3)] x(1,2) step.IH assms(3-5) by (simp add: same_msg_def)
  then show ?case using ffm_step_inv [OF x(3)] step.IH same_msg_trans by blast
qed

lemma dispatch_message_keeps:
  assumes d: "dispatch_serves ops caller" and inv: "ffm_inv rt" and m: "m < WT_FFM_MAX_MESSAGES"
    and a: "msg_allocated (msg_of rt m)" "msg_abandoned (msg_of rt m) = NOT_ABANDONED" "msg_caller (msg_of rt m) = caller"
    and e: "wt_ffm_dispatch_message ops rt m = (rt', ret)"
  shows "ffm_inv rt'" "same_msg m rt rt'" "own_message rt' m ret"
proof -
  have s: "(ffm_serves ops caller)\<^sup>*\<^sup>* rt rt'"
    using d e unfolding dispatch_serves_def wt_ffm_dispatch_message_def Let_def
    by (auto split: option.splits prod.splits if_splits) (metis fst_conv)+
  show "ffm_inv rt'" and k: "same_msg m rt rt'" using serves_keeps [OF s inv a] by blast+
  have "ret = WT_FFM_SUCCESS \<longrightarrow> msg_complete (msg_of rt' m)"
    using e by (auto simp: wt_ffm_dispatch_message_def Let_def split: option.splits prod.splits if_splits)
  then show "own_message rt' m ret" using k a m by (simp add: own_message_def same_msg_def)
qed

lemma connect_returns:
  assumes d: "dispatch_serves ops caller" and inv: "ffm_inv rt"
  shows "\<exists>rt' h. wt_ffm_connect ops rt caller sid version = Some (rt', h) \<and> ffm_inv rt'"
proof -
  obtain rt1 h r where b: "wt_ffm_connect_begin rt caller sid version = (rt1, h, r)"
    by (cases "wt_ffm_connect_begin rt caller sid version")
  note c = connect_begin_cases [OF inv b]
  show ?thesis
  proof (cases r)
    case None
    then show ?thesis using b c by (simp add: wt_ffm_connect_def)
  next
    case (Some m)
    obtain rt2 ret where dm: "wt_ffm_dispatch_message ops rt1 m = (rt2, ret)"
      by (cases "wt_ffm_dispatch_message ops rt1 m")
    have "ffm_inv rt2" "same_msg m rt1 rt2" "own_message rt2 m ret"
      using dispatch_message_keeps [OF d _ _ _ _ _ dm] c Some by (simp_all add: connecting_def)
    then show ?thesis
      using connect_tail_inv [of rt2 m ret h] b Some dm by (auto simp: wt_ffm_connect_def same_msg_def)
  qed
qed

lemma call_returns:
  assumes d: "dispatch_serves ops caller" and inv: "ffm_inv rt" and q: "client_quiet rt caller"
  shows "\<exists>rt' status vs. wt_ffm_call ops rt caller h type in_vec out_vec = Some (rt', status, vs) \<and> ffm_inv rt'"
proof -
  let ?rt0 = "ffm_trace_shape type in_vec out_vec rt"
  have t0: "same_tables rt ?rt0" by (simp add: same_tables_def ffm_trace_shape_def)
  have site: "same_tables r (ffm_trace_site h n r)" for n r by (simp add: same_tables_def ffm_trace_site_def)
  have i0: "ffm_inv ?rt0" "client_quiet ?rt0 caller"
    using same_tables_inv [OF t0] inv q same_tables_reads [OF t0] by (simp_all add: client_quiet_def)
  obtain rt1 r where b: "ffm_call_enqueue ops (ffm_trace_site h) ?rt0 caller h type in_vec out_vec = (rt1, r)"
    by (cases "ffm_call_enqueue ops (ffm_trace_site h) ?rt0 caller h type in_vec out_vec")
  show ?thesis
  proof (cases r)
    case (Inl status)
    then show ?thesis
      using b inv call_enqueue_refused [OF i0(1) site b [unfolded Inl]]
      by (auto simp: wt_ffm_call_def)
  next
    case (Inr m)
    have c: "ffm_inv rt1" "requesting rt1 m caller type"
      using call_enqueue_accepted [OF i0 b [unfolded Inr]] .
    obtain rt2 ret where dm: "wt_ffm_dispatch_message ops rt1 m = (rt2, ret)"
      by (cases "wt_ffm_dispatch_message ops rt1 m")
    have "ffm_inv rt2" "same_msg m rt1 rt2" "own_message rt2 m ret"
      using dispatch_message_keeps [OF d c(1) _ _ _ _ dm] c(2) by (simp_all add: requesting_def)
    then show ?thesis
      using call_tail_inv [of rt2 m ret ops "carray_list out_vec"] b Inr dm inv
      by (auto simp: wt_ffm_call_def same_msg_def)
  qed
qed

lemma close_returns:
  assumes d: "dispatch_serves ops caller" and inv: "ffm_inv rt" and q: "client_quiet rt caller"
  shows "\<exists>rt' ret. wt_ffm_close ops rt caller h = Some (rt', ret) \<and> ffm_inv rt'"
proof -
  obtain rt1 ret1 r where b: "wt_ffm_close_begin rt caller h = (rt1, ret1, r)"
    by (cases "wt_ffm_close_begin rt caller h")
  note c = close_begin_inv [OF inv q b]
  show ?thesis
  proof (cases "r = None \<or> r = Some WT_FFM_QUEUE_NONE")
    case True
    then show ?thesis using b c by (auto simp: wt_ffm_close_def)
  next
    case False
    then obtain m where r: "r = Some m" "m \<noteq> WT_FFM_QUEUE_NONE" by auto
    obtain rt2 ret where dm: "wt_ffm_dispatch_message ops rt1 m = (rt2, ret)"
      by (cases "wt_ffm_dispatch_message ops rt1 m")
    have "ffm_inv rt2" "same_msg m rt1 rt2" "own_message rt2 m ret"
      using dispatch_message_keeps [OF d _ _ _ _ _ dm] c r by (simp_all add: closing_def)
    then show ?thesis
      using close_tail_inv [of rt2 m ret] b r dm by (auto simp: wt_ffm_close_def same_msg_def)
  qed
qed

end
