(* ===== verification/Ffm_Safety.thy ===== *)
theory Ffm_Safety
  imports Ffm_Sync
begin

text \<open>
  What the runtime guarantees to its clients, its partitions and the supervisor, as
  properties of its operations and of every state it reaches.
\<close>

section \<open>Handles\<close>

lemma less_exp_bit:
  fixes w :: u32
  assumes "unat w < 2 ^ n" "bit w k"
  shows "k < n"
proof -
  have "bit (unat w) k" using assms(2) by (simp add: bit_unsigned_iff)
  then show ?thesis using take_bit_nat_eq_self [OF assms(1)] by (metis bit_take_bit_iff)
qed

lemma take_bit_31: "take_bit 31 v = v \<Longrightarrow> unat v < 2 ^ 31" for v :: u32
  by (metis take_bit_nat_less_exp unsigned_take_bit_eq)

lemma sint_small:
  fixes v :: u32
  assumes "unat v < 2 ^ 31"
  shows "sint v = int (unat v)"
proof -
  have "int (unat v) < int (2 ^ 31)" using assms by (simp only: of_nat_less_iff)
  then have "uint v < 2 ^ 31" by simp
  then have "signed_take_bit 31 (uint v) = uint v"
    by (intro signed_take_bit_int_eq_self) (auto intro: order_trans [OF _ uint_ge_0])
  then show ?thesis by (simp add: sint_uint)
qed

lemma handle_masks:
  "WT_FFM_HANDLE_GEN_MASK = mask 24" "WT_FFM_HANDLE_TYPE_MASK = mask 2" "WT_FFM_HANDLE_INDEX_MASK = mask 5"
  "(0x7FFFFFFF :: u32) = mask 31"
  by (simp_all add: mask_eq_exp_minus_1)

lemma handle_parts:
  assumes g: "g \<le> WT_FFM_HANDLE_GEN_MASK" and t: "t \<le> WT_FFM_HANDLE_TYPE_MASK" and k: "k \<le> WT_FFM_HANDLE_INDEX_MASK"
  defines "v \<equiv> push_bit 7 (g AND WT_FFM_HANDLE_GEN_MASK) OR push_bit 5 (t AND WT_FFM_HANDLE_TYPE_MASK) OR k"
  shows "v AND WT_FFM_HANDLE_INDEX_MASK = k"
    and "drop_bit 5 v AND WT_FFM_HANDLE_TYPE_MASK = t" and "drop_bit 7 v = g" and "v \<le> 0x7FFFFFFF"
proof -
  have "unat g < 2 ^ 24" "unat t < 2 ^ 2" "unat k < 2 ^ 5" using g t k by (simp_all add: word_le_nat_alt)
  note b = this [THEN less_exp_bit]
  show "v AND WT_FFM_HANDLE_INDEX_MASK = k"
    unfolding v_def handle_masks by (rule bit_word_eqI) (auto simp: bit_simps dest: b)
  show "drop_bit 5 v AND WT_FFM_HANDLE_TYPE_MASK = t"
    unfolding v_def handle_masks by (rule bit_word_eqI) (auto simp: bit_simps dest: b)
  show "drop_bit 7 v = g"
    unfolding v_def handle_masks by (rule bit_word_eqI) (auto simp: bit_simps dest: b)
  have "take_bit 31 v = v"
    unfolding v_def handle_masks by (rule bit_word_eqI) (auto simp: bit_simps dest: b)
  then show "v \<le> 0x7FFFFFFF" using take_bit_31 [of v] by (simp add: word_le_nat_alt)
qed

lemma decode_make:
  assumes t: "t \<le> WT_FFM_HANDLE_TYPE_MASK" and i: "i < limit" "limit \<le> 31" and g: "gen_ok g"
  shows "wt_ffm_decode_handle (wt_ffm_make_handle t i g) t limit = Inr (i, g)"
proof -
  define k where "k = (of_nat i + 1 :: u32)"
  define v where "v = push_bit 7 (g AND WT_FFM_HANDLE_GEN_MASK) OR push_bit 5 (t AND WT_FFM_HANDLE_TYPE_MASK) OR k"
  have k: "k = of_nat (Suc i)" by (simp add: k_def)
  have ku: "unat k = Suc i" unfolding k by (subst unat_of_nat) (use i in simp)
  then have km: "k \<le> WT_FFM_HANDLE_INDEX_MASK" using i by (simp add: word_le_nat_alt)
  have gm: "g \<le> WT_FFM_HANDLE_GEN_MASK" "g \<noteq> 0" using g by (simp_all add: gen_ok_def)
  note p = handle_parts [OF gm(1) t km, folded v_def]
  have k0: "k \<noteq> 0" using ku by auto
  have v: "unat v < 2 ^ 31" using p(4) by (simp add: word_le_nat_alt)
  have h: "wt_ffm_make_handle t i g = int (unat v)"
    using sint_small [OF v] by (simp add: wt_ffm_make_handle_def v_def k_def)
  have "v \<noteq> 0" using p(1) k0 by auto
  then have "unat v > 0" by (simp only: unat_gt_0 not_False_eq_True)
  then have "int (unat v) > 0" by (simp only: of_nat_0_less_iff)
  moreover have "word_of_int (int (unat v)) = v" by simp
  moreover have "unat (k - 1) = i" using k0 ku by (simp add: unat_minus_one)
  ultimately show ?thesis
    using p ku k0 i gm(2) unfolding h by (simp add: wt_ffm_decode_handle_def Let_def)
qed

lemma make_decode:
  assumes d: "wt_ffm_decode_handle h t limit = Inr (i, g)" and h: "h < 2 ^ 31"
  shows "gen_ok g" "wt_ffm_make_handle t i g = h" "drop_bit 5 (word_of_int h) AND WT_FFM_HANDLE_TYPE_MASK = t"
proof -
  define v where "v = (word_of_int h :: u32)"
  define e where "e = v AND WT_FFM_HANDLE_INDEX_MASK"
  have p: "h > 0" "drop_bit 5 v AND WT_FFM_HANDLE_TYPE_MASK = t" "e \<noteq> 0" "drop_bit 7 v = g" "g \<noteq> 0" "i = unat (e - 1)"
    using d by (auto simp: wt_ffm_decode_handle_def Let_def v_def e_def split: if_splits)
  have uv: "uint v = h" using p(1) h by (simp add: v_def uint_word_of_int)
  then have "int (unat v) < int (2 ^ 31)" using h by simp
  then have v31: "unat v < 2 ^ 31" by (simp only: of_nat_less_iff)
  note b = less_exp_bit [OF v31]
  have "g AND WT_FFM_HANDLE_GEN_MASK = g"
    unfolding p(4) [symmetric] handle_masks by (rule bit_word_eqI) (auto simp: bit_simps dest: b)
  then have "g \<le> WT_FFM_HANDLE_GEN_MASK" by (metis word_and_le1)
  then show "gen_ok g" using p(5) by (simp add: gen_ok_def)
  have e1: "of_nat i + 1 = e" using p(6) by simp
  have "push_bit 7 (g AND WT_FFM_HANDLE_GEN_MASK) OR push_bit 5 (t AND WT_FFM_HANDLE_TYPE_MASK) OR e = v"
    unfolding p(2,4) [symmetric] e_def handle_masks
  proof (rule bit_word_eqI)
    fix n assume "n < LENGTH(32)"
    then show "bit (push_bit 7 (drop_bit 7 v AND mask 24) OR
        push_bit 5 ((drop_bit 5 v AND mask 2) AND mask 2) OR v AND mask 5) n = bit v n"
      by (cases "n < 5"; cases "n < 7") (auto simp: bit_simps dest: b)
  qed
  then have "wt_ffm_make_handle t i g = sint v" by (simp add: wt_ffm_make_handle_def e1)
  then show "wt_ffm_make_handle t i g = h" using sint_small [OF v31] uv by simp
  show "drop_bit 5 (word_of_int h) AND WT_FFM_HANDLE_TYPE_MASK = t" using p(2) by (simp add: v_def)
qed

text \<open>
  C15: Handles round trip. A handle made for a slot below the limit decodes to that slot and
  generation, and to nothing under the other handle type; and every handle that decodes was
  made for exactly that type, slot and generation, so no two slots or generations share one.
\<close>

theorem wt_ffm_handle_roundtrip:
  assumes t: "t \<le> WT_FFM_HANDLE_TYPE_MASK" "limit \<le> 31"
  shows "(\<forall>i g. i < limit \<longrightarrow> gen_ok g \<longrightarrow>
       wt_ffm_decode_handle (wt_ffm_make_handle t i g) t limit = Inr (i, g) \<and>
       (\<forall>t' \<le> WT_FFM_HANDLE_TYPE_MASK. t' \<noteq> t \<longrightarrow>
          wt_ffm_decode_handle (wt_ffm_make_handle t i g) t' limit = Inl WT_FFM_ERROR_HANDLE)) \<and>
    (\<forall>h i g. h < 2 ^ 31 \<longrightarrow> wt_ffm_decode_handle h t limit = Inr (i, g) \<longrightarrow>
       i < limit \<and> gen_ok g \<and> wt_ffm_make_handle t i g = h)"
proof (intro conjI allI impI)
  fix i g assume i: "i < limit" and g: "gen_ok g"
  show d: "wt_ffm_decode_handle (wt_ffm_make_handle t i g) t limit = Inr (i, g)"
    by (rule decode_make [OF t(1) i t(2) g])
  have h: "wt_ffm_make_handle t i g < 2 ^ 31"
    using sint_lt [where 'a = 32] by (simp add: wt_ffm_make_handle_def)
  fix t' assume "t' \<le> WT_FFM_HANDLE_TYPE_MASK" "t' \<noteq> t"
  then show "wt_ffm_decode_handle (wt_ffm_make_handle t i g) t' limit = Inl WT_FFM_ERROR_HANDLE"
    using make_decode(3) [OF d h] by (auto simp: wt_ffm_decode_handle_def Let_def)
qed (use decode_handle_index(1) make_decode in blast)+

text \<open>The next generation of a slot is always a different one.\<close>

lemma next_generation_differs:
  assumes "gen_ok g"
  shows "wt_ffm_next_generation g \<noteq> g"
proof
  assume e: "wt_ffm_next_generation g = g"
  have g: "unat g \<le> 0xFFFFFF" "g \<noteq> 0" using assms by (simp_all add: gen_ok_def word_le_nat_alt)
  have u1: "unat (g + 1) = Suc (unat g)" using g(1) by (simp add: unat_word_ariths)
  have "(g + 1) AND WT_FFM_HANDLE_GEN_MASK = take_bit 24 (g + 1)"
    by (simp only: handle_masks(1) take_bit_eq_mask)
  then have "unat ((g + 1) AND WT_FFM_HANDLE_GEN_MASK) = take_bit 24 (unat (g + 1))"
    by (simp only: unsigned_take_bit_eq)
  then have um: "unat ((g + 1) AND WT_FFM_HANDLE_GEN_MASK) = Suc (unat g) mod 2 ^ 24"
    using u1 by (simp only: take_bit_eq_mod)
  show False
  proof (cases "(g + 1) AND WT_FFM_HANDLE_GEN_MASK = 0")
    case True
    then have "g = 1" using e by (simp add: wt_ffm_next_generation_def Let_def)
    then show False using True by simp
  next
    case False
    then have "(g + 1) AND WT_FFM_HANDLE_GEN_MASK = g" using e by (simp add: wt_ffm_next_generation_def Let_def)
    then have "Suc (unat g) mod 2 ^ 24 = unat g" using um by simp
    then show False using g by (cases "Suc (unat g) < 2 ^ 24") (auto simp: le_Suc_eq)
  qed
qed


section \<open>Reachable states\<close>



end
