(* ===== verification/Ffm_Delivery.thy ===== *)
theory Ffm_Delivery
  imports Ffm_Safety
begin

text \<open>
  Service queues as lists: the intrusive queue of a service implements an abstract first-in
  first-out queue, and every waiting message is delivered in its turn.
\<close>

section \<open>The abstract queue\<close>

fun ffm_chain :: "nat \<Rightarrow> wt_ffm_runtime \<Rightarrow> nat \<Rightarrow> nat list" where
  "ffm_chain 0 rt cur = []"
| "ffm_chain (Suc n) rt cur =
     (if cur = WT_FFM_QUEUE_NONE then [] else cur # ffm_chain n rt (msg_next (msg_of rt cur)))"

definition ffm_queue :: "wt_ffm_runtime \<Rightarrow> nat \<Rightarrow> nat list" where
  "ffm_queue rt s = ffm_chain WT_FFM_MAX_MESSAGES rt (sr_queue_head (svc_of rt s))"

lemma chain_follows: "follows WT_FFM_QUEUE_NONE (nx_of rt) cur q \<Longrightarrow> length q \<le> n \<Longrightarrow> ffm_chain n rt cur = q"
proof (induction n arbitrary: cur q)
  case (Suc n)
  then show ?case by (cases q) (auto simp: nx_of_def)
qed simp

lemma ffm_queue_eq:
  assumes "queue_is rt s q" "length q \<le> WT_FFM_MAX_MESSAGES"
  shows "ffm_queue rt s = q"
  using chain_follows [of rt "hd_of rt s" q WT_FFM_MAX_MESSAGES] assms
  by (simp add: ffm_queue_def queue_is_def threaded_def hd_of_def del: ffm_chain.simps)

lemma inv_queue:
  assumes inv: "ffm_inv rt" and s: "s < length (rt_services rt)"
  shows "queue_is rt s (ffm_queue rt s)" "set (ffm_queue rt s) = waiting rt s"
    and "length (ffm_queue rt s) \<le> WT_FFM_MAX_MESSAGES" "in_pool rt (ffm_queue rt s)"
proof -
  obtain q where q: "queue_is rt s q" "set q = waiting rt s - {}"
    using ffm_invD(2) [OF inv s] unfolding service_but_def by blast
  note b = waiting_queue_bounds [OF ffm_coreD(5) [OF ffm_invD(1) [OF inv]] q]
  have "ffm_queue rt s = q" by (rule ffm_queue_eq [OF q(1) b(2)])
  then show "queue_is rt s (ffm_queue rt s)" "set (ffm_queue rt s) = waiting rt s"
    "length (ffm_queue rt s) \<le> WT_FFM_MAX_MESSAGES" "in_pool rt (ffm_queue rt s)" using q b by simp_all
qed

text \<open>
  C16: The intrusive queue of a service refines a list. In a state of the invariant the
  unlink loop ends and removes the message from the list of its service, enqueueing a message
  that is in no list appends it, and neither touches the list of another service.
\<close>

theorem wt_ffm_queue_refines_list:
  assumes inv: "ffm_inv rt" and s: "s < length (rt_services rt)" and m: "m < WT_FFM_MAX_MESSAGES"
  shows "(\<exists>rt'. wt_ffm_dequeue_message rt s m = Some rt' \<and> ffm_queue rt' s = remove1 m (ffm_queue rt s) \<and>
       (\<forall>t < length (rt_services rt). t \<noteq> s \<longrightarrow> ffm_queue rt' t = ffm_queue rt t)) \<and>
    (msg_next (msg_of rt m) = WT_FFM_QUEUE_NONE \<longrightarrow> (\<forall>t < length (rt_services rt). m \<notin> set (ffm_queue rt t)) \<longrightarrow>
       ffm_queue (wt_ffm_enqueue rt s m) s = ffm_queue rt s @ [m] \<and>
       (\<forall>t < length (rt_services rt). t \<noteq> s \<longrightarrow> ffm_queue (wt_ffm_enqueue rt s m) t = ffm_queue rt t))"
proof (intro conjI impI)
  note q = inv_queue [OF inv s]
  note d = ffm_coreD [OF ffm_invD(1) [OF inv]]
  have dis: "set (ffm_queue rt s) \<inter> set (ffm_queue rt t) = {}" if "t < length (rt_services rt)" "t \<noteq> s" for t
    using q(2) inv_queue(2) [OF inv that(1)] waiting_disjoint [of s t] that(2) by auto
  obtain rt' where r: "wt_ffm_dequeue_message rt s m = Some rt'" "queue_is rt' s (remove1 m (ffm_queue rt s))"
    "\<forall>t q'. t \<noteq> s \<longrightarrow> queue_is rt t q' \<longrightarrow> set (ffm_queue rt s) \<inter> set q' = {} \<longrightarrow> queue_is rt' t q'"
    using dequeue_message_queue [OF q(1,4,3) s ffm_staticD(1) [OF d(1) s], of m] by blast
  have "ffm_queue rt' s = remove1 m (ffm_queue rt s)"
    by (rule ffm_queue_eq [OF r(2)]) (use q(3) in \<open>auto simp: length_remove1\<close>)
  moreover have "ffm_queue rt' t = ffm_queue rt t" if "t < length (rt_services rt)" "t \<noteq> s" for t
    using r(3) inv_queue [OF inv that(1)] dis [OF that] that(2) by (intro ffm_queue_eq) auto
  ultimately show "\<exists>rt'. wt_ffm_dequeue_message rt s m = Some rt' \<and>
      ffm_queue rt' s = remove1 m (ffm_queue rt s) \<and>
      (\<forall>t < length (rt_services rt). t \<noteq> s \<longrightarrow> ffm_queue rt' t = ffm_queue rt t)"
    using r(1) by blast
  assume n: "msg_next (msg_of rt m) = WT_FFM_QUEUE_NONE"
    and f: "\<forall>t < length (rt_services rt). m \<notin> set (ffm_queue rt t)"
  have e: "queue_is (wt_ffm_enqueue rt s m) s (ffm_queue rt s @ [m])"
    using f s n m by (intro enqueue_queue [OF q(1,4) s]) (simp_all add: nx_of_def)
  have "distinct (ffm_queue rt s @ [m])" using e by (simp add: queue_is_def threaded_def)
  then have "card (set (ffm_queue rt s @ [m])) = length (ffm_queue rt s @ [m])" by (rule distinct_card)
  moreover have "set (ffm_queue rt s @ [m]) \<subseteq> {..<WT_FFM_MAX_MESSAGES}" using q(2) m by (auto simp: waiting_def)
  ultimately have l: "length (ffm_queue rt s @ [m]) \<le> WT_FFM_MAX_MESSAGES"
    using card_mono [of "{..<WT_FFM_MAX_MESSAGES}" "set (ffm_queue rt s @ [m])"] by simp
  show "ffm_queue (wt_ffm_enqueue rt s m) s = ffm_queue rt s @ [m]" by (rule ffm_queue_eq [OF e l])
  show "\<forall>t < length (rt_services rt). t \<noteq> s \<longrightarrow> ffm_queue (wt_ffm_enqueue rt s m) t = ffm_queue rt t"
    using inv_queue [OF inv] dis by (blast intro: ffm_queue_eq enqueue_queue_other [OF q(1,4) s])
qed

section \<open>Delivery\<close>

lemma service_unique:
  assumes inv: "ffm_inv rt" and "s < length (rt_services rt)" "t < length (rt_services rt)"
    and "pidx_of rt s = pidx_of rt t" "sig_of rt s = sig_of rt t"
  shows "s = t"
proof (rule ccontr)
  note st = ffm_coreD(1) [OF ffm_invD(1) [OF inv]]
  assume "s \<noteq> t"
  then have "sig_of rt s AND sig_of rt t = 0" using ffm_staticD(4) [OF st assms(2,3)] assms(4) by simp
  then show False using assms(5) single_bit_nonzero [OF ffm_staticD(2) [OF st assms(2)]] by simp
qed

lemma get_found:
  assumes inv: "ffm_inv rt" and s: "s < length (rt_services rt)" and p: "wt_ffm_find_partition rt pid = Inr (pidx_of rt s)"
  shows "first_idx (\<lambda>x. sr_partition_index x = pidx_of rt s \<and> sd_signal (sr_descriptor x) = sig_of rt s)
    (rt_services rt) = Some s"
  by (rule first_idx_unique)
    (use s service_unique [OF inv] in \<open>auto simp: pidx_of_def sig_of_def svc_of_def\<close>)

lemma get_step:
  assumes inv: "ffm_inv rt" and s: "s < length (rt_services rt)" and p: "wt_ffm_find_partition rt pid = Inr (pidx_of rt s)"
    and q: "ffm_queue rt s = m # q"
  shows "\<exists>rt' msg. wt_ffm_get rt pid (sig_of rt s) = (rt', PSA_SUCCESS, Some msg) \<and> ffm_inv rt' \<and>
    same_static rt rt' \<and> sig_of rt' s = sig_of rt s \<and> ffm_queue rt' s = q \<and>
    pm_handle msg = wt_ffm_make_handle WT_FFM_HANDLE_MESSAGE m (msg_generation (msg_of rt m)) \<and>
    (\<forall>j. msg_generation (msg_of rt' j) = msg_generation (msg_of rt j))"
proof -
  obtain rt' st r where g: "wt_ffm_get rt pid (sig_of rt s) = (rt', st, r)"
    by (cases "wt_ffm_get rt pid (sig_of rt s)")
  note iq = inv_queue [OF inv s]
  have sg: "sig_of rt s \<noteq> 0"
    using single_bit_nonzero ffm_staticD(2) [OF ffm_coreD(1) [OF ffm_invD(1) [OF inv]] s] by blast
  have hd: "sr_queue_head (svc_of rt s) = m" "m \<noteq> WT_FFM_QUEUE_NONE"
    using iq(1) q by (simp_all add: queue_is_def threaded_def hd_of_def)
  then have st: "st = PSA_SUCCESS"
    using g sg p get_found [OF inv s p] by (auto simp: wt_ffm_get_def Let_def split: if_splits)
  from inv g show ?thesis
  proof (cases rule: get_cases)
    case 1
    then show ?thesis using st by simp
  next
    case (2 p' s' m' q' rt1)
    have ss: "s' = s" by (rule service_unique [OF inv 2(2) s]) (use 2(1,3,4) p in simp_all)
    have "m' # q' = m # q" using queue_is_unique [of rt s "m' # q'" "m # q"] 2(5) iq(1) q ss by simp
    then have mq: "m' = m" "q' = q" by simp_all
    have fr: "queue_frame rt rt1" by (rule dequeue_frame [OF 2(9)])
    note v = queue_frame_views [OF fr]
    have st': "same_static rt rt'" "sig_of rt' s = sig_of rt s"
      using v unfolding 2(10) by (simp_all add: same_static_def pidx_of_def sig_of_def)
    have gen: "msg_generation (msg_of rt' j) = msg_generation (msg_of rt j)" for j
      using fr unfolding 2(10) queue_frame_def by simp
    obtain rt'' where "wt_ffm_dequeue_message rt s m = Some rt''" "queue_is rt'' s (remove1 m (m # q))"
      using dequeue_message_queue [OF iq(1,4,3) s, of m] q
        ffm_staticD(1) [OF ffm_coreD(1) [OF ffm_invD(1) [OF inv]] s] by auto
    then have q1: "queue_is rt1 s q" using 2(9) ss mq by simp
    have "hd_of rt' s = hd_of rt1 s" "tl_of rt' s = tl_of rt1 s" "nx_of rt' j = nx_of rt1 j" for j
      unfolding 2(10) by (simp_all add: ffm_views)
    then have "queue_is rt' s q"
      using q1 threaded_cong [of q "nx_of rt'" "nx_of rt1"] by (simp add: queue_is_def)
    then have "ffm_queue rt' s = q" by (rule ffm_queue_eq) (use iq(3) q in simp)
    then show ?thesis using g st 2(11) mq get_inv [OF inv g] st' gen by auto
  qed
qed

text \<open>A partition that calls \<open>wt_ffm_get\<close> for one signal as often as \<open>n\<close> says.\<close>

fun get_times :: "nat \<Rightarrow> wt_ffm_runtime \<Rightarrow> int \<Rightarrow> u32 \<Rightarrow> wt_ffm_runtime \<times> psa_msg_t list" where
  "get_times 0 rt pid signal = (rt, [])"
| "get_times (Suc n) rt pid signal =
     (case wt_ffm_get rt pid signal of
        (rt1, st, None) \<Rightarrow> get_times n rt1 pid signal
      | (rt1, st, Some msg) \<Rightarrow>
         (case get_times n rt1 pid signal of (rt2, msgs) \<Rightarrow> (rt2, msg # msgs)))"

lemma get_times_delivers:
  assumes "ffm_inv rt" "s < length (rt_services rt)" "wt_ffm_find_partition rt pid = Inr (pidx_of rt s)"
    and "ffm_queue rt s = q"
  shows "\<exists>rt' msgs. get_times (length q) rt pid (sig_of rt s) = (rt', msgs) \<and> ffm_inv rt' \<and>
    ffm_queue rt' s = [] \<and> sig_of rt' s = sig_of rt s \<and> pidx_of rt' s = pidx_of rt s \<and>
    s < length (rt_services rt') \<and>
    map pm_handle msgs = map (\<lambda>m. wt_ffm_make_handle WT_FFM_HANDLE_MESSAGE m (msg_generation (msg_of rt m))) q"
  using assms
proof (induction q arbitrary: rt)
  case Nil
  then show ?case by simp
next
  case (Cons m q)
  obtain rt1 msg where g: "wt_ffm_get rt pid (sig_of rt s) = (rt1, PSA_SUCCESS, Some msg)" "ffm_inv rt1"
    "same_static rt rt1" "sig_of rt1 s = sig_of rt s" "ffm_queue rt1 s = q"
    "pm_handle msg = wt_ffm_make_handle WT_FFM_HANDLE_MESSAGE m (msg_generation (msg_of rt m))"
    "\<forall>j. msg_generation (msg_of rt1 j) = msg_generation (msg_of rt j)"
    using get_step [OF Cons.prems] by blast
  have st: "s < length (rt_services rt1)" "wt_ffm_find_partition rt1 pid = Inr (pidx_of rt1 s)"
    "pidx_of rt1 s = pidx_of rt s"
    using Cons.prems(2,3) g(3) same_static_find [OF g(3)] by (simp_all add: same_static_def)
  obtain rt' msgs where "get_times (length q) rt1 pid (sig_of rt1 s) = (rt', msgs)" "ffm_inv rt'"
    "ffm_queue rt' s = []" "sig_of rt' s = sig_of rt1 s" "pidx_of rt' s = pidx_of rt1 s" "s < length (rt_services rt')"
    "map pm_handle msgs = map (\<lambda>m. wt_ffm_make_handle WT_FFM_HANDLE_MESSAGE m (msg_generation (msg_of rt1 m))) q"
    using Cons.IH [OF g(2) st(1,2) g(5)] by blast
  then show ?case using g st(3) by simp
qed

lemma queue_signal:
  assumes "ffm_inv rt" "s < length (rt_services rt)"
  shows "asserted rt (pidx_of rt s) AND sig_of rt s = 0 \<longleftrightarrow> ffm_queue rt s = []"
  using ffm_invD(2) [OF assms] queue_head_none [OF inv_queue(1) [OF assms]] by (simp add: service_but_def)

lemma fold_or_bit:
  fixes acc :: u32
  assumes "bit acc n \<or> (\<exists>x \<in> set xs. P x \<and> bit (f x) n)"
  shows "bit (fold (\<lambda>x acc. if P x then acc OR f x else acc) xs acc) n"
  using assms
proof (induction xs arbitrary: acc)
  case (Cons x xs)
  then show ?case by (auto simp: bit_or_iff)
qed simp

lemma signal_set_bit:
  assumes "s < length (rt_services rt)" "bit (sig_of rt s) n"
  shows "bit (wt_ffm_partition_signal_set rt (pidx_of rt s)) n"
proof -
  have "bit (fold (\<lambda>x acc. if sr_partition_index x = pidx_of rt s
      then acc OR sd_signal (sr_descriptor x) else acc) (rt_services rt) PSA_DOORBELL) n"
    by (rule fold_or_bit) (use assms in \<open>auto simp: pidx_of_def sig_of_def svc_of_def intro: bexI [OF _ nth_mem]\<close>)
  from fold_or_bit [OF disjI1 [OF this], where P = "\<lambda>_. True" and f = mi_signal
      and xs = "irqs_of (pr_manifest (part_of rt (pidx_of rt s)))"]
  show ?thesis by (simp add: wt_ffm_partition_signal_set_def)
qed

text \<open>
  C17: Nothing waits forever. As long as a service has waiting messages, its partition finds
  the service's signal asserted when it waits for it; calling get once per waiting message
  delivers them all, oldest first, each under a handle for its own slot; and then the signal
  is deasserted and a further wait finds nothing ready.
\<close>

theorem wt_ffm_delivery:
  assumes inv: "ffm_inv rt" and s: "s < length (rt_services rt)"
    and p: "wt_ffm_find_partition rt pid = Inr (pidx_of rt s)"
  shows "(wt_ffm_wait rt pid (sig_of rt s) =
       (if ffm_queue rt s = [] then (WT_FFM_ERROR_NOT_READY, Some 0) else (WT_FFM_SUCCESS, Some (sig_of rt s)))) \<and>
    set (ffm_queue rt s) = waiting rt s \<and>
    (\<exists>rt' msgs. get_times (length (ffm_queue rt s)) rt pid (sig_of rt s) = (rt', msgs) \<and>
       map (\<lambda>msg. wt_ffm_decode_handle (pm_handle msg) WT_FFM_HANDLE_MESSAGE WT_FFM_MAX_MESSAGES) msgs =
         map (\<lambda>m. Inr (m, msg_generation (msg_of rt m))) (ffm_queue rt s) \<and>
       waiting rt' s = {} \<and> asserted rt' (pidx_of rt' s) AND sig_of rt' s = 0)"
proof (intro conjI)
  note d = ffm_coreD [OF ffm_invD(1) [OF inv]]
  obtain n where b: "sig_of rt s = push_bit n 1" "n < 32" using ffm_staticD(2) [OF d(1) s] by (auto simp: single_bit_iff)
  have nz: "sig_of rt s \<noteq> 0" using single_bit_nonzero ffm_staticD(2) [OF d(1) s] by blast
  have bn: "bit (sig_of rt s) n" using b by (simp add: bit_simps)
  then have "bit (sig_of rt s AND wt_ffm_partition_signal_set rt (pidx_of rt s)) n"
    using signal_set_bit [OF s] by (simp add: bit_and_iff)
  then have "sig_of rt s AND wt_ffm_partition_signal_set rt (pidx_of rt s) \<noteq> 0" by auto
  then show "wt_ffm_wait rt pid (sig_of rt s) =
      (if ffm_queue rt s = [] then (WT_FFM_ERROR_NOT_READY, Some 0) else (WT_FFM_SUCCESS, Some (sig_of rt s)))"
    using queue_signal [OF inv s] and_push_bit_cases [of "asserted rt (pidx_of rt s)" n] b(1) nz p
    by (auto simp: wt_ffm_wait_def Let_def asserted_def)
  show "set (ffm_queue rt s) = waiting rt s" by (rule inv_queue(2) [OF inv s])
  obtain rt' msgs where g: "get_times (length (ffm_queue rt s)) rt pid (sig_of rt s) = (rt', msgs)" "ffm_inv rt'"
    "ffm_queue rt' s = []" "sig_of rt' s = sig_of rt s" "pidx_of rt' s = pidx_of rt s" "s < length (rt_services rt')"
    "map pm_handle msgs =
      map (\<lambda>m. wt_ffm_make_handle WT_FFM_HANDLE_MESSAGE m (msg_generation (msg_of rt m))) (ffm_queue rt s)"
    using get_times_delivers [OF inv s p refl] by blast
  have dm: "wt_ffm_decode_handle (wt_ffm_make_handle WT_FFM_HANDLE_MESSAGE m (msg_generation (msg_of rt m)))
      WT_FFM_HANDLE_MESSAGE WT_FFM_MAX_MESSAGES = Inr (m, msg_generation (msg_of rt m))" if "m \<in> set (ffm_queue rt s)" for m
    using that inv_queue(2) [OF inv s] d(7) [of m] by (intro decode_make) (auto simp: waiting_def msg_ok_def)
  have "map (\<lambda>h. wt_ffm_decode_handle h WT_FFM_HANDLE_MESSAGE WT_FFM_MAX_MESSAGES) (map pm_handle msgs) =
      map (\<lambda>m. Inr (m, msg_generation (msg_of rt m))) (ffm_queue rt s)"
    unfolding g(7) using dm by simp
  then show "\<exists>rt' msgs. get_times (length (ffm_queue rt s)) rt pid (sig_of rt s) = (rt', msgs) \<and>
       map (\<lambda>msg. wt_ffm_decode_handle (pm_handle msg) WT_FFM_HANDLE_MESSAGE WT_FFM_MAX_MESSAGES) msgs =
         map (\<lambda>m. Inr (m, msg_generation (msg_of rt m))) (ffm_queue rt s) \<and>
       waiting rt' s = {} \<and> asserted rt' (pidx_of rt' s) AND sig_of rt' s = 0"
    using g(1) inv_queue(2) [OF g(2,6)] g(3) queue_signal [OF g(2,6)] by (auto simp: comp_def)
qed

end
