(* ===== verification/Ffm_Contract.thy ===== *)
theory Ffm_Contract
  imports Ffm_Delivery
begin

text \<open>
  Whole operations: the synchronous calls return, misuse costs a client its connection, and
  faults leave nothing of the failed party behind.
\<close>

section \<open>Synchronous operations\<close>


section \<open>Misuse\<close>

lemma call_begin_busy:
  assumes "wt_ffm_connection_from_handle rt caller h = Inr c" "caller \<noteq> 0"
    and "conn_state (conn_of rt c) \<noteq> WT_IPC_CONNECTION_IDLE"
  shows "wt_ffm_call_begin ops rt caller h type in_vec out_vec =
    (upd_conn c (\<lambda>x. x\<lparr>conn_error_latch := True\<rparr>) rt, PSA_ERROR_PROGRAMMER_ERROR, None)"
  using assms by (auto simp: wt_ffm_call_begin_def ffm_call_enqueue_def ffm_drop_connection_def)

definition call_malformed :: "int \<Rightarrow> psa_invec carray \<Rightarrow> psa_outvec carray \<Rightarrow> bool" where
  "call_malformed type in_vec out_vec \<longleftrightarrow>
     type < 0 \<or> carray_count in_vec + carray_count out_vec > PSA_MAX_IOVEC"

lemma connection_from_handle_state:
  "wt_ffm_connection_from_handle (upd_conn c f rt) caller h = wt_ffm_connection_from_handle rt caller h"
  if "\<And>x. conn_allocated (f x) = conn_allocated x" "\<And>x. conn_generation (f x) = conn_generation x"
    "\<And>x. conn_caller (f x) = conn_caller x" "\<And>x. conn_client_instance (f x) = conn_client_instance x"
proof -
  have "wt_ffm_caller_instance (upd_conn c f rt) caller = wt_ffm_caller_instance rt caller"
    by (auto simp: wt_ffm_caller_instance_def wt_ffm_find_partition_def upd_conn_def part_of_def
        split: sum.splits option.splits)
  then show ?thesis
    by (auto simp: wt_ffm_connection_from_handle_def Let_def that split: sum.splits)
qed

text \<open>
  C23: A malformed call costs the client its connection. A negative type or too many vectors
  on a valid handle is refused as a programmer error without queueing anything. If the
  connection was idle, every further call on the handle is refused the same way; if it was
  busy, the reply to the request in flight, whatever the service answers, ends in the error
  state instead of the idle state.
\<close>

theorem wt_ffm_malformed_call:
  assumes h: "wt_ffm_connection_from_handle rt caller h = Inr c" and k: "caller \<noteq> 0"
    and l: "c < length (rt_connections rt)" and bad: "call_malformed type in_vec out_vec"
  shows "\<exists>rt'. wt_ffm_call_begin ops rt caller h type in_vec out_vec = (rt', PSA_ERROR_PROGRAMMER_ERROR, None) \<and>
    rt_messages rt' = rt_messages rt \<and> rt_services rt' = rt_services rt \<and>
    (conn_state (conn_of rt c) = WT_IPC_CONNECTION_IDLE \<longrightarrow>
       (\<forall>type' in_vec' out_vec'. \<exists>rt''. wt_ffm_call_begin ops rt' caller h type' in_vec' out_vec' =
          (rt'', PSA_ERROR_PROGRAMMER_ERROR, None) \<and> rt_messages rt'' = rt_messages rt)) \<and>
    (conn_state (conn_of rt c) \<noteq> WT_IPC_CONNECTION_IDLE \<longrightarrow>
       (\<forall>m status st. msg_type m \<ge> PSA_IPC_CALL \<longrightarrow> ffm_reply_state m (conn_of rt' c) status = Inr st \<longrightarrow>
          st = WT_IPC_CONNECTION_ERROR))"
proof -
  let ?rt' = "ffm_drop_connection rt c"
  have e: "wt_ffm_call_begin ops rt caller h type in_vec out_vec = (?rt', PSA_ERROR_PROGRAMMER_ERROR, None)"
    using h k bad by (auto simp: wt_ffm_call_begin_def ffm_call_enqueue_def call_malformed_def)
  have tab: "rt_messages ?rt' = rt_messages rt" "rt_services ?rt' = rt_services rt"
    by (simp_all add: ffm_drop_connection_def upd_conn_def)
  have h': "wt_ffm_connection_from_handle ?rt' caller h = Inr c"
    using h by (simp add: ffm_drop_connection_def connection_from_handle_state)
  have "\<exists>rt''. wt_ffm_call_begin ops ?rt' caller h type' in_vec' out_vec' =
      (rt'', PSA_ERROR_PROGRAMMER_ERROR, None) \<and> rt_messages rt'' = rt_messages rt"
    if "conn_state (conn_of rt c) = WT_IPC_CONNECTION_IDLE" for type' in_vec' out_vec'
  proof -
    have "conn_state (conn_of ?rt' c) \<noteq> WT_IPC_CONNECTION_IDLE" using that l by (simp add: ffm_drop_connection_def)
    from call_begin_busy [OF h' k this] show ?thesis using tab by (simp add: upd_conn_def)
  qed
  moreover have "st = WT_IPC_CONNECTION_ERROR"
    if "conn_state (conn_of rt c) \<noteq> WT_IPC_CONNECTION_IDLE" "msg_type m \<ge> PSA_IPC_CALL"
      "ffm_reply_state m (conn_of ?rt' c) status = Inr st" for m status st
    using that l by (auto simp: ffm_drop_connection_def ffm_reply_state_def split: if_splits)
  ultimately show ?thesis using e tab by blast
qed

section \<open>A refused close\<close>

lemma caller_instance_frame:
  assumes "queue_frame rt rt'"
  shows "wt_ffm_caller_instance rt' caller = wt_ffm_caller_instance rt caller"
proof -
  have "same_static rt rt'" using queue_frame_views [OF assms] by (simp add: same_static_def)
  moreover have "pr_instance (part_of rt' p) = pr_instance (part_of rt p)" for p
    using assms by (simp add: queue_frame_def)
  ultimately show ?thesis by (simp add: wt_ffm_caller_instance_def same_static_find split: sum.splits)
qed

lemma connection_from_handle_frame:
  assumes "queue_frame rt rt'"
  shows "wt_ffm_connection_from_handle rt' caller h = wt_ffm_connection_from_handle rt caller h"
  using queue_frame_views(1) [OF assms] caller_instance_frame [OF assms]
  by (simp add: wt_ffm_connection_from_handle_def Let_def split: sum.splits)

lemma connection_from_handle_msg [simp]:
  "wt_ffm_connection_from_handle (upd_msg j g rt) caller h = wt_ffm_connection_from_handle rt caller h"
  by (auto simp: wt_ffm_connection_from_handle_def Let_def wt_ffm_caller_instance_def wt_ffm_find_partition_def
      upd_msg_def conn_of_def part_of_def split: sum.splits option.splits)

text \<open>
  C24: What a refused close leaves behind. When the dispatch of the disconnect message is
  refused, close takes the message back and reports the refusal, but the connection stays
  allocated in its disconnecting state with no message, and every later close of the handle is
  refused with a state error: only terminating the client frees the slot.
\<close>

theorem wt_ffm_close_refused:
  assumes inv: "ffm_inv rt" and q: "client_quiet rt caller" and k: "caller \<noteq> 0"
    and h: "wt_ffm_connection_from_handle rt caller h = Inr c"
    and idle: "conn_state (conn_of rt c) = WT_IPC_CONNECTION_IDLE"
    and slot: "first_idx (\<lambda>m. \<not> msg_allocated m) (rt_messages rt) = Some m"
    and refuse: "\<And>r pid. po_dispatch ops r pid = (r, ret)" "\<And>f r pid. po_registered ops f r pid = (r, ret)"
      "ret \<noteq> WT_FFM_SUCCESS"
  shows "\<exists>rt'. wt_ffm_close ops rt caller h = Some (rt', ret) \<and> conn_allocated (conn_of rt' c) \<and>
    (\<forall>ops'. wt_ffm_close ops' rt' caller h = Some (rt', WT_FFM_ERROR_STATE))"
proof -
  note c = connection_from_handle_Inr [OF h]
  note d = ffm_coreD [OF ffm_invD(1) [OF inv]]
  have h0: "h \<noteq> PSA_NULL_HANDLE"
    using h by (auto simp: wt_ffm_connection_from_handle_def wt_ffm_decode_handle_def)
  have unused: "msg_connection_index (msg_of rt j) \<noteq> c" if "j < WT_FFM_MAX_MESSAGES" "msg_allocated (msg_of rt j)" for j
    using quiet_connection_unused [OF ffm_invD(1) [OF inv], of c j] q c(3) idle that by simp
  have "first_idx (\<lambda>m. msg_allocated m \<and> msg_abandoned m \<noteq> NOT_ABANDONED \<and> msg_connection_index m = c)
      (rt_messages rt) = None"
    unfolding first_idx_None using unused d(5) by (metis in_set_conv_nth msg_of_def)
  then have ab: "wt_ffm_close_abandoned rt c = (rt, False)" by (simp add: wt_ffm_close_abandoned_def)
  define rt1 where "rt1 = upd_conn c (\<lambda>x. x\<lparr>conn_state := WT_IPC_CONNECTION_DISCONNECTING\<rparr>)
    (upd_msg m (\<lambda>m. m\<lparr>msg_allocated := True, msg_next := WT_FFM_QUEUE_NONE\<rparr>) rt)"
  define rt2 where "rt2 = ffm_post rt1 m caller c (conn_service_index (conn_of rt1 c)) PSA_IPC_DISCONNECT"
  have b: "wt_ffm_close_begin rt caller h = (rt2, WT_FFM_SUCCESS, Some m)"
    using h h0 k idle ab slot
    by (simp add: wt_ffm_close_begin_def wt_ffm_alloc_message_def rt2_def rt1_def Let_def)
  have m8: "m < WT_FFM_MAX_MESSAGES" using first_idx_Some [OF slot] d(5) by simp
  have i2: "ffm_inv rt2" and cl: "closing rt2 m caller" using close_begin_inv [OF inv q b] m8 by simp_all
  have fr2: "queue_frame (upd_msg m (\<lambda>m. m\<lparr>msg_caller := caller, msg_connection_index := c,
      msg_service_index := conn_service_index (conn_of rt1 c), msg_type := PSA_IPC_DISCONNECT\<rparr>) rt1) rt2"
    unfolding rt2_def ffm_post_def by (rule enqueue_frame)
  have mc: "msg_connection_index (msg_of rt2 m) = c" "\<not> msg_active (msg_of rt2 m)"
    using fr2 m8 d(5) cl by (simp_all add: queue_frame_def rt1_def closing_def)
  have h2: "wt_ffm_connection_from_handle rt2 caller h = Inr c"
    using connection_from_handle_frame [OF fr2] h by (simp add: rt1_def connection_from_handle_state)
  have st2: "conn_state (conn_of rt2 c) = WT_IPC_CONNECTION_DISCONNECTING" "conn_allocated (conn_of rt2 c)"
    using queue_frame_views(1) [OF fr2] c d(4) by (simp_all add: rt1_def)
  have dm: "wt_ffm_dispatch_message ops rt2 m = (rt2, ret)"
    using refuse by (simp add: wt_ffm_dispatch_message_def Let_def split: option.splits)
  have al: "msg_allocated (msg_of rt2 m)" using cl by (simp add: closing_def)
  note s = message_service [OF ffm_invD(1) [OF i2] m8 al, unfolded mc(1)]
  obtain rt3 where r3: "wt_ffm_dequeue_message rt2 (conn_service_index (conn_of rt2 c)) m = Some rt3"
    using inv_dequeue [OF i2 s(1), of m] s(4) by auto
  let ?rt' = "wt_ffm_release_message rt3 m"
  note fr3 = dequeue_frame [OF r3]
  have e: "wt_ffm_close ops rt caller h = Some (?rt', ret)"
    using b dm r3 mc refuse(3) m8 by (simp add: wt_ffm_close_def ffm_close_tail_def Let_def)
  have h3: "wt_ffm_connection_from_handle ?rt' caller h = Inr c"
    using connection_from_handle_frame [OF fr3] h2 by (simp add: wt_ffm_release_message_def)
  have st3: "conn_of ?rt' c = conn_of rt2 c"
    using queue_frame_views(1) [OF fr3] by (simp add: wt_ffm_release_message_def)
  have "wt_ffm_close ops' ?rt' caller h = Some (?rt', WT_FFM_ERROR_STATE)" for ops'
    using h0 k h3 st2(1) by (simp add: wt_ffm_close_def wt_ffm_close_begin_def st3)
  then show ?thesis using e st2(2) st3 by auto
qed

section \<open>Faults\<close>



text \<open>
  C27: A restarted partition starts clean. After the restart no message is in flight at it,
  it holds no connection and no message as a client, and no signal of it is asserted.
\<close>

theorem wt_ffm_partition_restarted_clean:
  assumes "ffm_inv rt" "wt_ffm_find_partition rt pid = Inr p"
  shows "\<exists>rt' n. wt_ffm_partition_restarted rt pid status = Some (rt', n) \<and> ffm_inv rt' \<and>
    (\<forall>m < WT_FFM_MAX_MESSAGES. \<not> in_flight pid rt' m \<and>
       (msg_allocated (msg_of rt' m) \<longrightarrow> msg_caller (msg_of rt' m) \<noteq> pid)) \<and>
    wt_ffm_client_connection_count rt' pid = 0 \<and> pr_asserted_signals (part_of rt' p) = 0"
  using partition_restarted_result [OF assms, of status] unfolding no_messages_of_def asserted_def by blast

end
