(* ===== verification/Ffm_Data.thy ===== *)
theory Ffm_Data
  imports Ffm_Contract
begin

text \<open>
  The data path of a request: what a service reads is what the client had in its memory when
  it made the call, what the client finds afterwards is what the service wrote, and nothing
  else changes.
\<close>

section \<open>Buffers\<close>

lemma length_buf_read [simp]: "length (buf_read b off n) = n"
  by (simp add: buf_read_def)

lemma buf_write_Nil [simp]: "buf_write b off [] = b"
  by (auto simp: buf_write_def fun_eq_iff)

lemma buf_read_write: "buf_read (buf_write b off bs) off (length bs) = bs"
  by (rule nth_equalityI) (simp_all add: buf_read_def buf_write_def)

lemma buf_read_cong: "(\<And>x. off \<le> x \<Longrightarrow> x < off + n \<Longrightarrow> b x = b' x) \<Longrightarrow> buf_read b off n = buf_read b' off n"
  by (simp add: buf_read_def)

lemma buf_read_append: "buf_read b off (m + n) = buf_read b off m @ buf_read b (off + m) n"
  by (rule nth_equalityI) (auto simp: buf_read_def nth_append)

lemma buf_read_slice: "p + k \<le> n \<Longrightarrow> buf_read b (off + p) k = take k (drop p (buf_read b off n))"
  by (rule nth_equalityI) (simp_all add: buf_read_def add.assoc)

lemma copy_in_below: "x < off \<Longrightarrow> msg_input (ffm_copy_in mem vs i off m) x = msg_input m x"
  by (induction vs arbitrary: i off m) (auto simp: buf_write_def)

lemma copy_in_data:
  assumes "k < length vs"
  shows "buf_read (msg_input (ffm_copy_in mem vs i off m)) (off + offset_of (in_lens vs) k) (in_lens vs ! k) =
    mem_read mem (inv_base (vs ! k)) (in_lens vs ! k)"
  using assms
proof (induction vs arbitrary: i off m k)
  case (Cons v vs)
  show ?case
  proof (cases k)
    case 0
    let ?l = "unat (inv_len v)"
    have "buf_read (msg_input (ffm_copy_in mem (v # vs) i off m)) off ?l =
        buf_read (buf_write (msg_input m) off (mem_read mem (inv_base v) ?l)) off ?l"
      by (rule buf_read_cong) (auto simp: copy_in_below unat_eq_zero)
    then show ?thesis using 0 buf_read_write [of "msg_input m" off "mem_read mem (inv_base v) ?l"]
      by (simp add: in_lens_def)
  next
    case (Suc k')
    then show ?thesis using Cons.IH [of k' "Suc i" "off + unat (inv_len v)"] Cons.prems
      by (simp add: in_lens_def add.assoc)
  qed
qed simp

section \<open>Requests\<close>

text \<open>The bytes of input vector \<open>i\<close> of a message, and what has been written to output \<open>i\<close>.\<close>

definition request_bytes :: "wt_ffm_message_runtime \<Rightarrow> nat \<Rightarrow> u8 list" where
  "request_bytes m i = buf_read (msg_input m) (msg_in_offset m i) (msg_in_size m i)"

definition written_bytes :: "wt_ffm_message_runtime \<Rightarrow> nat \<Rightarrow> u8 list" where
  "written_bytes m i = buf_read (msg_output m) (msg_out_offset m i) (msg_out_position m i)"

lemma prepare_checked:
  assumes "wt_ffm_prepare_vectors ops rt m in_vec out_vec = (rt', WT_FFM_SUCCESS)"
  shows "\<forall>v \<in> set (carray_list in_vec). inv_len v = 0 \<or>
      po_check_read ops (msg_caller (msg_of rt m)) (inv_base v) (inv_len v)"
    and "\<forall>v \<in> set (carray_list out_vec). outv_len v = 0 \<or>
      po_check_write ops (msg_caller (msg_of rt m)) (outv_base v) (outv_len v)"
proof -
  have len: "length (carray_list in_vec) \<le> 4" "length (carray_list out_vec) \<le> 4"
    using prepare_accepted(2) [OF assms refl] by simp_all
  show "\<forall>v \<in> set (carray_list in_vec). inv_len v = 0 \<or>
      po_check_read ops (msg_caller (msg_of rt m)) (inv_base v) (inv_len v)"
    and "\<forall>v \<in> set (carray_list out_vec). outv_len v = 0 \<or>
      po_check_write ops (msg_caller (msg_of rt m)) (outv_base v) (outv_len v)"
    using assms len unfolding wt_ffm_prepare_vectors_def Let_def
    by (auto split: if_splits option.splits prod.splits simp: first_idx_None)
qed

lemma call_begin_message:
  assumes inv: "ffm_inv rt" and q: "client_quiet rt caller"
    and e: "wt_ffm_call_begin ops rt caller h type in_vec out_vec = (rt', PSA_SUCCESS, Some m)"
  shows "\<exists>x. msg_caller x = caller \<and> msg_in_position x = (\<lambda>_. 0) \<and> msg_out_position x = (\<lambda>_. 0) \<and>
    msg_of rt' m = (ffm_layout_out (carray_list out_vec) 0 0
      (ffm_copy_in (client_memory rt) (carray_list in_vec) 0 0
        (x\<lparr>msg_in_count := length (carray_list in_vec), msg_out_count := length (carray_list out_vec)\<rparr>)))
          \<lparr>msg_next := nx_of rt' m\<rparr> \<and>
    (\<forall>v \<in> set (carray_list in_vec). inv_len v = 0 \<or> po_check_read ops caller (inv_base v) (inv_len v)) \<and>
    (\<forall>v \<in> set (carray_list out_vec). outv_len v = 0 \<or> po_check_write ops caller (outv_base v) (outv_len v))"
proof -
  have e': "ffm_call_enqueue ops (\<lambda>_. id) rt caller h type in_vec out_vec = (rt', Inr m)"
    using e by (auto simp: wt_ffm_call_begin_def split: if_splits prod.splits sum.splits)
  obtain c rt1 where ch: "wt_ffm_connection_from_handle rt caller h = Inr c"
    and al: "wt_ffm_alloc_message rt = Inr (rt1, m)"
    using e' by (auto simp: ffm_call_enqueue_def Let_def split: sum.splits if_splits prod.splits)
  define s where "s = conn_service_index (conn_of rt1 c)"
  define rt2 where "rt2 = upd_msg m (\<lambda>x. x\<lparr>msg_caller := caller, msg_connection_index := c,
      msg_service_index := s, msg_type := type\<rparr>) rt1"
  obtain rt3 where pv: "wt_ffm_prepare_vectors ops rt2 m in_vec out_vec = (rt3, 0)"
    and r: "rt' = wt_ffm_enqueue (upd_conn c (\<lambda>x. x\<lparr>conn_state := WT_IPC_CONNECTION_PENDING_REQUEST\<rparr>) rt3) s m"
    using e' ch al
    by (auto simp: ffm_call_enqueue_def Let_def rt2_def [symmetric] s_def [symmetric] split: if_splits prod.splits)
  note am = alloc_message_Inr [OF al] and d = ffm_coreD [OF ffm_invD(1) [OF inv]]
  have b: "msg_blank (msg_of rt m)" using d(7) [of m] am(1,2) d(5) by (simp add: msg_ok_def)
  then have pos: "msg_in_position (msg_of rt m) = (\<lambda>_. 0)" "msg_out_position (msg_of rt m) = (\<lambda>_. 0)"
    by (cases "msg_of rt m"; simp add: msg_blank_def zero_ffm_message_def)+
  have mem: "client_memory rt2 = client_memory rt" by (simp add: rt2_def am(3) upd_msg_def)
  let ?x = "msg_of rt2 m"
  have "msg_of rt' m = (msg_of rt3 m)\<lparr>msg_next := nx_of rt' m\<rparr>"
    using enqueue_frame [of "upd_conn c (\<lambda>x. x\<lparr>conn_state := WT_IPC_CONNECTION_PENDING_REQUEST\<rparr>) rt3" s m]
    unfolding r queue_frame_def by simp
  moreover have "msg_of rt3 m = ffm_layout_out (carray_list out_vec) 0 0
      (ffm_copy_in (client_memory rt) (carray_list in_vec) 0 0
        (?x\<lparr>msg_in_count := length (carray_list in_vec), msg_out_count := length (carray_list out_vec)\<rparr>))"
    using prepare_accepted(1) [OF pv refl] am(1) mem by (simp add: rt2_def am(3))
  moreover have "msg_caller ?x = caller" "msg_in_position ?x = (\<lambda>_. 0)" "msg_out_position ?x = (\<lambda>_. 0)"
    using pos am(1) by (simp_all add: rt2_def am(3))
  ultimately show ?thesis using prepare_checked [OF pv] by metis
qed

text \<open>
  C19: An accepted call is a snapshot. The message holds, vector by vector, exactly the bytes
  the client's input vectors referred to at the time of the call, each output area has the
  size the client offered, and every vector that is not empty has passed the port's access
  check for this client.
\<close>

theorem wt_ffm_call_snapshot:
  assumes inv: "ffm_inv rt" and q: "client_quiet rt caller"
    and e: "wt_ffm_call_begin ops rt caller h type in_vec out_vec = (rt', PSA_SUCCESS, Some m)"
  shows "map (request_bytes (msg_of rt' m)) [0..<msg_in_count (msg_of rt' m)] =
      map (\<lambda>v. mem_read (client_memory rt) (inv_base v) (unat (inv_len v))) (carray_list in_vec) \<and>
    map (msg_out_size (msg_of rt' m)) [0..<msg_out_count (msg_of rt' m)] =
      map (\<lambda>v. unat (outv_len v)) (carray_list out_vec) \<and>
    (\<forall>v \<in> set (carray_list in_vec). inv_len v = 0 \<or> po_check_read ops caller (inv_base v) (inv_len v)) \<and>
    (\<forall>v \<in> set (carray_list out_vec). outv_len v = 0 \<or> po_check_write ops caller (outv_base v) (outv_len v))"
proof -
  obtain x where x: "msg_of rt' m = (ffm_layout_out (carray_list out_vec) 0 0
      (ffm_copy_in (client_memory rt) (carray_list in_vec) 0 0
        (x\<lparr>msg_in_count := length (carray_list in_vec), msg_out_count := length (carray_list out_vec)\<rparr>)))
          \<lparr>msg_next := nx_of rt' m\<rparr>"
    and ck: "\<forall>v \<in> set (carray_list in_vec). inv_len v = 0 \<or> po_check_read ops caller (inv_base v) (inv_len v)"
      "\<forall>v \<in> set (carray_list out_vec). outv_len v = 0 \<or> po_check_write ops caller (outv_base v) (outv_len v)"
    using call_begin_message [OF inv q e] by blast
  have "request_bytes (msg_of rt' m) k = mem_read (client_memory rt) (inv_base (carray_list in_vec ! k))
      (unat (inv_len (carray_list in_vec ! k)))" if "k < length (carray_list in_vec)" for k
    using copy_in_data [OF that, of "client_memory rt" 0 0] copy_in_layout [OF that, of "client_memory rt" 0 0] that
    by (subst x) (simp add: request_bytes_def in_lens_def)
  moreover have "msg_out_size (msg_of rt' m) k = unat (outv_len (carray_list out_vec ! k))"
    if "k < length (carray_list out_vec)" for k
    using layout_out_layout(2) [OF that, of 0 0] that by (subst x) (simp add: out_lens_def)
  moreover have "msg_in_count (msg_of rt' m) = length (carray_list in_vec)"
    "msg_out_count (msg_of rt' m) = length (carray_list out_vec)" by (subst x, simp)+
  ultimately show ?thesis using ck by (auto intro!: nth_equalityI)
qed

section \<open>Streams\<close>

lemma message_from_handle_upd:
  assumes "\<And>x. msg_allocated (g x) = msg_allocated x" "\<And>x. msg_active (g x) = msg_active x"
    "\<And>x. msg_generation (g x) = msg_generation x" "\<And>x. msg_service_index (g x) = msg_service_index x"
  shows "wt_ffm_message_from_handle (upd_msg m g rt) pid h = wt_ffm_message_from_handle rt pid h"
  using assms by (auto simp: wt_ffm_message_from_handle_def Let_def split: sum.splits)


text \<open>
  C21: A service's output accumulates. A write that fits appends its bytes to what has been
  written to that output vector and leaves the other vectors and the request alone; a write
  that does not fit is refused and changes nothing.
\<close>

theorem wt_ffm_write_stream:
  assumes inv: "ffm_inv rt" and h: "wt_ffm_message_from_handle rt pid h = Inr m"
    and ty: "msg_type (msg_of rt m) \<ge> PSA_IPC_CALL" and i: "i < msg_out_count (msg_of rt m)"
    and e: "wt_ffm_write rt pid h i (CArray bs) = (rt', ret)"
  shows "if length (written_bytes (msg_of rt m) i @ bs) \<le> msg_out_size (msg_of rt m) i
    then ret = WT_FFM_SUCCESS \<and> written_bytes (msg_of rt' m) i = written_bytes (msg_of rt m) i @ bs \<and>
      (\<forall>j < msg_out_count (msg_of rt m). j \<noteq> i \<longrightarrow> written_bytes (msg_of rt' m) j = written_bytes (msg_of rt m) j) \<and>
      request_bytes (msg_of rt' m) = request_bytes (msg_of rt m)
    else ret = WT_FFM_ERROR_BUFFER \<and> rt' = rt"
proof -
  let ?M = "msg_of rt m"
  let ?p = "msg_out_position ?M i" and ?s = "msg_out_size ?M i" and ?o = "msg_out_offset ?M"
  note m = message_from_handle_Inr [OF h]
  have so: "streams_ok ?M" by (rule message_streams [OF inv m(1,2)])
  have i4: "i < PSA_MAX_IOVEC" and ps: "?p \<le> ?s" using so i by (auto simp: streams_ok_def)
  have lm: "m < length (rt_messages rt)" using m(1) ffm_coreD(5) [OF ffm_invD(1) [OF inv]] by simp
  show ?thesis
  proof (cases "?p + length bs \<le> ?s")
    case False
    then show ?thesis using e h ty i i4 ps
      by (auto simp: wt_ffm_write_def Let_def written_bytes_def not_less not_le split: if_splits)
  next
    case True
    let ?out = "buf_write (msg_output ?M) (?o i + ?p) bs"
    have M': "msg_of rt' m = ?M\<lparr>msg_output := ?out, msg_out_position := (msg_out_position ?M)(i := ?p + length bs)\<rparr>"
      and ret: "ret = WT_FFM_SUCCESS"
    proof -
      have z: "?M = ?M\<lparr>msg_output := ?out, msg_out_position := (msg_out_position ?M)(i := ?p + length bs)\<rparr>"
        if "bs = []"
        using that by simp
      show "msg_of rt' m = ?M\<lparr>msg_output := ?out, msg_out_position := (msg_out_position ?M)(i := ?p + length bs)\<rparr>"
        using e h ty i i4 ps True lm z by (auto simp: wt_ffm_write_def Let_def not_less split: if_splits)
      show "ret = WT_FFM_SUCCESS"
        using e h ty i i4 ps True by (auto simp: wt_ffm_write_def Let_def not_less split: if_splits)
    qed
    have "written_bytes (msg_of rt' m) i = written_bytes ?M i @ bs"
    proof -
      have "buf_read ?out (?o i) ?p = buf_read (msg_output ?M) (?o i) ?p"
        by (rule buf_read_cong) (simp add: buf_write_def)
      moreover have "buf_read ?out (?o i + ?p) (length bs) = bs" by (rule buf_read_write)
      ultimately show ?thesis by (simp add: M' written_bytes_def buf_read_append)
    qed
    moreover have "written_bytes (msg_of rt' m) j = written_bytes ?M j" if j: "j < msg_out_count ?M" "j \<noteq> i" for j
    proof -
      have pj: "msg_out_position ?M j \<le> msg_out_size ?M j" using so by (simp add: streams_ok_def)
      have "?o i + ?s \<le> ?o j \<or> ?o j + msg_out_size ?M j \<le> ?o i"
        using so i j unfolding streams_ok_def by (metis linorder_neqE_nat)
      then have "buf_read ?out (?o j) (msg_out_position ?M j) = buf_read (msg_output ?M) (?o j) (msg_out_position ?M j)"
        using True pj by (intro buf_read_cong) (auto simp: buf_write_def)
      then show ?thesis using j(2) by (simp add: M' written_bytes_def)
    qed
    moreover have "request_bytes (msg_of rt' m) = request_bytes ?M"
      by (simp add: M' request_bytes_def fun_eq_iff)
    ultimately show ?thesis using True ret by (simp add: written_bytes_def)
  qed
qed

section \<open>Publication\<close>

text \<open>The publication loop, over the outputs from \<open>i\<close> on.\<close>

lemma publish_from:
  assumes "\<And>j. j \<in> set js \<Longrightarrow> msg_out_position m j \<le> 2 ^ 32"
  defines "f \<equiv> \<lambda>j mem. if msg_out_position m j \<noteq> 0
      then mem_write mem (msg_client_output m j) (buf_read (msg_output m) (msg_out_offset m j) (msg_out_position m j))
      else mem"
  shows "fold f js mem a \<noteq> mem a \<Longrightarrow> \<exists>j \<in> set js. in_range a (msg_client_output m j) (msg_out_position m j)"
    and "js = js1 @ i # js2 \<Longrightarrow>
      (\<And>j a. j \<in> set js2 \<Longrightarrow> in_range a (msg_client_output m i) (msg_out_position m i) \<Longrightarrow>
         \<not> in_range a (msg_client_output m j) (msg_out_position m j)) \<Longrightarrow>
      mem_read (fold f js mem) (msg_client_output m i) (msg_out_position m i) = written_bytes m i"
proof -
  have one: "f j mem a = mem a" if "\<not> in_range a (msg_client_output m j) (msg_out_position m j)" for j mem a
    using that by (simp add: f_def mem_write_outside)
  have out: "fold f js mem a = mem a"
    if "\<forall>j \<in> set js. \<not> in_range a (msg_client_output m j) (msg_out_position m j)" for js mem a
    using that by (induction js arbitrary: mem) (simp_all add: one)
  then show "fold f js mem a \<noteq> mem a \<Longrightarrow> \<exists>j \<in> set js. in_range a (msg_client_output m j) (msg_out_position m j)"
    by blast
  assume js: "js = js1 @ i # js2" and dis: "\<And>j a. j \<in> set js2 \<Longrightarrow>
      in_range a (msg_client_output m i) (msg_out_position m i) \<Longrightarrow>
         \<not> in_range a (msg_client_output m j) (msg_out_position m j)"
  let ?mem1 = "fold f js1 mem" and ?n = "msg_out_position m i"
  have "mem_read (fold f js2 (f i ?mem1)) (msg_client_output m i) ?n = mem_read (f i ?mem1) (msg_client_output m i) ?n"
    by (rule mem_read_outside) (use assms(1) js dis out in auto)
  also have "\<dots> = written_bytes m i"
    using mem_read_write [of "buf_read (msg_output m) (msg_out_offset m i) ?n" ?mem1 "msg_client_output m i"] assms(1) js
    by (auto simp: f_def written_bytes_def mem_read_def buf_read_def)
  finally show "mem_read (fold f js mem) (msg_client_output m i) ?n = written_bytes m i" by (simp add: js)
qed

text \<open>
  C2: Results are published all or nothing. When a call is finished, either every output
  destination passes the access check again and the client finds in each exactly the bytes
  the service wrote there (unless a later output vector overlaps it) together with their
  number, or none is touched, no length changes, the client gets a programmer error and the
  connection is in the error state. In no case does an address change that is not inside a
  destination the check has just accepted for this client.
\<close>

theorem wt_ffm_publication:
  assumes inv: "ffm_inv rt" and m: "m < WT_FFM_MAX_MESSAGES" "msg_allocated (msg_of rt m)"
    and e: "wt_ffm_call_finish ops rt m out_vec = (rt', status, vs)"
  defines "M \<equiv> msg_of rt m"
  shows "(\<forall>a. client_memory rt' a \<noteq> client_memory rt a \<longrightarrow>
       (\<exists>i < msg_out_count M. in_range a (msg_client_output M i) (msg_out_position M i) \<and>
          po_check_write ops (msg_caller M) (msg_client_output M i) (of_nat (msg_out_position M i)))) \<and>
    (if ffm_outputs_writable ops M
     then status = msg_reply_status M \<and>
       (\<forall>i < msg_out_count M.
          (\<forall>j a. i < j \<longrightarrow> j < msg_out_count M \<longrightarrow> in_range a (msg_client_output M i) (msg_out_position M i) \<longrightarrow>
             \<not> in_range a (msg_client_output M j) (msg_out_position M j)) \<longrightarrow>
          mem_read (client_memory rt') (msg_client_output M i) (msg_out_position M i) = written_bytes M i) \<and>
       (\<forall>i < length vs. i < msg_out_count M \<longrightarrow> outv_len (vs ! i) = of_nat (length (written_bytes M i)))
     else status = PSA_ERROR_PROGRAMMER_ERROR \<and> client_memory rt' = client_memory rt \<and>
       vs = carray_list out_vec \<and>
       conn_state (conn_of rt' (msg_connection_index M)) = WT_IPC_CONNECTION_ERROR)"
proof -
  have so: "streams_ok M" unfolding M_def by (rule message_streams [OF inv m])
  have pos: "msg_out_position M i \<le> 2 ^ 32" if "i < msg_out_count M" for i
  proof -
    have "msg_out_position M i \<le> msg_out_size M i" "msg_out_offset M i + msg_out_size M i \<le> 1024"
      using so that by (auto simp: streams_ok_def)
    then show ?thesis by simp
  qed
  have cl: "msg_connection_index M < length (rt_connections rt)"
    using message_service(2) [OF ffm_invD(1) [OF inv] m] ffm_coreD(4) [OF ffm_invD(1) [OF inv]] by (simp add: M_def)
  show ?thesis
  proof (cases "ffm_outputs_writable ops M")
    case False
    then have "rt' = wt_ffm_release_message (upd_conn (msg_connection_index M)
        (\<lambda>x. x\<lparr>conn_state := WT_IPC_CONNECTION_ERROR\<rparr>) rt) m \<and>
        status = PSA_ERROR_PROGRAMMER_ERROR \<and> vs = carray_list out_vec"
      using e m(1) by (simp add: wt_ffm_call_finish_def ffm_harvest_call_def M_def Let_def)
    then show ?thesis
      using False cl by (simp add: wt_ffm_release_message_def upd_msg_def upd_conn_def conn_of_def)
  next
    case True
    have r: "client_memory rt' = ffm_publish M (client_memory rt)" "status = msg_reply_status M"
      "vs = ffm_publish_lengths M (carray_list out_vec)"
      using e m(1) True
      by (auto simp: wt_ffm_call_finish_def ffm_harvest_call_def M_def Let_def wt_ffm_release_message_def upd_msg_def)
    define f where "f = (\<lambda>j mem. if msg_out_position M j \<noteq> 0
      then mem_write mem (msg_client_output M j) (buf_read (msg_output M) (msg_out_offset M j) (msg_out_position M j))
      else mem)"
    have pf: "client_memory rt' = fold f [0..<msg_out_count M] (client_memory rt)"
      using r(1) by (simp add: ffm_publish_def f_def)
    have b: "msg_out_position M j \<le> 2 ^ 32" if "j \<in> set [0..<msg_out_count M]" for j using pos that by simp
    have "\<exists>i < msg_out_count M. in_range a (msg_client_output M i) (msg_out_position M i) \<and>
        po_check_write ops (msg_caller M) (msg_client_output M i) (of_nat (msg_out_position M i))"
      if ch: "client_memory rt' a \<noteq> client_memory rt a" for a
    proof -
      obtain i where i: "i < msg_out_count M" "in_range a (msg_client_output M i) (msg_out_position M i)"
        using publish_from(1) [where js = "[0..<msg_out_count M]" and m = M and mem = "client_memory rt" and a = a,
            OF b, folded f_def] ch unfolding pf by auto
      then have "msg_out_position M i \<noteq> 0" by (simp add: in_range_def)
      then have "po_check_write ops (msg_caller M) (msg_client_output M i) (of_nat (msg_out_position M i))"
        using True i(1) unfolding ffm_outputs_writable_def list_all_iff set_upt by force
      then show ?thesis using i by blast
    qed
    moreover have "mem_read (client_memory rt') (msg_client_output M i) (msg_out_position M i) = written_bytes M i"
      if "i < msg_out_count M" "\<forall>j a. i < j \<longrightarrow> j < msg_out_count M \<longrightarrow>
          in_range a (msg_client_output M i) (msg_out_position M i) \<longrightarrow>
             \<not> in_range a (msg_client_output M j) (msg_out_position M j)" for i
    proof -
      have "[0..<msg_out_count M] = [0..<i] @ [i..<msg_out_count M]"
        using that(1) upt_add_eq_append [of 0 i "msg_out_count M - i"] by simp
      then have sp: "[0..<msg_out_count M] = [0..<i] @ i # [Suc i..<msg_out_count M]"
        using upt_conv_Cons [OF that(1)] by simp
      show ?thesis
        unfolding pf by (rule publish_from(2) [OF b sp, folded f_def]) (use that(2) in auto)
    qed
    moreover have "outv_len (vs ! i) = of_nat (length (written_bytes M i))"
      if "i < length vs" "i < msg_out_count M" for i
      using that r(3) by (simp add: ffm_publish_lengths_def written_bytes_def)
    ultimately show ?thesis unfolding if_P [OF True] using r(2) by blast
  qed
qed

section \<open>Authority\<close>

text \<open>The outcomes of the operations a partition performs on a message.\<close>

definition message_op :: "wt_ffm_runtime \<Rightarrow> int \<Rightarrow> int \<Rightarrow> wt_ffm_runtime \<Rightarrow> bool" where
  "message_op rt pid h rt' \<longleftrightarrow>
     (\<exists>rh. rt' = fst (wt_ffm_set_rhandle rt pid h rh)) \<or>
     (\<exists>i nul n. rt' = fst (wt_ffm_read rt pid h i nul n)) \<or>
     (\<exists>i n. rt' = fst (wt_ffm_skip rt pid h i n)) \<or>
     (\<exists>i buffer. rt' = fst (wt_ffm_write rt pid h i buffer)) \<or>
     (\<exists>status. rt' = fst (wt_ffm_reply rt pid h status))"

definition message_frame :: "nat \<Rightarrow> nat \<Rightarrow> wt_ffm_runtime \<Rightarrow> wt_ffm_runtime \<Rightarrow> bool" where
  "message_frame m c rt rt' \<longleftrightarrow>
     client_memory rt' = client_memory rt \<and>
     (\<forall>j. j \<noteq> m \<longrightarrow> msg_of rt' j = (msg_of rt j)\<lparr>msg_next := nx_of rt' j\<rparr>) \<and>
     (\<forall>j. j \<noteq> c \<longrightarrow> conn_of rt' j = conn_of rt j) \<and>
     (\<forall>s. svc_of rt' s = (svc_of rt s)\<lparr>sr_queue_head := hd_of rt' s, sr_queue_tail := tl_of rt' s\<rparr>) \<and>
     (\<forall>p. part_of rt' p = (part_of rt p)\<lparr>pr_asserted_signals := asserted rt' p\<rparr>)"

lemma message_frame_upd:
  assumes "message_frame m c rt rt'"
  shows "message_frame m c rt (upd_msg m g rt')" "message_frame m c rt (upd_conn c f rt')"
    and "message_frame m c rt (wt_ffm_release_message rt' m)" "message_frame m c rt (wt_ffm_release_connection rt' c)"
proof -
  have v: "hd_of (upd_msg i g r) s = hd_of r s" "tl_of (upd_msg i g r) s = tl_of r s"
    "asserted (upd_msg i g r) p = asserted r p" "hd_of (upd_conn i f r) s = hd_of r s"
    "tl_of (upd_conn i f r) s = tl_of r s" "asserted (upd_conn i f r) p = asserted r p"
    "nx_of (upd_conn i f r) j = nx_of r j" "j \<noteq> i \<Longrightarrow> nx_of (upd_msg i g r) j = nx_of r j"
    for i g f r s p j
    by (simp_all add: ffm_views)
  show 1: "message_frame m c rt (upd_msg m g rt')" for g
    using assms unfolding message_frame_def by (simp add: v)
  show 2: "message_frame m c rt (upd_conn c f rt')" for f
    using assms unfolding message_frame_def by (simp add: v)
  show "message_frame m c rt (wt_ffm_release_message rt' m)" "message_frame m c rt (wt_ffm_release_connection rt' c)"
    unfolding wt_ffm_release_message_def wt_ffm_release_connection_def by (rule 1, rule 2)
qed

lemma message_frame_queue:
  assumes "message_frame m c rt rt'" "queue_frame rt' rt''"
  shows "message_frame m c rt rt''"
  using assms by (simp add: message_frame_def queue_frame_def conn_of_def)

lemma message_frame_refl: "message_frame m c rt rt"
  by (simp add: message_frame_def ffm_views)

lemma finish_abandoned_frame:
  assumes "message_frame m c rt rt'" "msg_connection_index (msg_of rt' m) = c"
  shows "message_frame m c rt (wt_ffm_finish_abandoned rt' m)"
  using assms
  by (auto simp: wt_ffm_finish_abandoned_def Let_def intro!: message_frame_upd message_frame_queue [OF _ enqueue_frame])


end
