(* ===== verification/Ffm_Witness.thy ===== *)
theory Ffm_Witness
  imports Ffm_Data "HOL-Library.Code_Target_Nat"
begin

text \<open>
  A run of the runtime on a concrete manifest: a non-secure client connects to a service and
  calls it, the partition serves both requests. The properties of the runtime are applied to
  the states of this run.
\<close>

section \<open>The run\<close>

definition example_serve :: "wt_ffm_runtime \<Rightarrow> int \<Rightarrow> wt_ffm_runtime \<times> int" where
  "example_serve rt pid =
     (case wt_ffm_get rt pid 16 of
        (rt1, st, None) \<Rightarrow> (rt1, WT_FFM_ERROR_NOT_READY)
      | (rt1, st, Some msg) \<Rightarrow>
         (case wt_ffm_reply rt1 pid (pm_handle msg) PSA_SUCCESS of (rt2, ret) \<Rightarrow> (rt2, WT_FFM_SUCCESS)))"

definition example_ops :: wt_ffm_port_ops where
  "example_ops = \<lparr>po_check_read = (\<lambda>_ _ _. True), po_check_write = (\<lambda>_ _ _. True),
     po_dispatch = example_serve, po_registered = (\<lambda>_. example_serve)\<rparr>"

definition refuse_ops :: wt_ffm_port_ops where
  "refuse_ops = \<lparr>po_check_read = (\<lambda>_ _ _. True), po_check_write = (\<lambda>_ _ _. True),
     po_dispatch = (\<lambda>rt _. (rt, WT_FFM_ERROR_RESOURCE)),
     po_registered = (\<lambda>_ rt _. (rt, WT_FFM_ERROR_RESOURCE))\<rparr>"

definition example_blank :: wt_ffm_runtime where
  "example_blank = \<lparr>rt_manifest = example_manifest, rt_partitions = [], rt_services = [],
     rt_connections = [], rt_messages = [], rt_lifecycle = 0, g_wt_ffm_refuse_info = 0,
     g_wt_ffm_refuse_base = 0, g_wt_ffm_call_trace = 0, client_memory = (\<lambda>a. ucast a)\<rparr>"

abbreviation (input) conn_handle :: int where "conn_handle \<equiv> wt_ffm_make_handle WT_FFM_HANDLE_CONNECTION 0 1"
abbreviation (input) msg_handle :: "u32 \<Rightarrow> int" where "msg_handle \<equiv> wt_ffm_make_handle WT_FFM_HANDLE_MESSAGE 0"

definition ex0 :: wt_ffm_runtime where "ex0 = fst (wt_ffm_init example_blank (Some example_manifest))"
definition ex1 :: wt_ffm_runtime where "ex1 = fst (wt_ffm_connect_begin ex0 (- 1) 100 1)"
definition ex2 :: wt_ffm_runtime where "ex2 = fst (wt_ffm_get ex1 2 16)"
definition ex3 :: wt_ffm_runtime where "ex3 = fst (wt_ffm_reply ex2 2 (msg_handle 1) PSA_SUCCESS)"
definition ex4 :: wt_ffm_runtime where "ex4 = fst (wt_ffm_connect_finish ex3 0)"
definition ex5 :: wt_ffm_runtime where
  "ex5 = fst (wt_ffm_call_begin example_ops ex4 (- 1) conn_handle 0
     (CArray [\<lparr>inv_base = 100, inv_len = 3\<rparr>]) (CArray [\<lparr>outv_base = 200, outv_len = 4\<rparr>]))"
definition ex6 :: wt_ffm_runtime where "ex6 = fst (wt_ffm_get ex5 2 16)"
definition ex7 :: wt_ffm_runtime where "ex7 = fst (wt_ffm_write ex6 2 (msg_handle 2) 0 (CArray [7, 8]))"
definition ex8 :: wt_ffm_runtime where "ex8 = fst (wt_ffm_reply ex7 2 (msg_handle 2) PSA_SUCCESS)"

lemma ex0_init: "wt_ffm_init example_blank (Some example_manifest) = (ex0, WT_FFM_SUCCESS)"
proof -
  have "snd (wt_ffm_init example_blank (Some example_manifest)) = WT_FFM_SUCCESS" by code_simp
  then show ?thesis by (simp add: ex0_def prod_eq_iff)
qed

lemma ex0_inv: "ffm_inv ex0"
  by (rule init_inv [OF example_accepted ex0_init])

lemma ex1_step: "wt_ffm_connect_begin ex0 (- 1) 100 1 = (ex1, conn_handle, Some 0)"
proof -
  have "snd (wt_ffm_connect_begin ex0 (- 1) 100 1) = (conn_handle, Some 0)" by code_simp
  then show ?thesis by (simp add: ex1_def prod_eq_iff)
qed

lemma ex1_inv: "ffm_inv ex1"
  using connect_begin_cases [OF ex0_inv ex1_step] by blast

lemma ex2_inv: "ffm_inv ex2"
  by (rule get_inv [OF ex1_inv, of 2 16]) (simp add: ex2_def prod_eq_iff)

lemma ex3_inv: "ffm_inv ex3"
  by (rule reply_inv [OF ex2_inv, of 2 "msg_handle 1" PSA_SUCCESS]) (simp add: ex3_def prod_eq_iff)

lemma ex3_complete: "wt_ffm_msg_complete ex3 0"
  by code_simp

lemma ex4_inv: "ffm_inv ex4"
  by (rule connect_finish_inv [OF ex3_inv, of 0])
    (use ex3_complete in \<open>simp_all add: ex4_def prod_eq_iff wt_ffm_msg_complete_def\<close>)

lemma ex4_facts:
  "(let r = ex4 in (wt_ffm_connection_from_handle r (- 1) conn_handle, conn_state (conn_of r 0),
      first_idx (\<lambda>m. \<not> msg_allocated m) (rt_messages r), list_all (\<lambda>m. \<not> msg_allocated m) (rt_messages r),
      length (rt_connections r), mem_read (client_memory r) 100 3)) =
   (Inr 0, WT_IPC_CONNECTION_IDLE, Some 0, True, 16, [100, 101, 102])"
  by code_simp

lemmas ex4_state = ex4_facts [unfolded Let_def prod.inject]

lemma ex4_quiet: "client_quiet ex4 (- 1)"
  using ex4_state ffm_coreD(5) [OF ffm_invD(1) [OF ex4_inv]]
  by (auto simp: client_quiet_def list_all_length msg_of_def)

lemma ex5_step:
  "wt_ffm_call_begin example_ops ex4 (- 1) conn_handle 0 (CArray [\<lparr>inv_base = 100, inv_len = 3\<rparr>])
     (CArray [\<lparr>outv_base = 200, outv_len = 4\<rparr>]) = (ex5, PSA_SUCCESS, Some 0)"
proof -
  have "snd (wt_ffm_call_begin example_ops ex4 (- 1) conn_handle 0 (CArray [\<lparr>inv_base = 100, inv_len = 3\<rparr>])
     (CArray [\<lparr>outv_base = 200, outv_len = 4\<rparr>])) = (PSA_SUCCESS, Some 0)" by code_simp
  then show ?thesis by (simp add: ex5_def prod_eq_iff)
qed

lemma ex5_inv: "ffm_inv ex5"
  using call_begin_inv [OF ex4_inv ex4_quiet ex5_step] by blast

lemma ex6_inv: "ffm_inv ex6"
  by (rule get_inv [OF ex5_inv, of 2 16]) (simp add: ex6_def prod_eq_iff)

lemma ex6_facts:
  "(let r = ex6; m = msg_of r 0 in (wt_ffm_message_from_handle r 2 (msg_handle 2), msg_allocated m,
      msg_abandoned m = NOT_ABANDONED, msg_type m, msg_in_count m, msg_out_count m, msg_in_position m 0,
      request_bytes m 0, written_bytes m 0, msg_out_size m 0)) =
   (Inr 0, True, True, 0, 1, 1, 0, [100, 101, 102], [], 4)"
  by code_simp

lemmas ex6_state = ex6_facts [unfolded Let_def prod.inject]

lemma ex7_step: "wt_ffm_write ex6 2 (msg_handle 2) 0 (CArray [7, 8]) =
    (ex7, snd (wt_ffm_write ex6 2 (msg_handle 2) 0 (CArray [7, 8])))"
  by (simp add: ex7_def prod_eq_iff)

lemma ex7_inv: "ffm_inv ex7"
  by (rule write_inv [OF ex6_inv ex7_step])

lemma ex8_step: "wt_ffm_reply ex7 2 (msg_handle 2) PSA_SUCCESS =
    (ex8, snd (wt_ffm_reply ex7 2 (msg_handle 2) PSA_SUCCESS))"
  by (simp add: ex8_def prod_eq_iff)

lemma ex8_inv: "ffm_inv ex8"
  by (rule reply_inv [OF ex7_inv ex8_step])

lemma ex8_allocated: "msg_allocated (msg_of ex8 0)"
proof -
  have "same_msg 0 ex6 ex7" by (rule stream_keeps(4) [OF ex7_step])
  moreover have "same_msg 0 ex7 ex8"
    by (rule reply_keeps [OF ex8_step]) (use calculation ex6_state in \<open>simp add: same_msg_def\<close>)
  ultimately show ?thesis using ex6_state by (simp add: same_msg_def)
qed

section \<open>The properties on it\<close>

theorem wt_ffm_handle_roundtrip_witness:
  "wt_ffm_decode_handle (wt_ffm_make_handle WT_FFM_HANDLE_CONNECTION 3 5) WT_FFM_HANDLE_CONNECTION
     WT_FFM_MAX_CONNECTIONS = Inr (3, 5)"
  using wt_ffm_handle_roundtrip [of WT_FFM_HANDLE_CONNECTION WT_FFM_MAX_CONNECTIONS] by (simp add: gen_ok_def)


lemma ex0_started: "ffm_started ex0"
  unfolding ffm_started_def using example_accepted ex0_init by blast

lemma ex0_unallocated: "\<not> msg_allocated (msg_of ex0 m)" if "m < WT_FFM_MAX_MESSAGES"
proof -
  have "rt_messages ex0 = replicate WT_FFM_MAX_MESSAGES
      (zero_ffm_message\<lparr>msg_generation := 1, msg_next := WT_FFM_QUEUE_NONE\<rparr>)"
    using ex0_init by (auto simp: wt_ffm_init_def split: if_splits option.splits dest!: arg_cong [of _ ex0 rt_messages])
  then show ?thesis using that by (simp add: msg_of_def zero_ffm_message_def del: replicate.simps)
qed

lemma ex0_quiet: "client_quiet ex0 (- 1)"
  using ex0_unallocated by (simp add: client_quiet_def)

lemma ex0_ex1: "(ffm_moves example_ops)\<^sup>*\<^sup>* ex0 ex1"
  using ffm_step.connect_begin [OF ex0_quiet ex1_step] by blast



lemma ex1_facts:
  "(let r = ex1 in (length (rt_services r), wt_ffm_find_partition r 2, pidx_of r 0, ffm_queue r 0)) =
   (3, Inr 0, 0, [0])"
  by code_simp

lemmas ex1_state = ex1_facts [unfolded Let_def prod.inject]

theorem wt_ffm_queue_refines_list_witness:
  "\<exists>rt'. wt_ffm_dequeue_message ex1 0 0 = Some rt' \<and> ffm_queue rt' 0 = []"
  using wt_ffm_queue_refines_list [OF ex1_inv, of 0 0] ex1_state by auto

theorem wt_ffm_delivery_witness:
  "\<exists>rt' msgs. get_times 1 ex1 2 (sig_of ex1 0) = (rt', msgs) \<and> length msgs = 1 \<and> waiting rt' 0 = {}"
proof -
  obtain rt' msgs where "get_times (length (ffm_queue ex1 0)) ex1 2 (sig_of ex1 0) = (rt', msgs)"
    "map (\<lambda>msg. wt_ffm_decode_handle (pm_handle msg) WT_FFM_HANDLE_MESSAGE WT_FFM_MAX_MESSAGES) msgs =
       map (\<lambda>m. Inr (m, msg_generation (msg_of ex1 m))) (ffm_queue ex1 0)" "waiting rt' 0 = {}"
    using wt_ffm_delivery [OF ex1_inv, of 0 2] ex1_state by auto
  then show ?thesis using ex1_state by auto
qed

lemma example_serves: "dispatch_serves example_ops (- 1)"
proof -
  have "(ffm_serves example_ops (- 1))\<^sup>*\<^sup>* rt (fst (example_serve rt pid))" for rt pid
  proof -
    have g: "ffm_serves example_ops (- 1) rt rt1" if "wt_ffm_get rt pid 16 = (rt1, st, r)" for rt1 st r
      using ffm_step.get [OF that] by (auto simp: ffm_serves_def)
    have r: "ffm_serves example_ops (- 1) rt1 rt2" if "wt_ffm_reply rt1 pid h s = (rt2, ret)" for rt1 rt2 h s ret
      using ffm_step.reply [OF that] by (auto simp: ffm_serves_def)
    obtain rt1 st msg where e: "wt_ffm_get rt pid 16 = (rt1, st, msg)" by (cases "wt_ffm_get rt pid 16")
    show ?thesis
    proof (cases msg)
      case None
      then show ?thesis using e g [OF e] by (simp add: example_serve_def r_into_rtranclp)
    next
      case (Some x)
      obtain rt2 ret where e2: "wt_ffm_reply rt1 pid (pm_handle x) PSA_SUCCESS = (rt2, ret)"
        by (cases "wt_ffm_reply rt1 pid (pm_handle x) PSA_SUCCESS")
      have "(ffm_serves example_ops (- 1))\<^sup>*\<^sup>* rt rt2"
        using g [OF e] r [OF e2] by (meson rtranclp.rtrancl_into_rtrancl r_into_rtranclp)
      then show ?thesis using e e2 Some by (simp add: example_serve_def)
    qed
  qed
  then show ?thesis by (simp add: dispatch_serves_def example_ops_def)
qed


theorem wt_ffm_malformed_call_witness:
  "\<exists>rt'. wt_ffm_call_begin example_ops ex4 (- 1) conn_handle (- 5) (CArray []) (CArray []) =
     (rt', PSA_ERROR_PROGRAMMER_ERROR, None) \<and> rt_messages rt' = rt_messages ex4"
  using wt_ffm_malformed_call [of ex4 "- 1" conn_handle 0 "- 5" "CArray []" "CArray []" example_ops] ex4_state
  by (auto simp: call_malformed_def)

theorem wt_ffm_close_refused_witness:
  "\<exists>rt'. wt_ffm_close refuse_ops ex4 (- 1) conn_handle = Some (rt', WT_FFM_ERROR_RESOURCE) \<and>
     conn_allocated (conn_of rt' 0)"
  using wt_ffm_close_refused [OF ex4_inv ex4_quiet, of conn_handle 0 0 refuse_ops WT_FFM_ERROR_RESOURCE] ex4_state
  by (auto simp: refuse_ops_def)



theorem wt_ffm_partition_restarted_clean_witness:
  "\<exists>rt' n. wt_ffm_partition_restarted ex1 2 PSA_ERROR_GENERIC_ERROR = Some (rt', n) \<and>
     pr_asserted_signals (part_of rt' 0) = 0"
  using wt_ffm_partition_restarted_clean [OF ex1_inv, of 2 0 PSA_ERROR_GENERIC_ERROR] ex1_state by blast

theorem wt_ffm_call_snapshot_witness:
  "map (request_bytes (msg_of ex5 0)) [0..<msg_in_count (msg_of ex5 0)] = [[100, 101, 102]]"
  using wt_ffm_call_snapshot [OF ex4_inv ex4_quiet ex5_step] ex4_state by simp


theorem wt_ffm_write_stream_witness: "written_bytes (msg_of ex7 0) 0 = [7, 8]"
  using wt_ffm_write_stream [OF ex6_inv _ _ _ ex7_step] ex6_state by simp

theorem wt_ffm_publication_witness:
  "fst (snd (wt_ffm_call_finish example_ops ex8 0 (CArray []))) = msg_reply_status (msg_of ex8 0)"
  using wt_ffm_publication [OF ex8_inv _ ex8_allocated, of example_ops "CArray []"]
  by (cases "wt_ffm_call_finish example_ops ex8 0 (CArray [])")
    (simp add: ffm_outputs_writable_def list_all_iff example_ops_def)


end
