(* ===== verification/Vnet_Ring.thy ===== *)
theory Vnet_Ring
  imports Wt_Prelude
begin

text \<open>
  The receive queue of a virtual network interface (\<open>vnet/vnet_ring.c\<close>): a ring of
  descriptors over storage the caller provides. The ring argument is the object itself, so
  the guards that compare it with \<open>NULL\<close> have no counterpart; an output that is written
  only on success is returned as an option. Index arithmetic is done in \<open>unsigned int\<close> and
  truncated to 16 bits, as in the code.
\<close>

section \<open>Status codes\<close>

abbreviation (input) WT_VNET_OK :: int where "WT_VNET_OK \<equiv> 0"
abbreviation (input) WT_VNET_E_BADARG :: int where "WT_VNET_E_BADARG \<equiv> - 3000"
abbreviation (input) WT_VNET_E_NOTREADY :: int where "WT_VNET_E_NOTREADY \<equiv> - 3001"
abbreviation (input) WT_VNET_E_NOT_OPEN :: int where "WT_VNET_E_NOT_OPEN \<equiv> - 3003"
abbreviation (input) WT_VNET_E_INVAL_MAC :: int where "WT_VNET_E_INVAL_MAC \<equiv> - 3010"
abbreviation (input) WT_VNET_E_DUP_MAC :: int where "WT_VNET_E_DUP_MAC \<equiv> - 3011"
abbreviation (input) WT_VNET_E_NO_MAC :: int where "WT_VNET_E_NO_MAC \<equiv> - 3012"
abbreviation (input) WT_VNET_E_SPOOF :: int where "WT_VNET_E_SPOOF \<equiv> - 3013"
abbreviation (input) WT_VNET_E_FRAME_LEN :: int where "WT_VNET_E_FRAME_LEN \<equiv> - 3020"
abbreviation (input) WT_VNET_E_MALFORMED :: int where "WT_VNET_E_MALFORMED \<equiv> - 3021"
abbreviation (input) WT_VNET_E_POOL_FULL :: int where "WT_VNET_E_POOL_FULL \<equiv> - 3030"
abbreviation (input) WT_VNET_E_QUEUE_FULL :: int where "WT_VNET_E_QUEUE_FULL \<equiv> - 3031"
abbreviation (input) WT_VNET_E_EMPTY :: int where "WT_VNET_E_EMPTY \<equiv> - 3032"
abbreviation (input) WT_VNET_E_STALE_COOKIE :: int where "WT_VNET_E_STALE_COOKIE \<equiv> - 3033"
abbreviation (input) WT_VNET_E_NOT_OWNER :: int where "WT_VNET_E_NOT_OWNER \<equiv> - 3034"
abbreviation (input) WT_VNET_E_DOUBLE_RELEASE :: int where "WT_VNET_E_DOUBLE_RELEASE \<equiv> - 3035"
abbreviation (input) WT_VNET_E_DROPPED_UNKNOWN :: int where "WT_VNET_E_DROPPED_UNKNOWN \<equiv> - 3040"
abbreviation (input) WT_VNET_E_DROPPED_POLICY :: int where "WT_VNET_E_DROPPED_POLICY \<equiv> - 3041"

section \<open>Data\<close>

record vnet_rx_desc =
  rd_slot :: u16
  rd_gen :: u16
  rd_len :: u16
  rd_flags :: u16
  rd_src_vm :: u32

record vnet_ring =
  ring_buf :: "vnet_rx_desc list option"
  ring_capacity :: u16
  ring_head :: u16
  ring_tail :: u16
  ring_count :: u16

section \<open>Operations\<close>

definition vnet_ring_init :: "vnet_rx_desc list option \<Rightarrow> u16 \<Rightarrow> vnet_ring" where
  "vnet_ring_init storage capacity =
     \<lparr>ring_buf = storage, ring_capacity = (if storage = None then 0 else capacity),
      ring_head = 0, ring_tail = 0, ring_count = 0\<rparr>"

text \<open>\<open>(uint16_t)((i + 1U) % r->capacity)\<close>\<close>

definition ring_next :: "vnet_ring \<Rightarrow> u16 \<Rightarrow> u16" where
  "ring_next r i = of_nat ((unat i + 1) mod unat (ring_capacity r))"

definition vnet_ring_push :: "vnet_ring \<Rightarrow> vnet_rx_desc \<Rightarrow> int \<times> vnet_ring" where
  "vnet_ring_push r desc =
     (case ring_buf r of
        None \<Rightarrow> (WT_VNET_E_NOTREADY, r)
      | Some buf \<Rightarrow>
          if ring_capacity r = 0 then (WT_VNET_E_NOTREADY, r)
          else if ring_count r \<ge> ring_capacity r then (WT_VNET_E_QUEUE_FULL, r)
          else (WT_VNET_OK,
                r\<lparr>ring_buf := Some (buf[unat (ring_head r) := desc]),
                  ring_head := ring_next r (ring_head r),
                  ring_count := ring_count r + 1\<rparr>))"

definition vnet_ring_pop :: "vnet_ring \<Rightarrow> int \<times> vnet_ring \<times> vnet_rx_desc option" where
  "vnet_ring_pop r =
     (case ring_buf r of
        None \<Rightarrow> (WT_VNET_E_NOTREADY, r, None)
      | Some buf \<Rightarrow>
          if ring_capacity r = 0 then (WT_VNET_E_NOTREADY, r, None)
          else if ring_count r = 0 then (WT_VNET_E_EMPTY, r, None)
          else (WT_VNET_OK,
                r\<lparr>ring_tail := ring_next r (ring_tail r), ring_count := ring_count r - 1\<rparr>,
                Some (buf ! unat (ring_tail r))))"

definition vnet_ring_drop_head :: "vnet_ring \<Rightarrow> int \<times> vnet_ring" where
  "vnet_ring_drop_head r =
     (if ring_buf r = None \<or> ring_capacity r = 0 then (WT_VNET_E_NOTREADY, r)
      else if ring_count r = 0 then (WT_VNET_E_EMPTY, r)
      else (WT_VNET_OK,
            r\<lparr>ring_tail := ring_next r (ring_tail r), ring_count := ring_count r - 1\<rparr>))"

definition vnet_ring_peek :: "vnet_ring \<Rightarrow> int \<times> vnet_rx_desc option" where
  "vnet_ring_peek r =
     (case ring_buf r of
        None \<Rightarrow> (WT_VNET_E_NOTREADY, None)
      | Some buf \<Rightarrow>
          if ring_capacity r = 0 then (WT_VNET_E_NOTREADY, None)
          else if ring_count r = 0 then (WT_VNET_E_EMPTY, None)
          else (WT_VNET_OK, Some (buf ! unat (ring_tail r))))"

definition vnet_ring_count :: "vnet_ring \<Rightarrow> u16" where
  "vnet_ring_count r = ring_count r"

definition vnet_ring_empty :: "vnet_ring \<Rightarrow> bool" where
  "vnet_ring_empty r \<longleftrightarrow> ring_count r = 0"

definition vnet_ring_full :: "vnet_ring \<Rightarrow> bool" where
  "vnet_ring_full r \<longleftrightarrow> ring_count r \<ge> ring_capacity r"

section \<open>The bounded queue a ring promises\<close>

text \<open>
  The contract of the receive queue, in terms of the descriptors it holds from oldest to
  newest. A client of the queue is the loop that discards stale heads.
\<close>

locale bounded_fifo =
  fixes push :: "'q \<Rightarrow> 'a \<Rightarrow> int \<times> 'q"
    and drop_head :: "'q \<Rightarrow> int \<times> 'q"
    and peek :: "'q \<Rightarrow> int \<times> 'a option"
    and items :: "'q \<Rightarrow> 'a list"
    and room :: "'q \<Rightarrow> nat"
    and invar :: "'q \<Rightarrow> bool"
  assumes push_full: "invar q \<Longrightarrow> length (items q) = room q \<Longrightarrow> push q x = (WT_VNET_E_QUEUE_FULL, q)"
    and push_room: "invar q \<Longrightarrow> length (items q) < room q \<Longrightarrow>
      \<exists>q'. push q x = (WT_VNET_OK, q') \<and> invar q' \<and> items q' = items q @ [x] \<and> room q' = room q"
    and peek_items: "invar q \<Longrightarrow> peek q =
      (case items q of [] \<Rightarrow> (WT_VNET_E_EMPTY, None) | x # _ \<Rightarrow> (WT_VNET_OK, Some x))"
    and drop_empty: "invar q \<Longrightarrow> items q = [] \<Longrightarrow> drop_head q = (WT_VNET_E_EMPTY, q)"
    and drop_items: "invar q \<Longrightarrow> items q \<noteq> [] \<Longrightarrow>
      \<exists>q'. drop_head q = (WT_VNET_OK, q') \<and> invar q' \<and> items q' = tl (items q) \<and> room q' = room q"
    and bounded: "invar q \<Longrightarrow> length (items q) \<le> room q"
begin

lemma skip_loop:
  assumes unfold: "\<And>q. sk q = (case peek q of (rc, Some d) \<Rightarrow>
      (if live d then q else sk (snd (drop_head q))) | (rc, None) \<Rightarrow> q)"
    and "invar q"
  shows "invar (sk q) \<and> items (sk q) = dropWhile (\<lambda>d. \<not> live d) (items q) \<and> room (sk q) = room q"
  using \<open>invar q\<close>
proof (induction "items q" arbitrary: q)
  case Nil
  then show ?case using peek_items [of q] unfold [of q] by simp
next
  case (Cons d ds)
  then have p: "peek q = (WT_VNET_OK, Some d)"
    using peek_items [of q] by (metis list.simps(5))
  show ?case
  proof (cases "live d")
    case True
    then show ?thesis using Cons.hyps(2) Cons.prems p unfold [of q]
      by (simp add: Cons.hyps(2) [symmetric])
  next
    case False
    obtain q' where q': "drop_head q = (WT_VNET_OK, q')" "invar q'" "items q' = ds" "room q' = room q"
      using drop_items [OF Cons.prems] Cons.hyps(2) by (metis list.discI list.sel(3))
    then have "sk q = sk q'" using p False unfold [of q] by simp
    then show ?thesis using Cons.hyps(1) [of q'] q' False
      by (simp add: Cons.hyps(2) [symmetric])
  qed
qed

end

section \<open>The ring implements it\<close>

definition ring_wf :: "vnet_ring \<Rightarrow> bool" where
  "ring_wf r \<longleftrightarrow> (\<exists>buf. ring_buf r = Some buf \<and> length buf = unat (ring_capacity r)) \<and>
     0 < unat (ring_capacity r) \<and> unat (ring_count r) \<le> unat (ring_capacity r) \<and>
     unat (ring_tail r) < unat (ring_capacity r) \<and>
     unat (ring_head r) = (unat (ring_tail r) + unat (ring_count r)) mod unat (ring_capacity r)"

definition ring_items :: "vnet_ring \<Rightarrow> vnet_rx_desc list" where
  "ring_items r = (case ring_buf r of None \<Rightarrow> []
     | Some buf \<Rightarrow> map (\<lambda>k. buf ! ((unat (ring_tail r) + k) mod unat (ring_capacity r)))
                     [0..<unat (ring_count r)])"

lemma unat_u16_less: "unat (w :: u16) < 65536"
  using unsigned_less [of w, where 'a = nat] by simp

lemma length_ring_items [simp]: "ring_wf r \<Longrightarrow> length (ring_items r) = unat (ring_count r)"
  by (auto simp: ring_items_def ring_wf_def)

lemma unat_ring_next:
  assumes "0 < unat (ring_capacity r)"
  shows "unat (ring_next r i) = (unat i + 1) mod unat (ring_capacity r)"
proof -
  have "(unat i + 1) mod unat (ring_capacity r) < 65536"
    using unat_u16_less [of "ring_capacity r"] mod_less_divisor [OF assms, of "unat i + 1"] by linarith
  then show ?thesis unfolding ring_next_def by (simp add: unat_of_nat)
qed

lemma unat_dec_u16: "(w :: u16) \<noteq> 0 \<Longrightarrow> unat (w - 1) = unat w - 1"
  by (rule unat_minus_one)

lemma unat_inc_u16: "(w :: u16) < v \<Longrightarrow> unat (w + 1) = unat w + 1"
  using unat_u16_less [of v] by (simp add: word_less_nat_alt unat_word_ariths)

lemma mod_add_distinct_less:
  assumes "k < n" "n < (c :: nat)"
  shows "(t + k) mod c \<noteq> (t + n) mod c"
proof
  assume "(t + k) mod c = (t + n) mod c"
  then have "c dvd n - k" using mod_eq_dvd_iff_nat [of "t + k" "t + n" c] assms by simp
  then show False using assms nat_dvd_not_less [of "n - k" c] by simp
qed

lemma mod_add_distinct: "k < (c :: nat) \<Longrightarrow> n < c \<Longrightarrow> k \<noteq> n \<Longrightarrow> (t + k) mod c \<noteq> (t + n) mod c"
  using mod_add_distinct_less [of k n c t] mod_add_distinct_less [of n k c t] by (cases "k < n") auto

lemma ring_init_wf:
  assumes "length storage = unat capacity" "0 < unat capacity"
  shows "ring_wf (vnet_ring_init (Some storage) capacity)"
    and "ring_items (vnet_ring_init (Some storage) capacity) = []"
  using assms by (simp_all add: ring_wf_def vnet_ring_init_def ring_items_def)

lemma ring_push_full:
  "ring_wf r \<Longrightarrow> length (ring_items r) = unat (ring_capacity r) \<Longrightarrow>
     vnet_ring_push r d = (WT_VNET_E_QUEUE_FULL, r)"
  by (auto simp: vnet_ring_push_def ring_wf_def word_le_nat_alt)

lemma ring_push_room:
  assumes w: "ring_wf r" and l: "length (ring_items r) < unat (ring_capacity r)"
  shows "\<exists>r'. vnet_ring_push r d = (WT_VNET_OK, r') \<and> ring_wf r' \<and>
    ring_items r' = ring_items r @ [d] \<and> unat (ring_capacity r') = unat (ring_capacity r)"
proof -
  obtain buf where b: "ring_buf r = Some buf" "length buf = unat (ring_capacity r)"
    and h: "unat (ring_head r) = (unat (ring_tail r) + unat (ring_count r)) mod unat (ring_capacity r)"
    and t: "unat (ring_tail r) < unat (ring_capacity r)" and c0: "0 < unat (ring_capacity r)"
    using w by (auto simp: ring_wf_def)
  have c: "ring_count r < ring_capacity r" using l w by (simp add: word_less_nat_alt)
  define r' where "r' = r\<lparr>ring_buf := Some (buf[unat (ring_head r) := d]),
      ring_head := ring_next r (ring_head r), ring_count := ring_count r + 1\<rparr>"
  have n: "unat (ring_count r + 1) = unat (ring_count r) + 1" using unat_inc_u16 [OF c] .
  have p: "vnet_ring_push r d = (WT_VNET_OK, r')"
    using b c c0 by (auto simp: vnet_ring_push_def r'_def not_le)
  have "ring_wf r'"
    using b t c0 l w n h by (simp add: ring_wf_def r'_def unat_ring_next mod_Suc_eq)
  moreover have "ring_items r' = ring_items r @ [d]"
  proof (rule nth_equalityI)
    show "length (ring_items r') = length (ring_items r @ [d])"
      using \<open>ring_wf r'\<close> w n by (simp add: r'_def)
    fix k assume "k < length (ring_items r')"
    then have k: "k < unat (ring_count r) + 1" using \<open>ring_wf r'\<close> n by (simp add: r'_def)
    have lt: "unat (ring_head r) < length buf" using b h c0 by simp
    show "ring_items r' ! k = (ring_items r @ [d]) ! k"
    proof (cases "k = unat (ring_count r)")
      case True
      then show ?thesis using b w n lt h by (simp add: ring_items_def r'_def nth_append)
    next
      case False
      then have "(unat (ring_tail r) + k) mod unat (ring_capacity r) \<noteq> unat (ring_head r)"
        using k l w h mod_add_distinct by simp
      then show ?thesis using False k b w n by (simp add: ring_items_def r'_def nth_append)
    qed
  qed
  ultimately show ?thesis using p by (simp add: r'_def)
qed

lemma ring_items_Cons:
  assumes "ring_wf r" "ring_buf r = Some buf" "ring_count r \<noteq> 0"
  shows "ring_items r = buf ! unat (ring_tail r) # ring_items
    (r\<lparr>ring_tail := ring_next r (ring_tail r), ring_count := ring_count r - 1\<rparr>)"
proof -
  have t: "unat (ring_tail r) < unat (ring_capacity r)" using assms(1) by (simp add: ring_wf_def)
  obtain n where n: "unat (ring_count r) = Suc n" using assms(3) by (metis not0_implies_Suc unat_eq_zero)
  have "[0..<Suc n] = 0 # map Suc [0..<n]" by (simp add: upt_conv_Cons map_Suc_upt del: upt_Suc)
  moreover have "(unat (ring_tail r) + Suc k) mod c = ((unat (ring_tail r) + 1) mod c + k) mod c" for k c
    by (simp add: mod_simps)
  ultimately show ?thesis
    using assms t n by (simp add: ring_items_def unat_ring_next unat_dec_u16 del: upt_Suc)
qed

lemma ring_advance_wf:
  assumes "ring_wf r" "ring_count r \<noteq> 0"
  shows "ring_wf (r\<lparr>ring_tail := ring_next r (ring_tail r), ring_count := ring_count r - 1\<rparr>)"
proof -
  obtain n where n: "unat (ring_count r) = Suc n" using assms(2) by (metis not0_implies_Suc unat_eq_zero)
  then show ?thesis using assms
    by (auto simp: ring_wf_def unat_ring_next unat_dec_u16 mod_simps)
qed

lemma ring_items_empty: "ring_wf r \<Longrightarrow> ring_items r = [] \<longleftrightarrow> ring_count r = 0"
  using length_ring_items [of r] by (metis length_0_conv unat_eq_zero)

interpretation rxq: bounded_fifo vnet_ring_push vnet_ring_drop_head vnet_ring_peek ring_items
  "\<lambda>r. unat (ring_capacity r)" ring_wf
proof
  fix q :: vnet_ring and x
  assume w: "ring_wf q"
  then have "ring_capacity q \<noteq> 0" by (auto simp: ring_wf_def)
  then obtain buf where b: "ring_buf q = Some buf" "ring_capacity q \<noteq> 0" using w by (auto simp: ring_wf_def)
  show "vnet_ring_push q x = (WT_VNET_E_QUEUE_FULL, q)" if "length (ring_items q) = unat (ring_capacity q)"
    using ring_push_full [OF w that] .
  show "\<exists>q'. vnet_ring_push q x = (WT_VNET_OK, q') \<and> ring_wf q' \<and> ring_items q' = ring_items q @ [x] \<and>
      unat (ring_capacity q') = unat (ring_capacity q)" if "length (ring_items q) < unat (ring_capacity q)"
    using ring_push_room [OF w that] .
  show "vnet_ring_peek q =
      (case ring_items q of [] \<Rightarrow> (WT_VNET_E_EMPTY, None) | x # _ \<Rightarrow> (WT_VNET_OK, Some x))"
    using w b ring_items_Cons [OF w b(1)] ring_items_empty [OF w]
    by (cases "ring_count q = 0") (simp_all add: vnet_ring_peek_def)
  show "vnet_ring_drop_head q = (WT_VNET_E_EMPTY, q)" if "ring_items q = []"
    using that w b ring_items_empty [OF w] by (simp add: vnet_ring_drop_head_def)
  show "\<exists>q'. vnet_ring_drop_head q = (WT_VNET_OK, q') \<and> ring_wf q' \<and> ring_items q' = tl (ring_items q) \<and>
      unat (ring_capacity q') = unat (ring_capacity q)" if "ring_items q \<noteq> []"
    using that w b ring_items_Cons [OF w b(1)] ring_advance_wf [OF w] ring_items_empty [OF w]
    by (simp add: vnet_ring_drop_head_def)
  show "length (ring_items q) \<le> unat (ring_capacity q)" using w by (simp add: ring_wf_def)
qed

lemma vnet_ring_empty_items: "ring_wf r \<Longrightarrow> vnet_ring_empty r \<longleftrightarrow> ring_items r = []"
  by (simp add: vnet_ring_empty_def ring_items_empty)

lemma vnet_ring_pop_split:
  "vnet_ring_pop r = (fst (vnet_ring_peek r), snd (vnet_ring_drop_head r), snd (vnet_ring_peek r))"
  by (simp add: vnet_ring_pop_def vnet_ring_peek_def vnet_ring_drop_head_def split: option.split)

section \<open>Runs of a ring\<close>

text \<open>
  A sequence of operations on a ring and on the list it stands for, with the results the
  caller sees.
\<close>

datatype ring_op = RPush vnet_rx_desc | RPop | RDrop | RPeek

fun ring_apply :: "ring_op \<Rightarrow> vnet_ring \<Rightarrow> (int \<times> vnet_rx_desc option) \<times> vnet_ring" where
  "ring_apply (RPush d) r = (case vnet_ring_push r d of (rc, r') \<Rightarrow> ((rc, None), r'))"
| "ring_apply RPop r = (case vnet_ring_pop r of (rc, r', out) \<Rightarrow> ((rc, out), r'))"
| "ring_apply RDrop r = (case vnet_ring_drop_head r of (rc, r') \<Rightarrow> ((rc, None), r'))"
| "ring_apply RPeek r = (vnet_ring_peek r, r)"

fun list_apply :: "nat \<Rightarrow> ring_op \<Rightarrow> vnet_rx_desc list \<Rightarrow> (int \<times> vnet_rx_desc option) \<times> vnet_rx_desc list" where
  "list_apply c (RPush d) xs =
     (if length xs < c then ((WT_VNET_OK, None), xs @ [d]) else ((WT_VNET_E_QUEUE_FULL, None), xs))"
| "list_apply c RPop xs =
     (case xs of [] \<Rightarrow> ((WT_VNET_E_EMPTY, None), []) | x # ys \<Rightarrow> ((WT_VNET_OK, Some x), ys))"
| "list_apply c RDrop xs =
     (case xs of [] \<Rightarrow> ((WT_VNET_E_EMPTY, None), []) | x # ys \<Rightarrow> ((WT_VNET_OK, None), ys))"
| "list_apply c RPeek xs =
     (case xs of [] \<Rightarrow> ((WT_VNET_E_EMPTY, None), []) | x # ys \<Rightarrow> ((WT_VNET_OK, Some x), xs))"

fun run_ops :: "('o \<Rightarrow> 's \<Rightarrow> 'r \<times> 's) \<Rightarrow> 'o list \<Rightarrow> 's \<Rightarrow> 'r list \<times> 's" where
  "run_ops f [] s = ([], s)"
| "run_ops f (p # ps) s = (case f p s of (r, s') \<Rightarrow> case run_ops f ps s' of (rs, s'') \<Rightarrow> (r # rs, s''))"

lemma ring_apply_refines:
  assumes "ring_wf r" "ring_apply p r = (res, r')"
  shows "ring_wf r' \<and> unat (ring_capacity r') = unat (ring_capacity r) \<and>
    list_apply (unat (ring_capacity r)) p (ring_items r) = (res, ring_items r')"
proof (cases p)
  case (RPush d)
  show ?thesis
  proof (cases "length (ring_items r) < unat (ring_capacity r)")
    case True
    with rxq.push_room [OF assms(1) True, of d] assms(2) RPush show ?thesis by auto
  next
    case False
    then have "length (ring_items r) = unat (ring_capacity r)" using rxq.bounded [OF assms(1)] by simp
    with rxq.push_full [OF assms(1) this, of d] assms RPush show ?thesis by auto
  qed
next
  case RPeek
  then show ?thesis using assms rxq.peek_items [OF assms(1)] by (auto split: list.splits)
next
  case RPop
  then show ?thesis
    using assms rxq.peek_items [OF assms(1)] rxq.drop_empty [OF assms(1)] rxq.drop_items [OF assms(1)]
    by (cases "ring_items r") (auto simp: vnet_ring_pop_split)
next
  case RDrop
  then show ?thesis
    using assms rxq.drop_empty [OF assms(1)] rxq.drop_items [OF assms(1)] by (cases "ring_items r") auto
qed

lemma ring_run_refines:
  "ring_wf r \<Longrightarrow> run_ops ring_apply ps r = (res, r') \<Longrightarrow>
     ring_wf r' \<and> run_ops (list_apply (unat (ring_capacity r))) ps (ring_items r) = (res, ring_items r') \<and>
     ring_capacity r' = ring_capacity r"
proof (induction ps arbitrary: r res)
  case Nil
  then show ?case by simp
next
  case (Cons p ps)
  obtain x r1 where 1: "ring_apply p r = (x, r1)" by fastforce
  then obtain xs where 2: "run_ops ring_apply ps r1 = (xs, r')" "res = x # xs"
    using Cons.prems(2) by (auto split: prod.splits)
  show ?case using ring_apply_refines [OF Cons.prems(1) 1] Cons.IH [OF _ 2(1)] 2(2)
    by (simp add: word_unat_eq_iff)
qed

text \<open>
  C29: A receive ring set up over storage of its capacity behaves, under every sequence of
  push, pop, drop and peek, exactly like a bounded list: the same status codes, the same
  descriptors in the same order, and in the end the ring holds exactly the list.
\<close>

theorem vnet_ring_refines_fifo:
  assumes "length storage = unat capacity" "0 < unat capacity"
    and "run_ops ring_apply ps (vnet_ring_init (Some storage) capacity) = (res, r)"
  shows "run_ops (list_apply (unat capacity)) ps [] = (res, ring_items r) \<and>
    vnet_ring_count r = of_nat (length (ring_items r)) \<and>
    (vnet_ring_full r \<longleftrightarrow> length (ring_items r) = unat capacity)"
proof -
  have cap: "ring_capacity (vnet_ring_init (Some storage) capacity) = capacity"
    by (simp add: vnet_ring_init_def)
  have R: "ring_wf r \<and> run_ops (list_apply (unat capacity)) ps [] = (res, ring_items r)"
    and C: "ring_capacity r = capacity"
    using ring_run_refines [OF ring_init_wf(1) [OF assms(1,2)] assms(3)]
    by (simp_all only: cap ring_init_wf(2) [OF assms(1,2)])
  moreover have "vnet_ring_count r = of_nat (length (ring_items r))"
    using R by (simp add: vnet_ring_count_def)
  moreover have "vnet_ring_full r \<longleftrightarrow> length (ring_items r) = unat (ring_capacity r)"
    using R rxq.bounded [of r] by (auto simp: vnet_ring_full_def word_le_nat_alt)
  ultimately show ?thesis by (simp only: C)
qed

definition example_desc :: "u16 \<Rightarrow> vnet_rx_desc" where
  "example_desc n = \<lparr>rd_slot = n, rd_gen = 1, rd_len = 60, rd_flags = 0, rd_src_vm = 0\<rparr>"

theorem vnet_ring_refines_fifo_witness:
  "run_ops (list_apply 2) [RPush (example_desc 0), RPush (example_desc 1), RPush (example_desc 2),
      RPop, RPush (example_desc 3), RPop] [] =
    (fst (run_ops ring_apply [RPush (example_desc 0), RPush (example_desc 1), RPush (example_desc 2),
      RPop, RPush (example_desc 3), RPop]
      (vnet_ring_init (Some [example_desc 9, example_desc 9]) 2)), [example_desc 3])"
proof -
  define ps where "ps = [RPush (example_desc 0), RPush (example_desc 1), RPush (example_desc 2),
      RPop, RPush (example_desc 3), RPop]"
  define r0 where "r0 = vnet_ring_init (Some [example_desc 9, example_desc 9]) 2"
  have e: "ring_items (snd (run_ops ring_apply ps r0)) = [example_desc 3]"
    unfolding ps_def r0_def by code_simp
  have "run_ops (list_apply (unat (2 :: u16))) ps [] =
      (fst (run_ops ring_apply ps r0), ring_items (snd (run_ops ring_apply ps r0)))"
    unfolding r0_def
    by (rule vnet_ring_refines_fifo [THEN conjunct1, of "[example_desc 9, example_desc 9]"]) simp_all
  then show ?thesis unfolding e by (simp add: ps_def r0_def)
qed

end
