(* ===== verification/Vnet_Pool.thy ===== *)
theory Vnet_Pool
  imports Vnet_Ring
begin

text \<open>
  The shared pool of frame buffers (\<open>vnet/vnet_pool.c\<close>): reference-counted slots, each with
  a 16-bit generation that an allocation advances. A descriptor names a frame by slot and
  generation, so it goes stale when the slot is freed.
\<close>

abbreviation (input) WT_VNET_FRAME_MAX :: nat where "WT_VNET_FRAME_MAX \<equiv> 1536"
abbreviation (input) VNET_POOL_BAD_SLOT :: u16 where "VNET_POOL_BAD_SLOT \<equiv> 0xFFFF"

section \<open>Data\<close>

record vnet_frame =
  fr_len :: u16
  fr_gen :: u16
  fr_refcnt :: u16
  fr_flags :: u16
  fr_src_vm :: u32
  fr_dst_mask :: u32
  fr_born_tick :: u32
  fr_data :: "u8 list"

record vnet_pool =
  pool_slots :: "vnet_frame list option"
  pool_slot_count :: u16
  pool_in_use_count :: u16

section \<open>Operations\<close>

definition vnet_pool_init :: "vnet_frame list option \<Rightarrow> u16 \<Rightarrow> vnet_pool" where
  "vnet_pool_init storage count =
     (case storage of
        None \<Rightarrow> \<lparr>pool_slots = None, pool_slot_count = 0, pool_in_use_count = 0\<rparr>
      | Some fs \<Rightarrow>
          \<lparr>pool_slots = Some (map (\<lambda>f. f\<lparr>fr_refcnt := 0, fr_gen := 0, fr_len := 0, fr_flags := 0,
                                       fr_src_vm := 0, fr_dst_mask := 0, fr_born_tick := 0\<rparr>)
                                  (take (unat count) fs) @ drop (unat count) fs),
           pool_slot_count = count, pool_in_use_count = 0\<rparr>)"

text \<open>The slots below \<open>slot_count\<close>, which every loop of the file visits.\<close>

definition pool_list :: "vnet_pool \<Rightarrow> vnet_frame list" where
  "pool_list p = (case pool_slots p of None \<Rightarrow> [] | Some fs \<Rightarrow> take (unat (pool_slot_count p)) fs)"

definition pool_upd :: "nat \<Rightarrow> (vnet_frame \<Rightarrow> vnet_frame) \<Rightarrow> vnet_pool \<Rightarrow> vnet_pool" where
  "pool_upd i g p = p\<lparr>pool_slots := map_option (upd_at i g) (pool_slots p)\<rparr>"

definition vnet_pool_alloc :: "vnet_pool \<Rightarrow> u32 \<Rightarrow> u16 \<times> vnet_pool" where
  "vnet_pool_alloc p now_tick =
     (if pool_slots p = None then (VNET_POOL_BAD_SLOT, p)
      else case first_idx (\<lambda>f. fr_refcnt f = 0) (pool_list p) of
        None \<Rightarrow> (VNET_POOL_BAD_SLOT, p)
      | Some i \<Rightarrow>
          (of_nat i,
           (pool_upd i (\<lambda>f. f\<lparr>fr_gen := fr_gen f + 1, fr_refcnt := 1, fr_len := 0, fr_flags := 0,
                              fr_src_vm := 0, fr_dst_mask := 0, fr_born_tick := now_tick\<rparr>) p)
           \<lparr>pool_in_use_count := pool_in_use_count p + 1\<rparr>))"

definition vnet_pool_ref :: "vnet_pool \<Rightarrow> u16 \<Rightarrow> u16 \<Rightarrow> int \<times> vnet_pool" where
  "vnet_pool_ref p slot gen =
     (case pool_slots p of
        None \<Rightarrow> (WT_VNET_E_BADARG, p)
      | Some fs \<Rightarrow>
          if slot \<ge> pool_slot_count p then (WT_VNET_E_BADARG, p)
          else let f = fs ! unat slot in
            if fr_refcnt f = 0 then (WT_VNET_E_STALE_COOKIE, p)
            else if fr_gen f \<noteq> gen then (WT_VNET_E_STALE_COOKIE, p)
            else if fr_refcnt f = 0xFFFF then (WT_VNET_E_BADARG, p)
            else (WT_VNET_OK, pool_upd (unat slot) (\<lambda>f. f\<lparr>fr_refcnt := fr_refcnt f + 1\<rparr>) p))"

text \<open>\<open>if (p->in_use_count > 0U) p->in_use_count--;\<close>\<close>

definition pool_dec_in_use :: "u16 \<Rightarrow> u16" where
  "pool_dec_in_use n = (if n > 0 then n - 1 else n)"

definition vnet_pool_release :: "vnet_pool \<Rightarrow> u16 \<Rightarrow> u16 \<Rightarrow> int \<times> vnet_pool" where
  "vnet_pool_release p slot gen =
     (case pool_slots p of
        None \<Rightarrow> (WT_VNET_E_BADARG, p)
      | Some fs \<Rightarrow>
          if slot \<ge> pool_slot_count p then (WT_VNET_E_BADARG, p)
          else let f = fs ! unat slot in
            if fr_gen f \<noteq> gen then (WT_VNET_E_STALE_COOKIE, p)
            else if fr_refcnt f = 0 then (WT_VNET_E_DOUBLE_RELEASE, p)
            else let p' = pool_upd (unat slot) (\<lambda>f. f\<lparr>fr_refcnt := fr_refcnt f - 1\<rparr>) p in
              if fr_refcnt f - 1 = 0
              then (1, p'\<lparr>pool_in_use_count := pool_dec_in_use (pool_in_use_count p)\<rparr>)
              else (0, p'))"

definition vnet_pool_force_free :: "vnet_pool \<Rightarrow> u16 \<Rightarrow> int \<times> vnet_pool" where
  "vnet_pool_force_free p slot =
     (case pool_slots p of
        None \<Rightarrow> (WT_VNET_E_BADARG, p)
      | Some fs \<Rightarrow>
          if slot \<ge> pool_slot_count p then (WT_VNET_E_BADARG, p)
          else if fr_refcnt (fs ! unat slot) = 0 then (WT_VNET_E_DOUBLE_RELEASE, p)
          else (WT_VNET_OK, (pool_upd (unat slot) (\<lambda>f. f\<lparr>fr_refcnt := 0\<rparr>) p)
                  \<lparr>pool_in_use_count := pool_dec_in_use (pool_in_use_count p)\<rparr>))"

text \<open>
  The expiry loop over the slots, with \<open>in_use_count\<close> and \<open>freed\<close>. The age is a wrapping
  difference of ticks.
\<close>

fun pool_expire :: "u32 \<Rightarrow> u32 \<Rightarrow> vnet_frame list \<Rightarrow> u16 \<Rightarrow> u16 \<Rightarrow> vnet_frame list \<times> u16 \<times> u16" where
  "pool_expire now_tick timeout [] in_use freed = ([], in_use, freed)"
| "pool_expire now_tick timeout (f # fs) in_use freed =
     (if fr_refcnt f \<noteq> 0 \<and> now_tick - fr_born_tick f \<ge> timeout
      then (case pool_expire now_tick timeout fs (pool_dec_in_use in_use) (freed + 1) of
              (fs', u, n) \<Rightarrow> (f\<lparr>fr_refcnt := 0\<rparr> # fs', u, n))
      else (case pool_expire now_tick timeout fs in_use freed of (fs', u, n) \<Rightarrow> (f # fs', u, n)))"

definition vnet_pool_drop_expired :: "vnet_pool \<Rightarrow> u32 \<Rightarrow> u32 \<Rightarrow> u16 \<times> vnet_pool" where
  "vnet_pool_drop_expired p now_tick timeout_ticks =
     (case pool_slots p of
        None \<Rightarrow> (0, p)
      | Some fs \<Rightarrow>
          if timeout_ticks = 0 then (0, p)
          else (case pool_expire now_tick timeout_ticks (pool_list p) (pool_in_use_count p) 0 of
                  (fs', u, n) \<Rightarrow>
                    (n, p\<lparr>pool_slots := Some (fs' @ drop (unat (pool_slot_count p)) fs),
                          pool_in_use_count := u\<rparr>)))"

text \<open>The pointer to a live frame, as its index.\<close>

definition vnet_pool_slot :: "vnet_pool \<Rightarrow> u16 \<Rightarrow> u16 \<Rightarrow> nat option" where
  "vnet_pool_slot p slot gen =
     (case pool_slots p of
        None \<Rightarrow> None
      | Some fs \<Rightarrow>
          if slot \<ge> pool_slot_count p then None
          else if fr_refcnt (fs ! unat slot) = 0 then None
          else if fr_gen (fs ! unat slot) \<noteq> gen then None
          else Some (unat slot))"

definition vnet_pool_free_count :: "vnet_pool \<Rightarrow> u16" where
  "vnet_pool_free_count p = pool_slot_count p - pool_in_use_count p"

definition vnet_pool_in_use_count :: "vnet_pool \<Rightarrow> u16" where
  "vnet_pool_in_use_count p = pool_in_use_count p"

section \<open>The pool invariant\<close>

definition frame_wf :: "vnet_frame \<Rightarrow> bool" where
  "frame_wf f \<longleftrightarrow> length (fr_data f) = WT_VNET_FRAME_MAX \<and> unat (fr_len f) \<le> WT_VNET_FRAME_MAX"

definition pool_wf :: "vnet_pool \<Rightarrow> bool" where
  "pool_wf p \<longleftrightarrow> (\<exists>fs. pool_slots p = Some fs \<and> length fs = unat (pool_slot_count p)) \<and>
     unat (pool_in_use_count p) = count_if (\<lambda>f. fr_refcnt f \<noteq> 0) (pool_list p) \<and>
     (\<forall>f \<in> set (pool_list p). frame_wf f)"

definition frame_of :: "vnet_pool \<Rightarrow> u16 \<Rightarrow> vnet_frame" where
  "frame_of p s = pool_list p ! unat s"

lemma pool_wf_slots: "pool_wf p \<Longrightarrow> pool_slots p = Some (pool_list p)"
  by (auto simp: pool_wf_def pool_list_def)

lemma pool_wf_length [simp]: "pool_wf p \<Longrightarrow> length (pool_list p) = unat (pool_slot_count p)"
  by (auto simp: pool_wf_def pool_list_def)

lemma pool_list_upd [simp]: "pool_list (pool_upd i g p) = upd_at i g (pool_list p)"
  by (simp add: pool_list_def pool_upd_def split: option.split)

lemma pool_upd_simps [simp]:
  "pool_slot_count (pool_upd i g p) = pool_slot_count p"
  "pool_in_use_count (pool_upd i g p) = pool_in_use_count p"
  "pool_list (p\<lparr>pool_in_use_count := u\<rparr>) = pool_list p"
  by (simp_all add: pool_upd_def pool_list_def split: option.split)

lemma frame_of_simps [simp]:
  "frame_of (p\<lparr>pool_in_use_count := u\<rparr>) s = frame_of p s"
  "pool_wf p \<Longrightarrow> s < pool_slot_count p \<Longrightarrow>
     frame_of (pool_upd i g p) s = (if unat s = i then g (frame_of p s) else frame_of p s)"
  by (auto simp: frame_of_def word_less_nat_alt)

lemma pool_wf_upd:
  assumes w: "pool_wf p" and i: "i < unat (pool_slot_count p)"
    and f: "frame_wf (pool_list p ! i) \<Longrightarrow> frame_wf (g (pool_list p ! i))"
    and u: "unat u + (if fr_refcnt (pool_list p ! i) \<noteq> 0 then 1 else 0) =
            unat (pool_in_use_count p) + (if fr_refcnt (g (pool_list p ! i)) \<noteq> 0 then 1 else 0)"
  shows "pool_wf ((pool_upd i g p)\<lparr>pool_in_use_count := u\<rparr>)"
proof -
  have l: "length (pool_list p) = unat (pool_slot_count p)"
    and n: "unat (pool_in_use_count p) = count_if (\<lambda>f. fr_refcnt f \<noteq> 0) (pool_list p)"
    and fs: "\<forall>f \<in> set (pool_list p). frame_wf f"
    using w by (simp, simp_all add: pool_wf_def)
  have c: "count_if (\<lambda>f. fr_refcnt f \<noteq> 0) (upd_at i g (pool_list p)) = unat u"
    using count_if_upd_at [of i "pool_list p" "\<lambda>f. fr_refcnt f \<noteq> 0" g] i u l n by linarith
  have "\<forall>x \<in> set (upd_at i g (pool_list p)). frame_wf x"
    using fs i f l by (auto simp: all_set_conv_all_nth)
  moreover have "pool_slots (pool_upd i g p) = Some (upd_at i g (pool_list p))"
    by (simp add: pool_upd_def pool_wf_slots [OF w])
  ultimately show ?thesis unfolding pool_wf_def using c l by simp
qed

lemma pool_in_use_pos:
  assumes "pool_wf p" "i < unat (pool_slot_count p)" "fr_refcnt (pool_list p ! i) \<noteq> 0"
  shows "pool_in_use_count p \<noteq> 0"
proof -
  have "count_if (\<lambda>f. fr_refcnt f \<noteq> 0) (pool_list p) \<noteq> 0"
    using assms(2,3) pool_wf_length [OF assms(1)]
    by (fastforce simp: count_if_def filter_empty_conv in_set_conv_nth)
  then show ?thesis using assms(1) by (auto simp: pool_wf_def)
qed

lemma pool_in_use_room:
  assumes "pool_wf p" "i < unat (pool_slot_count p)" "fr_refcnt (pool_list p ! i) = 0"
  shows "unat (pool_in_use_count p) < unat (pool_slot_count p)"
proof -
  have "count_if (\<lambda>f. fr_refcnt f \<noteq> 0) (pool_list p) < length (pool_list p)"
    unfolding count_if_def using assms pool_wf_length [OF assms(1)]
    by (intro length_filter_less [of "pool_list p ! i"]) simp_all
  then show ?thesis using assms(1) pool_wf_length [OF assms(1)] by (simp add: pool_wf_def)
qed

lemma pool_dec_in_use_unat: "n \<noteq> 0 \<Longrightarrow> unat (pool_dec_in_use n) = unat n - 1"
  by (simp add: pool_dec_in_use_def unat_dec_u16 word_neq_0_conv)

lemma unat_nz: "(w :: 'a::len word) \<noteq> 0 \<Longrightarrow> 0 < unat w"
  by (simp add: unat_gt_0)

section \<open>What the operations do\<close>

lemma pool_init_wf:
  assumes "length fs = unat count" "\<forall>f\<in>set fs. length (fr_data f) = WT_VNET_FRAME_MAX"
  shows "pool_wf (vnet_pool_init (Some fs) count)"
    and "pool_slot_count (vnet_pool_init (Some fs) count) = count"
    and "\<And>s. s < count \<Longrightarrow> fr_refcnt (frame_of (vnet_pool_init (Some fs) count) s) = 0 \<and>
           fr_gen (frame_of (vnet_pool_init (Some fs) count) s) = 0"
  using assms by (auto simp: vnet_pool_init_def pool_wf_def pool_list_def frame_wf_def count_if_def
      frame_of_def word_less_nat_alt filter_empty_conv)

lemma pool_alloc_cases:
  assumes w: "pool_wf p" and a: "vnet_pool_alloc p now = (slot, p')"
  obtains (full) "slot = VNET_POOL_BAD_SLOT" "p' = p"
      "\<And>s. s < pool_slot_count p \<Longrightarrow> fr_refcnt (frame_of p s) \<noteq> 0"
  | (ok) "slot < pool_slot_count p" "slot \<noteq> VNET_POOL_BAD_SLOT" "fr_refcnt (frame_of p slot) = 0"
      "pool_wf p'" "pool_slot_count p' = pool_slot_count p"
      "\<And>s. s < pool_slot_count p \<Longrightarrow> frame_of p' s = (if s = slot then (frame_of p s)
         \<lparr>fr_gen := fr_gen (frame_of p s) + 1, fr_refcnt := 1, fr_len := 0, fr_flags := 0,
          fr_src_vm := 0, fr_dst_mask := 0, fr_born_tick := now\<rparr> else frame_of p s)"
proof (cases "first_idx (\<lambda>f. fr_refcnt f = 0) (pool_list p)")
  case None
  show ?thesis
  proof (rule full)
    show "slot = VNET_POOL_BAD_SLOT" "p' = p"
      using a None pool_wf_slots [OF w] by (auto simp: vnet_pool_alloc_def)
    show "fr_refcnt (frame_of p s) \<noteq> 0" if "s < pool_slot_count p" for s
      using first_idx_None_nth [OF None, of "unat s"] that w by (simp add: frame_of_def word_less_nat_alt)
  qed
next
  case (Some i)
  note S = first_idx_Some [OF Some]
  have i: "i < unat (pool_slot_count p)" using S w by simp
  then have si: "unat (of_nat i :: u16) = i"
    using unat_u16_less [of "pool_slot_count p"] by (simp add: unat_of_nat)
  have sl: "slot = of_nat i" and p': "p' = (pool_upd i (\<lambda>f. f\<lparr>fr_gen := fr_gen f + 1, fr_refcnt := 1,
      fr_len := 0, fr_flags := 0, fr_src_vm := 0, fr_dst_mask := 0, fr_born_tick := now\<rparr>) p)
      \<lparr>pool_in_use_count := pool_in_use_count p + 1\<rparr>"
    using a Some pool_wf_slots [OF w] by (auto simp: vnet_pool_alloc_def)
  show ?thesis
  proof (rule ok)
    show lt: "slot < pool_slot_count p" using i si sl by (simp add: word_less_nat_alt)
    then show "slot \<noteq> VNET_POOL_BAD_SLOT"
      using unat_u16_less [of "pool_slot_count p"]
      by (auto simp: word_less_nat_alt)
    show "fr_refcnt (frame_of p slot) = 0" using S si sl by (simp add: frame_of_def)
    have "unat (pool_in_use_count p + 1) = unat (pool_in_use_count p) + 1"
      using pool_in_use_room [OF w i] S by (intro unat_inc_u16 [of _ "pool_slot_count p"])
        (simp add: word_less_nat_alt)
    then show "pool_wf p'"
      unfolding p' using S by (intro pool_wf_upd [OF w i]) (auto simp: frame_wf_def)
    show "pool_slot_count p' = pool_slot_count p" by (simp add: p')
    show "frame_of p' s = (if s = slot then (frame_of p s)
        \<lparr>fr_gen := fr_gen (frame_of p s) + 1, fr_refcnt := 1, fr_len := 0, fr_flags := 0,
          fr_src_vm := 0, fr_dst_mask := 0, fr_born_tick := now\<rparr> else frame_of p s)"
      if "s < pool_slot_count p" for s
      using that w si sl by (auto simp: p' word_unat_eq_iff)
  qed
qed

text \<open>A slot and generation that name a frame in use.\<close>

definition pool_live :: "vnet_pool \<Rightarrow> u16 \<Rightarrow> u16 \<Rightarrow> bool" where
  "pool_live p slot gen \<longleftrightarrow> slot < pool_slot_count p \<and> fr_refcnt (frame_of p slot) \<noteq> 0 \<and>
     fr_gen (frame_of p slot) = gen"

lemma pool_nth: "pool_wf p \<Longrightarrow> pool_slots p = Some fs \<Longrightarrow> fs ! unat s = frame_of p s"
  by (simp add: pool_wf_slots frame_of_def)

lemma vnet_pool_slot_live:
  "pool_wf p \<Longrightarrow> vnet_pool_slot p slot gen = (if pool_live p slot gen then Some (unat slot) else None)"
  by (auto simp: vnet_pool_slot_def pool_live_def pool_wf_slots frame_of_def)

lemma pool_ref_cases:
  assumes w: "pool_wf p" and r: "vnet_pool_ref p slot gen = (rc, p')"
  obtains (refused) "rc \<noteq> WT_VNET_OK" "p' = p" "\<not> pool_live p slot gen \<or> fr_refcnt (frame_of p slot) = 0xFFFF"
  | (ok) "rc = WT_VNET_OK" "pool_live p slot gen" "fr_refcnt (frame_of p slot) \<noteq> 0xFFFF" "pool_wf p'"
      "pool_slot_count p' = pool_slot_count p" "\<And>s. s < pool_slot_count p \<Longrightarrow>
        frame_of p' s = (if s = slot then (frame_of p s)\<lparr>fr_refcnt := fr_refcnt (frame_of p s) + 1\<rparr>
                         else frame_of p s)"
proof (cases "pool_live p slot gen \<and> fr_refcnt (frame_of p slot) \<noteq> 0xFFFF")
  case False
  then have "rc \<noteq> WT_VNET_OK" "p' = p"
    using r by (auto simp: vnet_pool_ref_def pool_live_def Let_def frame_of_def not_le pool_wf_slots [OF w]
        split: if_splits)
  then show ?thesis using refused False by blast
next
  case True
  then have lt: "unat slot < unat (pool_slot_count p)" and nle: "\<not> pool_slot_count p \<le> slot"
    by (simp_all add: pool_live_def word_less_nat_alt not_le)
  have p': "rc = WT_VNET_OK" "p' = (pool_upd (unat slot) (\<lambda>f. f\<lparr>fr_refcnt := fr_refcnt f + 1\<rparr>) p)
      \<lparr>pool_in_use_count := pool_in_use_count p\<rparr>"
    using r True by (auto simp: vnet_pool_ref_def pool_live_def Let_def frame_of_def nle pool_wf_slots [OF w]
        pool_upd_def split: if_splits)
  have "fr_refcnt (frame_of p slot) + 1 \<noteq> 0"
  proof
    assume "fr_refcnt (frame_of p slot) + 1 = 0"
    then have "fr_refcnt (frame_of p slot) = - 1" by (simp add: eq_neg_iff_add_eq_0)
    then show False using True by simp
  qed
  then have "pool_wf p'" unfolding p'(2)
    using True by (intro pool_wf_upd [OF w lt]) (auto simp: frame_wf_def pool_live_def frame_of_def)
  then show ?thesis using ok p' True w by (simp add: word_unat_eq_iff)
qed

lemma pool_release_cases:
  assumes w: "pool_wf p" and r: "vnet_pool_release p slot gen = (rc, p')"
  obtains (refused) "rc < 0" "p' = p" "\<not> pool_live p slot gen"
  | (ok) "rc = 0 \<or> rc = 1" "pool_live p slot gen" "pool_wf p'"
      "pool_slot_count p' = pool_slot_count p" "\<And>s. s < pool_slot_count p \<Longrightarrow>
        frame_of p' s = (if s = slot then (frame_of p s)\<lparr>fr_refcnt := fr_refcnt (frame_of p s) - 1\<rparr>
                         else frame_of p s)"
proof (cases "pool_live p slot gen")
  case False
  then have "rc < 0" "p' = p"
    using r by (auto simp: vnet_pool_release_def pool_live_def Let_def frame_of_def not_le pool_wf_slots [OF w]
        split: if_splits)
  then show ?thesis using refused False by blast
next
  case True
  then have lt: "unat slot < unat (pool_slot_count p)" and nle: "\<not> pool_slot_count p \<le> slot"
    by (simp_all add: pool_live_def word_less_nat_alt not_le)
  define u where "u = (if fr_refcnt (frame_of p slot) - 1 = 0 then pool_dec_in_use (pool_in_use_count p)
      else pool_in_use_count p)"
  have rc: "rc = 0 \<or> rc = 1" and p': "p' = (pool_upd (unat slot) (\<lambda>f. f\<lparr>fr_refcnt := fr_refcnt f - 1\<rparr>) p)
      \<lparr>pool_in_use_count := u\<rparr>"
    using r True by (auto simp: vnet_pool_release_def pool_live_def Let_def frame_of_def nle pool_wf_slots [OF w]
        pool_upd_def u_def split: if_splits)
  have nz: "fr_refcnt (pool_list p ! unat slot) \<noteq> 0" using True by (simp add: pool_live_def frame_of_def)
  have "unat u + 1 = unat (pool_in_use_count p) + (if fr_refcnt (frame_of p slot) - 1 \<noteq> 0 then 1 else 0)"
    using pool_dec_in_use_unat [OF pool_in_use_pos [OF w lt nz]] unat_nz [OF pool_in_use_pos [OF w lt nz]]
    by (auto simp: u_def)
  then have "pool_wf p'" unfolding p'
    using nz by (intro pool_wf_upd [OF w lt]) (auto simp: frame_wf_def frame_of_def)
  then show ?thesis using ok rc p' True w by (simp add: word_unat_eq_iff)
qed

definition frame_expired :: "u32 \<Rightarrow> u32 \<Rightarrow> vnet_frame \<Rightarrow> bool" where
  "frame_expired now timeout f \<longleftrightarrow> fr_refcnt f \<noteq> 0 \<and> now - fr_born_tick f \<ge> timeout"

lemma pool_expire_result:
  "pool_expire now timeout fs u n = (fs', u', n') \<Longrightarrow> count_if (frame_expired now timeout) fs \<le> unat u \<Longrightarrow>
   unat n + length fs < 65536 \<Longrightarrow>
     fs' = map (\<lambda>f. if frame_expired now timeout f then f\<lparr>fr_refcnt := 0\<rparr> else f) fs \<and>
     unat u' = unat u - count_if (frame_expired now timeout) fs \<and>
     unat n' = unat n + count_if (frame_expired now timeout) fs"
proof (induction fs arbitrary: u n fs' u' n')
  case Nil
  then show ?case by simp
next
  case (Cons f fs)
  show ?case
  proof (cases "frame_expired now timeout f")
    case True
    have nz: "u \<noteq> 0" using Cons.prems(2) True by auto
    have n1: "unat (n + 1) = unat n + 1" using Cons.prems(3) by (simp add: unat_word_ariths)
    obtain gs where "pool_expire now timeout fs (pool_dec_in_use u) (n + 1) = (gs, u', n')"
      "fs' = f\<lparr>fr_refcnt := 0\<rparr> # gs"
      using Cons.prems(1) True by (auto simp: frame_expired_def split: prod.splits)
    then show ?thesis using Cons.IH [of "pool_dec_in_use u" "n + 1" gs u' n'] Cons.prems(2,3) True nz n1
      by (simp add: pool_dec_in_use_unat)
  next
    case False
    obtain gs where "pool_expire now timeout fs u n = (gs, u', n')" "fs' = f # gs"
      using Cons.prems(1) False by (auto simp: frame_expired_def split: prod.splits if_splits)
    then show ?thesis using Cons.IH [of u n gs u' n'] Cons.prems(2,3) False by simp
  qed
qed

lemma count_if_split: "count_if P xs = count_if (\<lambda>x. P x \<and> Q x) xs + count_if (\<lambda>x. P x \<and> \<not> Q x) xs"
  by (induction xs) auto

lemma count_if_map: "count_if P (map g xs) = count_if (\<lambda>x. P (g x)) xs"
  by (induction xs) auto

lemma pool_drop_expired_result:
  assumes w: "pool_wf p" and d: "vnet_pool_drop_expired p now timeout = (n, p')"
  shows "pool_wf p' \<and> pool_slot_count p' = pool_slot_count p \<and>
    (\<forall>s. s < pool_slot_count p \<longrightarrow> frame_of p' s =
      (if timeout \<noteq> 0 \<and> frame_expired now timeout (frame_of p s) then (frame_of p s)\<lparr>fr_refcnt := 0\<rparr>
       else frame_of p s)) \<and> (n = 0 \<longrightarrow> p' = p)"
proof (cases "timeout = 0")
  case True
  then show ?thesis using w d pool_wf_slots [OF w] by (simp add: vnet_pool_drop_expired_def)
next
  case False
  let ?E = "frame_expired now timeout"
  let ?g = "\<lambda>f. if ?E f then f\<lparr>fr_refcnt := 0\<rparr> else f"
  obtain fs u where e: "pool_expire now timeout (pool_list p) (pool_in_use_count p) 0 = (fs, u, n)"
    and p': "p' = p\<lparr>pool_slots := Some fs, pool_in_use_count := u\<rparr>"
    using d False pool_wf_slots [OF w] pool_wf_length [OF w]
    by (auto simp: vnet_pool_drop_expired_def split: prod.splits)
  have cs: "count_if (\<lambda>f. fr_refcnt f \<noteq> 0) (pool_list p) =
      count_if ?E (pool_list p) + count_if (\<lambda>f. fr_refcnt (?g f) \<noteq> 0) (pool_list p)"
    by (subst count_if_split [where Q = ?E]) (auto simp: frame_expired_def count_if_def intro!: arg_cong2 [where f = "(+)"]
        arg_cong [where f = length] filter_cong)
  then have le: "count_if ?E (pool_list p) \<le> unat (pool_in_use_count p)" using w by (simp add: pool_wf_def)
  note R = pool_expire_result [OF e le]
  have fs: "fs = map ?g (pool_list p)"
    and u: "unat u = unat (pool_in_use_count p) - count_if ?E (pool_list p)"
    and n: "unat n = count_if ?E (pool_list p)"
    using R unat_u16_less [of "pool_slot_count p"] pool_wf_length [OF w] by simp_all
  have pl: "pool_list p' = fs" using pool_wf_length [OF w] by (simp add: p' pool_list_def fs)
  have "unat (pool_in_use_count p') = count_if (\<lambda>f. fr_refcnt f \<noteq> 0) (pool_list p')"
    unfolding pl unfolding fs count_if_map using u cs w by (simp add: p' pool_wf_def)
  moreover have "\<forall>f \<in> set (pool_list p'). frame_wf f" using w by (auto simp: pl fs pool_wf_def frame_wf_def)
  ultimately have W: "pool_wf p'" unfolding pool_wf_def using pool_wf_length [OF w] by (simp add: p' fs)
  have F: "frame_of p' s = ?g (frame_of p s)" if "s < pool_slot_count p" for s
    using that pool_wf_length [OF w] by (simp add: frame_of_def pl fs word_less_nat_alt)
  have "p' = p" if "n = 0"
  proof -
    have "filter ?E (pool_list p) = []" using n that by (simp add: count_if_def)
    then have "fs = pool_list p" unfolding fs by (intro map_idI) (auto simp: filter_empty_conv)
    moreover have "u = pool_in_use_count p" using u n that by (simp add: word_unat_eq_iff)
    ultimately show ?thesis using pool_wf_slots [OF w] by (simp add: p')
  qed
  then show ?thesis using W F False by (simp add: p')
qed

end
