(* ===== verification/Vnet_Fdb.thy ===== *)
theory Vnet_Fdb
  imports Vnet_Ring
begin

text \<open>
  Ethernet addresses and the forwarding database (\<open>vnet/vnet_mac.c\<close>, \<open>vnet/vnet_fdb.c\<close>): a
  table of addresses, each assigned to a guest or learned from its traffic. The pointer to
  an entry is its index, and two entry pointers are equal when the indices are.
\<close>

section \<open>Addresses\<close>

datatype vnet_mac = Mac u8 u8 u8 u8 u8 u8

abbreviation (input) VNET_FDB_NO_VM :: u32 where "VNET_FDB_NO_VM \<equiv> 0xFFFFFFFF"

fun vnet_mac_is_zero :: "vnet_mac \<Rightarrow> bool" where
  "vnet_mac_is_zero (Mac a b c d e f) \<longleftrightarrow> (a OR b OR c OR d OR e OR f) = 0"

fun vnet_mac_is_broadcast :: "vnet_mac \<Rightarrow> bool" where
  "vnet_mac_is_broadcast (Mac a b c d e f) \<longleftrightarrow> (a AND b AND c AND d AND e AND f) = 0xFF"

fun vnet_mac_is_multicast :: "vnet_mac \<Rightarrow> bool" where
  "vnet_mac_is_multicast (Mac a b c d e f) \<longleftrightarrow> a AND 0x01 \<noteq> 0"

fun vnet_mac_is_locally_administered :: "vnet_mac \<Rightarrow> bool" where
  "vnet_mac_is_locally_administered (Mac a b c d e f) \<longleftrightarrow> a AND 0x02 \<noteq> 0"

definition vnet_mac_is_locally_administered_unicast :: "vnet_mac \<Rightarrow> bool" where
  "vnet_mac_is_locally_administered_unicast m \<longleftrightarrow>
     \<not> vnet_mac_is_zero m \<and> \<not> vnet_mac_is_multicast m \<and> vnet_mac_is_locally_administered m"

fun vnet_mac_equals :: "vnet_mac \<Rightarrow> vnet_mac \<Rightarrow> bool" where
  "vnet_mac_equals (Mac a b c d e f) (Mac a' b' c' d' e' f') \<longleftrightarrow>
     ((a XOR a') OR (b XOR b') OR (c XOR c') OR (d XOR d') OR (e XOR e') OR (f XOR f')) = 0"

definition vnet_mac_copy :: "vnet_mac \<Rightarrow> vnet_mac \<Rightarrow> vnet_mac" where
  "vnet_mac_copy dst src = src"

section \<open>The table\<close>

datatype vnet_fdb_kind = VNET_FDB_EMPTY | VNET_FDB_ASSIGNED | VNET_FDB_LEARNED

record vnet_fdb_entry =
  fe_mac :: vnet_mac
  fe_guest_id :: u32
  fe_kind :: vnet_fdb_kind

record vnet_fdb =
  fdb_entries :: "vnet_fdb_entry list option"
  fdb_capacity :: u16

text \<open>The entries below \<open>capacity\<close>, and the update of one of them.\<close>

definition fdb_list :: "vnet_fdb \<Rightarrow> vnet_fdb_entry list" where
  "fdb_list fdb = (case fdb_entries fdb of None \<Rightarrow> [] | Some es \<Rightarrow> take (unat (fdb_capacity fdb)) es)"

definition fdb_upd :: "nat \<Rightarrow> (vnet_fdb_entry \<Rightarrow> vnet_fdb_entry) \<Rightarrow> vnet_fdb \<Rightarrow> vnet_fdb" where
  "fdb_upd i g fdb = fdb\<lparr>fdb_entries := map_option (upd_at i g) (fdb_entries fdb)\<rparr>"

definition fdb_find_mac :: "vnet_fdb \<Rightarrow> vnet_mac \<Rightarrow> nat option" where
  "fdb_find_mac fdb mac =
     first_idx (\<lambda>e. fe_kind e \<noteq> VNET_FDB_EMPTY \<and> vnet_mac_equals (fe_mac e) mac) (fdb_list fdb)"

definition fdb_find_assigned_by_guest :: "vnet_fdb \<Rightarrow> u32 \<Rightarrow> nat option" where
  "fdb_find_assigned_by_guest fdb guest_id =
     first_idx (\<lambda>e. fe_kind e = VNET_FDB_ASSIGNED \<and> fe_guest_id e = guest_id) (fdb_list fdb)"

definition fdb_find_empty :: "vnet_fdb \<Rightarrow> nat option" where
  "fdb_find_empty fdb = first_idx (\<lambda>e. fe_kind e = VNET_FDB_EMPTY) (fdb_list fdb)"

definition fdb_evict_oldest_learned :: "vnet_fdb \<Rightarrow> nat option" where
  "fdb_evict_oldest_learned fdb = first_idx (\<lambda>e. fe_kind e = VNET_FDB_LEARNED) (fdb_list fdb)"

definition vnet_fdb_init :: "vnet_fdb_entry list option \<Rightarrow> u16 \<Rightarrow> vnet_fdb" where
  "vnet_fdb_init storage capacity =
     (case storage of
        None \<Rightarrow> \<lparr>fdb_entries = None, fdb_capacity = 0\<rparr>
      | Some es \<Rightarrow>
          \<lparr>fdb_entries = Some (map (\<lambda>e. e\<lparr>fe_kind := VNET_FDB_EMPTY, fe_guest_id := VNET_FDB_NO_VM\<rparr>)
                                   (take (unat capacity) es) @ drop (unat capacity) es),
           fdb_capacity = capacity\<rparr>)"

text \<open>
  \<open>slot = fdb_find_empty(fdb); if (slot == NULL) slot = fdb_evict_oldest_learned(fdb);\<close> and the
  three stores into the slot, or \<open>WT_VNET_E_NOTREADY\<close>.
\<close>

definition fdb_fill :: "vnet_fdb \<Rightarrow> u32 \<Rightarrow> vnet_mac \<Rightarrow> vnet_fdb_kind \<Rightarrow> int \<times> vnet_fdb" where
  "fdb_fill fdb guest_id mac kind =
     (case (case fdb_find_empty fdb of Some i \<Rightarrow> Some i | None \<Rightarrow> fdb_evict_oldest_learned fdb) of
        None \<Rightarrow> (WT_VNET_E_NOTREADY, fdb)
      | Some i \<Rightarrow> (WT_VNET_OK, fdb_upd i (\<lambda>e. e\<lparr>fe_mac := vnet_mac_copy (fe_mac e) mac,
                                               fe_guest_id := guest_id, fe_kind := kind\<rparr>) fdb))"

definition vnet_fdb_assign :: "vnet_fdb \<Rightarrow> u32 \<Rightarrow> vnet_mac \<Rightarrow> int \<times> vnet_fdb" where
  "vnet_fdb_assign fdb guest_id mac =
     (if guest_id = VNET_FDB_NO_VM then (WT_VNET_E_BADARG, fdb)
      else if \<not> vnet_mac_is_locally_administered_unicast mac then (WT_VNET_E_INVAL_MAC, fdb)
      else let e_mac = fdb_find_mac fdb mac; e_guest = fdb_find_assigned_by_guest fdb guest_id in
        case e_mac of
          Some i \<Rightarrow>
            if fe_kind (fdb_list fdb ! i) = VNET_FDB_ASSIGNED
            then (if fe_guest_id (fdb_list fdb ! i) = guest_id then (WT_VNET_OK, fdb)
                  else (WT_VNET_E_DUP_MAC, fdb))
            else if e_guest \<noteq> None \<and> e_mac \<noteq> e_guest then (WT_VNET_E_DUP_MAC, fdb)
            else (WT_VNET_OK, fdb_upd i (\<lambda>e. e\<lparr>fe_kind := VNET_FDB_ASSIGNED, fe_guest_id := guest_id\<rparr>) fdb)
        | None \<Rightarrow>
            if e_guest \<noteq> None then (WT_VNET_E_DUP_MAC, fdb)
            else fdb_fill fdb guest_id mac VNET_FDB_ASSIGNED)"

definition vnet_fdb_release :: "vnet_fdb \<Rightarrow> u32 \<Rightarrow> vnet_fdb" where
  "vnet_fdb_release fdb guest_id =
     fdb\<lparr>fdb_entries := map_option (\<lambda>es.
       map (\<lambda>e. if fe_kind e \<noteq> VNET_FDB_EMPTY \<and> fe_guest_id e = guest_id
                then e\<lparr>fe_kind := VNET_FDB_EMPTY, fe_guest_id := VNET_FDB_NO_VM\<rparr> else e)
         (take (unat (fdb_capacity fdb)) es) @ drop (unat (fdb_capacity fdb)) es) (fdb_entries fdb)\<rparr>"

definition vnet_fdb_learn :: "vnet_fdb \<Rightarrow> u32 \<Rightarrow> vnet_mac \<Rightarrow> int \<times> vnet_fdb" where
  "vnet_fdb_learn fdb guest_id mac =
     (if guest_id = VNET_FDB_NO_VM then (WT_VNET_E_BADARG, fdb)
      else if vnet_mac_is_multicast mac \<or> vnet_mac_is_zero mac then (WT_VNET_E_BADARG, fdb)
      else case fdb_find_mac fdb mac of
          Some i \<Rightarrow>
            if fe_kind (fdb_list fdb ! i) = VNET_FDB_ASSIGNED
            then (if fe_guest_id (fdb_list fdb ! i) = guest_id then (WT_VNET_OK, fdb)
                  else (WT_VNET_E_SPOOF, fdb))
            else (WT_VNET_OK, fdb_upd i (\<lambda>e. e\<lparr>fe_guest_id := guest_id, fe_kind := VNET_FDB_LEARNED\<rparr>) fdb)
        | None \<Rightarrow> fdb_fill fdb guest_id mac VNET_FDB_LEARNED)"

definition vnet_fdb_lookup :: "vnet_fdb \<Rightarrow> vnet_mac \<Rightarrow> u32" where
  "vnet_fdb_lookup fdb mac =
     (if vnet_mac_is_multicast mac \<or> vnet_mac_is_zero mac then VNET_FDB_NO_VM
      else case fdb_find_mac fdb mac of
          None \<Rightarrow> VNET_FDB_NO_VM
        | Some i \<Rightarrow> fe_guest_id (fdb_list fdb ! i))"

definition vnet_fdb_get_assigned :: "vnet_fdb \<Rightarrow> u32 \<Rightarrow> vnet_mac option" where
  "vnet_fdb_get_assigned fdb guest_id =
     map_option (\<lambda>i. fe_mac (fdb_list fdb ! i)) (fdb_find_assigned_by_guest fdb guest_id)"

section \<open>Addresses compare as values\<close>

lemma xor_eq_0_iff: "(a :: u8) XOR b = 0 \<longleftrightarrow> a = b"
  by (auto simp: bit_eq_iff bit_simps)

lemma or_eq_0_iff_u8: "(a :: u8) OR b = 0 \<longleftrightarrow> a = 0 \<and> b = 0"
  by (auto simp: bit_eq_iff bit_simps)

lemma vnet_mac_equals_eq [simp]: "vnet_mac_equals m n \<longleftrightarrow> m = n"
  by (cases m; cases n) (simp add: or_eq_0_iff_u8 xor_eq_0_iff)

lemma vnet_mac_is_zero_iff: "vnet_mac_is_zero m \<longleftrightarrow> m = Mac 0 0 0 0 0 0"
  by (cases m) (simp add: or_eq_0_iff_u8)

section \<open>Ownership of addresses\<close>

text \<open>
  What a registry of addresses promises the switch: an assignment that succeeds makes the
  guest the owner of the address and touches no other owner, one that fails changes
  nothing, learning never changes an owner, no guest owns two addresses, and a lookup finds
  the owner.
\<close>

locale mac_registry =
  fixes assign :: "'f \<Rightarrow> u32 \<Rightarrow> 'm \<Rightarrow> int \<times> 'f"
    and learn :: "'f \<Rightarrow> u32 \<Rightarrow> 'm \<Rightarrow> int \<times> 'f"
    and lookup :: "'f \<Rightarrow> 'm \<Rightarrow> u32"
    and owner :: "'f \<Rightarrow> 'm \<Rightarrow> u32 option"
    and usable :: "'m \<Rightarrow> bool"
    and invar :: "'f \<Rightarrow> bool"
  assumes assign_ok: "invar f \<Longrightarrow> assign f g m = (WT_VNET_OK, f') \<Longrightarrow>
      invar f' \<and> owner f' = (owner f)(m \<mapsto> g) \<and> usable m \<and> g \<noteq> VNET_FDB_NO_VM \<and>
      owner f m \<in> {None, Some g} \<and> (\<forall>n. n \<noteq> m \<longrightarrow> owner f n \<noteq> Some g)"
    and assign_refused: "assign f g m = (rc, f') \<Longrightarrow> rc \<noteq> WT_VNET_OK \<Longrightarrow> f' = f"
    and learn_keeps: "invar f \<Longrightarrow> learn f g m = (rc, f') \<Longrightarrow> invar f' \<and> owner f' = owner f"
    and owner_unique: "invar f \<Longrightarrow> owner f m = Some g \<Longrightarrow> owner f n = Some g \<Longrightarrow> m = n"
    and lookup_owner: "invar f \<Longrightarrow> owner f m = Some g \<Longrightarrow> usable m \<Longrightarrow> lookup f m = g"
begin

text \<open>An owner stays the owner under any further assignments and learning.\<close>

inductive registers :: "'f \<Rightarrow> 'f \<Rightarrow> bool" where
  assigns: "assign f g m = (rc, f') \<Longrightarrow> registers f f'"
| learns: "learn f g m = (rc, f') \<Longrightarrow> registers f f'"

lemma owner_step:
  assumes "registers f f'" "invar f"
  shows "invar f' \<and> (\<forall>m g. owner f m = Some g \<longrightarrow> owner f' m = Some g)"
  using assms
proof (induction rule: registers.induct)
  case (assigns f g m rc f')
  then show ?case
  proof (cases "rc = WT_VNET_OK")
    case True
    then have "invar f' \<and> owner f' = (owner f)(m \<mapsto> g) \<and> owner f m \<in> {None, Some g}"
      using assign_ok [of f g m f'] assigns by simp
    then show ?thesis by (metis fun_upd_apply insertE option.discI singletonD)
  next
    case False
    then have "f' = f" using assign_refused [OF assigns.hyps] by simp
    then show ?thesis using assigns.prems by simp
  qed
next
  case (learns f g m rc f')
  then show ?case using learn_keeps [of f g m rc f'] by simp
qed

lemma owner_stable:
  "registers\<^sup>*\<^sup>* f f' \<Longrightarrow> invar f \<Longrightarrow> owner f m = Some g \<Longrightarrow> invar f' \<and> owner f' m = Some g"
proof (induction rule: rtranclp_induct)
  case base
  then show ?case by simp
next
  case (step a b)
  then show ?case using owner_step [OF step.hyps(2)] by simp
qed

end

section \<open>The table implements it\<close>

definition fdb_wf :: "vnet_fdb \<Rightarrow> bool" where
  "fdb_wf fdb \<longleftrightarrow> (\<exists>es. fdb_entries fdb = Some es \<and> length es = unat (fdb_capacity fdb)) \<and>
     (\<forall>i<length (fdb_list fdb). \<forall>j<length (fdb_list fdb).
        fe_kind (fdb_list fdb ! i) \<noteq> VNET_FDB_EMPTY \<and> fe_kind (fdb_list fdb ! j) \<noteq> VNET_FDB_EMPTY \<and>
        fe_mac (fdb_list fdb ! i) = fe_mac (fdb_list fdb ! j) \<longrightarrow> i = j) \<and>
     (\<forall>i<length (fdb_list fdb). \<forall>j<length (fdb_list fdb).
        fe_kind (fdb_list fdb ! i) = VNET_FDB_ASSIGNED \<and> fe_kind (fdb_list fdb ! j) = VNET_FDB_ASSIGNED \<and>
        fe_guest_id (fdb_list fdb ! i) = fe_guest_id (fdb_list fdb ! j) \<longrightarrow> i = j)"

definition fdb_owner :: "vnet_fdb \<Rightarrow> vnet_mac \<Rightarrow> u32 option" where
  "fdb_owner fdb mac =
     map_option (\<lambda>i. fe_guest_id (fdb_list fdb ! i))
       (first_idx (\<lambda>e. fe_kind e = VNET_FDB_ASSIGNED \<and> fe_mac e = mac) (fdb_list fdb))"

lemma fdb_list_upd [simp]: "fdb_list (fdb_upd i g fdb) = upd_at i g (fdb_list fdb)"
  by (simp add: fdb_list_def fdb_upd_def split: option.split)

lemma fdb_wf_unique:
  assumes "fdb_wf fdb" "i < length (fdb_list fdb)" "j < length (fdb_list fdb)"
  shows "fe_kind (fdb_list fdb ! i) \<noteq> VNET_FDB_EMPTY \<Longrightarrow> fe_kind (fdb_list fdb ! j) \<noteq> VNET_FDB_EMPTY \<Longrightarrow>
      fe_mac (fdb_list fdb ! i) = fe_mac (fdb_list fdb ! j) \<Longrightarrow> i = j"
    and "fe_kind (fdb_list fdb ! i) = VNET_FDB_ASSIGNED \<Longrightarrow> fe_kind (fdb_list fdb ! j) = VNET_FDB_ASSIGNED \<Longrightarrow>
      fe_guest_id (fdb_list fdb ! i) = fe_guest_id (fdb_list fdb ! j) \<Longrightarrow> i = j"
  using assms unfolding fdb_wf_def by simp_all

lemma fdb_owner_iff:
  assumes "fdb_wf fdb"
  shows "fdb_owner fdb m = Some g \<longleftrightarrow> (\<exists>i<length (fdb_list fdb).
    fe_kind (fdb_list fdb ! i) = VNET_FDB_ASSIGNED \<and> fe_mac (fdb_list fdb ! i) = m \<and>
    fe_guest_id (fdb_list fdb ! i) = g)" (is "?L \<longleftrightarrow> ?R")
proof
  assume ?L
  then obtain i where i: "first_idx (\<lambda>e. fe_kind e = VNET_FDB_ASSIGNED \<and> fe_mac e = m) (fdb_list fdb) = Some i"
    "fe_guest_id (fdb_list fdb ! i) = g" by (auto simp: fdb_owner_def)
  then show ?R using first_idx_Some [OF i(1)] by blast
next
  assume ?R
  then obtain i where i: "i < length (fdb_list fdb)" "fe_kind (fdb_list fdb ! i) = VNET_FDB_ASSIGNED"
    "fe_mac (fdb_list fdb ! i) = m" "fe_guest_id (fdb_list fdb ! i) = g" by blast
  have "first_idx (\<lambda>e. fe_kind e = VNET_FDB_ASSIGNED \<and> fe_mac e = m) (fdb_list fdb) = Some i"
  proof (rule first_idx_unique)
    show "j = i" if "j < length (fdb_list fdb)"
      "fe_kind (fdb_list fdb ! j) = VNET_FDB_ASSIGNED \<and> fe_mac (fdb_list fdb ! j) = m" for j
      using fdb_wf_unique(1) [OF assms that(1) i(1)] that i by simp
  qed (use i in simp_all)
  then show ?L using i by (simp add: fdb_owner_def)
qed

lemma fdb_upd_wf:
  assumes w: "fdb_wf fdb" and i: "i < length (fdb_list fdb)"
    and k: "fe_kind (g (fdb_list fdb ! i)) \<noteq> VNET_FDB_EMPTY"
    and m: "\<And>j. j < length (fdb_list fdb) \<Longrightarrow> j \<noteq> i \<Longrightarrow> fe_kind (fdb_list fdb ! j) \<noteq> VNET_FDB_EMPTY \<Longrightarrow>
              fe_mac (fdb_list fdb ! j) \<noteq> fe_mac (g (fdb_list fdb ! i))"
    and a: "\<And>j. j < length (fdb_list fdb) \<Longrightarrow> j \<noteq> i \<Longrightarrow> fe_kind (fdb_list fdb ! j) = VNET_FDB_ASSIGNED \<Longrightarrow>
              fe_kind (g (fdb_list fdb ! i)) = VNET_FDB_ASSIGNED \<Longrightarrow>
              fe_guest_id (fdb_list fdb ! j) \<noteq> fe_guest_id (g (fdb_list fdb ! i))"
  shows "fdb_wf (fdb_upd i g fdb)"
proof -
  obtain es where "fdb_entries fdb = Some es" "length es = unat (fdb_capacity fdb)"
    using w by (auto simp: fdb_wf_def)
  then have 1: "\<exists>es. fdb_entries (fdb_upd i g fdb) = Some es \<and> length es = unat (fdb_capacity (fdb_upd i g fdb))"
    by (simp add: fdb_upd_def)
  show ?thesis unfolding fdb_wf_def fdb_list_upd length_upd_at
  proof (intro conjI 1 allI impI)
    fix p q
    assume p: "p < length (fdb_list fdb)" and q: "q < length (fdb_list fdb)"
    show "p = q" if "fe_kind (upd_at i g (fdb_list fdb) ! p) \<noteq> VNET_FDB_EMPTY \<and>
        fe_kind (upd_at i g (fdb_list fdb) ! q) \<noteq> VNET_FDB_EMPTY \<and>
        fe_mac (upd_at i g (fdb_list fdb) ! p) = fe_mac (upd_at i g (fdb_list fdb) ! q)"
      using that p q m [OF p] m [OF q] fdb_wf_unique(1) [OF w p q]
      by (cases "p = i"; cases "q = i") (metis nth_upd_at)+
    show "p = q" if "fe_kind (upd_at i g (fdb_list fdb) ! p) = VNET_FDB_ASSIGNED \<and>
        fe_kind (upd_at i g (fdb_list fdb) ! q) = VNET_FDB_ASSIGNED \<and>
        fe_guest_id (upd_at i g (fdb_list fdb) ! p) = fe_guest_id (upd_at i g (fdb_list fdb) ! q)"
      using that p q a [OF p] a [OF q] fdb_wf_unique(2) [OF w p q]
      by (cases "p = i"; cases "q = i") (metis nth_upd_at)+
  qed
qed

lemma fdb_upd_owner:
  assumes w: "fdb_wf fdb" and w': "fdb_wf (fdb_upd i f fdb)" and i: "i < length (fdb_list fdb)"
    and k: "fe_kind (fdb_list fdb ! i) \<noteq> VNET_FDB_ASSIGNED"
  shows "fdb_owner (fdb_upd i f fdb) n =
    (if fe_kind (f (fdb_list fdb ! i)) = VNET_FDB_ASSIGNED \<and> fe_mac (f (fdb_list fdb ! i)) = n
     then Some (fe_guest_id (f (fdb_list fdb ! i))) else fdb_owner fdb n)"
proof (cases "fe_kind (f (fdb_list fdb ! i)) = VNET_FDB_ASSIGNED \<and> fe_mac (f (fdb_list fdb ! i)) = n")
  case True
  then show ?thesis using i fdb_owner_iff [OF w', of n "fe_guest_id (f (fdb_list fdb ! i))"]
    by (auto intro!: exI [of _ i])
next
  case False
  have "fdb_owner (fdb_upd i f fdb) n = Some g \<longleftrightarrow> fdb_owner fdb n = Some g" for g
    unfolding fdb_owner_iff [OF w] fdb_owner_iff [OF w'] fdb_list_upd length_upd_at
    using False k by (metis nth_upd_at)
  then have "fdb_owner (fdb_upd i f fdb) n = fdb_owner fdb n" by (metis option.exhaust)
  then show ?thesis using False by argo
qed

lemma fdb_find_mac_Some:
  assumes "fdb_find_mac fdb m = Some i"
  shows "i < length (fdb_list fdb)" "fe_kind (fdb_list fdb ! i) \<noteq> VNET_FDB_EMPTY" "fe_mac (fdb_list fdb ! i) = m"
  using first_idx_Some [OF assms [unfolded fdb_find_mac_def]] by simp_all

lemma fdb_find_mac_None:
  assumes "fdb_find_mac fdb m = None" "j < length (fdb_list fdb)" "fe_kind (fdb_list fdb ! j) \<noteq> VNET_FDB_EMPTY"
  shows "fe_mac (fdb_list fdb ! j) \<noteq> m"
  using first_idx_None_nth [OF assms(1) [unfolded fdb_find_mac_def] assms(2)] assms(3) by simp

lemma fdb_find_guest_None:
  assumes "fdb_find_assigned_by_guest fdb g = None" "j < length (fdb_list fdb)"
    "fe_kind (fdb_list fdb ! j) = VNET_FDB_ASSIGNED"
  shows "fe_guest_id (fdb_list fdb ! j) \<noteq> g"
  using first_idx_None_nth [OF assms(1) [unfolded fdb_find_assigned_by_guest_def] assms(2)] assms(3) by simp

lemma fdb_no_owner:
  assumes w: "fdb_wf fdb" and m: "fdb_find_mac fdb m = None \<or>
      (\<exists>i. fdb_find_mac fdb m = Some i \<and> fe_kind (fdb_list fdb ! i) \<noteq> VNET_FDB_ASSIGNED)"
  shows "fdb_owner fdb m = None"
proof (rule ccontr)
  assume "fdb_owner fdb m \<noteq> None"
  then obtain g j where j: "j < length (fdb_list fdb)" "fe_kind (fdb_list fdb ! j) = VNET_FDB_ASSIGNED"
    "fe_mac (fdb_list fdb ! j) = m" using fdb_owner_iff [OF w] by blast
  from m show False
  proof
    assume "fdb_find_mac fdb m = None"
    then show False using fdb_find_mac_None [of fdb m j] j by simp
  next
    assume "\<exists>i. fdb_find_mac fdb m = Some i \<and> fe_kind (fdb_list fdb ! i) \<noteq> VNET_FDB_ASSIGNED"
    then obtain i where i: "fdb_find_mac fdb m = Some i" "fe_kind (fdb_list fdb ! i) \<noteq> VNET_FDB_ASSIGNED" by blast
    then have "i = j"
      using fdb_find_mac_Some [OF i(1)] j fdb_wf_unique(1) [OF w fdb_find_mac_Some(1) [OF i(1)] j(1)] by simp
    then show False using i j by simp
  qed
qed

lemma fdb_owner_find:
  assumes w: "fdb_wf fdb" and o: "fdb_owner fdb m = Some g"
  obtains i where "fdb_find_mac fdb m = Some i" "fe_kind (fdb_list fdb ! i) = VNET_FDB_ASSIGNED"
    "fe_guest_id (fdb_list fdb ! i) = g"
proof (cases "fdb_find_mac fdb m")
  case None
  then show ?thesis using fdb_no_owner [OF w] o by simp
next
  case (Some i)
  then have k: "fe_kind (fdb_list fdb ! i) = VNET_FDB_ASSIGNED" using fdb_no_owner [OF w] o by fastforce
  then have "fdb_owner fdb m = Some (fe_guest_id (fdb_list fdb ! i))"
    using fdb_owner_iff [OF w] fdb_find_mac_Some [OF Some] by blast
  then show ?thesis using that Some k o by simp
qed

lemma fdb_owner_unique: "fdb_wf fdb \<Longrightarrow> fdb_owner fdb m = Some g \<Longrightarrow> fdb_owner fdb n = Some g \<Longrightarrow> m = n"
  using fdb_wf_unique(2) [of fdb] by (metis fdb_owner_iff)

lemma fdb_fill_result:
  assumes w: "fdb_wf fdb" and f: "fdb_fill fdb g m kind = (rc, fdb')" and k: "kind \<noteq> VNET_FDB_EMPTY"
    and m: "fdb_find_mac fdb m = None"
    and a: "kind = VNET_FDB_ASSIGNED \<Longrightarrow> fdb_find_assigned_by_guest fdb g = None"
  shows "rc \<noteq> WT_VNET_OK \<and> fdb' = fdb \<or> rc = WT_VNET_OK \<and> fdb_wf fdb' \<and>
    fdb_owner fdb' = (if kind = VNET_FDB_ASSIGNED then (fdb_owner fdb)(m \<mapsto> g) else fdb_owner fdb)"
proof (cases "case fdb_find_empty fdb of Some i \<Rightarrow> Some i | None \<Rightarrow> fdb_evict_oldest_learned fdb")
  case None
  then show ?thesis using f by (auto simp: fdb_fill_def)
next
  case (Some i)
  then have i: "i < length (fdb_list fdb)" "fe_kind (fdb_list fdb ! i) \<noteq> VNET_FDB_ASSIGNED"
    by (auto simp: fdb_find_empty_def fdb_evict_oldest_learned_def split: option.splits dest!: first_idx_Some)
  define h :: "vnet_fdb_entry \<Rightarrow> vnet_fdb_entry" where "h = (\<lambda>e. e\<lparr>fe_mac := vnet_mac_copy (fe_mac e) m, fe_guest_id := g, fe_kind := kind\<rparr>)"
  have r: "rc = WT_VNET_OK" "fdb' = fdb_upd i h fdb" using f Some by (simp_all add: fdb_fill_def h_def)
  have w': "fdb_wf (fdb_upd i h fdb)"
    using fdb_find_mac_None [OF m] fdb_find_guest_None [OF a] k
    by (intro fdb_upd_wf [OF w i(1)]) (simp_all add: h_def vnet_mac_copy_def)
  show ?thesis using r w' fdb_upd_owner [OF w w' i] by (auto simp: h_def vnet_mac_copy_def)
qed

lemma fdb_assign_ok:
  assumes w: "fdb_wf fdb" and a: "vnet_fdb_assign fdb g m = (WT_VNET_OK, fdb')"
  shows "fdb_wf fdb' \<and> fdb_owner fdb' = (fdb_owner fdb)(m \<mapsto> g) \<and> fdb_owner fdb m \<in> {None, Some g} \<and>
    (\<forall>n. n \<noteq> m \<longrightarrow> fdb_owner fdb n \<noteq> Some g)"
proof -
  have fresh: "fdb_owner fdb n \<noteq> Some g" if e: "fdb_find_assigned_by_guest fdb g = None" for n
  proof
    assume "fdb_owner fdb n = Some g"
    then obtain j where "j < length (fdb_list fdb)" "fe_kind (fdb_list fdb ! j) = VNET_FDB_ASSIGNED"
      "fe_guest_id (fdb_list fdb ! j) = g" using fdb_owner_iff [OF w, of n g] by auto
    then show False using fdb_find_guest_None [OF e] by simp
  qed
  show ?thesis
  proof (cases "fdb_find_mac fdb m")
    case None
    then have f: "fdb_fill fdb g m VNET_FDB_ASSIGNED = (WT_VNET_OK, fdb')"
      and e: "fdb_find_assigned_by_guest fdb g = None"
      using a by (auto simp: vnet_fdb_assign_def Let_def split: if_splits)
    show ?thesis using fdb_fill_result [OF w f] None e fresh fdb_no_owner [OF w] by simp
  next
    case (Some i)
    note F = fdb_find_mac_Some [OF Some]
    show ?thesis
    proof (cases "fe_kind (fdb_list fdb ! i) = VNET_FDB_ASSIGNED")
      case True
      then have r: "fdb' = fdb" "fe_guest_id (fdb_list fdb ! i) = g"
        using a Some by (auto simp: vnet_fdb_assign_def Let_def split: if_splits)
      then have o: "fdb_owner fdb m = Some g" using fdb_owner_iff [OF w, of m g] F True by blast
      then have "(fdb_owner fdb)(m \<mapsto> g) = fdb_owner fdb" by (rule fun_upd_idem)
      moreover have "\<forall>n. n \<noteq> m \<longrightarrow> fdb_owner fdb n \<noteq> Some g" using fdb_owner_unique [OF w _ o] by blast
      ultimately show ?thesis using w o unfolding r(1) by simp
    next
      case False
      have "fdb_find_assigned_by_guest fdb g \<noteq> Some i"
        using False first_idx_Some [of _ "fdb_list fdb" i] unfolding fdb_find_assigned_by_guest_def by blast
      then have e: "fdb_find_assigned_by_guest fdb g = None"
        and r: "fdb' = fdb_upd i (\<lambda>e. e\<lparr>fe_kind := VNET_FDB_ASSIGNED, fe_guest_id := g\<rparr>) fdb"
        using a Some False by (auto simp: vnet_fdb_assign_def Let_def split: if_splits)
      have w': "fdb_wf fdb'" unfolding r
      proof (rule fdb_upd_wf [OF w F(1)])
        fix j
        assume j: "j < length (fdb_list fdb)" "j \<noteq> i"
        show "fe_mac (fdb_list fdb ! j) \<noteq> fe_mac ((fdb_list fdb ! i)\<lparr>fe_kind := VNET_FDB_ASSIGNED, fe_guest_id := g\<rparr>)"
          if "fe_kind (fdb_list fdb ! j) \<noteq> VNET_FDB_EMPTY"
          using fdb_wf_unique(1) [OF w j(1) F(1) that F(2)] j(2) by auto
        show "fe_guest_id (fdb_list fdb ! j) \<noteq>
            fe_guest_id ((fdb_list fdb ! i)\<lparr>fe_kind := VNET_FDB_ASSIGNED, fe_guest_id := g\<rparr>)"
          if "fe_kind (fdb_list fdb ! j) = VNET_FDB_ASSIGNED"
          using fdb_find_guest_None [OF e j(1) that] by simp
      qed simp
      have "fdb_owner fdb' n = (if m = n then Some g else fdb_owner fdb n)" for n
        using fdb_upd_owner [OF w w' [unfolded r] F(1) False, of n] F by (simp add: r)
      then have "fdb_owner fdb' = (fdb_owner fdb)(m \<mapsto> g)" by (simp add: fun_eq_iff)
      then show ?thesis using w' fresh e fdb_no_owner [OF w] Some False by simp
    qed
  qed
qed

lemma fdb_learn_keeps:
  assumes w: "fdb_wf fdb" and l: "vnet_fdb_learn fdb g m = (rc, fdb')"
  shows "fdb_wf fdb' \<and> fdb_owner fdb' = fdb_owner fdb"
proof (cases "fdb_find_mac fdb m")
  case None
  then show ?thesis
    using l w fdb_fill_result [OF w, of g m VNET_FDB_LEARNED rc fdb']
    by (auto simp: vnet_fdb_learn_def split: if_splits)
next
  case (Some i)
  note F = fdb_find_mac_Some [OF Some]
  define h :: "vnet_fdb_entry \<Rightarrow> vnet_fdb_entry"
    where "h = (\<lambda>e. e\<lparr>fe_guest_id := g, fe_kind := VNET_FDB_LEARNED\<rparr>)"
  have "fdb_wf (fdb_upd i h fdb) \<and> fdb_owner (fdb_upd i h fdb) = fdb_owner fdb"
    if k: "fe_kind (fdb_list fdb ! i) \<noteq> VNET_FDB_ASSIGNED"
  proof -
    have "fdb_wf (fdb_upd i h fdb)"
    proof (rule fdb_upd_wf [OF w F(1)])
      fix j
      assume j: "j < length (fdb_list fdb)" "j \<noteq> i"
      show "fe_mac (fdb_list fdb ! j) \<noteq> fe_mac (h (fdb_list fdb ! i))"
        if "fe_kind (fdb_list fdb ! j) \<noteq> VNET_FDB_EMPTY"
        using fdb_wf_unique(1) [OF w j(1) F(1) that F(2)] j(2) by (auto simp: h_def)
    qed (simp_all add: h_def)
    then show ?thesis using fdb_upd_owner [OF w _ F(1) k, of h] by (simp add: h_def fun_eq_iff)
  qed
  then show ?thesis using l w Some by (auto simp: vnet_fdb_learn_def h_def split: if_splits)
qed

definition mac_usable :: "vnet_mac \<Rightarrow> bool" where
  "mac_usable m \<longleftrightarrow> \<not> vnet_mac_is_multicast m \<and> \<not> vnet_mac_is_zero m"

lemma fdb_lookup_owner:
  assumes "fdb_wf fdb" "fdb_owner fdb m = Some g" "mac_usable m"
  shows "vnet_fdb_lookup fdb m = g"
  by (rule fdb_owner_find [OF assms(1,2)])
    (use assms(3) in \<open>simp add: vnet_fdb_lookup_def mac_usable_def\<close>)

interpretation fdb: mac_registry vnet_fdb_assign vnet_fdb_learn vnet_fdb_lookup fdb_owner mac_usable fdb_wf
proof
  fix f g m f' rc n
  show "fdb_wf f' \<and> fdb_owner f' = (fdb_owner f)(m \<mapsto> g) \<and> mac_usable m \<and> g \<noteq> VNET_FDB_NO_VM \<and>
      fdb_owner f m \<in> {None, Some g} \<and> (\<forall>n. n \<noteq> m \<longrightarrow> fdb_owner f n \<noteq> Some g)"
    if "fdb_wf f" "vnet_fdb_assign f g m = (WT_VNET_OK, f')"
    using fdb_assign_ok [OF that] that(2)
    by (auto simp: vnet_fdb_assign_def mac_usable_def vnet_mac_is_locally_administered_unicast_def split: if_splits)
  show "f' = f" if "vnet_fdb_assign f g m = (rc, f')" "rc \<noteq> WT_VNET_OK"
    using that by (auto simp: vnet_fdb_assign_def fdb_fill_def Let_def split: if_splits option.splits)
qed (use fdb_learn_keeps fdb_owner_unique fdb_lookup_owner in blast)+

section \<open>Tables without learned entries\<close>

text \<open>
  The switch forwards only traffic whose source address is assigned, so nothing is ever
  learned and a lookup is exactly ownership.
\<close>

definition fdb_static :: "vnet_fdb \<Rightarrow> bool" where
  "fdb_static fdb \<longleftrightarrow> (\<forall>i<length (fdb_list fdb). fe_kind (fdb_list fdb ! i) \<noteq> VNET_FDB_LEARNED)"

lemma fdb_init_wf:
  assumes "length es = unat capacity"
  shows "fdb_wf (vnet_fdb_init (Some es) capacity)" and "fdb_static (vnet_fdb_init (Some es) capacity)"
    and "fdb_owner (vnet_fdb_init (Some es) capacity) m = None"
proof -
  have l: "fdb_list (vnet_fdb_init (Some es) capacity) =
      map (\<lambda>e. e\<lparr>fe_kind := VNET_FDB_EMPTY, fe_guest_id := VNET_FDB_NO_VM\<rparr>) es"
    using assms by (simp add: fdb_list_def vnet_fdb_init_def)
  show w: "fdb_wf (vnet_fdb_init (Some es) capacity)"
    using assms by (simp add: fdb_wf_def l) (simp add: vnet_fdb_init_def)
  show "fdb_static (vnet_fdb_init (Some es) capacity)" by (simp add: fdb_static_def l)
  show "fdb_owner (vnet_fdb_init (Some es) capacity) m = None" by (simp add: fdb_owner_def l first_idx_None)
qed

lemma fdb_static_upd:
  "fdb_static fdb \<Longrightarrow> (\<And>e. fe_kind (g e) = VNET_FDB_ASSIGNED) \<Longrightarrow> fdb_static (fdb_upd i g fdb)"
  by (simp add: fdb_static_def)

lemma fdb_static_assign:
  assumes "fdb_static fdb" "vnet_fdb_assign fdb g m = (rc, fdb')"
  shows "fdb_static fdb'"
  using assms by (auto simp: vnet_fdb_assign_def fdb_fill_def Let_def fdb_static_upd
      split: if_splits option.splits)

lemma fdb_static_lookup:
  assumes w: "fdb_wf fdb" and s: "fdb_static fdb" and u: "mac_usable m"
  shows "vnet_fdb_lookup fdb m = (case fdb_owner fdb m of None \<Rightarrow> VNET_FDB_NO_VM | Some g \<Rightarrow> g)"
proof (cases "fdb_owner fdb m")
  case (Some g)
  then show ?thesis using fdb_lookup_owner [OF w _ u] by simp
next
  case None
  have "fdb_find_mac fdb m = None"
  proof (rule ccontr)
    assume "fdb_find_mac fdb m \<noteq> None"
    then obtain i where i: "fdb_find_mac fdb m = Some i" by blast
    note F = fdb_find_mac_Some [OF i]
    have "fe_kind (fdb_list fdb ! i) \<noteq> VNET_FDB_LEARNED" using s F(1) by (simp add: fdb_static_def)
    then have "fe_kind (fdb_list fdb ! i) = VNET_FDB_ASSIGNED"
      using F(2) by (cases "fe_kind (fdb_list fdb ! i)") simp_all
    then have "fdb_owner fdb m = Some (fe_guest_id (fdb_list fdb ! i))"
      using fdb_owner_iff [OF w, of m "fe_guest_id (fdb_list fdb ! i)"] F by blast
    then show False using None by simp
  qed
  then show ?thesis using None u by (simp add: vnet_fdb_lookup_def mac_usable_def)
qed

lemma fdb_learn_owned:
  assumes "fdb_wf fdb" "fdb_owner fdb m = Some g" "vnet_fdb_learn fdb g m = (rc, fdb')"
  shows "fdb' = fdb"
  by (rule fdb_owner_find [OF assms(1,2)])
    (use assms(3) in \<open>auto simp: vnet_fdb_learn_def split: if_splits\<close>)

text \<open>Releasing a guest frees its address and no other.\<close>

lemma fdb_release_list:
  "fdb_list (vnet_fdb_release fdb g) =
     map (\<lambda>e. if fe_kind e \<noteq> VNET_FDB_EMPTY \<and> fe_guest_id e = g
              then e\<lparr>fe_kind := VNET_FDB_EMPTY, fe_guest_id := VNET_FDB_NO_VM\<rparr> else e) (fdb_list fdb)"
  by (auto simp: fdb_list_def vnet_fdb_release_def take_map min_def split: option.split)

end
