(* ===== verification/Vnet_Switch.thy ===== *)
theory Vnet_Switch
  imports Vnet_Pool Vnet_Fdb
begin

text \<open>
  The virtual Ethernet switch (\<open>vnet/vnet_switch.c\<close>): one interface per guest, the shared
  frame pool and the forwarding database. The switch pointer is the state itself; the
  pointer to an interface is its index. Pointers the code compares with \<open>NULL\<close> (storage,
  frames, addresses, outputs) are options.
\<close>

abbreviation (input) WT_VNET_FRAME_MIN :: u16 where "WT_VNET_FRAME_MIN \<equiv> 14"
abbreviation (input) WT_VNET_ABI_VERSION :: u32 where "WT_VNET_ABI_VERSION \<equiv> 1"
abbreviation (input) WT_VNET_RX_IRQ :: "16 word" where "WT_VNET_RX_IRQ \<equiv> 130"

section \<open>Data\<close>

record vnet_stats =
  tx_frames :: u32
  tx_bytes :: u32
  rx_frames :: u32
  rx_bytes :: u32
  drop_pool_full :: u32
  drop_queue_full :: u32
  drop_unknown_unicast :: u32
  drop_policy :: u32
  drop_timeout :: u32
  err_malformed :: u32
  err_spoof_src_mac :: u32
  err_dup_mac_assign :: u32
  err_invalid_mac_assign :: u32
  err_release :: u32

record vnet_vnic =
  vn_open :: bool
  vn_mac_set :: bool
  vn_mac :: vnet_mac
  vn_mtu :: u16
  vn_rx_irq_pending :: bool
  vn_rxq :: vnet_ring
  vn_stats :: vnet_stats

record vnet_switch =
  sw_vnics :: "vnet_vnic list"
  sw_nvm :: u32
  sw_pool :: vnet_pool
  sw_fdb :: vnet_fdb
  sw_unknown_unicast_flood :: bool
  sw_global_stats :: vnet_stats

record vnet_info =
  info_abi_version :: u32
  info_features :: u32
  info_mtu :: u16
  info_rx_irq :: "16 word"
  info_default_mac :: vnet_mac
  info_mac_set :: bool

record vnet_rx_meta =
  meta_token_slot :: u16
  meta_token_gen :: u16
  meta_len :: u16
  meta_flags :: u16
  meta_src_vm :: u32

section \<open>Counters and interfaces\<close>

text \<open>The zeroed counters, and one counter bumped in the interface and in the switch.\<close>

definition zero_stats :: vnet_stats where
  "zero_stats = \<lparr>tx_frames = 0, tx_bytes = 0, rx_frames = 0, rx_bytes = 0, drop_pool_full = 0,
     drop_queue_full = 0, drop_unknown_unicast = 0, drop_policy = 0, drop_timeout = 0,
     err_malformed = 0, err_spoof_src_mac = 0, err_dup_mac_assign = 0,
     err_invalid_mac_assign = 0, err_release = 0\<rparr>"

definition upd_vnic :: "u32 \<Rightarrow> (vnet_vnic \<Rightarrow> vnet_vnic) \<Rightarrow> vnet_switch \<Rightarrow> vnet_switch" where
  "upd_vnic vm f sw = sw\<lparr>sw_vnics := upd_at (unat vm) f (sw_vnics sw)\<rparr>"

definition sw_count :: "u32 \<Rightarrow> (vnet_stats \<Rightarrow> vnet_stats) \<Rightarrow> vnet_switch \<Rightarrow> vnet_switch" where
  "sw_count vm f sw =
     (upd_vnic vm (\<lambda>v. v\<lparr>vn_stats := f (vn_stats v)\<rparr>) sw)\<lparr>sw_global_stats := f (sw_global_stats sw)\<rparr>"

abbreviation vnic_at :: "vnet_switch \<Rightarrow> u32 \<Rightarrow> vnet_vnic" where
  "vnic_at sw vm \<equiv> sw_vnics sw ! unat vm"

definition zero_mac :: vnet_mac where
  "zero_mac = Mac 0 0 0 0 0 0"

definition vnic_reset :: "vnet_vnic \<Rightarrow> vnet_rx_desc list option \<Rightarrow> u16 \<Rightarrow> vnet_vnic" where
  "vnic_reset v storage capacity =
     v\<lparr>vn_open := False, vn_mac_set := False, vn_mac := zero_mac, vn_mtu := of_nat WT_VNET_FRAME_MAX,
       vn_rx_irq_pending := False, vn_rxq := vnet_ring_init storage capacity,
       vn_stats := zero_stats\<rparr>"

section \<open>Set-up\<close>

definition vnet_switch_init ::
  "vnet_switch \<Rightarrow> vnet_vnic list option \<Rightarrow> u32 \<Rightarrow> vnet_frame list option \<Rightarrow> u16 \<Rightarrow>
   vnet_fdb_entry list option \<Rightarrow> u16 \<Rightarrow> vnet_rx_desc list option list option \<Rightarrow> u16 \<Rightarrow> bool \<Rightarrow>
   int \<times> vnet_switch" where
  "vnet_switch_init sw vnics nvm frame_storage frame_count fdb_storage fdb_cap
     rx_ring_storage rx_ring_capacity flood =
     (case (vnics, rx_ring_storage) of
        (Some vs, Some rings) \<Rightarrow>
          if frame_storage = None \<or> fdb_storage = None then (WT_VNET_E_BADARG, sw)
          else if nvm = 0 \<or> frame_count = 0 \<or> fdb_cap = 0 \<or> rx_ring_capacity = 0
          then (WT_VNET_E_BADARG, sw)
          else (WT_VNET_OK,
                \<lparr>sw_vnics = map (\<lambda>(v, ring). vnic_reset v ring rx_ring_capacity)
                              (zip (take (unat nvm) vs) rings) @ drop (unat nvm) vs,
                 sw_nvm = nvm,
                 sw_pool = vnet_pool_init frame_storage frame_count,
                 sw_fdb = vnet_fdb_init fdb_storage fdb_cap,
                 sw_unknown_unicast_flood = flood,
                 sw_global_stats = zero_stats\<rparr>)
      | _ \<Rightarrow> (WT_VNET_E_BADARG, sw))"

text \<open>\<open>vnic_of\<close>: the interface exists.\<close>

definition vnic_of :: "vnet_switch \<Rightarrow> u32 \<Rightarrow> bool" where
  "vnic_of sw vm_id \<longleftrightarrow> vm_id < sw_nvm sw"

definition vnet_switch_open :: "vnet_switch \<Rightarrow> u32 \<Rightarrow> vnet_info option \<Rightarrow> int \<times> vnet_switch \<times> vnet_info option" where
  "vnet_switch_open sw vm_id info_out =
     (if \<not> vnic_of sw vm_id then (WT_VNET_E_BADARG, sw, info_out)
      else let v = vnic_at sw vm_id in
        (WT_VNET_OK, upd_vnic vm_id (\<lambda>v. v\<lparr>vn_open := True\<rparr>) sw,
         map_option (\<lambda>_. \<lparr>info_abi_version = WT_VNET_ABI_VERSION, info_features = 0, info_mtu = vn_mtu v,
             info_rx_irq = WT_VNET_RX_IRQ,
             info_default_mac = (if vn_mac_set v then vnet_mac_copy zero_mac (vn_mac v) else zero_mac),
             info_mac_set = vn_mac_set v\<rparr>) info_out))"

definition vnet_switch_assign_mac :: "vnet_switch \<Rightarrow> u32 \<Rightarrow> vnet_mac option \<Rightarrow> int \<times> vnet_switch" where
  "vnet_switch_assign_mac sw vm_id mac_ptr =
     (case mac_ptr of None \<Rightarrow> (WT_VNET_E_BADARG, sw) | Some mac \<Rightarrow>
      if \<not> vnic_of sw vm_id then (WT_VNET_E_BADARG, sw)
      else if \<not> vn_open (vnic_at sw vm_id) then (WT_VNET_E_NOT_OPEN, sw)
      else if \<not> vnet_mac_is_locally_administered_unicast mac
      then (WT_VNET_E_INVAL_MAC,
            sw_count vm_id (\<lambda>s. s\<lparr>err_invalid_mac_assign := err_invalid_mac_assign s + 1\<rparr>) sw)
      else if vn_mac_set (vnic_at sw vm_id) \<and> \<not> vnet_mac_equals (vn_mac (vnic_at sw vm_id)) mac
      then (WT_VNET_E_DUP_MAC,
            sw_count vm_id (\<lambda>s. s\<lparr>err_dup_mac_assign := err_dup_mac_assign s + 1\<rparr>) sw)
      else (case vnet_fdb_assign (sw_fdb sw) vm_id mac of (rc, fdb) \<Rightarrow>
        let sw' = sw\<lparr>sw_fdb := fdb\<rparr> in
        if rc \<noteq> WT_VNET_OK
        then (rc, if rc = WT_VNET_E_DUP_MAC
                  then sw_count vm_id (\<lambda>s. s\<lparr>err_dup_mac_assign := err_dup_mac_assign s + 1\<rparr>) sw'
                  else if rc = WT_VNET_E_INVAL_MAC
                  then sw_count vm_id (\<lambda>s. s\<lparr>err_invalid_mac_assign := err_invalid_mac_assign s + 1\<rparr>) sw'
                  else sw')
        else (WT_VNET_OK, upd_vnic vm_id (\<lambda>v. v\<lparr>vn_mac := vnet_mac_copy (vn_mac v) mac, vn_mac_set := True\<rparr>) sw')))"

section \<open>Transmission\<close>

text \<open>The push that is undone when the frame cannot be referenced.\<close>

definition ring_unpush :: "vnet_ring \<Rightarrow> vnet_ring" where
  "ring_unpush r =
     (if ring_count r > 0
      then r\<lparr>ring_head := (if ring_head r = 0 then ring_capacity r - 1 else ring_head r - 1),
             ring_count := ring_count r - 1\<rparr>
      else r)"

definition try_deliver_one ::
  "vnet_switch \<Rightarrow> u32 \<Rightarrow> u16 \<Rightarrow> u16 \<Rightarrow> u16 \<Rightarrow> u32 \<Rightarrow> int \<times> vnet_switch" where
  "try_deliver_one sw dst slot gen len src_vm =
     (if \<not> vn_open (vnic_at sw dst) then (WT_VNET_E_DROPPED_POLICY, sw)
      else case vnet_ring_push (vn_rxq (vnic_at sw dst))
             \<lparr>rd_slot = slot, rd_gen = gen, rd_len = len, rd_flags = 0, rd_src_vm = src_vm\<rparr> of
        (rc, ring) \<Rightarrow>
          let sw1 = upd_vnic dst (\<lambda>v. v\<lparr>vn_rxq := ring\<rparr>) sw in
          if rc \<noteq> WT_VNET_OK
          then (rc, sw_count dst (\<lambda>s. s\<lparr>drop_queue_full := drop_queue_full s + 1\<rparr>) sw1)
          else (case vnet_pool_ref (sw_pool sw1) slot gen of (rc2, pool) \<Rightarrow>
            if rc2 \<noteq> WT_VNET_OK
            then (WT_VNET_E_NOTREADY,
                  upd_vnic dst (\<lambda>v. v\<lparr>vn_rxq := ring_unpush (vn_rxq v)\<rparr>) (sw1\<lparr>sw_pool := pool\<rparr>))
            else (WT_VNET_OK,
                  sw_count dst (\<lambda>s. s\<lparr>rx_frames := rx_frames s + 1, rx_bytes := rx_bytes s + ucast len\<rparr>)
                    (upd_vnic dst (\<lambda>v. v\<lparr>vn_rx_irq_pending := True\<rparr>) (sw1\<lparr>sw_pool := pool\<rparr>)))))"

text \<open>The loop over all interfaces but the sender, with the number of deliveries.\<close>

fun deliver_loop ::
  "u32 list \<Rightarrow> vnet_switch \<Rightarrow> u16 \<Rightarrow> u16 \<Rightarrow> u16 \<Rightarrow> u32 \<Rightarrow> u32 \<Rightarrow> u32 \<times> vnet_switch" where
  "deliver_loop [] sw slot gen len src_vm deliveries = (deliveries, sw)"
| "deliver_loop (i # is) sw slot gen len src_vm deliveries =
     (if i = src_vm then deliver_loop is sw slot gen len src_vm deliveries
      else (case try_deliver_one sw i slot gen len src_vm of (rc, sw') \<Rightarrow>
        deliver_loop is sw' slot gen len src_vm
          (if rc = WT_VNET_OK then deliveries + 1 else deliveries)))"

definition vm_ids :: "vnet_switch \<Rightarrow> u32 list" where
  "vm_ids sw = map of_nat [0..<unat (sw_nvm sw)]"

definition mac_at :: "u8 list \<Rightarrow> nat \<Rightarrow> vnet_mac" where
  "mac_at frame k = Mac (frame ! k) (frame ! (k + 1)) (frame ! (k + 2)) (frame ! (k + 3))
                        (frame ! (k + 4)) (frame ! (k + 5))"

text \<open>The delivery decision for a unicast or multicast destination.\<close>

definition tx_deliver ::
  "vnet_switch \<Rightarrow> vnet_mac \<Rightarrow> u16 \<Rightarrow> u16 \<Rightarrow> u16 \<Rightarrow> u32 \<Rightarrow> u32 \<times> vnet_switch" where
  "tx_deliver sw dst_mac slot gen len src_vm =
     (if \<not> vnet_mac_is_multicast dst_mac
      then let dst_vm = vnet_fdb_lookup (sw_fdb sw) dst_mac in
        if dst_vm \<noteq> VNET_FDB_NO_VM \<and> dst_vm \<noteq> src_vm
        then (if vnic_of sw dst_vm
              then (case try_deliver_one sw dst_vm slot gen len src_vm of (rc, sw') \<Rightarrow>
                      (if rc = WT_VNET_OK then 1 else 0, sw'))
              else (0, sw))
        else if dst_vm = VNET_FDB_NO_VM \<and> sw_unknown_unicast_flood sw
        then deliver_loop (vm_ids sw) sw slot gen len src_vm 0
        else (0, sw)
      else deliver_loop (vm_ids sw) sw slot gen len src_vm 0)"

text \<open>The stores into the freshly allocated frame.\<close>

definition tx_fill :: "u8 list \<Rightarrow> u16 \<Rightarrow> u32 \<Rightarrow> vnet_frame \<Rightarrow> vnet_frame" where
  "tx_fill frame len src_vm f =
     f\<lparr>fr_data := take (unat len) frame @ drop (unat len) (fr_data f), fr_len := len,
       fr_src_vm := src_vm, fr_dst_mask := 0\<rparr>"

definition vnet_switch_tx ::
  "vnet_switch \<Rightarrow> u32 \<Rightarrow> u8 list option \<Rightarrow> u16 \<Rightarrow> u32 \<Rightarrow> int \<times> vnet_switch" where
  "vnet_switch_tx sw src_vm frame_ptr len now_tick =
     (case frame_ptr of None \<Rightarrow> (WT_VNET_E_BADARG, sw) | Some frame \<Rightarrow>
      if \<not> vnic_of sw src_vm then (WT_VNET_E_BADARG, sw)
      else if \<not> vn_open (vnic_at sw src_vm) then (WT_VNET_E_NOT_OPEN, sw)
      else if \<not> vn_mac_set (vnic_at sw src_vm)
      then (WT_VNET_E_NO_MAC, sw_count src_vm (\<lambda>s. s\<lparr>err_spoof_src_mac := err_spoof_src_mac s + 1\<rparr>) sw)
      else if len < WT_VNET_FRAME_MIN \<or> len > of_nat WT_VNET_FRAME_MAX
      then (WT_VNET_E_FRAME_LEN, sw_count src_vm (\<lambda>s. s\<lparr>err_malformed := err_malformed s + 1\<rparr>) sw)
      else let dst_mac = mac_at frame 0; src_mac = mac_at frame 6 in
        if vnet_mac_is_zero src_mac \<or> vnet_mac_is_multicast src_mac
        then (WT_VNET_E_MALFORMED, sw_count src_vm (\<lambda>s. s\<lparr>err_malformed := err_malformed s + 1\<rparr>) sw)
        else if \<not> vnet_mac_equals src_mac (vn_mac (vnic_at sw src_vm))
        then (WT_VNET_E_SPOOF, sw_count src_vm (\<lambda>s. s\<lparr>err_spoof_src_mac := err_spoof_src_mac s + 1\<rparr>) sw)
        else let sw1 = sw\<lparr>sw_fdb := snd (vnet_fdb_learn (sw_fdb sw) src_vm src_mac)\<rparr> in
          case vnet_pool_alloc (sw_pool sw1) now_tick of (slot, pool) \<Rightarrow>
            let sw2 = sw1\<lparr>sw_pool := pool\<rparr> in
            if slot = VNET_POOL_BAD_SLOT
            then (WT_VNET_E_POOL_FULL, sw_count src_vm (\<lambda>s. s\<lparr>drop_pool_full := drop_pool_full s + 1\<rparr>) sw2)
            else let gen = fr_gen (frame_of pool slot);
                     sw3 = sw_count src_vm (\<lambda>s. s\<lparr>tx_frames := tx_frames s + 1, tx_bytes := tx_bytes s + ucast len\<rparr>)
                             (sw2\<lparr>sw_pool := pool_upd (unat slot) (tx_fill frame len src_vm) pool\<rparr>) in
              if vnet_mac_is_zero dst_mac
              then (WT_VNET_E_MALFORMED,
                    let sw4 = sw_count src_vm (\<lambda>s. s\<lparr>err_malformed := err_malformed s + 1\<rparr>) sw3 in
                    sw4\<lparr>sw_pool := snd (vnet_pool_release (sw_pool sw4) slot gen)\<rparr>)
              else case tx_deliver sw3 dst_mac slot gen len src_vm of (deliveries, sw4) \<Rightarrow>
                let sw5 = sw4\<lparr>sw_pool := snd (vnet_pool_release (sw_pool sw4) slot gen)\<rparr> in
                if deliveries = 0
                then (if \<not> vnet_mac_is_multicast dst_mac
                      then (WT_VNET_E_DROPPED_UNKNOWN, sw_count src_vm (\<lambda>s. s\<lparr>drop_unknown_unicast := drop_unknown_unicast s + 1\<rparr>) sw5)
                      else (WT_VNET_E_DROPPED_POLICY, sw_count src_vm (\<lambda>s. s\<lparr>drop_policy := drop_policy s + 1\<rparr>) sw5))
                else (WT_VNET_OK, sw5))"

section \<open>Reception\<close>

function skip_stale :: "vnet_pool \<Rightarrow> vnet_ring \<Rightarrow> vnet_ring" where
  "skip_stale pool r =
     (case vnet_ring_peek r of
        (rc, None) \<Rightarrow> r
      | (rc, Some desc) \<Rightarrow>
          if vnet_pool_slot pool (rd_slot desc) (rd_gen desc) \<noteq> None then r
          else skip_stale pool (snd (vnet_ring_drop_head r)))"
  by pat_completeness auto
termination
proof (relation "measure (\<lambda>(pool, r). unat (ring_count r))", goal_cases)
  case (2 pool r rc out desc)
  then show ?case
    by (auto simp: vnet_ring_peek_def vnet_ring_drop_head_def unat_dec_u16 unat_gt_0
        split: option.splits if_splits)
qed simp

declare skip_stale.simps [simp del]

definition skip_stale_head :: "vnet_switch \<Rightarrow> u32 \<Rightarrow> vnet_switch" where
  "skip_stale_head sw vm = upd_vnic vm (\<lambda>v. v\<lparr>vn_rxq := skip_stale (sw_pool sw) (vn_rxq v)\<rparr>) sw"

definition vnet_switch_poll_rx ::
  "vnet_switch \<Rightarrow> u32 \<Rightarrow> vnet_rx_meta option \<Rightarrow> int \<times> vnet_switch \<times> vnet_rx_meta option" where
  "vnet_switch_poll_rx sw vm_id meta =
     (if \<not> vnic_of sw vm_id \<or> meta = None then (WT_VNET_E_BADARG, sw, meta)
      else if \<not> vn_open (vnic_at sw vm_id) then (WT_VNET_E_NOT_OPEN, sw, meta)
      else let sw1 = skip_stale_head sw vm_id in
        if vnet_ring_empty (vn_rxq (vnic_at sw1 vm_id))
        then (WT_VNET_E_EMPTY, upd_vnic vm_id (\<lambda>v. v\<lparr>vn_rx_irq_pending := False\<rparr>) sw1, meta)
        else (case vnet_ring_peek (vn_rxq (vnic_at sw1 vm_id)) of
                (rc, None) \<Rightarrow> (rc, sw1, meta)
              | (rc, Some desc) \<Rightarrow>
                  (WT_VNET_OK, sw1,
                   Some \<lparr>meta_token_slot = rd_slot desc, meta_token_gen = rd_gen desc, meta_len = rd_len desc,
                         meta_flags = rd_flags desc, meta_src_vm = rd_src_vm desc\<rparr>)))"

definition vnet_switch_read_rx ::
  "vnet_switch \<Rightarrow> u32 \<Rightarrow> u16 \<Rightarrow> u16 \<Rightarrow> u8 list option \<Rightarrow> u16 \<Rightarrow> int \<times> vnet_switch \<times> u8 list option" where
  "vnet_switch_read_rx sw vm_id slot gen dst_ptr dst_len =
     (case dst_ptr of None \<Rightarrow> (WT_VNET_E_BADARG, sw, dst_ptr) | Some dst \<Rightarrow>
      if \<not> vnic_of sw vm_id then (WT_VNET_E_BADARG, sw, dst_ptr)
      else if \<not> vn_open (vnic_at sw vm_id) then (WT_VNET_E_NOT_OPEN, sw, dst_ptr)
      else let sw1 = skip_stale_head sw vm_id in
        (case vnet_ring_peek (vn_rxq (vnic_at sw1 vm_id)) of
           (rc, None) \<Rightarrow> (WT_VNET_E_EMPTY, sw1, dst_ptr)
         | (rc, Some head) \<Rightarrow>
             if rd_slot head \<noteq> slot \<or> rd_gen head \<noteq> gen then (WT_VNET_E_NOT_OWNER, sw1, dst_ptr)
             else (case vnet_pool_slot (sw_pool sw1) slot gen of
                 None \<Rightarrow> (WT_VNET_E_STALE_COOKIE, sw1, dst_ptr)
               | Some i \<Rightarrow>
                   let f = frame_of (sw_pool sw1) slot in
                   if dst_len < fr_len f then (WT_VNET_E_BADARG, sw1, dst_ptr)
                   else (int (unat (fr_len f)), sw1,
                         Some (take (unat (fr_len f)) (fr_data f) @ drop (unat (fr_len f)) dst)))))"

definition vnet_switch_release_rx :: "vnet_switch \<Rightarrow> u32 \<Rightarrow> u16 \<Rightarrow> u16 \<Rightarrow> int \<times> vnet_switch" where
  "vnet_switch_release_rx sw vm_id slot gen =
     (if \<not> vnic_of sw vm_id then (WT_VNET_E_BADARG, sw)
      else if \<not> vn_open (vnic_at sw vm_id) then (WT_VNET_E_NOT_OPEN, sw)
      else let sw1 = skip_stale_head sw vm_id;
               failed = sw_count vm_id (\<lambda>s. s\<lparr>err_release := err_release s + 1\<rparr>) in
        (case vnet_ring_peek (vn_rxq (vnic_at sw1 vm_id)) of
           (rc, None) \<Rightarrow> (WT_VNET_E_EMPTY, failed sw1)
         | (rc, Some head) \<Rightarrow>
             if rd_slot head \<noteq> slot \<or> rd_gen head \<noteq> gen then (WT_VNET_E_NOT_OWNER, failed sw1)
             else let sw2 = upd_vnic vm_id (\<lambda>v. v\<lparr>vn_rxq := snd (vnet_ring_drop_head (vn_rxq v))\<rparr>) sw1 in
               (case vnet_pool_release (sw_pool sw2) slot gen of (rc, pool) \<Rightarrow>
                 let sw3 = sw2\<lparr>sw_pool := pool\<rparr> in
                 if rc < 0 then (rc, failed sw3)
                 else (WT_VNET_OK,
                       if vnet_ring_empty (vn_rxq (vnic_at sw3 vm_id))
                       then upd_vnic vm_id (\<lambda>v. v\<lparr>vn_rx_irq_pending := False\<rparr>) sw3 else sw3))))"

section \<open>Interrupts and expiry\<close>

definition vnet_switch_irq_ack :: "vnet_switch \<Rightarrow> u32 \<Rightarrow> int \<times> vnet_switch" where
  "vnet_switch_irq_ack sw vm_id =
     (if \<not> vnic_of sw vm_id then (WT_VNET_E_BADARG, sw)
      else if \<not> vn_open (vnic_at sw vm_id) then (WT_VNET_E_NOT_OPEN, sw)
      else let sw1 = skip_stale_head sw vm_id in
        if vnet_ring_empty (vn_rxq (vnic_at sw1 vm_id))
        then (0, upd_vnic vm_id (\<lambda>v. v\<lparr>vn_rx_irq_pending := False\<rparr>) sw1)
        else (1, upd_vnic vm_id (\<lambda>v. v\<lparr>vn_rx_irq_pending := True\<rparr>) sw1))"

definition vnet_switch_irq_pending :: "vnet_switch \<Rightarrow> u32 \<Rightarrow> bool" where
  "vnet_switch_irq_pending sw vm_id \<longleftrightarrow> vnic_of sw vm_id \<and> vn_rx_irq_pending (vnic_at sw vm_id)"

text \<open>The loop that trims every queue after an expiry.\<close>

definition trim_queue :: "u32 \<Rightarrow> vnet_switch \<Rightarrow> vnet_switch" where
  "trim_queue i sw =
     (let sw1 = skip_stale_head sw i in
      if vnet_ring_empty (vn_rxq (vnic_at sw1 i))
      then upd_vnic i (\<lambda>v. v\<lparr>vn_rx_irq_pending := False\<rparr>) sw1 else sw1)"

definition vnet_switch_drop_expired :: "vnet_switch \<Rightarrow> u32 \<Rightarrow> u32 \<Rightarrow> u16 \<times> vnet_switch" where
  "vnet_switch_drop_expired sw now_tick timeout_ticks =
     (case vnet_pool_drop_expired (sw_pool sw) now_tick timeout_ticks of (freed, pool) \<Rightarrow>
        let sw1 = sw\<lparr>sw_pool := pool\<rparr> in
        (freed,
         if freed > 0
         then fold trim_queue (vm_ids sw)
                (sw1\<lparr>sw_global_stats := (sw_global_stats sw1)
                      \<lparr>drop_timeout := drop_timeout (sw_global_stats sw1) + ucast freed\<rparr>\<rparr>)
         else sw1))"

definition vnet_switch_vnic_stats :: "vnet_switch \<Rightarrow> u32 \<Rightarrow> vnet_stats option" where
  "vnet_switch_vnic_stats sw vm_id =
     (if \<not> vnic_of sw vm_id then None else Some (vn_stats (vnic_at sw vm_id)))"

definition vnet_switch_global_stats :: "vnet_switch \<Rightarrow> vnet_stats" where
  "vnet_switch_global_stats sw = sw_global_stats sw"

end
