(* ===== verification/Vnet_Inv.thy ===== *)
theory Vnet_Inv
  imports Vnet_Switch
begin

text \<open>
  The invariant of the switch: every queue is a well-formed ring, the forwarding database
  records exactly the addresses of the interfaces, the reference count of every frame in
  use is the number of descriptors that name it, every descriptor that names a frame in use
  was queued for a frame its source really transmitted, and a non-empty queue has its
  interrupt pending. Descriptors of expired frames stay in the queues until they reach the
  head; they cannot be mistaken for live ones as long as the 16-bit generation of a slot
  has not come round, so the invariant carries the history of transmitted frames.
\<close>

type_synonym vnet_history = "(u32 \<times> u8 list) list"

abbreviation queue_of :: "vnet_vnic \<Rightarrow> vnet_rx_desc list" where
  "queue_of v \<equiv> ring_items (vn_rxq v)"

definition desc_live :: "vnet_pool \<Rightarrow> vnet_rx_desc \<Rightarrow> bool" where
  "desc_live p d \<longleftrightarrow> pool_live p (rd_slot d) (rd_gen d)"

definition names :: "u16 \<Rightarrow> u16 \<Rightarrow> vnet_rx_desc \<Rightarrow> bool" where
  "names s g d \<longleftrightarrow> rd_slot d = s \<and> rd_gen d = g"

definition holders :: "vnet_switch \<Rightarrow> u16 \<Rightarrow> u16 \<Rightarrow> nat" where
  "holders sw s g = (\<Sum>v\<leftarrow>sw_vnics sw. count_if (names s g) (queue_of v))"

text \<open>Frame \<open>f\<close> may be read by interface \<open>i\<close>.\<close>

definition carries :: "vnet_history \<Rightarrow> vnet_switch \<Rightarrow> nat \<Rightarrow> vnet_frame \<Rightarrow> bool" where
  "carries h sw i f \<longleftrightarrow> unat (fr_src_vm f) < length (sw_vnics sw) \<and> unat (fr_src_vm f) \<noteq> i \<and>
     vn_mac_set (vnic_at sw (fr_src_vm f)) \<and> mac_at (fr_data f) 6 = vn_mac (vnic_at sw (fr_src_vm f)) \<and>
     14 \<le> unat (fr_len f) \<and> (fr_src_vm f, take (unat (fr_len f)) (fr_data f)) \<in> set h \<and>
     (vnet_mac_is_multicast (mac_at (fr_data f) 0) \<or> sw_unknown_unicast_flood sw \<or>
      fdb_owner (sw_fdb sw) (mac_at (fr_data f) 0) = Some (of_nat i))"

definition queued_ok :: "vnet_history \<Rightarrow> vnet_switch \<Rightarrow> nat \<Rightarrow> vnet_rx_desc \<Rightarrow> bool" where
  "queued_ok h sw i d \<longleftrightarrow> rd_slot d < pool_slot_count (sw_pool sw) \<and>
     unat (fr_gen (frame_of (sw_pool sw) (rd_slot d)) - rd_gen d) \<le> length h \<and>
     (desc_live (sw_pool sw) d \<longrightarrow> vn_open (sw_vnics sw ! i) \<and>
        carries h sw i (frame_of (sw_pool sw) (rd_slot d)) \<and>
        rd_len d = fr_len (frame_of (sw_pool sw) (rd_slot d)) \<and>
        rd_src_vm d = fr_src_vm (frame_of (sw_pool sw) (rd_slot d)))"

definition net_shape :: "vnet_switch \<Rightarrow> bool" where
  "net_shape sw \<longleftrightarrow> sw_nvm sw \<noteq> 0 \<and> length (sw_vnics sw) = unat (sw_nvm sw) \<and> pool_wf (sw_pool sw) \<and> fdb_wf (sw_fdb sw) \<and>
     fdb_static (sw_fdb sw) \<and> (\<forall>i<length (sw_vnics sw). ring_wf (vn_rxq (sw_vnics sw ! i)))"

definition net_irqs :: "vnet_switch \<Rightarrow> bool" where
  "net_irqs sw \<longleftrightarrow> (\<forall>i<length (sw_vnics sw).
     queue_of (sw_vnics sw ! i) \<noteq> [] \<longrightarrow> vn_rx_irq_pending (sw_vnics sw ! i))"

definition net_registry :: "vnet_switch \<Rightarrow> bool" where
  "net_registry sw \<longleftrightarrow> (\<forall>m g. fdb_owner (sw_fdb sw) m = Some g \<longleftrightarrow>
     unat g < length (sw_vnics sw) \<and> vn_mac_set (vnic_at sw g) \<and> vn_mac (vnic_at sw g) = m) \<and>
     (\<forall>i<length (sw_vnics sw). vn_mac_set (sw_vnics sw ! i) \<longrightarrow> mac_usable (vn_mac (sw_vnics sw ! i)))"

definition net_queues :: "vnet_history \<Rightarrow> vnet_switch \<Rightarrow> bool" where
  "net_queues h sw \<longleftrightarrow>
     (\<forall>i<length (sw_vnics sw). \<forall>d \<in> set (queue_of (sw_vnics sw ! i)). queued_ok h sw i d)"

definition net_refs :: "(u16 \<Rightarrow> nat) \<Rightarrow> vnet_switch \<Rightarrow> bool" where
  "net_refs k sw \<longleftrightarrow> (\<forall>s. s < pool_slot_count (sw_pool sw) \<and> fr_refcnt (frame_of (sw_pool sw) s) \<noteq> 0 \<longrightarrow>
     unat (fr_refcnt (frame_of (sw_pool sw) s)) = holders sw s (fr_gen (frame_of (sw_pool sw) s)) + k s)"

text \<open>\<open>k\<close> counts references that no queue holds: the scratch reference of a transmission under way.\<close>

definition net_inv :: "(u16 \<Rightarrow> nat) \<Rightarrow> vnet_history \<Rightarrow> vnet_switch \<Rightarrow> bool" where
  "net_inv k h sw \<longleftrightarrow> net_shape sw \<and> net_irqs sw \<and> net_registry sw \<and> net_queues h sw \<and> net_refs k sw"

definition vnet_inv :: "vnet_history \<Rightarrow> vnet_switch \<Rightarrow> bool" where
  "vnet_inv h sw \<longleftrightarrow> net_inv (\<lambda>s. 0) h sw"

section \<open>Views\<close>

lemma upd_vnic_simps [simp]:
  "sw_nvm (upd_vnic vm f sw) = sw_nvm sw"
  "sw_pool (upd_vnic vm f sw) = sw_pool sw"
  "sw_fdb (upd_vnic vm f sw) = sw_fdb sw"
  "sw_unknown_unicast_flood (upd_vnic vm f sw) = sw_unknown_unicast_flood sw"
  "sw_vnics (upd_vnic vm f sw) = upd_at (unat vm) f (sw_vnics sw)"
  by (simp_all add: upd_vnic_def)

lemma sw_count_simps [simp]:
  "sw_nvm (sw_count vm f sw) = sw_nvm sw"
  "sw_pool (sw_count vm f sw) = sw_pool sw"
  "sw_fdb (sw_count vm f sw) = sw_fdb sw"
  "sw_unknown_unicast_flood (sw_count vm f sw) = sw_unknown_unicast_flood sw"
  "length (sw_vnics (sw_count vm f sw)) = length (sw_vnics sw)"
  by (simp_all add: sw_count_def)

text \<open>Two switches that differ only in counters.\<close>

definition same_net :: "vnet_switch \<Rightarrow> vnet_switch \<Rightarrow> bool" where
  "same_net sw sw' \<longleftrightarrow> sw_nvm sw' = sw_nvm sw \<and> sw_pool sw' = sw_pool sw \<and> sw_fdb sw' = sw_fdb sw \<and>
     sw_unknown_unicast_flood sw' = sw_unknown_unicast_flood sw \<and>
     map (\<lambda>v. v\<lparr>vn_stats := zero_stats\<rparr>) (sw_vnics sw') = map (\<lambda>v. v\<lparr>vn_stats := zero_stats\<rparr>) (sw_vnics sw)"

lemma same_net_count [simp]: "same_net sw (sw_count vm f sw)"
proof -
  have "map (\<lambda>v. v\<lparr>vn_stats := zero_stats\<rparr>) (upd_at i (\<lambda>v. v\<lparr>vn_stats := f (vn_stats v)\<rparr>) xs) =
      map (\<lambda>v. v\<lparr>vn_stats := zero_stats\<rparr>) xs" for i and xs :: "vnet_vnic list"
    by (rule map_upd_at_same) simp
  then show ?thesis by (simp add: same_net_def sw_count_def)
qed

lemma same_net_vnic:
  assumes "same_net sw sw'"
  shows "length (sw_vnics sw') = length (sw_vnics sw)"
    and "i < length (sw_vnics sw) \<Longrightarrow> vn_rxq (sw_vnics sw' ! i) = vn_rxq (sw_vnics sw ! i) \<and>
      vn_open (sw_vnics sw' ! i) = vn_open (sw_vnics sw ! i) \<and>
      vn_mac_set (sw_vnics sw' ! i) = vn_mac_set (sw_vnics sw ! i) \<and>
      vn_mac (sw_vnics sw' ! i) = vn_mac (sw_vnics sw ! i) \<and>
      vn_rx_irq_pending (sw_vnics sw' ! i) = vn_rx_irq_pending (sw_vnics sw ! i)"
proof -
  have m: "map (\<lambda>v. v\<lparr>vn_stats := zero_stats\<rparr>) (sw_vnics sw') =
      map (\<lambda>v. v\<lparr>vn_stats := zero_stats\<rparr>) (sw_vnics sw)" using assms by (simp add: same_net_def)
  show l: "length (sw_vnics sw') = length (sw_vnics sw)" using m by (metis length_map)
  assume i: "i < length (sw_vnics sw)"
  then have "(sw_vnics sw' ! i)\<lparr>vn_stats := zero_stats\<rparr> = (sw_vnics sw ! i)\<lparr>vn_stats := zero_stats\<rparr>"
    using m l by (metis nth_map)
  then show "vn_rxq (sw_vnics sw' ! i) = vn_rxq (sw_vnics sw ! i) \<and>
      vn_open (sw_vnics sw' ! i) = vn_open (sw_vnics sw ! i) \<and>
      vn_mac_set (sw_vnics sw' ! i) = vn_mac_set (sw_vnics sw ! i) \<and>
      vn_mac (sw_vnics sw' ! i) = vn_mac (sw_vnics sw ! i) \<and>
      vn_rx_irq_pending (sw_vnics sw' ! i) = vn_rx_irq_pending (sw_vnics sw ! i)"
    by (cases "sw_vnics sw ! i"; cases "sw_vnics sw' ! i") simp
qed

lemma sum_list_upd_at:
  "i < length xs \<Longrightarrow> (\<Sum>x\<leftarrow>upd_at i f xs. g x) + g (xs ! i) = (\<Sum>x\<leftarrow>xs. g x) + (g (f (xs ! i)) :: nat)"
proof (induction xs arbitrary: i)
  case Nil
  then show ?case by simp
next
  case (Cons x xs)
  then show ?case by (cases i) (auto simp: add_ac)
qed

lemma holders_cong:
  assumes "length (sw_vnics sw') = length (sw_vnics sw)"
    and "\<And>i. i < length (sw_vnics sw) \<Longrightarrow> vn_rxq (sw_vnics sw' ! i) = vn_rxq (sw_vnics sw ! i)"
  shows "holders sw' s g = holders sw s g"
proof -
  have "map (\<lambda>v. count_if (names s g) (queue_of v)) (sw_vnics sw') =
      map (\<lambda>v. count_if (names s g) (queue_of v)) (sw_vnics sw)"
    using assms by (intro nth_equalityI) simp_all
  then show ?thesis by (simp add: holders_def)
qed

lemma holders_upd:
  assumes "unat vm < length (sw_vnics sw)"
  shows "holders (upd_vnic vm f sw) s g + count_if (names s g) (queue_of (vnic_at sw vm)) =
    holders sw s g + count_if (names s g) (queue_of (f (vnic_at sw vm)))"
  unfolding holders_def upd_vnic_simps using assms by (rule sum_list_upd_at)

lemma holders_pool [simp]: "holders (sw\<lparr>sw_pool := p\<rparr>) s g = holders sw s g"
  by (simp add: holders_def)

lemma holders_none:
  assumes "\<And>i d. i < length (sw_vnics sw) \<Longrightarrow> d \<in> set (queue_of (sw_vnics sw ! i)) \<Longrightarrow> \<not> names s g d"
  shows "holders sw s g = 0"
proof -
  have "count_if (names s g) (queue_of v) = 0" if "v \<in> set (sw_vnics sw)" for v
    using that assms by (auto simp: count_if_def filter_empty_conv in_set_conv_nth)
  then show ?thesis by (simp add: holders_def)
qed

section \<open>Frames that differ in their reference count\<close>

definition same_frame :: "vnet_frame \<Rightarrow> vnet_frame \<Rightarrow> bool" where
  "same_frame f f' \<longleftrightarrow> fr_gen f' = fr_gen f \<and> fr_len f' = fr_len f \<and> fr_src_vm f' = fr_src_vm f \<and>
     fr_data f' = fr_data f"

definition pool_keeps :: "vnet_pool \<Rightarrow> vnet_pool \<Rightarrow> bool" where
  "pool_keeps p p' \<longleftrightarrow> pool_wf p' \<and> pool_slot_count p' = pool_slot_count p \<and>
     (\<forall>s. s < pool_slot_count p \<longrightarrow> same_frame (frame_of p s) (frame_of p' s) \<and>
        (fr_refcnt (frame_of p' s) \<noteq> 0 \<longrightarrow> fr_refcnt (frame_of p s) \<noteq> 0))"

lemma pool_keeps_refl [simp]: "pool_wf p \<Longrightarrow> pool_keeps p p"
  by (simp add: pool_keeps_def same_frame_def)

lemma pool_keeps_live: "pool_keeps p p' \<Longrightarrow> desc_live p' d \<Longrightarrow> desc_live p d"
  by (auto simp: desc_live_def pool_live_def pool_keeps_def same_frame_def)

text \<open>What a descriptor relies on survives when interfaces only gain openness and addresses.\<close>

definition vnics_grow :: "vnet_switch \<Rightarrow> vnet_switch \<Rightarrow> bool" where
  "vnics_grow sw sw' \<longleftrightarrow> length (sw_vnics sw') = length (sw_vnics sw) \<and>
     sw_unknown_unicast_flood sw' = sw_unknown_unicast_flood sw \<and>
     (\<forall>m g. fdb_owner (sw_fdb sw) m = Some g \<longrightarrow> fdb_owner (sw_fdb sw') m = Some g) \<and>
     (\<forall>i<length (sw_vnics sw). (vn_open (sw_vnics sw ! i) \<longrightarrow> vn_open (sw_vnics sw' ! i)) \<and>
        (vn_mac_set (sw_vnics sw ! i) \<longrightarrow> vn_mac_set (sw_vnics sw' ! i) \<and>
           vn_mac (sw_vnics sw' ! i) = vn_mac (sw_vnics sw ! i)))"

lemma carries_mono:
  assumes c: "carries h sw i f" and g: "vnics_grow sw sw'" and f: "same_frame f f'" and h: "set h \<subseteq> set h'"
  shows "carries h' sw' i f'"
  using c f h g unfolding carries_def same_frame_def vnics_grow_def by auto

lemma queued_ok_mono:
  assumes q: "queued_ok h sw i d" and i: "i < length (sw_vnics sw)" and g: "vnics_grow sw sw'"
    and p: "pool_keeps (sw_pool sw) (sw_pool sw')" and h: "set h \<subseteq> set h'" "length h \<le> length h'"
  shows "queued_ok h' sw' i d"
proof -
  let ?f = "frame_of (sw_pool sw) (rd_slot d)" and ?f' = "frame_of (sw_pool sw') (rd_slot d)"
  have s: "rd_slot d < pool_slot_count (sw_pool sw)" using q by (simp add: queued_ok_def)
  then have sf: "same_frame ?f ?f'" and c: "pool_slot_count (sw_pool sw') = pool_slot_count (sw_pool sw)"
    using p by (simp_all add: pool_keeps_def)
  have "vn_open (sw_vnics sw' ! i) \<and> carries h' sw' i ?f' \<and> rd_len d = fr_len ?f' \<and> rd_src_vm d = fr_src_vm ?f'"
    if "desc_live (sw_pool sw') d"
  proof -
    have "desc_live (sw_pool sw) d" using pool_keeps_live [OF p that] .
    then have "vn_open (sw_vnics sw ! i)" "carries h sw i ?f" "rd_len d = fr_len ?f" "rd_src_vm d = fr_src_vm ?f"
      using q by (simp_all add: queued_ok_def)
    moreover have "vn_open (sw_vnics sw ! i) \<longrightarrow> vn_open (sw_vnics sw' ! i)" using g i by (simp add: vnics_grow_def)
    ultimately show ?thesis using carries_mono [OF _ g sf h(1)] sf by (simp add: same_frame_def)
  qed
  moreover have "fr_gen ?f' = fr_gen ?f" using sf by (simp add: same_frame_def)
  ultimately show ?thesis using q s c h(2) unfolding queued_ok_def by simp
qed

section \<open>One step of the invariant\<close>

lemma net_registry_cong:
  assumes "net_registry sw" "sw_fdb sw' = sw_fdb sw" "length (sw_vnics sw') = length (sw_vnics sw)"
    and "\<And>i. i < length (sw_vnics sw) \<Longrightarrow> vn_mac (sw_vnics sw' ! i) = vn_mac (sw_vnics sw ! i) \<and>
      vn_mac_set (sw_vnics sw' ! i) = vn_mac_set (sw_vnics sw ! i)"
  shows "net_registry sw'"
  unfolding net_registry_def assms(2,3)
proof (intro conjI allI impI)
  fix m g
  have "fdb_owner (sw_fdb sw) m = Some g \<longleftrightarrow>
      unat g < length (sw_vnics sw) \<and> vn_mac_set (vnic_at sw g) \<and> vn_mac (vnic_at sw g) = m"
    using assms(1) by (simp add: net_registry_def)
  then show "fdb_owner (sw_fdb sw) m = Some g \<longleftrightarrow>
      unat g < length (sw_vnics sw) \<and> vn_mac_set (vnic_at sw' g) \<and> vn_mac (vnic_at sw' g) = m"
    using assms(4) [of "unat g"] by auto
next
  fix i
  assume "i < length (sw_vnics sw)" "vn_mac_set (sw_vnics sw' ! i)"
  then show "mac_usable (vn_mac (sw_vnics sw' ! i))"
    using assms(1) assms(4) [of i] by (simp add: net_registry_def)
qed

text \<open>An interface is updated and reference counts move, with the sum of both kept.\<close>

lemma net_step:
  assumes inv: "net_inv k h sw" and vm: "unat vm < length (sw_vnics sw)"
    and p: "pool_keeps (sw_pool sw) p"
    and r: "ring_wf (vn_rxq (f (vnic_at sw vm)))"
    and same: "vn_mac (f (vnic_at sw vm)) = vn_mac (vnic_at sw vm)"
      "vn_mac_set (f (vnic_at sw vm)) = vn_mac_set (vnic_at sw vm)"
      "vn_open (vnic_at sw vm) \<Longrightarrow> vn_open (f (vnic_at sw vm))"
    and irq: "queue_of (f (vnic_at sw vm)) \<noteq> [] \<Longrightarrow> vn_rx_irq_pending (f (vnic_at sw vm))"
    and q: "\<And>d. d \<in> set (queue_of (f (vnic_at sw vm))) \<Longrightarrow> d \<in> set (queue_of (vnic_at sw vm)) \<or>
      queued_ok h (upd_vnic vm f (sw\<lparr>sw_pool := p\<rparr>)) (unat vm) d"
    and refs: "\<And>s. s < pool_slot_count p \<Longrightarrow> fr_refcnt (frame_of p s) \<noteq> 0 \<Longrightarrow>
      unat (fr_refcnt (frame_of p s)) + count_if (names s (fr_gen (frame_of p s))) (queue_of (vnic_at sw vm)) + k s =
      unat (fr_refcnt (frame_of (sw_pool sw) s)) +
        count_if (names s (fr_gen (frame_of p s))) (queue_of (f (vnic_at sw vm))) + k' s"
  shows "net_inv k' h (upd_vnic vm f (sw\<lparr>sw_pool := p\<rparr>))"
proof -
  let ?sw = "upd_vnic vm f (sw\<lparr>sw_pool := p\<rparr>)"
  have I: "net_shape sw" "net_irqs sw" "net_registry sw" "net_queues h sw" "net_refs k sw"
    using inv by (simp_all add: net_inv_def)
  have grow: "vnics_grow sw ?sw" unfolding vnics_grow_def using same by auto
  have "net_shape ?sw" unfolding net_shape_def using I(1) p r by (auto simp: net_shape_def pool_keeps_def)
  moreover have "net_irqs ?sw" unfolding net_irqs_def using I(2) irq by (auto simp: net_irqs_def)
  moreover have "net_registry ?sw" using I(3) same(1,2) by (intro net_registry_cong [OF I(3)]) auto
  moreover have "net_queues h ?sw" unfolding net_queues_def
  proof (intro allI impI ballI)
    fix i d
    assume i: "i < length (sw_vnics ?sw)" and d: "d \<in> set (queue_of (sw_vnics ?sw ! i))"
    then have i': "i < length (sw_vnics sw)" by simp
    have keep: "queued_ok h ?sw i d" if "d \<in> set (queue_of (sw_vnics sw ! i))"
      using I(4) that i' p by (intro queued_ok_mono [OF _ i' grow]) (auto simp: net_queues_def)
    show "queued_ok h ?sw i d"
    proof (cases "i = unat vm")
      case True
      then show ?thesis using keep q [of d] d i' by auto
    next
      case False
      then show ?thesis using keep d i' by auto
    qed
  qed
  moreover have "net_refs k' ?sw" unfolding net_refs_def
  proof (intro allI impI)
    fix s
    assume "s < pool_slot_count (sw_pool ?sw) \<and> fr_refcnt (frame_of (sw_pool ?sw) s) \<noteq> 0"
    then have s: "s < pool_slot_count p" "fr_refcnt (frame_of p s) \<noteq> 0" by simp_all
    let ?g = "fr_gen (frame_of p s)"
    have s': "s < pool_slot_count (sw_pool sw)" "fr_refcnt (frame_of (sw_pool sw) s) \<noteq> 0"
      "fr_gen (frame_of (sw_pool sw) s) = ?g"
      using p s by (auto simp: pool_keeps_def same_frame_def)
    have "unat (fr_refcnt (frame_of (sw_pool sw) s)) = holders sw s ?g + k s"
      using I(5) s' by (auto simp: net_refs_def)
    moreover have "holders ?sw s ?g + count_if (names s ?g) (queue_of (vnic_at sw vm)) =
        holders sw s ?g + count_if (names s ?g) (queue_of (f (vnic_at sw vm)))"
      using holders_upd [of vm "sw\<lparr>sw_pool := p\<rparr>" f s ?g] vm by simp
    ultimately show "unat (fr_refcnt (frame_of (sw_pool ?sw) s)) =
        holders ?sw s (fr_gen (frame_of (sw_pool ?sw) s)) + k' s"
      using refs [OF s] by simp
  qed
  ultimately show ?thesis by (simp add: net_inv_def)
qed

end
