(* ===== verification/Vnet_Ops.thy ===== *)
theory Vnet_Ops
  imports Vnet_Inv
begin

text \<open>
  Every operation of the switch keeps its invariant, and what the receive side finds at the
  head of a queue.
\<close>

section \<open>Counters and flags\<close>

lemma same_net_inv:
  assumes inv: "net_inv k h sw" and s: "same_net sw sw'"
  shows "net_inv k h sw'"
proof -
  have I: "net_shape sw" "net_irqs sw" "net_registry sw" "net_queues h sw" "net_refs k sw"
    using inv by (simp_all add: net_inv_def)
  have e: "sw_nvm sw' = sw_nvm sw" "sw_pool sw' = sw_pool sw" "sw_fdb sw' = sw_fdb sw"
    "sw_unknown_unicast_flood sw' = sw_unknown_unicast_flood sw" using s by (simp_all add: same_net_def)
  note l = same_net_vnic(1) [OF s] and v = same_net_vnic(2) [OF s]
  have "vnics_grow sw sw'" unfolding vnics_grow_def using e l v by simp
  moreover have "pool_wf (sw_pool sw)" using I(1) by (simp add: net_shape_def)
  ultimately have "queued_ok h sw' i d" if "queued_ok h sw i d" "i < length (sw_vnics sw)" for i d
    using that e by (intro queued_ok_mono [OF that]) simp_all
  then have "net_queues h sw'" using I(4) l v by (simp add: net_queues_def)
  moreover have "holders sw' s g = holders sw s g" for s g using l v by (intro holders_cong) simp_all
  then have "net_refs k sw'" using I(5) e by (simp add: net_refs_def)
  moreover have "net_shape sw'" using I(1) e l v by (simp add: net_shape_def)
  moreover have "net_irqs sw'" using I(2) l v by (simp add: net_irqs_def)
  moreover have "net_registry sw'" using v l e by (intro net_registry_cong [OF I(3)]) simp_all
  ultimately show ?thesis by (simp add: net_inv_def)
qed

lemma net_count: "net_inv k h sw \<Longrightarrow> net_inv k h (sw_count vm f sw)"
  by (rule same_net_inv [OF _ same_net_count])

lemma upd_vnic_id [simp]: "upd_vnic vm (\<lambda>v. v) sw = sw"
  by (simp add: upd_vnic_def upd_at_def)

lemma net_inv_shape:
  assumes "net_inv k h sw"
  shows "length (sw_vnics sw) = unat (sw_nvm sw)" "pool_wf (sw_pool sw)" "fdb_wf (sw_fdb sw)"
    "fdb_static (sw_fdb sw)" "i < length (sw_vnics sw) \<Longrightarrow> ring_wf (vn_rxq (sw_vnics sw ! i))"
    "0 < length (sw_vnics sw)"
  using assms by (simp_all add: net_inv_def net_shape_def unat_gt_0)

lemma frame_of_wf:
  assumes "pool_wf p" "s < pool_slot_count p"
  shows "frame_wf (frame_of p s)"
proof -
  have "frame_of p s \<in> set (pool_list p)"
    using assms pool_wf_length [OF assms(1)] by (simp add: frame_of_def word_less_nat_alt)
  then show ?thesis using assms(1) by (simp add: pool_wf_def)
qed

text \<open>Only references move.\<close>

lemma net_pool_step:
  assumes inv: "net_inv k h sw" and vm: "unat (vm :: u32) < length (sw_vnics sw)" and p: "pool_keeps (sw_pool sw) p"
    and r: "\<And>s. s < pool_slot_count p \<Longrightarrow> fr_refcnt (frame_of p s) \<noteq> 0 \<Longrightarrow>
      unat (fr_refcnt (frame_of p s)) + k s = unat (fr_refcnt (frame_of (sw_pool sw) s)) + k' s"
  shows "net_inv k' h (sw\<lparr>sw_pool := p\<rparr>)"
proof -
  have "net_irqs sw" using inv by (simp add: net_inv_def)
  then have "net_inv k' h (upd_vnic vm (\<lambda>v. v) (sw\<lparr>sw_pool := p\<rparr>))"
    using r vm net_inv_shape(5) [OF inv] by (intro net_step [OF inv vm p]) (simp_all add: net_irqs_def)
  then show ?thesis by simp
qed

text \<open>The interrupt flag of an interface is set, or cleared while its queue is empty.\<close>

lemma net_irq_flag:
  assumes inv: "net_inv k h sw" and vm: "unat vm < length (sw_vnics sw)"
    and b: "queue_of (vnic_at sw vm) \<noteq> [] \<Longrightarrow> b"
  shows "net_inv k h (upd_vnic vm (\<lambda>v. v\<lparr>vn_rx_irq_pending := b\<rparr>) sw)"
proof -
  have "net_inv k h (upd_vnic vm (\<lambda>v. v\<lparr>vn_rx_irq_pending := b\<rparr>) (sw\<lparr>sw_pool := sw_pool sw\<rparr>))"
    using vm net_inv_shape(2,5) [OF inv] b by (intro net_step [OF inv vm]) simp_all
  then show ?thesis by simp
qed

section \<open>Discarding stale heads\<close>

lemma skip_stale_items:
  assumes "pool_wf p" "ring_wf r"
  shows "ring_wf (skip_stale p r) \<and> ring_items (skip_stale p r) = dropWhile (\<lambda>d. \<not> desc_live p d) (ring_items r)"
proof -
  have "skip_stale p q = (case vnet_ring_peek q of (rc, Some d) \<Rightarrow>
      (if desc_live p d then q else skip_stale p (snd (vnet_ring_drop_head q))) | (rc, None) \<Rightarrow> q)" for q
    using assms(1) by (subst skip_stale.simps) (auto simp: vnet_pool_slot_live desc_live_def split: prod.split option.split if_splits)
  from rxq.skip_loop [where sk = "skip_stale p", OF this assms(2)] show ?thesis by simp
qed

lemma count_dropWhile:
  assumes "\<And>d. d \<in> set xs \<Longrightarrow> P d \<Longrightarrow> Q d"
  shows "count_if P (dropWhile (\<lambda>d. \<not> Q d) xs) = count_if P xs"
  using assms
proof (induction xs)
  case Nil
  then show ?case by simp
next
  case (Cons x xs)
  then have "count_if P (dropWhile (\<lambda>d. \<not> Q d) xs) = count_if P xs" by simp
  then show ?case using Cons.prems [of x] by auto
qed

lemma net_skip:
  assumes inv: "net_inv k h sw" and vm: "unat vm < length (sw_vnics sw)"
  shows "net_inv k h (skip_stale_head sw vm)"
    and "queue_of (vnic_at (skip_stale_head sw vm) vm) =
      dropWhile (\<lambda>d. \<not> desc_live (sw_pool sw) d) (queue_of (vnic_at sw vm))"
proof -
  note S = net_inv_shape [OF inv]
  note K = skip_stale_items [OF S(2) S(5) [OF vm]]
  let ?f = "\<lambda>v. v\<lparr>vn_rxq := skip_stale (sw_pool sw) (vn_rxq v)\<rparr>"
  have irq: "queue_of (vnic_at sw vm) \<noteq> [] \<Longrightarrow> vn_rx_irq_pending (vnic_at sw vm)"
    using inv vm by (simp add: net_inv_def net_irqs_def)
  have "net_inv k h (upd_vnic vm ?f (sw\<lparr>sw_pool := sw_pool sw\<rparr>))"
  proof (rule net_step [OF inv vm])
    show "pool_keeps (sw_pool sw) (sw_pool sw)" using S(2) by simp
    show "ring_wf (vn_rxq (?f (vnic_at sw vm)))" using K by simp
    show "vn_rx_irq_pending (?f (vnic_at sw vm))" if "queue_of (?f (vnic_at sw vm)) \<noteq> []"
      using that K irq by (cases "queue_of (vnic_at sw vm) = []") simp_all
    show "d \<in> set (queue_of (vnic_at sw vm)) \<or> queued_ok h (upd_vnic vm ?f (sw\<lparr>sw_pool := sw_pool sw\<rparr>)) (unat vm) d"
      if "d \<in> set (queue_of (?f (vnic_at sw vm)))" for d
      using that K set_dropWhileD by fastforce
    fix s
    assume "s < pool_slot_count (sw_pool sw)" "fr_refcnt (frame_of (sw_pool sw) s) \<noteq> 0"
    then have "desc_live (sw_pool sw) d" if "names s (fr_gen (frame_of (sw_pool sw) s)) d" for d
      using that by (simp add: names_def desc_live_def pool_live_def)
    then show "unat (fr_refcnt (frame_of (sw_pool sw) s)) +
        count_if (names s (fr_gen (frame_of (sw_pool sw) s))) (queue_of (vnic_at sw vm)) + k s =
      unat (fr_refcnt (frame_of (sw_pool sw) s)) +
        count_if (names s (fr_gen (frame_of (sw_pool sw) s))) (queue_of (?f (vnic_at sw vm))) + k s"
      using K by (simp add: count_dropWhile)
  qed simp_all
  then show "net_inv k h (skip_stale_head sw vm)" by (simp add: skip_stale_head_def)
  show "queue_of (vnic_at (skip_stale_head sw vm) vm) =
      dropWhile (\<lambda>d. \<not> desc_live (sw_pool sw) d) (queue_of (vnic_at sw vm))"
    using K vm by (simp add: skip_stale_head_def)
qed

lemma skip_head_live:
  assumes inv: "net_inv k h sw" and vm: "unat vm < length (sw_vnics sw)"
    and q: "queue_of (vnic_at (skip_stale_head sw vm) vm) = d # ds"
  shows "desc_live (sw_pool sw) d"
proof -
  have "dropWhile (\<lambda>d. \<not> desc_live (sw_pool sw) d) (queue_of (vnic_at sw vm)) = d # ds"
    using net_skip(2) [OF inv vm] q by simp
  then show ?thesis by (metis dropWhile_eq_Cons_conv)
qed

lemma skip_stale_head_simps [simp]:
  "sw_pool (skip_stale_head sw vm) = sw_pool sw"
  "sw_fdb (skip_stale_head sw vm) = sw_fdb sw"
  "sw_nvm (skip_stale_head sw vm) = sw_nvm sw"
  "length (sw_vnics (skip_stale_head sw vm)) = length (sw_vnics sw)"
  by (simp_all add: skip_stale_head_def)

lemma peek_queue:
  "net_inv k h sw \<Longrightarrow> unat vm < length (sw_vnics sw) \<Longrightarrow> vnet_ring_peek (vn_rxq (vnic_at sw vm)) =
     (case queue_of (vnic_at sw vm) of [] \<Rightarrow> (WT_VNET_E_EMPTY, None) | d # _ \<Rightarrow> (WT_VNET_OK, Some d))"
  using rxq.peek_items [OF net_inv_shape(5)] by blast

lemma empty_queue:
  "net_inv k h sw \<Longrightarrow> unat vm < length (sw_vnics sw) \<Longrightarrow>
     vnet_ring_empty (vn_rxq (vnic_at sw vm)) \<longleftrightarrow> queue_of (vnic_at sw vm) = []"
  using vnet_ring_empty_items [OF net_inv_shape(5)] by blast

lemma vnic_of_length: "net_inv k h sw \<Longrightarrow> vnic_of sw vm \<longleftrightarrow> unat vm < length (sw_vnics sw)"
  by (simp add: vnic_of_def net_inv_shape(1) word_less_nat_alt)

section \<open>Taking a frame off a queue\<close>

lemma refcnt_dec:
  assumes "(r :: u16) \<noteq> 0"
  shows "unat (r - 1) + 1 = unat r"
  using unat_dec_u16 [OF assms] unat_nz [OF assms] by simp

lemma pool_release_keeps:
  assumes w: "pool_wf p" and r: "vnet_pool_release p slot gen = (rc, p')" and l: "pool_live p slot gen"
  shows "rc = 0 \<or> rc = 1" "pool_keeps p p'"
    "\<And>s. s < pool_slot_count p \<Longrightarrow> fr_refcnt (frame_of p s) \<noteq> 0 \<Longrightarrow>
       unat (fr_refcnt (frame_of p' s)) + (if s = slot then 1 else 0) = unat (fr_refcnt (frame_of p s))"
proof -
  have R: "(rc = 0 \<or> rc = 1) \<and> pool_wf p' \<and> pool_slot_count p' = pool_slot_count p \<and>
      (\<forall>s. s < pool_slot_count p \<longrightarrow>
        frame_of p' s = (if s = slot then (frame_of p s)\<lparr>fr_refcnt := fr_refcnt (frame_of p s) - 1\<rparr> else frame_of p s))"
    using w r by (cases rule: pool_release_cases) (use l in simp_all)
  then show "rc = 0 \<or> rc = 1" by blast
  show "pool_keeps p p'" unfolding pool_keeps_def
    using R l by (simp add: same_frame_def pool_live_def)
  show "unat (fr_refcnt (frame_of p' s)) + (if s = slot then 1 else 0) = unat (fr_refcnt (frame_of p s))"
    if "s < pool_slot_count p" "fr_refcnt (frame_of p s) \<noteq> 0" for s
    using R that refcnt_dec [of "fr_refcnt (frame_of p s)"] by (cases "s = slot") simp_all
qed

lemma net_take_head:
  assumes inv: "net_inv k h sw" and vm: "unat vm < length (sw_vnics sw)"
    and q: "queue_of (vnic_at sw vm) = d # ds" and l: "desc_live (sw_pool sw) d"
    and r: "vnet_pool_release (sw_pool sw) (rd_slot d) (rd_gen d) = (rc, p)"
  shows "net_inv k h (upd_vnic vm (\<lambda>v. v\<lparr>vn_rxq := snd (vnet_ring_drop_head (vn_rxq v))\<rparr>) (sw\<lparr>sw_pool := p\<rparr>))"
    and "queue_of (vnic_at sw vm\<lparr>vn_rxq := snd (vnet_ring_drop_head (vn_rxq (vnic_at sw vm)))\<rparr>) = ds"
proof -
  note S = net_inv_shape [OF inv]
  let ?f = "\<lambda>v. v\<lparr>vn_rxq := snd (vnet_ring_drop_head (vn_rxq v))\<rparr>"
  have D: "ring_wf (snd (vnet_ring_drop_head (vn_rxq (vnic_at sw vm))))"
    "ring_items (snd (vnet_ring_drop_head (vn_rxq (vnic_at sw vm)))) = ds"
    using rxq.drop_items [OF S(5) [OF vm]] q by auto
  then show "queue_of (?f (vnic_at sw vm)) = ds" by simp
  have lv: "pool_live (sw_pool sw) (rd_slot d) (rd_gen d)" using l by (simp add: desc_live_def)
  note R = pool_release_keeps [OF S(2) r lv]
  have irq: "vn_rx_irq_pending (vnic_at sw vm)" using inv vm q by (simp add: net_inv_def net_irqs_def)
  show "net_inv k h (upd_vnic vm ?f (sw\<lparr>sw_pool := p\<rparr>))"
  proof (rule net_step [OF inv vm R(2)])
    fix s
    assume s: "s < pool_slot_count p" "fr_refcnt (frame_of p s) \<noteq> 0"
    then have s': "s < pool_slot_count (sw_pool sw)" "fr_refcnt (frame_of (sw_pool sw) s) \<noteq> 0"
      "fr_gen (frame_of p s) = fr_gen (frame_of (sw_pool sw) s)"
      using R(2) by (auto simp: pool_keeps_def same_frame_def)
    have "names s (fr_gen (frame_of p s)) d \<longleftrightarrow> s = rd_slot d"
      using lv s'(3) by (auto simp: names_def pool_live_def)
    then show "unat (fr_refcnt (frame_of p s)) + count_if (names s (fr_gen (frame_of p s))) (queue_of (vnic_at sw vm)) + k s =
        unat (fr_refcnt (frame_of (sw_pool sw) s)) +
          count_if (names s (fr_gen (frame_of p s))) (queue_of (?f (vnic_at sw vm))) + k s"
      using R(3) [OF s'(1,2)] q D by (auto split: if_splits)
  qed (use D q irq in auto)
qed

section \<open>The receive side\<close>

lemma poll_inv:
  assumes inv: "net_inv k h sw" and r: "vnet_switch_poll_rx sw vm meta = (rc, sw', meta')"
  shows "net_inv k h sw'"
proof (cases "vnic_of sw vm \<and> meta \<noteq> None \<and> vn_open (vnic_at sw vm)")
  case False
  then show ?thesis using inv r by (auto simp: vnet_switch_poll_rx_def split: if_splits)
next
  case True
  then have vm: "unat vm < length (sw_vnics sw)" using vnic_of_length [OF inv] by blast
  note S = net_skip [OF inv vm]
  have vm': "unat vm < length (sw_vnics (skip_stale_head sw vm))" using vm by simp
  show ?thesis
  proof (cases "vnet_ring_empty (vn_rxq (vnic_at (skip_stale_head sw vm) vm))")
    case E: True
    then have "queue_of (vnic_at (skip_stale_head sw vm) vm) = []" using empty_queue [OF S(1) vm'] by blast
    then show ?thesis using net_irq_flag [OF S(1) vm', of False] True E r
      by (auto simp: vnet_switch_poll_rx_def Let_def)
  next
    case False
    then show ?thesis using S(1) True r by (auto simp: vnet_switch_poll_rx_def Let_def split: prod.splits option.splits)
  qed
qed

lemma read_state:
  assumes "vnet_switch_read_rx sw vm slot gen dst n = (rc, sw', dst')"
  shows "sw' = sw \<or> vnic_of sw vm \<and> sw' = skip_stale_head sw vm"
  using assms by (auto simp: vnet_switch_read_rx_def Let_def split: option.splits if_splits prod.splits)

lemma read_rx_inv:
  assumes inv: "net_inv k h sw" and r: "vnet_switch_read_rx sw vm slot gen dst n = (rc, sw', dst')"
  shows "net_inv k h sw'"
  using read_state [OF r] inv net_skip(1) [OF inv] vnic_of_length [OF inv] by blast

lemma irq_ack_inv:
  assumes inv: "net_inv k h sw" and r: "vnet_switch_irq_ack sw vm = (rc, sw')"
  shows "net_inv k h sw'"
proof (cases "vnic_of sw vm \<and> vn_open (vnic_at sw vm)")
  case False
  then show ?thesis using inv r by (auto simp: vnet_switch_irq_ack_def split: if_splits)
next
  case True
  then have vm: "unat vm < length (sw_vnics sw)" using vnic_of_length [OF inv] by blast
  note S = net_skip [OF inv vm]
  have vm': "unat vm < length (sw_vnics (skip_stale_head sw vm))" using vm by simp
  show ?thesis
    using net_irq_flag [OF S(1) vm', of False] net_irq_flag [OF S(1) vm', of True] empty_queue [OF S(1) vm'] True r
    by (auto simp: vnet_switch_irq_ack_def Let_def split: if_splits)
qed

lemma upd_vnic_pool: "(upd_vnic vm f sw)\<lparr>sw_pool := p\<rparr> = upd_vnic vm f (sw\<lparr>sw_pool := p\<rparr>)"
  by (simp add: upd_vnic_def)

lemma release_cases:
  assumes inv: "net_inv k h sw" and r: "vnet_switch_release_rx sw vm slot gen = (rc, sw')"
  shows "net_inv k h sw'"
    and "rc = WT_VNET_OK \<Longrightarrow> unat vm < length (sw_vnics sw) \<and>
      (\<exists>d ds. dropWhile (\<lambda>d. \<not> desc_live (sw_pool sw) d) (queue_of (vnic_at sw vm)) = d # ds \<and>
         rd_slot d = slot \<and> rd_gen d = gen \<and> queue_of (vnic_at sw' vm) = ds)"
proof -
  have "net_inv k h sw' \<and> (rc = WT_VNET_OK \<longrightarrow> unat vm < length (sw_vnics sw) \<and>
      (\<exists>d ds. dropWhile (\<lambda>d. \<not> desc_live (sw_pool sw) d) (queue_of (vnic_at sw vm)) = d # ds \<and>
         rd_slot d = slot \<and> rd_gen d = gen \<and> queue_of (vnic_at sw' vm) = ds))"
  proof (cases "vnic_of sw vm \<and> vn_open (vnic_at sw vm)")
    case False
    then show ?thesis using inv r by (auto simp: vnet_switch_release_rx_def split: if_splits)
  next
    case True
    then have vm: "unat vm < length (sw_vnics sw)" using vnic_of_length [OF inv] by blast
    define sw1 where "sw1 = skip_stale_head sw vm"
    have I: "net_inv k h sw1" and vm1: "unat vm < length (sw_vnics sw1)"
      and Q: "queue_of (vnic_at sw1 vm) = dropWhile (\<lambda>d. \<not> desc_live (sw_pool sw) d) (queue_of (vnic_at sw vm))"
      using net_skip [OF inv vm] vm by (simp_all add: sw1_def)
    show ?thesis
    proof (cases "queue_of (vnic_at sw1 vm)")
      case Nil
      then have "vnet_ring_peek (vn_rxq (vnic_at sw1 vm)) = (WT_VNET_E_EMPTY, None)" using peek_queue [OF I vm1] by simp
      then show ?thesis using r True net_count [OF I] by (auto simp: vnet_switch_release_rx_def Let_def sw1_def [symmetric])
    next
      case (Cons d ds)
      then have pk: "vnet_ring_peek (vn_rxq (vnic_at sw1 vm)) = (WT_VNET_OK, Some d)" using peek_queue [OF I vm1] by simp
      show ?thesis
      proof (cases "rd_slot d = slot \<and> rd_gen d = gen")
        case False
        then show ?thesis using r True pk net_count [OF I] by (auto simp: vnet_switch_release_rx_def Let_def sw1_def [symmetric])
      next
        case own: True
        have lv: "desc_live (sw_pool sw1) d" using skip_head_live [OF inv vm] Cons by (simp add: sw1_def)
        obtain rc' p where rel: "vnet_pool_release (sw_pool sw1) (rd_slot d) (rd_gen d) = (rc', p)" by fastforce
        let ?sw3 = "upd_vnic vm (\<lambda>v. v\<lparr>vn_rxq := snd (vnet_ring_drop_head (vn_rxq v))\<rparr>) (sw1\<lparr>sw_pool := p\<rparr>)"
        note T = net_take_head [OF I vm1 Cons lv rel]
        have pos: "\<not> rc' < 0"
          using pool_release_keeps(1) [OF net_inv_shape(2) [OF I] rel] lv by (auto simp: desc_live_def)
        have vm3: "unat vm < length (sw_vnics ?sw3)" using vm1 by simp
        have q3: "queue_of (vnic_at ?sw3 vm) = ds" using T(2) vm1 by simp
        have e: "sw' = (if vnet_ring_empty (vn_rxq (vnic_at ?sw3 vm))
            then upd_vnic vm (\<lambda>v. v\<lparr>vn_rx_irq_pending := False\<rparr>) ?sw3 else ?sw3)"
          using r True pk own rel pos
          by (auto simp: vnet_switch_release_rx_def Let_def sw1_def [symmetric] upd_vnic_pool)
        have "net_inv k h sw'"
          unfolding e using T(1) net_irq_flag [OF T(1) vm3, of False] empty_queue [OF T(1) vm3]
          by (cases "vnet_ring_empty (vn_rxq (vnic_at ?sw3 vm))") (simp_all only: if_True if_False simp_thms)
        moreover have "queue_of (vnic_at sw' vm) = ds" unfolding e using q3 vm1 by simp
        ultimately show ?thesis using vm own Cons Q by auto
      qed
    qed
  qed
  then show "net_inv k h sw'"
    and "rc = WT_VNET_OK \<Longrightarrow> unat vm < length (sw_vnics sw) \<and>
      (\<exists>d ds. dropWhile (\<lambda>d. \<not> desc_live (sw_pool sw) d) (queue_of (vnic_at sw vm)) = d # ds \<and>
         rd_slot d = slot \<and> rd_gen d = gen \<and> queue_of (vnic_at sw' vm) = ds)" by blast+
qed

section \<open>Expiry\<close>

lemma trim_inv:
  assumes inv: "net_inv k h sw" and vm: "unat i < length (sw_vnics sw)"
  shows "net_inv k h (trim_queue i sw) \<and> length (sw_vnics (trim_queue i sw)) = length (sw_vnics sw)"
proof -
  note S = net_skip [OF inv vm]
  have vm': "unat i < length (sw_vnics (skip_stale_head sw i))" using vm by simp
  show ?thesis
    using S(1) net_irq_flag [OF S(1) vm', of False] empty_queue [OF S(1) vm'] vm by (auto simp: trim_queue_def Let_def)
qed

lemma fold_trim_inv:
  "net_inv k h sw \<Longrightarrow> (\<And>i. i \<in> set is \<Longrightarrow> unat i < length (sw_vnics sw)) \<Longrightarrow> net_inv k h (fold trim_queue is sw)"
proof (induction "is" arbitrary: sw)
  case Nil
  then show ?case by simp
next
  case (Cons i "is")
  then show ?case using trim_inv [OF Cons.prems(1), of i] by simp
qed

lemma vm_ids_bound: "net_inv k h sw \<Longrightarrow> i \<in> set (vm_ids sw) \<Longrightarrow> unat i < length (sw_vnics sw)"
  using unat_u32_less [of "sw_nvm sw"] by (auto simp: vm_ids_def net_inv_shape(1) unat_of_nat)

lemma drop_expired_inv:
  assumes inv: "net_inv (\<lambda>s. 0) h sw" and r: "vnet_switch_drop_expired sw now timeout = (freed, sw')"
  shows "net_inv (\<lambda>s. 0) h sw'"
proof -
  obtain p where p: "vnet_pool_drop_expired (sw_pool sw) now timeout = (freed, p)"
    using r by (auto simp: vnet_switch_drop_expired_def Let_def split: prod.splits)
  note R = pool_drop_expired_result [OF net_inv_shape(2) [OF inv] p]
  have keeps: "pool_keeps (sw_pool sw) p" unfolding pool_keeps_def using R by (simp add: same_frame_def)
  have "unat (0 :: u32) < length (sw_vnics sw)" using net_inv_shape(6) [OF inv] by simp
  then have I: "net_inv (\<lambda>s. 0) h (sw\<lparr>sw_pool := p\<rparr>)"
  proof (rule net_pool_step [OF inv _ keeps])
    show "unat (fr_refcnt (frame_of p s)) + 0 = unat (fr_refcnt (frame_of (sw_pool sw) s)) + 0"
      if "s < pool_slot_count p" "fr_refcnt (frame_of p s) \<noteq> 0" for s
      using that R by (auto split: if_splits)
  qed
  have J: "net_inv (\<lambda>s. 0) h (sw\<lparr>sw_pool := p, sw_global_stats := g\<rparr>)" for g
    by (rule same_net_inv [OF I]) (simp add: same_net_def)
  have ids: "unat i < length (sw_vnics sw)" if "i \<in> set (vm_ids sw)" for i using vm_ids_bound [OF inv that] .
  show ?thesis
  proof (cases "freed > 0")
    case True
    then obtain g where "sw' = fold trim_queue (vm_ids sw) (sw\<lparr>sw_pool := p, sw_global_stats := g\<rparr>)"
      using r p by (auto simp: vnet_switch_drop_expired_def Let_def)
    then show ?thesis using fold_trim_inv [OF J] ids by simp
  next
    case False
    then show ?thesis using r p I by (simp add: vnet_switch_drop_expired_def Let_def)
  qed
qed

section \<open>Opening an interface and assigning an address\<close>

lemma open_inv:
  assumes inv: "net_inv k h sw" and r: "vnet_switch_open sw vm info = (rc, sw', info')"
  shows "net_inv k h sw'"
proof (cases "vnic_of sw vm")
  case True
  then have vm: "unat vm < length (sw_vnics sw)" using vnic_of_length [OF inv] by blast
  have irq: "queue_of (vnic_at sw vm) \<noteq> [] \<Longrightarrow> vn_rx_irq_pending (vnic_at sw vm)"
    using inv vm by (simp add: net_inv_def net_irqs_def)
  have "net_inv k h (upd_vnic vm (\<lambda>v. v\<lparr>vn_open := True\<rparr>) (sw\<lparr>sw_pool := sw_pool sw\<rparr>))"
    using net_inv_shape(2,5) [OF inv] vm irq by (intro net_step [OF inv vm]) simp_all
  then show ?thesis using r True by (simp add: vnet_switch_open_def Let_def)
qed (use inv r in \<open>simp add: vnet_switch_open_def\<close>)

lemma assign_ok_inv:
  assumes inv: "net_inv k h sw" and vm: "unat vm < length (sw_vnics sw)"
    and same: "vn_mac_set (vnic_at sw vm) \<Longrightarrow> vn_mac (vnic_at sw vm) = m"
    and a: "vnet_fdb_assign (sw_fdb sw) vm m = (WT_VNET_OK, fdb')"
  shows "net_inv k h (upd_vnic vm (\<lambda>v. v\<lparr>vn_mac := m, vn_mac_set := True\<rparr>) (sw\<lparr>sw_fdb := fdb'\<rparr>))"
proof -
  let ?sw = "upd_vnic vm (\<lambda>v. v\<lparr>vn_mac := m, vn_mac_set := True\<rparr>) (sw\<lparr>sw_fdb := fdb'\<rparr>)"
  have I: "net_shape sw" "net_irqs sw" "net_registry sw" "net_queues h sw" "net_refs k sw"
    using inv by (simp_all add: net_inv_def)
  note S = net_inv_shape [OF inv]
  note A = fdb.assign_ok [OF S(3) a]
  have st: "fdb_static fdb'" by (rule fdb_static_assign [OF S(4) a])
  have grow: "vnics_grow sw ?sw" unfolding vnics_grow_def using A same by (auto simp: fun_upd_apply)
  have "net_queues h ?sw" unfolding net_queues_def
  proof (intro allI impI ballI)
    fix i d
    assume i: "i < length (sw_vnics ?sw)" and d: "d \<in> set (queue_of (sw_vnics ?sw ! i))"
    have "queued_ok h sw i d" using I(4) i d by (auto simp: net_queues_def split: if_splits)
    from queued_ok_mono [OF this _ grow, of h] show "queued_ok h ?sw i d" using i S(2) by simp
  qed
  moreover have "holders ?sw s g = holders sw s g" for s g by (rule holders_cong) simp_all
  then have "net_refs k ?sw" using I(5) by (simp add: net_refs_def)
  moreover have "net_shape ?sw" using I(1) A st by (simp add: net_shape_def)
  moreover have "net_irqs ?sw" using I(2) by (simp add: net_irqs_def)
  moreover have "net_registry ?sw" unfolding net_registry_def
  proof (intro conjI allI impI)
    fix n g
    have old: "fdb_owner (sw_fdb sw) n = Some g \<longleftrightarrow>
        unat g < length (sw_vnics sw) \<and> vn_mac_set (vnic_at sw g) \<and> vn_mac (vnic_at sw g) = n"
      using I(3) by (simp add: net_registry_def)
    have new: "fdb_owner fdb' n = (if n = m then Some vm else fdb_owner (sw_fdb sw) n)" using A by simp
    have g: "unat g = unat vm \<longleftrightarrow> g = vm" by (simp add: word_unat_eq_iff)
    show "fdb_owner (sw_fdb ?sw) n = Some g \<longleftrightarrow> unat g < length (sw_vnics ?sw) \<and>
        vn_mac_set (vnic_at ?sw g) \<and> vn_mac (vnic_at ?sw g) = n"
    proof (cases "g = vm")
      case True
      then show ?thesis using new vm A by (cases "n = m") auto
    next
      case False
      then show ?thesis using new old A g by (cases "n = m") auto
    qed
  next
    fix i
    assume "i < length (sw_vnics ?sw)" "vn_mac_set (sw_vnics ?sw ! i)"
    then show "mac_usable (vn_mac (sw_vnics ?sw ! i))"
      using I(3) A by (auto simp: net_registry_def split: if_splits)
  qed
  ultimately show ?thesis by (simp add: net_inv_def)
qed

lemma assign_mac_inv:
  assumes inv: "net_inv k h sw" and r: "vnet_switch_assign_mac sw vm mac = (rc, sw')"
  shows "net_inv k h sw'"
proof (cases mac)
  case None
  then show ?thesis using inv r by (simp add: vnet_switch_assign_mac_def)
next
  case (Some m)
  obtain rc1 fdb' where a: "vnet_fdb_assign (sw_fdb sw) vm m = (rc1, fdb')" by fastforce
  show ?thesis
  proof (cases "rc1 = WT_VNET_OK \<and> vnic_of sw vm \<and> (vn_mac_set (vnic_at sw vm) \<longrightarrow> vn_mac (vnic_at sw vm) = m)")
    case True
    then have vm: "unat vm < length (sw_vnics sw)" using vnic_of_length [OF inv] by blast
    have "net_inv k h (upd_vnic vm (\<lambda>v. v\<lparr>vn_mac := m, vn_mac_set := True\<rparr>) (sw\<lparr>sw_fdb := fdb'\<rparr>))"
      using assign_ok_inv [OF inv vm] True a by simp
    then show ?thesis using r a Some True inv net_count [OF inv]
      by (auto simp: vnet_switch_assign_mac_def vnet_mac_copy_def Let_def split: if_splits)
  next
    case False
    have "rc1 \<noteq> WT_VNET_OK \<Longrightarrow> fdb' = sw_fdb sw" using fdb.assign_refused [OF a] .
    then show ?thesis using r a Some False inv net_count [OF inv]
      by (auto simp: vnet_switch_assign_mac_def Let_def split: if_splits)
  qed
qed

end
