(* ===== verification/Vnet_Tx.thy ===== *)
theory Vnet_Tx
  imports Vnet_Ops
begin

text \<open>
  Transmission keeps the invariant. The frame is allocated with a scratch reference and a
  generation no queue knows, each delivery adds a descriptor and a reference, and the
  scratch reference is dropped at the end.
\<close>

section \<open>The push that is undone\<close>

lemma ring_unpush_push:
  assumes w: "ring_wf r" and p: "vnet_ring_push r d = (WT_VNET_OK, r')"
  shows "ring_wf (ring_unpush r')" "ring_items (ring_unpush r') = ring_items r"
proof -
  let ?c = "unat (ring_capacity r)" and ?n = "unat (ring_count r)" and ?t = "unat (ring_tail r)"
  obtain buf where b: "ring_buf r = Some buf" "length buf = ?c"
    and h: "unat (ring_head r) = (?t + ?n) mod ?c" and t: "?t < ?c"
    using w by (auto simp: ring_wf_def)
  have room: "ring_count r < ring_capacity r" and r': "r' = r\<lparr>ring_buf := Some (buf[unat (ring_head r) := d]),
      ring_head := ring_next r (ring_head r), ring_count := ring_count r + 1\<rparr>"
    using p b by (auto simp: vnet_ring_push_def not_le split: if_splits)
  have c0: "0 < ?c" using t by simp
  have n1: "unat (ring_count r + 1) = ?n + 1" by (rule unat_inc_u16 [OF room])
  then have nz: "ring_count r + 1 > 0" by (metis add_is_0 one_neq_zero unat_0 word_neq_0_conv)
  let ?h = "unat (ring_head r)"
  have hl: "?h < ?c" using h c0 by simp
  have nx: "unat (ring_next r (ring_head r)) = (?h + 1) mod ?c" by (rule unat_ring_next [OF c0])
  have prev: "(if ring_next r (ring_head r) = 0 then ring_capacity r - 1 else ring_next r (ring_head r) - 1) = ring_head r"
  proof (cases "?h + 1 = ?c")
    case True
    then have "ring_next r (ring_head r) = 0" using nx by (metis mod_self unat_eq_zero)
    moreover have "unat (ring_capacity r - 1) = ?h"
      using True c0 by (subst unat_dec_u16) (auto simp: unat_gt_0)
    ultimately show ?thesis by (simp add: word_unat_eq_iff)
  next
    case False
    then have e: "unat (ring_next r (ring_head r)) = ?h + 1" using nx hl by simp
    then have "ring_next r (ring_head r) \<noteq> 0" by auto
    then show ?thesis using e unat_dec_u16 [of "ring_next r (ring_head r)"] by (simp add: word_unat_eq_iff)
  qed
  have u: "ring_unpush r' = r\<lparr>ring_buf := Some (buf[?h := d])\<rparr>"
    using nz prev unfolding ring_unpush_def r' by (cases r) (auto split: if_splits)
  show "ring_wf (ring_unpush r')" unfolding u using w b by (simp add: ring_wf_def)
  have "buf[?h := d] ! ((?t + k) mod ?c) = buf ! ((?t + k) mod ?c)" if "k < ?n" for k
  proof -
    have "(?t + k) mod ?c \<noteq> ?h" using that room h mod_add_distinct by (simp add: word_less_nat_alt)
    then show ?thesis by simp
  qed
  then show "ring_items (ring_unpush r') = ring_items r" unfolding u using b by (simp add: ring_items_def)
qed

section \<open>Delivery to one interface\<close>

text \<open>What a delivery leaves alone.\<close>

definition delivers :: "vnet_switch \<Rightarrow> vnet_switch \<Rightarrow> bool" where
  "delivers sw sw' \<longleftrightarrow> sw_fdb sw' = sw_fdb sw \<and> sw_nvm sw' = sw_nvm sw \<and>
     sw_unknown_unicast_flood sw' = sw_unknown_unicast_flood sw \<and>
     length (sw_vnics sw') = length (sw_vnics sw) \<and>
     (\<forall>i<length (sw_vnics sw). vn_open (sw_vnics sw' ! i) = vn_open (sw_vnics sw ! i) \<and>
        vn_mac (sw_vnics sw' ! i) = vn_mac (sw_vnics sw ! i) \<and>
        vn_mac_set (sw_vnics sw' ! i) = vn_mac_set (sw_vnics sw ! i) \<and>
        ring_capacity (vn_rxq (sw_vnics sw' ! i)) = ring_capacity (vn_rxq (sw_vnics sw ! i))) \<and>
     pool_slot_count (sw_pool sw') = pool_slot_count (sw_pool sw) \<and>
     (\<forall>s. s < pool_slot_count (sw_pool sw) \<longrightarrow> same_frame (frame_of (sw_pool sw) s) (frame_of (sw_pool sw') s) \<and>
        (fr_refcnt (frame_of (sw_pool sw') s) \<noteq> 0 \<longleftrightarrow> fr_refcnt (frame_of (sw_pool sw) s) \<noteq> 0))"

lemma delivers_refl [simp]: "delivers sw sw"
  by (simp add: delivers_def same_frame_def)

lemma delivers_trans: "delivers a b \<Longrightarrow> delivers b c \<Longrightarrow> delivers a c"
  unfolding delivers_def same_frame_def by simp

lemma delivers_live: "delivers sw sw' \<Longrightarrow> pool_live (sw_pool sw') s g = pool_live (sw_pool sw) s g"
  by (auto simp: delivers_def pool_live_def same_frame_def)

lemma delivers_grow: "delivers sw sw' \<Longrightarrow> vnics_grow sw sw'"
  by (simp add: delivers_def vnics_grow_def)

lemma delivers_count [simp]: "delivers sw (sw_count vm f sw)"
  using same_net_vnic [OF same_net_count [of sw vm f]] by (simp add: delivers_def same_frame_def)

text \<open>
  The descriptor a delivery queues, and the outcome of a delivery: the descriptor is at the
  end of the queue exactly when the delivery succeeds, and no other queue moves.
\<close>

definition tx_desc :: "u16 \<Rightarrow> u16 \<Rightarrow> u16 \<Rightarrow> u32 \<Rightarrow> vnet_rx_desc" where
  "tx_desc slot gen len src = \<lparr>rd_slot = slot, rd_gen = gen, rd_len = len, rd_flags = 0, rd_src_vm = src\<rparr>"

definition queues_gain :: "vnet_switch \<Rightarrow> vnet_switch \<Rightarrow> (nat \<Rightarrow> bool) \<Rightarrow> vnet_rx_desc \<Rightarrow> bool" where
  "queues_gain sw sw' got d \<longleftrightarrow> (\<forall>i<length (sw_vnics sw).
     queue_of (sw_vnics sw' ! i) = queue_of (sw_vnics sw ! i) @ (if got i then [d] else []))"

definition can_receive :: "vnet_switch \<Rightarrow> nat \<Rightarrow> bool" where
  "can_receive sw i \<longleftrightarrow> vn_open (sw_vnics sw ! i) \<and>
     length (queue_of (sw_vnics sw ! i)) < unat (ring_capacity (vn_rxq (sw_vnics sw ! i)))"

lemma pool_ref_keeps:
  assumes w: "pool_wf p" and r: "vnet_pool_ref p slot gen = (WT_VNET_OK, p')"
  shows "pool_live p slot gen" "pool_keeps p p'"
    "\<And>s. s < pool_slot_count p \<Longrightarrow> unat (fr_refcnt (frame_of p' s)) =
       unat (fr_refcnt (frame_of p s)) + (if s = slot then 1 else 0)"
proof -
  have R: "pool_live p slot gen \<and> fr_refcnt (frame_of p slot) \<noteq> 0xFFFF \<and> pool_wf p' \<and>
      pool_slot_count p' = pool_slot_count p \<and> (\<forall>s. s < pool_slot_count p \<longrightarrow>
        frame_of p' s = (if s = slot then (frame_of p s)\<lparr>fr_refcnt := fr_refcnt (frame_of p s) + 1\<rparr> else frame_of p s))"
    using w r by (cases rule: pool_ref_cases) simp_all
  then show l: "pool_live p slot gen" by blast
  have inc: "unat (fr_refcnt (frame_of p slot) + 1) = unat (fr_refcnt (frame_of p slot)) + 1"
  proof (rule unat_inc_u16)
    show "fr_refcnt (frame_of p slot) < 0xFFFF"
      using R unat_u16_less [of "fr_refcnt (frame_of p slot)"]
      by (simp add: word_less_nat_alt word_unat_eq_iff)
  qed
  show "unat (fr_refcnt (frame_of p' s)) = unat (fr_refcnt (frame_of p s)) + (if s = slot then 1 else 0)"
    if "s < pool_slot_count p" for s using R inc that by simp
  show "pool_keeps p p'" unfolding pool_keeps_def using R by (simp add: same_frame_def pool_live_def)
qed

lemma upd_vnic_twice: "upd_vnic vm f (upd_vnic vm g sw) = upd_vnic vm (\<lambda>v. f (g v)) sw"
proof (cases "unat vm < length (sw_vnics sw)")
  case True
  then show ?thesis by (simp add: upd_vnic_def upd_at_def)
qed (simp add: upd_vnic_def upd_at_beyond)

text \<open>The successful delivery, without the counters.\<close>

lemma deliver_queued:
  assumes inv: "net_inv k h sw" and dst: "unat dst < length (sw_vnics sw)" and op: "vn_open (vnic_at sw dst)"
    and l: "pool_live (sw_pool sw) slot gen" and c: "carries h sw (unat dst) (frame_of (sw_pool sw) slot)"
    and f: "fr_len (frame_of (sw_pool sw) slot) = len" "fr_src_vm (frame_of (sw_pool sw) slot) = src"
    and q: "ring_wf q" "ring_items q = queue_of (vnic_at sw dst) @ [tx_desc slot gen len src]"
    and rf: "vnet_pool_ref (sw_pool sw) slot gen = (WT_VNET_OK, pool)"
  shows "net_inv k h (upd_vnic dst (\<lambda>v. v\<lparr>vn_rxq := q, vn_rx_irq_pending := True\<rparr>) (sw\<lparr>sw_pool := pool\<rparr>))"
proof -
  let ?f = "\<lambda>v. v\<lparr>vn_rxq := q, vn_rx_irq_pending := True\<rparr>" and ?d = "tx_desc slot gen len src"
  let ?sw = "upd_vnic dst ?f (sw\<lparr>sw_pool := pool\<rparr>)"
  note R = pool_ref_keeps [OF net_inv_shape(2) [OF inv] rf]
  have slot: "slot < pool_slot_count (sw_pool sw)" "fr_gen (frame_of (sw_pool sw) slot) = gen"
    using l by (simp_all add: pool_live_def)
  have sf: "same_frame (frame_of (sw_pool sw) slot) (frame_of pool slot)"
    using R(2) slot by (simp add: pool_keeps_def)
  have "vnics_grow sw ?sw" by (simp add: vnics_grow_def)
  then have "carries h ?sw (unat dst) (frame_of pool slot)" using carries_mono [OF c _ sf subset_refl] by blast
  then have new: "queued_ok h ?sw (unat dst) ?d"
    using slot sf f op dst R(2) by (simp add: queued_ok_def tx_desc_def same_frame_def pool_keeps_def)
  show ?thesis
  proof (rule net_step [OF inv dst R(2)])
    fix s
    assume s: "s < pool_slot_count pool" "fr_refcnt (frame_of pool s) \<noteq> 0"
    then have s': "s < pool_slot_count (sw_pool sw)" "fr_gen (frame_of pool s) = fr_gen (frame_of (sw_pool sw) s)"
      using R(2) by (auto simp: pool_keeps_def same_frame_def)
    have "names s (fr_gen (frame_of pool s)) ?d \<longleftrightarrow> s = slot"
      using slot s'(2) by (auto simp: names_def tx_desc_def)
    then show "unat (fr_refcnt (frame_of pool s)) + count_if (names s (fr_gen (frame_of pool s))) (queue_of (vnic_at sw dst)) + k s =
        unat (fr_refcnt (frame_of (sw_pool sw) s)) +
          count_if (names s (fr_gen (frame_of pool s))) (queue_of (?f (vnic_at sw dst))) + k s"
      using R(3) [OF s'(1)] q(2) by (simp add: count_if_append)
  qed (use q new in auto)
qed

lemma deliver_one:
  assumes inv: "net_inv k h sw" and dst: "unat dst < length (sw_vnics sw)"
    and l: "pool_live (sw_pool sw) slot gen"
    and c: "carries h sw (unat dst) (frame_of (sw_pool sw) slot)"
    and f: "fr_len (frame_of (sw_pool sw) slot) = len" "fr_src_vm (frame_of (sw_pool sw) slot) = src"
    and r: "try_deliver_one sw dst slot gen len src = (rc, sw')"
  shows "net_inv k h sw' \<and> delivers sw sw' \<and>
    queues_gain sw sw' (\<lambda>i. i = unat dst \<and> rc = WT_VNET_OK) (tx_desc slot gen len src) \<and>
    (can_receive sw (unat dst) \<and> fr_refcnt (frame_of (sw_pool sw) slot) \<noteq> 0xFFFF \<longleftrightarrow> rc = WT_VNET_OK) \<and>
    unat (fr_refcnt (frame_of (sw_pool sw') slot)) \<le> unat (fr_refcnt (frame_of (sw_pool sw) slot)) + 1"
proof (cases "vn_open (vnic_at sw dst)")
  case False
  then have "rc \<noteq> WT_VNET_OK" "sw' = sw" using r by (simp_all add: try_deliver_one_def)
  then show ?thesis using inv False by (simp add: queues_gain_def can_receive_def)
next
  case op: True
  note S = net_inv_shape [OF inv]
  let ?d = "tx_desc slot gen len src" and ?v = "vnic_at sw dst"
  obtain rc1 ring where p: "vnet_ring_push (vn_rxq ?v) ?d = (rc1, ring)" by fastforce
  show ?thesis
  proof (cases "length (queue_of ?v) < unat (ring_capacity (vn_rxq ?v))")
    case False
    then have "length (queue_of ?v) = unat (ring_capacity (vn_rxq ?v))" using rxq.bounded [OF S(5) [OF dst]] by simp
    then have e: "rc1 = WT_VNET_E_QUEUE_FULL" "ring = vn_rxq ?v" using rxq.push_full [OF S(5) [OF dst]] p by auto
    have "upd_vnic dst (\<lambda>v. v\<lparr>vn_rxq := ring\<rparr>) sw = sw"
      using e by (simp add: upd_vnic_def upd_at_def)
    then have "rc = WT_VNET_E_QUEUE_FULL" "sw' = sw_count dst (\<lambda>s. s\<lparr>drop_queue_full := drop_queue_full s + 1\<rparr>) sw"
      using r op p e by (auto simp: try_deliver_one_def tx_desc_def Let_def)
    then show ?thesis using False net_count [OF inv] same_net_vnic [OF same_net_count]
      by (simp add: queues_gain_def can_receive_def)
  next
    case room: True
    then obtain q where q: "vnet_ring_push (vn_rxq ?v) ?d = (WT_VNET_OK, q)" "ring_wf q"
        "ring_items q = queue_of ?v @ [?d]" "ring_capacity q = ring_capacity (vn_rxq ?v)"
      using rxq.push_room [OF S(5) [OF dst] room, of ?d] by (metis word_unat_eq_iff)
    then have e: "rc1 = WT_VNET_OK" "ring = q" using p by simp_all
    obtain rc2 pool where rf: "vnet_pool_ref (sw_pool sw) slot gen = (rc2, pool)" by fastforce
    show ?thesis
    proof (cases "rc2 = WT_VNET_OK")
      case True
      note R = pool_ref_keeps [OF S(2) rf [unfolded True]]
      let ?sw = "upd_vnic dst (\<lambda>v. v\<lparr>vn_rxq := q, vn_rx_irq_pending := True\<rparr>) (sw\<lparr>sw_pool := pool\<rparr>)"
      have E: "rc = WT_VNET_OK" "sw' = sw_count dst (\<lambda>s. s\<lparr>rx_frames := rx_frames s + 1,
          rx_bytes := rx_bytes s + ucast len\<rparr>) ?sw"
        using r op q(1) rf True
        by (simp_all add: try_deliver_one_def tx_desc_def [symmetric] Let_def upd_vnic_pool upd_vnic_twice)
      have I: "net_inv k h ?sw" using deliver_queued [OF inv dst op l c f q(2,3) rf [unfolded True]] .
      have nz: "fr_refcnt (frame_of pool s) \<noteq> 0 \<longleftrightarrow> fr_refcnt (frame_of (sw_pool sw) s) \<noteq> 0"
        if "s < pool_slot_count (sw_pool sw)" for s
        using R(3) [OF that] R(1) by (auto simp: pool_live_def unat_eq_zero [symmetric] simp del: unat_eq_zero split: if_splits)
      have D: "delivers sw ?sw" unfolding delivers_def
        using R(2) nz q(4) by (simp add: pool_keeps_def)
      have "queues_gain sw ?sw (\<lambda>i. i = unat dst \<and> rc = WT_VNET_OK) ?d" using q(3) E(1) by (simp add: queues_gain_def)
      then have "queues_gain sw sw' (\<lambda>i. i = unat dst \<and> rc = WT_VNET_OK) ?d"
        using same_net_vnic [OF same_net_count [of ?sw dst]] unfolding E(2) queues_gain_def by simp
      moreover have "delivers sw sw'" unfolding E(2) using D delivers_count delivers_trans by blast
      moreover have "fr_refcnt (frame_of (sw_pool sw) slot) \<noteq> 0xFFFF"
        using S(2) rf True by (cases rule: pool_ref_cases) simp_all
      moreover have "unat (fr_refcnt (frame_of (sw_pool sw') slot)) \<le> unat (fr_refcnt (frame_of (sw_pool sw) slot)) + 1"
        using R(3) [of slot] l by (simp add: E(2) pool_live_def)
      ultimately show ?thesis using net_count [OF I] E op room by (simp add: can_receive_def)
    next
      case False
      have R: "pool = sw_pool sw" "fr_refcnt (frame_of (sw_pool sw) slot) = 0xFFFF"
        using S(2) rf by (cases rule: pool_ref_cases; use False l in simp)+
      let ?sw = "upd_vnic dst (\<lambda>v. v\<lparr>vn_rxq := ring_unpush q\<rparr>) (sw\<lparr>sw_pool := sw_pool sw\<rparr>)"
      have E: "rc \<noteq> WT_VNET_OK" "sw' = ?sw"
        using r op q(1) rf False R(1)
        by (simp_all add: try_deliver_one_def tx_desc_def [symmetric] Let_def upd_vnic_pool upd_vnic_twice)
      note U = ring_unpush_push [OF S(5) [OF dst] q(1)]
      have cap: "ring_capacity (ring_unpush q) = ring_capacity q" by (simp add: ring_unpush_def)
      have irq: "queue_of ?v \<noteq> [] \<Longrightarrow> vn_rx_irq_pending ?v" using inv dst by (simp add: net_inv_def net_irqs_def)
      have "net_inv k h ?sw" by (rule net_step [OF inv dst]) (use S(2) U irq in simp_all)
      moreover have "delivers sw ?sw" using q(4) cap by (simp add: delivers_def same_frame_def)
      moreover have "queues_gain sw ?sw (\<lambda>i. i = unat dst \<and> rc = WT_VNET_OK) ?d"
        using U E(1) by (simp add: queues_gain_def)
      ultimately show ?thesis using E R(2) by simp
    qed
  qed
qed

section \<open>Delivery to all interfaces\<close>

lemma delivers_carries:
  assumes "delivers sw sw'" "carries h sw i (frame_of (sw_pool sw) s)" "s < pool_slot_count (sw_pool sw)"
  shows "carries h sw' i (frame_of (sw_pool sw') s)"
  using carries_mono [OF assms(2) delivers_grow [OF assms(1)], of "frame_of (sw_pool sw') s" h] assms(1,3)
  by (simp add: delivers_def)

lemma can_receive_other:
  assumes "delivers sw sw'" "queues_gain sw sw' got d" "i < length (sw_vnics sw)" "\<not> got i"
  shows "can_receive sw' i \<longleftrightarrow> can_receive sw i"
  using assms by (simp add: can_receive_def delivers_def queues_gain_def)

lemma deliver_loop_result:
  assumes "net_inv k h sw" "distinct is" "\<And>i. i \<in> set is \<Longrightarrow> unat i < length (sw_vnics sw)"
    and "pool_live (sw_pool sw) slot gen"
    and "\<And>i. i \<in> set is \<Longrightarrow> i \<noteq> src \<Longrightarrow> carries h sw (unat i) (frame_of (sw_pool sw) slot)"
    and "fr_len (frame_of (sw_pool sw) slot) = len" "fr_src_vm (frame_of (sw_pool sw) slot) = src"
    and "deliver_loop is sw slot gen len src n = (n', sw')"
  shows "net_inv k h sw' \<and> delivers sw sw' \<and>
    (unat (fr_refcnt (frame_of (sw_pool sw) slot)) + length is \<le> 65535 \<longrightarrow> unat n + length is < 2 ^ 32 \<longrightarrow>
     queues_gain sw sw' (\<lambda>i. \<exists>j\<in>set is. unat j = i \<and> j \<noteq> src \<and> can_receive sw i) (tx_desc slot gen len src) \<and>
     unat n' = unat n + count_if (\<lambda>j. j \<noteq> src \<and> can_receive sw (unat j)) is)"
  using assms
proof (induction "is" arbitrary: sw n)
  case Nil
  then show ?case by (simp add: queues_gain_def)
next
  case (Cons i "is")
  let ?f = "frame_of (sw_pool sw) slot" and ?d = "tx_desc slot gen len src"
  show ?case
  proof (cases "i = src")
    case True
    then have "deliver_loop is sw slot gen len src n = (n', sw')" using Cons.prems(8) by simp
    from Cons.IH [OF Cons.prems(1) _ _ Cons.prems(4) _ Cons.prems(6,7) this] Cons.prems(2,3,5)
    show ?thesis using True by auto
  next
    case False
    obtain rc sw1 where t: "try_deliver_one sw i slot gen len src = (rc, sw1)" by fastforce
    define n1 where "n1 = (if rc = WT_VNET_OK then n + 1 else n)"
    have loop: "deliver_loop is sw1 slot gen len src n1 = (n', sw')"
      using Cons.prems(8) False t by (simp add: n1_def)
    have i: "unat i < length (sw_vnics sw)" using Cons.prems(3) [of i] by simp
    have sl: "slot < pool_slot_count (sw_pool sw)" using Cons.prems(4) by (simp add: pool_live_def)
    note D = deliver_one [OF Cons.prems(1) i Cons.prems(4) _ Cons.prems(6,7) t]
    have c: "carries h sw (unat i) ?f" using Cons.prems(5) [of i] False by simp
    have D1: "net_inv k h sw1" "delivers sw sw1" "queues_gain sw sw1 (\<lambda>j. j = unat i \<and> rc = WT_VNET_OK) ?d"
      "can_receive sw (unat i) \<and> fr_refcnt ?f \<noteq> 0xFFFF \<longleftrightarrow> rc = WT_VNET_OK"
      "unat (fr_refcnt (frame_of (sw_pool sw1) slot)) \<le> unat (fr_refcnt ?f) + 1" using D [OF c] by blast+
    have len: "length (sw_vnics sw1) = length (sw_vnics sw)" and
      sf: "same_frame ?f (frame_of (sw_pool sw1) slot)" using D1(2) sl by (simp_all add: delivers_def)
    have IH: "net_inv k h sw' \<and> delivers sw1 sw' \<and>
      (unat (fr_refcnt (frame_of (sw_pool sw1) slot)) + length is \<le> 65535 \<longrightarrow> unat n1 + length is < 2 ^ 32 \<longrightarrow>
       queues_gain sw1 sw' (\<lambda>i. \<exists>j\<in>set is. unat j = i \<and> j \<noteq> src \<and> can_receive sw1 i) ?d \<and>
       unat n' = unat n1 + count_if (\<lambda>j. j \<noteq> src \<and> can_receive sw1 (unat j)) is)"
    proof (rule Cons.IH [OF D1(1) _ _ _ _ _ _ loop])
      show "pool_live (sw_pool sw1) slot gen" using delivers_live [OF D1(2)] Cons.prems(4) by simp
      show "carries h sw1 (unat j) (frame_of (sw_pool sw1) slot)" if "j \<in> set is" "j \<noteq> src" for j
        using delivers_carries [OF D1(2) _ sl] Cons.prems(5) [of j] that by simp
    qed (use Cons.prems(2,3,6,7) len sf in \<open>auto simp: same_frame_def\<close>)
    have other: "can_receive sw1 (unat j) \<longleftrightarrow> can_receive sw (unat j)" if "j \<in> set is" for j
    proof (rule can_receive_other [OF D1(2,3)])
      show "unat j < length (sw_vnics sw)" using Cons.prems(3) that by simp
      show "\<not> (unat j = unat i \<and> rc = WT_VNET_OK)" using that Cons.prems(2) word_unat_eq_iff [of j i] by auto
    qed
    show ?thesis
    proof (intro conjI impI)
      show "net_inv k h sw'" "delivers sw sw'" using IH delivers_trans [OF D1(2)] by blast+
      assume b: "unat (fr_refcnt ?f) + length (i # is) \<le> 65535" "unat n + length (i # is) < 2 ^ 32"
      have rc: "rc = WT_VNET_OK \<longleftrightarrow> can_receive sw (unat i)"
        using D1(4) b(1) by (auto simp: word_unat_eq_iff)
      have un: "unat n1 = unat n + (if rc = WT_VNET_OK then 1 else 0)"
        using b(2) by (simp add: n1_def unat_word_ariths)
      then have B: "unat (fr_refcnt (frame_of (sw_pool sw1) slot)) + length is \<le> 65535" "unat n1 + length is < 2 ^ 32"
        using b D1(5) by (auto split: if_splits)
      then have G: "queues_gain sw1 sw' (\<lambda>i. \<exists>j\<in>set is. unat j = i \<and> j \<noteq> src \<and> can_receive sw1 i) ?d"
        and N: "unat n' = unat n1 + count_if (\<lambda>j. j \<noteq> src \<and> can_receive sw1 (unat j)) is" using IH by blast+
      have "count_if (\<lambda>j. j \<noteq> src \<and> can_receive sw1 (unat j)) is = count_if (\<lambda>j. j \<noteq> src \<and> can_receive sw (unat j)) is"
        unfolding count_if_def using other by (intro arg_cong [where f = length] filter_cong) auto
      then show "unat n' = unat n + count_if (\<lambda>j. j \<noteq> src \<and> can_receive sw (unat j)) (i # is)"
        using N un rc False by simp
      show "queues_gain sw sw' (\<lambda>x. \<exists>j\<in>set (i # is). unat j = x \<and> j \<noteq> src \<and> can_receive sw x) ?d"
        unfolding queues_gain_def
      proof (intro allI impI)
        fix x
        assume x: "x < length (sw_vnics sw)"
        define A where "A \<longleftrightarrow> (\<exists>j\<in>set is. unat j = x \<and> j \<noteq> src \<and> can_receive sw x)"
        define B where "B \<longleftrightarrow> x = unat i \<and> rc = WT_VNET_OK"
        have "unat j \<noteq> unat i" if "j \<in> set is" for j using that Cons.prems(2) word_unat_eq_iff [of j i] by auto
        then have "\<not> (A \<and> B)" by (auto simp: A_def B_def)
        moreover have "(\<exists>j\<in>set is. unat j = x \<and> j \<noteq> src \<and> can_receive sw1 x) \<longleftrightarrow> A"
          using other by (auto simp: A_def)
        then have "queue_of (sw_vnics sw' ! x) = queue_of (sw_vnics sw1 ! x) @ (if A then [?d] else [])"
          using G x len by (simp add: queues_gain_def)
        moreover have "queue_of (sw_vnics sw1 ! x) = queue_of (sw_vnics sw ! x) @ (if B then [?d] else [])"
          using D1(3) x by (simp add: queues_gain_def B_def)
        moreover have "(\<exists>j\<in>set (i # is). unat j = x \<and> j \<noteq> src \<and> can_receive sw x) \<longleftrightarrow> B \<or> A"
          using rc False by (auto simp: A_def B_def)
        ultimately show "queue_of (sw_vnics sw' ! x) = queue_of (sw_vnics sw ! x) @
            (if \<exists>j\<in>set (i # is). unat j = x \<and> j \<noteq> src \<and> can_receive sw x then [?d] else [])"
          by (cases A; cases B) simp_all
      qed
    qed
  qed
qed

section \<open>The new frame\<close>

lemma unat_diff_inc:
  assumes "unat ((g :: u16) - r) \<le> n" "n < 65535"
  shows "unat (g + 1 - r) \<le> n + 1" "r \<noteq> g + 1"
proof -
  have e: "g + 1 - r = (g - r) + 1" by simp
  have "unat ((g - r) + 1) = unat (g - r) + 1"
    using assms by (intro unat_inc_u16 [of _ "0xFFFF"]) (simp add: word_less_nat_alt)
  then have u: "unat (g + 1 - r) = unat (g - r) + 1" by (simp only: e)
  then show "unat (g + 1 - r) \<le> n + 1" using assms by simp
  show "r \<noteq> g + 1"
  proof
    assume "r = g + 1"
    then show False using u by simp
  qed
qed

lemma fill_data:
  assumes "length data = WT_VNET_FRAME_MAX" "unat len \<le> length frame" "unat len \<le> WT_VNET_FRAME_MAX" "14 \<le> unat len"
  shows "length (take (unat len) frame @ drop (unat len) data) = WT_VNET_FRAME_MAX"
    "take (unat len) (take (unat len) frame @ drop (unat len) data) = take (unat len) frame"
    "mac_at (take (unat len) frame @ drop (unat len) data) 0 = mac_at frame 0"
    "mac_at (take (unat len) frame @ drop (unat len) data) 6 = mac_at frame 6"
  using assms by (simp_all add: mac_at_def nth_append)

lemma net_alloc:
  fixes src :: u32
  assumes inv: "net_inv (\<lambda>s. 0) h sw" and a: "vnet_pool_alloc (sw_pool sw) now = (slot, p)"
    and nb: "slot \<noteq> VNET_POOL_BAD_SLOT" and hb: "length h < 65535"
    and len: "unat len \<le> length frame" "unat len \<le> WT_VNET_FRAME_MAX" "14 \<le> unat len"
  defines "sw' \<equiv> sw\<lparr>sw_pool := pool_upd (unat slot) (tx_fill frame len src) p\<rparr>"
    and "h' \<equiv> h @ [(src, take (unat len) frame)]"
  shows "net_inv (\<lambda>s. if s = slot then 1 else 0) h' sw'"
    and "pool_live (sw_pool sw') slot (fr_gen (frame_of p slot))"
    and "frame_of (sw_pool sw') slot = tx_fill frame len src (frame_of p slot)"
    and "length (fr_data (frame_of p slot)) = WT_VNET_FRAME_MAX"
    and "fr_refcnt (frame_of (sw_pool sw') slot) = 1"
proof -
  note S = net_inv_shape [OF inv]
  have I: "net_irqs sw" "net_registry sw" "net_queues h sw" "net_refs (\<lambda>s. 0) sw"
    using inv by (simp_all add: net_inv_def)
  let ?P = "sw_pool sw" and ?p = "sw_pool sw'"
  obtain A: "slot < pool_slot_count ?P" "fr_refcnt (frame_of ?P slot) = 0" "pool_wf p"
      "pool_slot_count p = pool_slot_count ?P" and
    F: "\<And>s. s < pool_slot_count ?P \<Longrightarrow> frame_of p s = (if s = slot then (frame_of ?P s)
         \<lparr>fr_gen := fr_gen (frame_of ?P s) + 1, fr_refcnt := 1, fr_len := 0, fr_flags := 0,
          fr_src_vm := 0, fr_dst_mask := 0, fr_born_tick := now\<rparr> else frame_of ?P s)"
    using S(2) a by (cases rule: pool_alloc_cases) (use nb in auto)
  have sp: "unat slot < unat (pool_slot_count p)" using A by (simp add: word_less_nat_alt)
  have fw: "frame_wf (frame_of p slot)"
    using frame_of_wf [OF A(3)] A(1,4) by simp
  then show dl: "length (fr_data (frame_of p slot)) = WT_VNET_FRAME_MAX" by (simp add: frame_wf_def)
  note D = fill_data [OF dl len]
  have Fp: "frame_of ?p s = (if s = slot then tx_fill frame len src (frame_of p s) else frame_of ?P s)"
    if "s < pool_slot_count ?P" for s
    using that A F [OF that] by (simp add: sw'_def word_unat_eq_iff [symmetric])
  show fs: "frame_of ?p slot = tx_fill frame len src (frame_of p slot)" using Fp [OF A(1)] by simp
  have c: "pool_slot_count ?p = pool_slot_count ?P" using A(4) by (simp add: sw'_def)
  have rf: "fr_refcnt (frame_of p slot) = 1" using F [OF A(1)] by simp
  then show r1: "fr_refcnt (frame_of ?p slot) = 1" unfolding fs by (simp add: tx_fill_def)
  have gn: "fr_gen (frame_of ?p slot) = fr_gen (frame_of ?P slot) + 1"
    unfolding fs using F [OF A(1)] by (simp add: tx_fill_def)
  show live: "pool_live ?p slot (fr_gen (frame_of p slot))"
    using c A(1) r1 fs by (simp add: pool_live_def tx_fill_def)
  have "pool_wf ((pool_upd (unat slot) (tx_fill frame len src) p)\<lparr>pool_in_use_count := pool_in_use_count p\<rparr>)"
    using D(1) len rf by (intro pool_wf_upd [OF A(3) sp])
      (auto simp: frame_wf_def tx_fill_def frame_of_def word_le_nat_alt)
  moreover have "p'\<lparr>pool_in_use_count := pool_in_use_count p'\<rparr> = p'" for p' :: vnet_pool by simp
  ultimately have "pool_wf (pool_upd (unat slot) (tx_fill frame len src) p)" by (metis pool_upd_simps(2))
  then have wf: "pool_wf ?p" by (simp add: sw'_def)
  have stale: "\<not> names slot (fr_gen (frame_of ?P slot) + 1) d \<and> queued_ok h' sw' i d"
    if i: "i < length (sw_vnics sw)" and d: "d \<in> set (queue_of (sw_vnics sw ! i))" for i d
  proof -
    have q: "queued_ok h sw i d" using I(3) i d by (simp add: net_queues_def)
    then have b: "rd_slot d < pool_slot_count ?P" "unat (fr_gen (frame_of ?P (rd_slot d)) - rd_gen d) \<le> length h"
      by (simp_all add: queued_ok_def)
    show ?thesis
    proof (cases "rd_slot d = slot")
      case True
      note U = unat_diff_inc [OF b(2) hb]
      have "\<not> desc_live ?p d" using U(2) True gn by (auto simp: desc_live_def pool_live_def)
      then show ?thesis using U True gn b(1) c by (simp add: queued_ok_def h'_def names_def)
    next
      case False
      have fr: "frame_of ?p (rd_slot d) = frame_of ?P (rd_slot d)" using Fp [OF b(1)] False by simp
      have "vnics_grow sw sw'" by (simp add: vnics_grow_def sw'_def)
      then have "carries h' sw' i f" if "carries h sw i f" for f
        using carries_mono [OF that, of sw' f h'] by (simp add: same_frame_def h'_def subset_iff)
      then show ?thesis using q False fr c by (auto simp: queued_ok_def h'_def names_def desc_live_def pool_live_def sw'_def)
    qed
  qed
  have "net_queues h' sw'" unfolding net_queues_def using stale by (simp add: sw'_def)
  moreover have "net_refs (\<lambda>s. if s = slot then 1 else 0) sw'" unfolding net_refs_def
  proof (intro allI impI)
    fix s
    assume s: "s < pool_slot_count ?p \<and> fr_refcnt (frame_of ?p s) \<noteq> 0"
    have "holders sw' slot (fr_gen (frame_of ?p slot)) = 0"
      unfolding gn using stale by (intro holders_none) (auto simp: sw'_def)
    moreover have "holders sw' s' g = holders sw s' g" for s' g by (simp add: sw'_def)
    ultimately show "unat (fr_refcnt (frame_of ?p s)) = holders sw' s (fr_gen (frame_of ?p s)) + (if s = slot then 1 else 0)"
      using s r1 c I(4) Fp [of s] by (auto simp: net_refs_def)
  qed
  moreover have "net_registry sw'" by (rule net_registry_cong [OF I(2)]) (simp_all add: sw'_def)
  moreover have "net_irqs sw'" using I(1) by (simp add: net_irqs_def sw'_def)
  moreover have "net_shape sw'" using inv wf by (simp add: net_inv_def net_shape_def sw'_def)
  ultimately show "net_inv (\<lambda>s. if s = slot then 1 else 0) h' sw'" by (simp add: net_inv_def)
qed

section \<open>Who receives a frame\<close>

text \<open>
  The forwarding decision: a multicast reaches every other interface, a unicast the owner
  of the address, a unicast to nobody every other interface if the switch floods; and an
  interface receives only while it is open and its queue has room.
\<close>

definition tx_receivers :: "vnet_switch \<Rightarrow> u32 \<Rightarrow> vnet_mac \<Rightarrow> nat \<Rightarrow> bool" where
  "tx_receivers sw src dst i \<longleftrightarrow> i < length (sw_vnics sw) \<and> i \<noteq> unat src \<and> can_receive sw i \<and>
     (vnet_mac_is_multicast dst \<or>
      (case fdb_owner (sw_fdb sw) dst of Some g \<Rightarrow> g = of_nat i | None \<Rightarrow> sw_unknown_unicast_flood sw))"

lemma of_nat_u32_eq: "i < unat (n :: u32) \<Longrightarrow> unat (of_nat i :: u32) = i"
  using unat_u32_less [of n] by (simp add: unat_of_nat)

lemma vm_ids_all:
  assumes "net_inv k h sw"
  shows "distinct (vm_ids sw)" "i < length (sw_vnics sw) \<Longrightarrow> of_nat i \<in> set (vm_ids sw)"
    "length (vm_ids sw) = length (sw_vnics sw)"
proof -
  have "inj_on (of_nat :: nat \<Rightarrow> u32) {0..<unat (sw_nvm sw)}"
    by (rule inj_on_inverseI [where g = unat]) (use of_nat_u32_eq [of _ "sw_nvm sw"] in simp)
  then show "distinct (vm_ids sw)" by (simp add: vm_ids_def distinct_map)
  show "of_nat i \<in> set (vm_ids sw)" if "i < length (sw_vnics sw)"
    using that net_inv_shape(1) [OF assms] by (simp add: vm_ids_def)
  show "length (vm_ids sw) = length (sw_vnics sw)" using net_inv_shape(1) [OF assms] by (simp add: vm_ids_def)
qed

lemma queues_gain_cong:
  "queues_gain sw sw' got d \<Longrightarrow> (\<And>i. i < length (sw_vnics sw) \<Longrightarrow> got i = got' i) \<Longrightarrow> queues_gain sw sw' got' d"
  by (simp add: queues_gain_def)

lemma deliver_all:
  assumes inv: "net_inv k h sw" and l: "pool_live (sw_pool sw) slot gen"
    and c: "\<And>i. i < length (sw_vnics sw) \<Longrightarrow> i \<noteq> unat src \<Longrightarrow> carries h sw i (frame_of (sw_pool sw) slot)"
    and f: "fr_len (frame_of (sw_pool sw) slot) = len" "fr_src_vm (frame_of (sw_pool sw) slot) = src"
    and d: "deliver_loop (vm_ids sw) sw slot gen len src 0 = (n, sw')"
  shows "net_inv k h sw'" and "delivers sw sw'"
    and "unat (fr_refcnt (frame_of (sw_pool sw) slot)) + length (sw_vnics sw) \<le> 65535 \<Longrightarrow>
      queues_gain sw sw' (\<lambda>i. i \<noteq> unat src \<and> can_receive sw i) (tx_desc slot gen len src) \<and>
      (n = 0 \<longleftrightarrow> \<not> (\<exists>i<length (sw_vnics sw). i \<noteq> unat src \<and> can_receive sw i))"
proof -
  note V = vm_ids_all [OF inv]
  have B: "unat i < length (sw_vnics sw)" if "i \<in> set (vm_ids sw)" for i using vm_ids_bound [OF inv that] .
  have carry: "carries h sw (unat i) (frame_of (sw_pool sw) slot)" if "i \<in> set (vm_ids sw)" "i \<noteq> src" for i
    using c [OF B [OF that(1)]] that(2) by (simp add: word_unat_eq_iff)
  note L = deliver_loop_result [OF inv V(1) B l carry f d]
  show "net_inv k h sw'" "delivers sw sw'" using L by blast+
  assume b: "unat (fr_refcnt (frame_of (sw_pool sw) slot)) + length (sw_vnics sw) \<le> 65535"
  have R: "queues_gain sw sw' (\<lambda>i. \<exists>j\<in>set (vm_ids sw). unat j = i \<and> j \<noteq> src \<and> can_receive sw i) (tx_desc slot gen len src)"
    "unat n = count_if (\<lambda>j. j \<noteq> src \<and> can_receive sw (unat j)) (vm_ids sw)"
    using L b V(3) by simp_all
  have ids: "(\<exists>j\<in>set (vm_ids sw). unat j = i \<and> j \<noteq> src \<and> can_receive sw i) \<longleftrightarrow> i \<noteq> unat src \<and> can_receive sw i"
    if "i < length (sw_vnics sw)" for i
    using V(2) [OF that] of_nat_u32_eq [of i "sw_nvm sw"] that net_inv_shape(1) [OF inv]
    by (metis word_unat_eq_iff)
  have "n = 0 \<longleftrightarrow> (\<forall>j\<in>set (vm_ids sw). \<not> (j \<noteq> src \<and> can_receive sw (unat j)))"
    using R(2) by (auto simp: unat_eq_zero [symmetric] count_if_def filter_empty_conv simp del: unat_eq_zero)
  also have "\<dots> \<longleftrightarrow> \<not> (\<exists>i<length (sw_vnics sw). i \<noteq> unat src \<and> can_receive sw i)"
    using ids B by (metis word_unat_eq_iff)
  finally show "queues_gain sw sw' (\<lambda>i. i \<noteq> unat src \<and> can_receive sw i) (tx_desc slot gen len src) \<and>
      (n = 0 \<longleftrightarrow> \<not> (\<exists>i<length (sw_vnics sw). i \<noteq> unat src \<and> can_receive sw i))"
    using queues_gain_cong [OF R(1), of "\<lambda>i. i \<noteq> unat src \<and> can_receive sw i"] ids by blast
qed

lemma owner_bound:
  assumes "net_inv k h sw" "fdb_owner (sw_fdb sw) m = Some g"
  shows "unat g < length (sw_vnics sw)" "g \<noteq> VNET_FDB_NO_VM" "vnic_of sw g"
proof -
  show l: "unat g < length (sw_vnics sw)" using assms by (simp add: net_inv_def net_registry_def)
  then show "vnic_of sw g" using vnic_of_length [OF assms(1)] by simp
  show "g \<noteq> VNET_FDB_NO_VM"
    using l net_inv_shape(1) [OF assms(1)] unat_u32_less [of "sw_nvm sw"] by auto
qed

lemma tx_deliver_result:
  assumes inv: "net_inv k h sw" and l: "pool_live (sw_pool sw) slot gen"
    and c: "\<And>i. i < length (sw_vnics sw) \<Longrightarrow> i \<noteq> unat src \<Longrightarrow>
      vnet_mac_is_multicast dst \<or> sw_unknown_unicast_flood sw \<or> fdb_owner (sw_fdb sw) dst = Some (of_nat i) \<Longrightarrow>
      carries h sw i (frame_of (sw_pool sw) slot)"
    and f: "fr_len (frame_of (sw_pool sw) slot) = len" "fr_src_vm (frame_of (sw_pool sw) slot) = src"
    and z: "\<not> vnet_mac_is_zero dst"
    and d: "tx_deliver sw dst slot gen len src = (n, sw')"
  shows "net_inv k h sw'" and "delivers sw sw'"
    and "unat (fr_refcnt (frame_of (sw_pool sw) slot)) + length (sw_vnics sw) \<le> 65535 \<Longrightarrow>
      queues_gain sw sw' (tx_receivers sw src dst) (tx_desc slot gen len src) \<and>
      (n = 0 \<longleftrightarrow> \<not> (\<exists>i. tx_receivers sw src dst i))"
proof -
  let ?B = "unat (fr_refcnt (frame_of (sw_pool sw) slot)) + length (sw_vnics sw) \<le> 65535"
  let ?G = "\<lambda>n sw'. queues_gain sw sw' (tx_receivers sw src dst) (tx_desc slot gen len src) \<and>
      (n = (0 :: u32) \<longleftrightarrow> \<not> (\<exists>i. tx_receivers sw src dst i))"
  have all: "net_inv k h sw' \<and> delivers sw sw' \<and> (?B \<longrightarrow> ?G n sw')"
    if r: "deliver_loop (vm_ids sw) sw slot gen len src 0 = (n, sw')"
      and a: "vnet_mac_is_multicast dst \<or> fdb_owner (sw_fdb sw) dst = None \<and> sw_unknown_unicast_flood sw"
  proof -
    note D = deliver_all [OF inv l _ f r]
    have t: "tx_receivers sw src dst i \<longleftrightarrow> i < length (sw_vnics sw) \<and> i \<noteq> unat src \<and> can_receive sw i" for i
      using a by (auto simp: tx_receivers_def)
    have cc: "carries h sw i (frame_of (sw_pool sw) slot)" if "i < length (sw_vnics sw)" "i \<noteq> unat src" for i
      using c [OF that] a by blast
    have "?G n sw'" if b: ?B
    proof -
      have q: "queues_gain sw sw' (\<lambda>i. i \<noteq> unat src \<and> can_receive sw i) (tx_desc slot gen len src)"
        and n: "n = 0 \<longleftrightarrow> \<not> (\<exists>i<length (sw_vnics sw). i \<noteq> unat src \<and> can_receive sw i)"
        using D(3) [OF cc b] by blast+
      show ?thesis using queues_gain_cong [OF q, of "tx_receivers sw src dst"] n t by simp
    qed
    then show ?thesis using D(1,2) [OF cc] by blast
  qed
  have none: "?G 0 sw" if "\<And>i. \<not> tx_receivers sw src dst i" using that by (simp add: queues_gain_def)
  have "net_inv k h sw' \<and> delivers sw sw' \<and> (?B \<longrightarrow> ?G n sw')"
  proof (cases "vnet_mac_is_multicast dst")
    case True
    then show ?thesis using all d by (simp add: tx_deliver_def)
  next
    case uni: False
    then have look: "vnet_fdb_lookup (sw_fdb sw) dst =
        (case fdb_owner (sw_fdb sw) dst of None \<Rightarrow> VNET_FDB_NO_VM | Some g \<Rightarrow> g)"
      using z by (intro fdb_static_lookup [OF net_inv_shape(3,4) [OF inv]]) (simp add: mac_usable_def)
    show ?thesis
    proof (cases "fdb_owner (sw_fdb sw) dst")
      case None
      show ?thesis
      proof (cases "sw_unknown_unicast_flood sw")
        case True
        then show ?thesis using all d None uni look by (simp add: tx_deliver_def Let_def)
      next
        case False
        then have "n = 0 \<and> sw' = sw" using d None uni look by (simp add: tx_deliver_def Let_def)
        then show ?thesis using inv none None uni False by (simp add: tx_receivers_def)
      qed
    next
      case (Some g)
      note O = owner_bound [OF inv Some]
      have one: "tx_receivers sw src dst i \<longleftrightarrow> i = unat g \<and> g \<noteq> src \<and> can_receive sw i" for i
        using uni Some O(1) of_nat_u32_eq [of i "sw_nvm sw"] net_inv_shape(1) [OF inv]
        by (auto simp: tx_receivers_def word_unat_eq_iff)
      show ?thesis
      proof (cases "g = src")
        case True
        then have "n = 0 \<and> sw' = sw" using d Some uni look O by (simp add: tx_deliver_def Let_def)
        then show ?thesis using inv none one True by simp
      next
        case False
        obtain rc where t: "try_deliver_one sw g slot gen len src = (rc, sw')"
          and n: "n = (if rc = WT_VNET_OK then 1 else 0)"
          using d Some uni look O False by (auto simp: tx_deliver_def Let_def split: prod.splits)
        have "carries h sw (unat g) (frame_of (sw_pool sw) slot)"
          using c [OF O(1)] Some False by (simp add: word_unat_eq_iff)
        note D = deliver_one [OF inv O(1) l this f t]
        have "?G n sw'" if b: ?B
        proof -
          have "fr_refcnt (frame_of (sw_pool sw) slot) \<noteq> 0xFFFF" using b O(1) by (auto simp: word_unat_eq_iff)
          then have ok: "rc = WT_VNET_OK \<longleftrightarrow> can_receive sw (unat g)" using D by blast
          have "queues_gain sw sw' (\<lambda>i. i = unat g \<and> rc = WT_VNET_OK) (tx_desc slot gen len src)" using D by blast
          then have "queues_gain sw sw' (tx_receivers sw src dst) (tx_desc slot gen len src)"
            by (rule queues_gain_cong) (use ok one False in auto)
          moreover have "(\<exists>i. tx_receivers sw src dst i) \<longleftrightarrow> can_receive sw (unat g)" using one False by simp
          ultimately show ?thesis using n ok by simp
        qed
        then show ?thesis using D by blast
      qed
    qed
  qed
  then show "net_inv k h sw'" and "delivers sw sw'" and "?B \<Longrightarrow> ?G n sw'" by blast+
qed

section \<open>Transmission\<close>

text \<open>The checks a frame passes before a buffer is allocated.\<close>

definition tx_admitted :: "vnet_switch \<Rightarrow> u32 \<Rightarrow> u8 list \<Rightarrow> u16 \<Rightarrow> bool" where
  "tx_admitted sw src frame len \<longleftrightarrow> vnic_of sw src \<and> vn_open (vnic_at sw src) \<and> vn_mac_set (vnic_at sw src) \<and>
     14 \<le> unat len \<and> unat len \<le> WT_VNET_FRAME_MAX \<and> mac_at frame 6 = vn_mac (vnic_at sw src)"

text \<open>What is left of the function for an admitted frame.\<close>

definition tx_tail :: "vnet_switch \<Rightarrow> u32 \<Rightarrow> u8 list \<Rightarrow> u16 \<Rightarrow> u32 \<Rightarrow> int \<times> vnet_switch" where
  "tx_tail sw src frame len now =
     (case vnet_pool_alloc (sw_pool sw) now of (slot, pool) \<Rightarrow>
        if slot = VNET_POOL_BAD_SLOT
        then (WT_VNET_E_POOL_FULL,
              sw_count src (\<lambda>s. s\<lparr>drop_pool_full := drop_pool_full s + 1\<rparr>) (sw\<lparr>sw_pool := pool\<rparr>))
        else let gen = fr_gen (frame_of pool slot);
                 sw3 = sw_count src (\<lambda>s. s\<lparr>tx_frames := tx_frames s + 1, tx_bytes := tx_bytes s + ucast len\<rparr>)
                         (sw\<lparr>sw_pool := pool_upd (unat slot) (tx_fill frame len src) pool\<rparr>) in
          if vnet_mac_is_zero (mac_at frame 0)
          then (WT_VNET_E_MALFORMED,
                let sw4 = sw_count src (\<lambda>s. s\<lparr>err_malformed := err_malformed s + 1\<rparr>) sw3 in
                sw4\<lparr>sw_pool := snd (vnet_pool_release (sw_pool sw4) slot gen)\<rparr>)
          else case tx_deliver sw3 (mac_at frame 0) slot gen len src of (deliveries, sw4) \<Rightarrow>
            let sw5 = sw4\<lparr>sw_pool := snd (vnet_pool_release (sw_pool sw4) slot gen)\<rparr> in
            if deliveries = 0
            then (if \<not> vnet_mac_is_multicast (mac_at frame 0)
                  then (WT_VNET_E_DROPPED_UNKNOWN, sw_count src (\<lambda>s. s\<lparr>drop_unknown_unicast := drop_unknown_unicast s + 1\<rparr>) sw5)
                  else (WT_VNET_E_DROPPED_POLICY, sw_count src (\<lambda>s. s\<lparr>drop_policy := drop_policy s + 1\<rparr>) sw5))
            else (WT_VNET_OK, sw5))"

lemma own_mac:
  assumes "net_inv k h sw" "tx_admitted sw src frame len"
  shows "fdb_owner (sw_fdb sw) (mac_at frame 6) = Some src" "mac_usable (mac_at frame 6)"
    "unat src < length (sw_vnics sw)"
proof -
  show l: "unat src < length (sw_vnics sw)" using assms vnic_of_length by (simp add: tx_admitted_def)
  have "net_registry sw" using assms(1) by (simp add: net_inv_def)
  then show "fdb_owner (sw_fdb sw) (mac_at frame 6) = Some src" "mac_usable (mac_at frame 6)"
    using assms(2) l by (simp_all add: net_registry_def tx_admitted_def)
qed

lemma tx_admits:
  assumes inv: "net_inv k h sw" and a: "tx_admitted sw src frame len"
  shows "vnet_switch_tx sw src (Some frame) len now = tx_tail sw src frame len now"
proof -
  note M = own_mac [OF inv a]
  have "sw\<lparr>sw_fdb := snd (vnet_fdb_learn (sw_fdb sw) src (mac_at frame 6))\<rparr> = sw"
    using fdb_learn_owned [OF net_inv_shape(3) [OF inv] M(1)] by (metis prod.collapse vnet_switch.surjective
        vnet_switch.update_convs(4))
  note e = this
  have c: "vnic_of sw src" "vn_open (vnic_at sw src)" "vn_mac_set (vnic_at sw src)"
    "\<not> (len < WT_VNET_FRAME_MIN \<or> len > of_nat WT_VNET_FRAME_MAX)"
    "\<not> (vnet_mac_is_zero (mac_at frame 6) \<or> vnet_mac_is_multicast (mac_at frame 6))"
    "vnet_mac_equals (mac_at frame 6) (vn_mac (vnic_at sw src))"
    using a M(2) by (auto simp: tx_admitted_def mac_usable_def word_less_nat_alt)
  obtain slot pool where al: "vnet_pool_alloc (sw_pool sw) now = (slot, pool)" by fastforce
  show ?thesis unfolding vnet_switch_tx_def tx_tail_def option.case Let_def e al prod.case using c by simp
qed

lemma tx_refused:
  assumes inv: "net_inv k h sw" and a: "\<not> tx_admitted sw src frame len"
    and r: "vnet_switch_tx sw src (Some frame) len now = (rc, sw')"
  shows "rc \<noteq> WT_VNET_OK \<and> same_net sw sw'"
proof -
  have refl: "same_net sw sw" by (simp add: same_net_def)
  show ?thesis using r a refl unfolding vnet_switch_tx_def tx_admitted_def
    by (auto simp: Let_def word_less_nat_alt split: if_splits)
qed

lemma net_inv_history:
  assumes inv: "net_inv k h sw" and h: "set h \<subseteq> set h'" "length h \<le> length h'"
  shows "net_inv k h' sw"
proof -
  have "vnics_grow sw sw" by (simp add: vnics_grow_def)
  then have "queued_ok h' sw i d" if "queued_ok h sw i d" "i < length (sw_vnics sw)" for i d
    using queued_ok_mono [OF that, of sw h'] h net_inv_shape(2) [OF inv] by simp
  then show ?thesis using inv by (simp add: net_inv_def net_queues_def)
qed

lemma tx_receivers_cong:
  assumes "sw_fdb sw' = sw_fdb sw" "sw_unknown_unicast_flood sw' = sw_unknown_unicast_flood sw"
    "length (sw_vnics sw') = length (sw_vnics sw)"
    "\<And>i. i < length (sw_vnics sw) \<Longrightarrow> vn_open (sw_vnics sw' ! i) = vn_open (sw_vnics sw ! i) \<and>
       vn_rxq (sw_vnics sw' ! i) = vn_rxq (sw_vnics sw ! i)"
  shows "tx_receivers sw' src dst = tx_receivers sw src dst"
proof
  fix i
  show "tx_receivers sw' src dst i = tx_receivers sw src dst i"
    unfolding tx_receivers_def can_receive_def assms(1-3) using assms(4) [of i] by (cases "i < length (sw_vnics sw)") simp_all
qed

lemma holders_pos:
  assumes "i < length (sw_vnics sw)" "d \<in> set (queue_of (sw_vnics sw ! i))" "names s g d"
  shows "holders sw s g \<noteq> 0"
proof
  assume "holders sw s g = 0"
  then have "count_if (names s g) (queue_of (sw_vnics sw ! i)) = 0"
    using assms(1) by (simp add: holders_def sum_list_eq_0_iff)
  then show False using assms(2,3) by (auto simp: count_if_def filter_empty_conv)
qed

text \<open>Dropping the scratch reference.\<close>

lemma net_release_scratch:
  assumes inv: "net_inv (\<lambda>s. if s = slot then 1 else 0) h sw" and vm: "unat (vm :: u32) < length (sw_vnics sw)"
    and l: "pool_live (sw_pool sw) slot gen"
  defines "sw' \<equiv> sw\<lparr>sw_pool := snd (vnet_pool_release (sw_pool sw) slot gen)\<rparr>"
  shows "net_inv (\<lambda>s. 0) h sw'"
    and "same_frame (frame_of (sw_pool sw) slot) (frame_of (sw_pool sw') slot)"
    and "pool_live (sw_pool sw') slot gen \<longleftrightarrow> holders sw slot gen \<noteq> 0"
proof -
  obtain rc p where r: "vnet_pool_release (sw_pool sw) slot gen = (rc, p)" by fastforce
  have sw': "sw' = sw\<lparr>sw_pool := p\<rparr>" using r by (simp add: sw'_def)
  note K = pool_release_keeps [OF net_inv_shape(2) [OF inv] r l]
  have sl: "slot < pool_slot_count (sw_pool sw)" "fr_refcnt (frame_of (sw_pool sw) slot) \<noteq> 0"
    "fr_gen (frame_of (sw_pool sw) slot) = gen" using l by (simp_all add: pool_live_def)
  have eq: "pool_slot_count p = pool_slot_count (sw_pool sw)"
    and nz: "\<And>s. s < pool_slot_count (sw_pool sw) \<Longrightarrow> fr_refcnt (frame_of p s) \<noteq> 0 \<Longrightarrow> fr_refcnt (frame_of (sw_pool sw) s) \<noteq> 0"
    using K(2) by (simp_all add: pool_keeps_def)
  show "net_inv (\<lambda>s. 0) h sw'" unfolding sw'
    by (rule net_pool_step [OF inv vm K(2)]) (use K(3) eq nz in simp)
  show sf: "same_frame (frame_of (sw_pool sw) slot) (frame_of (sw_pool sw') slot)"
    using K(2) sl(1) by (simp add: sw' pool_keeps_def)
  have "unat (fr_refcnt (frame_of (sw_pool sw) slot)) = holders sw slot gen + 1"
    using inv sl by (simp add: net_inv_def net_refs_def)
  then have "unat (fr_refcnt (frame_of p slot)) = holders sw slot gen" using K(3) [OF sl(1,2)] by simp
  then have "fr_refcnt (frame_of p slot) \<noteq> 0 \<longleftrightarrow> holders sw slot gen \<noteq> 0" by (metis unat_eq_zero)
  then show "pool_live (sw_pool sw') slot gen \<longleftrightarrow> holders sw slot gen \<noteq> 0"
    using sf sl eq by (simp add: pool_live_def sw' same_frame_def)
qed

lemma tx_carries:
  assumes inv: "net_inv k h sw" and a: "tx_admitted sw src frame len" and l: "unat len \<le> length frame"
    and f: "f = tx_fill frame len src g" "length (fr_data g) = WT_VNET_FRAME_MAX"
    and h: "(src, take (unat len) frame) \<in> set h'" and i: "i \<noteq> unat src"
    and to: "vnet_mac_is_multicast (mac_at frame 0) \<or> sw_unknown_unicast_flood sw \<or>
      fdb_owner (sw_fdb sw) (mac_at frame 0) = Some (of_nat i)"
  shows "carries h' sw i f"
proof -
  have len: "unat len \<le> WT_VNET_FRAME_MAX" "14 \<le> unat len" using a by (simp_all add: tx_admitted_def)
  note D = fill_data [OF f(2) l len]
  have "vn_mac_set (vnic_at sw src)" "mac_at frame 6 = vn_mac (vnic_at sw src)" using a by (simp_all add: tx_admitted_def)
  then show ?thesis
    using own_mac(3) [OF inv a] i h to len unfolding carries_def f(1) tx_fill_def by (simp add: D del: take_append)
qed

text \<open>The frame a successful transmission leaves in the pool.\<close>

definition holds_frame :: "vnet_switch \<Rightarrow> u16 \<Rightarrow> u16 \<Rightarrow> u32 \<Rightarrow> u8 list \<Rightarrow> bool" where
  "holds_frame sw slot gen src bytes \<longleftrightarrow> pool_live (sw_pool sw) slot gen \<and>
     fr_src_vm (frame_of (sw_pool sw) slot) = src \<and> unat (fr_len (frame_of (sw_pool sw) slot)) = length bytes \<and>
     take (length bytes) (fr_data (frame_of (sw_pool sw) slot)) = bytes"

lemma same_net_queues: "same_net sw sw' \<Longrightarrow> queues_gain sw0 sw got d \<Longrightarrow>
    length (sw_vnics sw0) = length (sw_vnics sw) \<Longrightarrow> queues_gain sw0 sw' got d"
  using same_net_vnic [of sw sw'] by (simp add: queues_gain_def)

lemma tx_tail_result:
  assumes inv: "net_inv (\<lambda>s. 0) h sw" and a: "tx_admitted sw src frame len" and hb: "length h < 65535"
    and l: "unat len \<le> length frame" and r: "tx_tail sw src frame len now = (rc, sw')"
  defines "h' \<equiv> h @ [(src, take (unat len) frame)]"
  obtains (full) "rc = WT_VNET_E_POOL_FULL" "same_net sw sw'" "net_inv (\<lambda>s. 0) h' sw'"
      "\<And>s. s < pool_slot_count (sw_pool sw) \<Longrightarrow> fr_refcnt (frame_of (sw_pool sw) s) \<noteq> 0"
  | (malformed) "rc = WT_VNET_E_MALFORMED" "vnet_mac_is_zero (mac_at frame 0)" "net_inv (\<lambda>s. 0) h' sw'"
  | (sent) slot gen where "net_inv (\<lambda>s. 0) h' sw'" "\<not> vnet_mac_is_zero (mac_at frame 0)"
      "length (sw_vnics sw') = length (sw_vnics sw)"
      "length (sw_vnics sw) < 65535 \<Longrightarrow>
        queues_gain sw sw' (tx_receivers sw src (mac_at frame 0)) (tx_desc slot gen len src)"
      "length (sw_vnics sw) < 65535 \<Longrightarrow> rc = WT_VNET_OK \<longleftrightarrow> (\<exists>i. tx_receivers sw src (mac_at frame 0) i)"
      "\<And>i. length (sw_vnics sw) < 65535 \<Longrightarrow> tx_receivers sw src (mac_at frame 0) i \<Longrightarrow>
        holds_frame sw' slot gen src (take (unat len) frame)"
proof -
  let ?dst = "mac_at frame 0" and ?b = "take (unat len) frame"
  note M = own_mac [OF inv a]
  have len: "unat len \<le> WT_VNET_FRAME_MAX" "14 \<le> unat len" using a by (simp_all add: tx_admitted_def)
  obtain slot pool where al: "vnet_pool_alloc (sw_pool sw) now = (slot, pool)" by fastforce
  show thesis
  proof (cases "slot = VNET_POOL_BAD_SLOT")
    case True
    have F: "pool = sw_pool sw" "\<And>s. s < pool_slot_count (sw_pool sw) \<Longrightarrow> fr_refcnt (frame_of (sw_pool sw) s) \<noteq> 0"
      using net_inv_shape(2) [OF inv] al by (cases rule: pool_alloc_cases; use True in simp)+
    then have e: "rc = WT_VNET_E_POOL_FULL" "same_net sw sw'"
      using r al True by (auto simp: tx_tail_def)
    then show thesis
      using full F(2) net_inv_history [OF same_net_inv [OF inv e(2)], of h'] by (simp add: h'_def subset_iff)
  next
    case nb: False
    define gen where "gen = fr_gen (frame_of pool slot)"
    define sw2 where "sw2 = sw\<lparr>sw_pool := pool_upd (unat slot) (tx_fill frame len src) pool\<rparr>"
    define sw3 where "sw3 = sw_count src (\<lambda>s. s\<lparr>tx_frames := tx_frames s + 1, tx_bytes := tx_bytes s + ucast len\<rparr>) sw2"
    note A = net_alloc(1-3) [OF inv al nb hb l len, where src = src, folded sw2_def h'_def gen_def]
      net_alloc(4) [OF inv al nb hb l len]
      net_alloc(5) [OF inv al nb hb l len, where src = src, folded sw2_def]
    let ?k = "\<lambda>s. if s = slot then (1 :: nat) else 0"
    have I3: "net_inv ?k h' sw3" unfolding sw3_def by (rule net_count [OF A(1)])
    have p3: "sw_pool sw3 = sw_pool sw2" and len3: "length (sw_vnics sw3) = length (sw_vnics sw)"
      and s3: "same_net sw2 sw3" by (simp_all add: sw3_def sw2_def)
    have v3: "vn_rxq (sw_vnics sw3 ! i) = vn_rxq (sw_vnics sw ! i) \<and> vn_open (sw_vnics sw3 ! i) = vn_open (sw_vnics sw ! i) \<and>
        vn_mac (sw_vnics sw3 ! i) = vn_mac (sw_vnics sw ! i) \<and> vn_mac_set (sw_vnics sw3 ! i) = vn_mac_set (sw_vnics sw ! i)"
      if "i < length (sw_vnics sw)" for i using same_net_vnic(2) [OF s3, of i] that by (simp add: sw2_def)
    have f3: "sw_fdb sw3 = sw_fdb sw" "sw_unknown_unicast_flood sw3 = sw_unknown_unicast_flood sw"
      by (simp_all add: sw3_def sw2_def)
    have src3: "unat src < length (sw_vnics sw3)" using M(3) len3 by simp
    have l3: "pool_live (sw_pool sw3) slot gen" using A(2) p3 by simp
    have fr3: "frame_of (sw_pool sw3) slot = tx_fill frame len src (frame_of pool slot)" using A(3) p3 by simp
    show thesis
    proof (cases "vnet_mac_is_zero ?dst")
      case True
      define sw4 where "sw4 = sw_count src (\<lambda>s. s\<lparr>err_malformed := err_malformed s + 1\<rparr>) sw3"
      have "rc = WT_VNET_E_MALFORMED" "sw' = sw4\<lparr>sw_pool := snd (vnet_pool_release (sw_pool sw4) slot gen)\<rparr>"
        using r al nb True by (simp_all add: tx_tail_def Let_def gen_def sw4_def sw3_def sw2_def)
      moreover have "net_inv ?k h' sw4" "unat src < length (sw_vnics sw4)" "pool_live (sw_pool sw4) slot gen"
        using net_count [OF I3] src3 l3 by (simp_all add: sw4_def)
      ultimately show thesis using malformed True net_release_scratch(1) [of slot h' sw4 src gen] by simp
    next
      case nz: False
      obtain n sw4 where d: "tx_deliver sw3 ?dst slot gen len src = (n, sw4)" by fastforce
      define sw5 where "sw5 = sw4\<lparr>sw_pool := snd (vnet_pool_release (sw_pool sw4) slot gen)\<rparr>"
      have rs: "rc = WT_VNET_OK \<longleftrightarrow> n \<noteq> 0" "same_net sw5 sw'"
      proof -
        have "same_net sw5 sw5" by (simp add: same_net_def)
        then show "rc = WT_VNET_OK \<longleftrightarrow> n \<noteq> 0" "same_net sw5 sw'"
          using r al nb nz d
          by (auto simp: tx_tail_def Let_def gen_def [symmetric] sw2_def [symmetric] sw3_def [symmetric] sw5_def [symmetric]
              split: if_splits)
      qed
      have grow: "vnics_grow sw sw3" using v3 len3 f3 by (simp add: vnics_grow_def)
      have c: "carries h' sw3 i (frame_of (sw_pool sw3) slot)" if "i < length (sw_vnics sw3)" "i \<noteq> unat src"
        "vnet_mac_is_multicast ?dst \<or> sw_unknown_unicast_flood sw3 \<or> fdb_owner (sw_fdb sw3) ?dst = Some (of_nat i)" for i
      proof -
        have "carries h' sw i (frame_of (sw_pool sw3) slot)"
          by (rule tx_carries [OF inv a l fr3 A(4)]) (use that f3 in \<open>simp_all add: h'_def\<close>)
        then show ?thesis using carries_mono [OF _ grow, of h' i _ _ h'] by (simp add: same_frame_def)
      qed
      have ff: "fr_len (frame_of (sw_pool sw3) slot) = len" "fr_src_vm (frame_of (sw_pool sw3) slot) = src"
        by (simp_all add: fr3 tx_fill_def)
      have T: "net_inv ?k h' sw4" "delivers sw3 sw4"
        "unat (fr_refcnt (frame_of (sw_pool sw3) slot)) + length (sw_vnics sw3) \<le> 65535 \<Longrightarrow>
          queues_gain sw3 sw4 (tx_receivers sw3 src ?dst) (tx_desc slot gen len src) \<and>
          (n = 0 \<longleftrightarrow> \<not> (\<exists>i. tx_receivers sw3 src ?dst i))"
        using tx_deliver_result [OF I3 l3 _ ff nz d] c by metis+
      have l4: "pool_live (sw_pool sw4) slot gen" and len4: "length (sw_vnics sw4) = length (sw_vnics sw)"
        using delivers_live [OF T(2)] l3 T(2) len3 by (simp_all add: delivers_def)
      have src4: "unat src < length (sw_vnics sw4)" using M(3) len4 by simp
      note R = net_release_scratch [OF T(1) src4 l4, folded sw5_def]
      have I: "net_inv (\<lambda>s. 0) h' sw'" by (rule same_net_inv [OF R(1) rs(2)])
      have rec3: "tx_receivers sw3 src ?dst = tx_receivers sw src ?dst"
        using v3 by (intro tx_receivers_cong) (simp_all add: f3 len3)
      have Q: "queues_gain sw sw4 (tx_receivers sw src ?dst) (tx_desc slot gen len src)"
        and N: "n = 0 \<longleftrightarrow> \<not> (\<exists>i. tx_receivers sw src ?dst i)" if "length (sw_vnics sw) < 65535"
      proof -
        have "unat (fr_refcnt (frame_of (sw_pool sw3) slot)) + length (sw_vnics sw3) \<le> 65535"
          using that A(5) p3 len3 by simp
        from T(3) [OF this] show "queues_gain sw sw4 (tx_receivers sw src ?dst) (tx_desc slot gen len src)"
          "n = 0 \<longleftrightarrow> \<not> (\<exists>i. tx_receivers sw src ?dst i)" unfolding rec3 using v3 len3 by (simp_all add: queues_gain_def)
      qed
      have H: "holds_frame sw' slot gen src ?b" if b: "length (sw_vnics sw) < 65535" and i: "tx_receivers sw src ?dst i" for i
      proof -
        have i': "i < length (sw_vnics sw)" using i by (simp add: tx_receivers_def)
        then have "tx_desc slot gen len src \<in> set (queue_of (sw_vnics sw4 ! i))"
          using Q [OF b] i by (simp add: queues_gain_def)
        from holders_pos [OF _ this, of slot gen] have "holders sw4 slot gen \<noteq> 0"
          using i' len4 by (simp add: names_def tx_desc_def)
        then have "pool_live (sw_pool sw5) slot gen" using R(3) by simp
        moreover have "same_frame (frame_of (sw_pool sw3) slot) (frame_of (sw_pool sw4) slot)"
          using T(2) l3 by (simp add: delivers_def pool_live_def)
        moreover have "sw_pool sw' = sw_pool sw5" using rs(2) by (simp add: same_net_def)
        moreover have "length ?b = unat len" using l by simp
        ultimately show ?thesis
          using R(2) fr3 fill_data(2) [OF A(4) l len] by (simp add: holds_frame_def same_frame_def tx_fill_def)
      qed
      have len5: "length (sw_vnics sw') = length (sw_vnics sw)"
        using same_net_vnic(1) [OF rs(2)] len4 by (simp add: sw5_def)
      show thesis
      proof (rule sent [OF I nz len5])
        show "queues_gain sw sw' (tx_receivers sw src ?dst) (tx_desc slot gen len src)" if b: "length (sw_vnics sw) < 65535"
        proof (rule same_net_queues [OF rs(2)])
          show "queues_gain sw sw5 (tx_receivers sw src ?dst) (tx_desc slot gen len src)"
            using Q [OF b] by (simp add: queues_gain_def sw5_def)
        qed (simp add: sw5_def len4)
      qed (use rs(1) N H in blast)+
    qed
  qed
qed

end
