(* ===== verification/Vnet_Safety.thy ===== *)
theory Vnet_Safety
  imports Vnet_Tx
begin

text \<open>
  Runs of the switch, and what holds along them: reference counts are exact, a guest reads
  only frames another guest really sent to it, and a transmitted frame reaches exactly the
  interfaces it is meant for.
\<close>

section \<open>Runs\<close>

datatype vnet_op =
    VOpen u32 "vnet_info option"
  | VAssign u32 "vnet_mac option"
  | VTx u32 "u8 list option" u16 u32
  | VPoll u32 "vnet_rx_meta option"
  | VRead u32 u16 u16 "u8 list option" u16
  | VRelease u32 u16 u16
  | VIrqAck u32
  | VExpire u32 u32

fun vnet_apply :: "vnet_op \<Rightarrow> vnet_switch \<Rightarrow> vnet_switch" where
  "vnet_apply (VOpen vm info) sw = fst (snd (vnet_switch_open sw vm info))"
| "vnet_apply (VAssign vm mac) sw = snd (vnet_switch_assign_mac sw vm mac)"
| "vnet_apply (VTx vm frame len now) sw = snd (vnet_switch_tx sw vm frame len now)"
| "vnet_apply (VPoll vm meta) sw = fst (snd (vnet_switch_poll_rx sw vm meta))"
| "vnet_apply (VRead vm slot gen dst n) sw = fst (snd (vnet_switch_read_rx sw vm slot gen dst n))"
| "vnet_apply (VRelease vm slot gen) sw = snd (vnet_switch_release_rx sw vm slot gen)"
| "vnet_apply (VIrqAck vm) sw = snd (vnet_switch_irq_ack sw vm)"
| "vnet_apply (VExpire now timeout) sw = snd (vnet_switch_drop_expired sw now timeout)"

text \<open>The frames handed to the switch, and the contract of the caller: as many bytes as announced.\<close>

fun sent_by :: "vnet_op \<Rightarrow> vnet_history" where
  "sent_by (VTx vm (Some frame) len now) = [(vm, take (unat len) frame)]"
| "sent_by p = []"

fun op_ok :: "vnet_op \<Rightarrow> bool" where
  "op_ok (VTx vm (Some frame) len now) \<longleftrightarrow> unat len \<le> length frame"
| "op_ok p \<longleftrightarrow> True"

definition vnet_run :: "vnet_op list \<Rightarrow> vnet_switch \<Rightarrow> vnet_switch" where
  "vnet_run ps sw = fold vnet_apply ps sw"

definition vnet_sent :: "vnet_op list \<Rightarrow> vnet_history" where
  "vnet_sent ps = concat (map sent_by ps)"

text \<open>A switch set up over storage of the announced sizes.\<close>

definition vnet_started :: "vnet_switch \<Rightarrow> bool" where
  "vnet_started sw \<longleftrightarrow> (\<exists>sw0 vnics nvm frames n entries cap rings depth flood.
     vnet_switch_init sw0 (Some vnics) nvm (Some frames) n (Some entries) cap (Some rings) depth flood = (WT_VNET_OK, sw) \<and>
     length vnics = unat nvm \<and> length frames = unat n \<and> length entries = unat cap \<and> length rings = unat nvm \<and>
     (\<forall>f \<in> set frames. length (fr_data f) = WT_VNET_FRAME_MAX) \<and>
     (\<forall>r \<in> set rings. \<exists>buf. r = Some buf \<and> length buf = unat depth))"

lemma vnet_started_inv:
  assumes "vnet_started sw"
  shows "vnet_inv [] sw"
proof -
  obtain sw0 vnics nvm frames n entries cap rings depth flood where
    i: "vnet_switch_init sw0 (Some vnics) nvm (Some frames) n (Some entries) cap (Some rings) depth flood = (WT_VNET_OK, sw)"
    and l: "length vnics = unat nvm" "length frames = unat n" "length entries = unat cap" "length rings = unat nvm"
    and f: "\<forall>f \<in> set frames. length (fr_data f) = WT_VNET_FRAME_MAX"
    and r: "\<forall>r \<in> set rings. \<exists>buf. r = Some buf \<and> length buf = unat depth"
    using assms by (auto simp: vnet_started_def)
  have nz: "nvm \<noteq> 0" "0 < unat depth"
    and v: "sw_vnics sw = map (\<lambda>(v, ring). vnic_reset v ring depth) (zip vnics rings)"
    and p: "sw_pool sw = vnet_pool_init (Some frames) n" and d: "sw_fdb sw = vnet_fdb_init (Some entries) cap"
    and m: "sw_nvm sw = nvm"
    using i l by (auto simp: vnet_switch_init_def unat_gt_0 split: if_splits)
  note P = pool_init_wf [OF l(2) f] and F = fdb_init_wf [OF l(3)]
  have len: "length (sw_vnics sw) = unat nvm" using l by (simp add: v)
  have vn: "ring_wf (vn_rxq (sw_vnics sw ! i)) \<and> queue_of (sw_vnics sw ! i) = [] \<and> \<not> vn_mac_set (sw_vnics sw ! i)"
    if "i < length (sw_vnics sw)" for i
  proof -
    have "rings ! i \<in> set rings" using that l len by simp
    then obtain buf where "rings ! i = Some buf" "length buf = unat depth" using r by blast
    then show ?thesis using that l len ring_init_wf [of buf depth] nz by (simp add: v vnic_reset_def)
  qed
  have "net_shape sw" using P F vn len nz by (simp add: net_shape_def p d m)
  moreover have "net_irqs sw" using vn by (simp add: net_irqs_def)
  moreover have "net_registry sw" using F(3) vn unfolding net_registry_def d by auto
  moreover have "net_queues [] sw" using vn by (simp add: net_queues_def)
  moreover have "net_refs (\<lambda>s. 0) sw" using P(2,3) unfolding net_refs_def p by metis
  ultimately show ?thesis by (simp add: vnet_inv_def net_inv_def)
qed

lemma vnet_apply_inv:
  assumes inv: "vnet_inv h sw" and k: "op_ok p" and b: "length (h @ sent_by p) \<le> 65535"
  shows "vnet_inv (h @ sent_by p) (vnet_apply p sw)"
proof (cases p)
  case (VTx vm fp len now)
  show ?thesis
  proof (cases fp)
    case None
    then show ?thesis using inv VTx by (simp add: vnet_switch_tx_def)
  next
    case (Some frame)
    have I: "net_inv (\<lambda>s. 0) h sw" using inv by (simp add: vnet_inv_def)
    have l: "unat len \<le> length frame" and hb: "length h < 65535" using k b VTx Some by simp_all
    obtain rc sw' where r: "vnet_switch_tx sw vm (Some frame) len now = (rc, sw')" by fastforce
    let ?h = "h @ [(vm, take (unat len) frame)]"
    have "net_inv (\<lambda>s. 0) ?h sw'"
    proof (cases "tx_admitted sw vm frame len")
      case True
      then have "tx_tail sw vm frame len now = (rc, sw')" using r tx_admits [OF I True] by simp
      then show ?thesis by (rule tx_tail_result [OF I True hb l])
    next
      case False
      then have "same_net sw sw'" using tx_refused [OF I False r] by blast
      then show ?thesis using net_inv_history [OF same_net_inv [OF I], of sw' ?h] by (simp add: subset_iff)
    qed
    then show ?thesis using VTx Some r by (simp add: vnet_inv_def)
  qed
next
  case (VOpen vm info)
  obtain rc sw' out where "vnet_switch_open sw vm info = (rc, sw', out)" by (metis prod_cases3)
  then show ?thesis using VOpen inv open_inv by (fastforce simp: vnet_inv_def)
next
  case (VAssign vm mac)
  obtain rc sw' where "vnet_switch_assign_mac sw vm mac = (rc, sw')" by fastforce
  then show ?thesis using VAssign inv assign_mac_inv by (fastforce simp: vnet_inv_def)
next
  case (VPoll vm meta)
  obtain rc sw' out where "vnet_switch_poll_rx sw vm meta = (rc, sw', out)" by (metis prod_cases3)
  then show ?thesis using VPoll inv poll_inv by (fastforce simp: vnet_inv_def)
next
  case (VRead vm slot gen dst n)
  obtain rc sw' out where "vnet_switch_read_rx sw vm slot gen dst n = (rc, sw', out)" by (metis prod_cases3)
  then show ?thesis using VRead inv read_rx_inv by (fastforce simp: vnet_inv_def)
next
  case (VRelease vm slot gen)
  obtain rc sw' where "vnet_switch_release_rx sw vm slot gen = (rc, sw')" by fastforce
  then show ?thesis using VRelease inv release_cases(1) by (fastforce simp: vnet_inv_def)
next
  case (VIrqAck vm)
  obtain rc sw' where "vnet_switch_irq_ack sw vm = (rc, sw')" by fastforce
  then show ?thesis using VIrqAck inv irq_ack_inv by (fastforce simp: vnet_inv_def)
next
  case (VExpire now timeout)
  obtain n sw' where "vnet_switch_drop_expired sw now timeout = (n, sw')" by fastforce
  then show ?thesis using VExpire inv drop_expired_inv by (fastforce simp: vnet_inv_def)
qed

text \<open>The switch as a transition system over its state and the frames sent so far.\<close>

definition vnet_moves :: "vnet_history \<times> vnet_switch \<Rightarrow> vnet_history \<times> vnet_switch \<Rightarrow> bool" where
  "vnet_moves s t \<longleftrightarrow> (\<exists>p. op_ok p \<and> t = (fst s @ sent_by p, vnet_apply p (snd s)))"

interpretation vnet_machine: invariant_system "\<lambda>s. fst s = [] \<and> vnet_started (snd s)" vnet_moves
  "\<lambda>s. length (fst s) \<le> 65535 \<longrightarrow> vnet_inv (fst s) (snd s)"
proof
  show "length (fst s) \<le> 65535 \<longrightarrow> vnet_inv (fst s) (snd s)" if "fst s = [] \<and> vnet_started (snd s)" for s
    using that vnet_started_inv by simp
  show "length (fst t) \<le> 65535 \<longrightarrow> vnet_inv (fst t) (snd t)"
    if "length (fst s) \<le> 65535 \<longrightarrow> vnet_inv (fst s) (snd s)" "vnet_moves s t" for s t
    using that vnet_apply_inv [of "fst s" "snd s"] by (auto simp: vnet_moves_def)
qed

lemma vnet_run_moves:
  "list_all op_ok ps \<Longrightarrow> vnet_moves\<^sup>*\<^sup>* (h, sw) (h @ vnet_sent ps, vnet_run ps sw)"
proof (induction ps arbitrary: h sw)
  case Nil
  then show ?case by (simp add: vnet_sent_def vnet_run_def)
next
  case (Cons p ps)
  then have "vnet_moves (h, sw) (h @ sent_by p, vnet_apply p sw)" by (auto simp: vnet_moves_def)
  moreover have "vnet_moves\<^sup>*\<^sup>* (h @ sent_by p, vnet_apply p sw)
      ((h @ sent_by p) @ vnet_sent ps, vnet_run ps (vnet_apply p sw))"
    using Cons.prems by (intro Cons.IH) simp
  ultimately show ?case by (simp add: vnet_sent_def vnet_run_def converse_rtranclp_into_rtranclp)
qed

lemma vnet_reachable:
  assumes "vnet_started sw" "list_all op_ok ps" "length (vnet_sent ps) \<le> 65535"
  shows "vnet_inv (vnet_sent ps) (vnet_run ps sw)"
  using vnet_machine.reachable_inv [OF _ vnet_run_moves [OF assms(2), of "[]" sw]] assms(1,3) by simp

section \<open>Reference counts and interrupts\<close>


section \<open>What a guest can read\<close>

lemma mac_at_take: "14 \<le> n \<Longrightarrow> mac_at (take n xs) 6 = mac_at xs 6 \<and> mac_at (take n xs) 0 = mac_at xs 0"
  by (simp add: mac_at_def)

lemma read_result:
  assumes inv: "vnet_inv h sw" and r: "vnet_switch_read_rx sw vm slot gen (Some dst) n = (len, sw', out)" and ok: "0 \<le> len"
  obtains d ds f where "unat vm < length (sw_vnics sw)" "f = frame_of (sw_pool sw) slot"
    "dropWhile (\<lambda>d. \<not> desc_live (sw_pool sw) d) (queue_of (vnic_at sw vm)) = d # ds"
    "rd_slot d = slot" "rd_gen d = gen" "carries h sw (unat vm) f" "desc_live (sw_pool sw) d"
    "len = int (unat (fr_len f))" "unat (fr_len f) \<le> unat n"
    "out = Some (take (unat (fr_len f)) (fr_data f) @ drop (unat (fr_len f)) dst)" "frame_wf f"
proof -
  have I: "net_inv (\<lambda>s. 0) h sw" using inv by (simp add: vnet_inv_def)
  let ?f = "frame_of (sw_pool sw) slot" and ?sw = "skip_stale_head sw vm"
  have vm: "unat vm < length (sw_vnics sw)" using r ok vnic_of_length [OF I]
    by (auto simp: vnet_switch_read_rx_def split: if_splits)
  note K = net_skip [OF I vm]
  have vm': "unat vm < length (sw_vnics ?sw)" using vm by simp
  obtain d ds where q: "queue_of (vnic_at ?sw vm) = d # ds" and own: "rd_slot d = slot" "rd_gen d = gen"
    and rs: "len = int (unat (fr_len ?f))" "\<not> n < fr_len ?f"
      "out = Some (take (unat (fr_len ?f)) (fr_data ?f) @ drop (unat (fr_len ?f)) dst)"
    using r ok peek_queue [OF K(1) vm']
    by (auto simp: vnet_switch_read_rx_def Let_def split: if_splits list.splits option.splits)
  have lv: "desc_live (sw_pool sw) d" by (rule skip_head_live [OF I vm q])
  have D: "dropWhile (\<lambda>d. \<not> desc_live (sw_pool sw) d) (queue_of (vnic_at sw vm)) = d # ds" using K(2) q by simp
  then have "d \<in> set (queue_of (vnic_at sw vm))" by (metis list.set_intros(1) set_dropWhileD)
  then have "queued_ok h sw (unat vm) d" using I vm by (simp add: net_inv_def net_queues_def)
  then have c: "carries h sw (unat vm) ?f" using lv own by (simp add: queued_ok_def)
  have "frame_wf ?f" using frame_of_wf [OF net_inv_shape(2) [OF I]] lv own by (simp add: desc_live_def pool_live_def)
  then show thesis using that [OF vm refl D own c lv rs(1) _ rs(3)] rs(2) by (simp add: word_less_nat_alt not_less)
qed


section \<open>Delivery\<close>

lemma skip_live_id:
  assumes inv: "net_inv k h sw" and vm: "unat vm < length (sw_vnics sw)"
    and q: "queue_of (vnic_at sw vm) = d # ds" and l: "desc_live (sw_pool sw) d"
  shows "skip_stale_head sw vm = sw"
proof -
  have "vnet_ring_peek (vn_rxq (vnic_at sw vm)) = (WT_VNET_OK, Some d)" using peek_queue [OF inv vm] q by simp
  then have "skip_stale (sw_pool sw) (vn_rxq (vnic_at sw vm)) = vn_rxq (vnic_at sw vm)"
    using l net_inv_shape(2) [OF inv] by (subst skip_stale.simps) (simp add: vnet_pool_slot_live desc_live_def)
  then show ?thesis by (simp add: skip_stale_head_def upd_vnic_def upd_at_def)
qed

text \<open>The reader takes the frame at the head of its queue: poll, read and release.\<close>

lemma receive_head:
  assumes inv: "net_inv k h sw" and vm: "unat vm < length (sw_vnics sw)" and op: "vn_open (vnic_at sw vm)"
    and q: "queue_of (vnic_at sw vm) = tx_desc slot gen len src # ds"
    and f: "holds_frame sw slot gen src bytes" and n: "length bytes \<le> unat n"
  shows "vnet_switch_poll_rx sw vm (Some m) =
      (WT_VNET_OK, sw, Some \<lparr>meta_token_slot = slot, meta_token_gen = gen, meta_len = len, meta_flags = 0, meta_src_vm = src\<rparr>)"
    and "vnet_switch_read_rx sw vm slot gen (Some dst) n =
      (int (length bytes), sw, Some (bytes @ drop (length bytes) dst))"
    and "\<exists>sw'. vnet_switch_release_rx sw vm slot gen = (WT_VNET_OK, sw') \<and> queue_of (vnic_at sw' vm) = ds"
proof -
  have lv: "desc_live (sw_pool sw) (tx_desc slot gen len src)"
    using f by (simp add: holds_frame_def desc_live_def tx_desc_def)
  note S = skip_live_id [OF inv vm q lv]
  have pk: "vnet_ring_peek (vn_rxq (vnic_at sw vm)) = (WT_VNET_OK, Some (tx_desc slot gen len src))"
    and ne: "\<not> vnet_ring_empty (vn_rxq (vnic_at sw vm))"
    using peek_queue [OF inv vm] empty_queue [OF inv vm] q by simp_all
  have v: "vnic_of sw vm" using vnic_of_length [OF inv] vm by simp
  show "vnet_switch_poll_rx sw vm (Some m) =
      (WT_VNET_OK, sw, Some \<lparr>meta_token_slot = slot, meta_token_gen = gen, meta_len = len, meta_flags = 0, meta_src_vm = src\<rparr>)"
    using v op S ne pk by (simp add: vnet_switch_poll_rx_def Let_def tx_desc_def)
  show "vnet_switch_read_rx sw vm slot gen (Some dst) n =
      (int (length bytes), sw, Some (bytes @ drop (length bytes) dst))"
    using v op S pk f n net_inv_shape(2) [OF inv]
    by (simp add: vnet_switch_read_rx_def Let_def tx_desc_def vnet_pool_slot_live holds_frame_def word_less_nat_alt)
  obtain rc sw' where r: "vnet_switch_release_rx sw vm slot gen = (rc, sw')" by fastforce
  obtain rc' p where rel: "vnet_pool_release (sw_pool sw) slot gen = (rc', p)" by fastforce
  have "\<not> rc' < 0" using pool_release_keeps(1) [OF net_inv_shape(2) [OF inv] rel] f by (auto simp: holds_frame_def)
  then have "rc = WT_VNET_OK" using r v op S pk rel by (simp add: vnet_switch_release_rx_def Let_def tx_desc_def split: prod.splits)
  then show "\<exists>sw'. vnet_switch_release_rx sw vm slot gen = (WT_VNET_OK, sw') \<and> queue_of (vnic_at sw' vm) = ds"
    using release_cases(2) [OF inv r] r q lv by auto
qed


end
