(* ===== verification/Vnet_Witness.thy ===== *)
theory Vnet_Witness
  imports Vnet_Safety "HOL-Library.Code_Target_Nat"
begin

text \<open>
  A concrete switch with two guests: both open their interface and take an address, the
  first sends a frame to the second, and the second reads it.
\<close>

text \<open>The initial content of a buffer is irrelevant and never computed with.\<close>

definition ex_data :: "u8 list" where
  "ex_data = replicate WT_VNET_FRAME_MAX 0"

declare ex_data_def [code del]

definition ex_frame0 :: vnet_frame where
  "ex_frame0 = \<lparr>fr_len = 0, fr_gen = 0, fr_refcnt = 0, fr_flags = 0, fr_src_vm = 0, fr_dst_mask = 0,
     fr_born_tick = 0, fr_data = ex_data\<rparr>"

definition ex_entry0 :: vnet_fdb_entry where
  "ex_entry0 = \<lparr>fe_mac = zero_mac, fe_guest_id = 0, fe_kind = VNET_FDB_EMPTY\<rparr>"

definition ex_vnic0 :: vnet_vnic where
  "ex_vnic0 = \<lparr>vn_open = False, vn_mac_set = False, vn_mac = zero_mac, vn_mtu = 0, vn_rx_irq_pending = False,
     vn_rxq = vnet_ring_init None 0, vn_stats = zero_stats\<rparr>"

definition ex_blank :: vnet_switch where
  "ex_blank = \<lparr>sw_vnics = [], sw_nvm = 0, sw_pool = vnet_pool_init None 0, sw_fdb = vnet_fdb_init None 0,
     sw_unknown_unicast_flood = False, sw_global_stats = zero_stats\<rparr>"

definition ex_ring :: "vnet_rx_desc list option" where
  "ex_ring = Some [example_desc 0, example_desc 0]"

definition ex_switch :: vnet_switch where
  "ex_switch = snd (vnet_switch_init ex_blank (Some [ex_vnic0, ex_vnic0]) 2 (Some [ex_frame0]) 1
     (Some [ex_entry0, ex_entry0]) 2 (Some [ex_ring, ex_ring]) 2 False)"

definition ex_mac :: "u8 \<Rightarrow> vnet_mac" where
  "ex_mac n = Mac 2 0 0 0 0 n"

definition ex_bytes :: "u8 list" where
  "ex_bytes = [2, 0, 0, 0, 0, 2] @ [2, 0, 0, 0, 0, 1] @ [8, 0, 42]"

definition ex_setup :: "vnet_op list" where
  "ex_setup = [VOpen 0 None, VOpen 1 None, VAssign 0 (Some (ex_mac 1)), VAssign 1 (Some (ex_mac 2))]"

definition ex_send :: "vnet_op list" where
  "ex_send = ex_setup @ [VTx 0 (Some ex_bytes) 15 100]"

lemma ex_started: "vnet_started ex_switch"
  unfolding vnet_started_def
proof (intro exI conjI)
  show "vnet_switch_init ex_blank (Some [ex_vnic0, ex_vnic0]) 2 (Some [ex_frame0]) 1
     (Some [ex_entry0, ex_entry0]) 2 (Some [ex_ring, ex_ring]) 2 False = (WT_VNET_OK, ex_switch)"
    by (simp add: ex_switch_def vnet_switch_init_def)
qed (simp_all add: ex_frame0_def ex_data_def ex_ring_def)

lemma ex_ops: "list_all op_ok ex_send" "length (vnet_sent ex_send) \<le> 65535"
  "list_all op_ok ex_setup" "length (vnet_sent ex_setup) < 65535"
  by code_simp+

lemma ex_sent_state:
  "(let sw = vnet_run ex_send ex_switch in
     (pool_slot_count (sw_pool sw), fr_refcnt (frame_of (sw_pool sw) 0), fr_gen (frame_of (sw_pool sw) 0),
      holders sw 0 1, vnet_pool_free_count (sw_pool sw),
      (case vnet_switch_read_rx sw 1 0 1 (Some (replicate 20 7)) 20 of (n, _, out) \<Rightarrow> (n, out \<noteq> None)))) =
   (1, 1, 1, 1, 0, (15, True))"
  by code_simp

lemma ex_setup_state:
  "(let sw = vnet_run ex_setup ex_switch in
     (sw_nvm sw, tx_admitted sw 0 ex_bytes 15, pool_slot_count (sw_pool sw), fr_refcnt (frame_of (sw_pool sw) 0),
      tx_receivers sw 0 (mac_at ex_bytes 0) 1)) = (2, True, 1, 0, True)"
  by code_simp

lemmas ex_sent_facts = ex_sent_state [unfolded Let_def prod.inject]
lemmas ex_setup_facts = ex_setup_state [unfolded Let_def prod.inject]




end
