(* ===== verification/Sec_Domain.thy ===== *)
theory Sec_Domain
  imports Manifest Wt_Memory
begin

text \<open>
  The protection domain of a Secure Partition as \<open>src/ffm_domain.c\<close> resolves it from the
  manifest, the range checks the privileged code runs against it, and the peripheral policy
  of \<open>src/periph.c\<close>. A table keeps its first \<open>region_count\<close> regions as a list, so the count
  is the length. A range check is exact: it accepts a range when one region grants every
  byte of it.
\<close>

section \<open>Data\<close>

abbreviation (input) WT_MAX_MEMORY_REGIONS :: nat where "WT_MAX_MEMORY_REGIONS \<equiv> 8"
abbreviation (input) WT_MEM_ATTR_READ :: u32 where "WT_MEM_ATTR_READ \<equiv> WT_MEMORY_ATTR_READ"
abbreviation (input) WT_MEM_ATTR_WRITE :: u32 where "WT_MEM_ATTR_WRITE \<equiv> WT_MEMORY_ATTR_WRITE"
abbreviation (input) WT_MEM_ATTR_EXEC :: u32 where "WT_MEM_ATTR_EXEC \<equiv> WT_MEMORY_ATTR_EXECUTE"
abbreviation (input) WT_MEM_ATTR_DEVICE :: u32 where "WT_MEM_ATTR_DEVICE \<equiv> WT_MEMORY_ATTR_DEVICE"

abbreviation (input) WT_SECURE_DOMAIN_OK :: int where "WT_SECURE_DOMAIN_OK \<equiv> 0"
abbreviation (input) WT_SECURE_DOMAIN_ERROR_ARGUMENT :: int where
  "WT_SECURE_DOMAIN_ERROR_ARGUMENT \<equiv> - 600"
abbreviation (input) WT_SECURE_DOMAIN_ERROR_NOT_FOUND :: int where
  "WT_SECURE_DOMAIN_ERROR_NOT_FOUND \<equiv> - 601"
abbreviation (input) WT_SECURE_DOMAIN_ERROR_CLASS :: int where
  "WT_SECURE_DOMAIN_ERROR_CLASS \<equiv> - 602"
abbreviation (input) WT_SECURE_DOMAIN_ERROR_CAPACITY :: int where
  "WT_SECURE_DOMAIN_ERROR_CAPACITY \<equiv> - 603"

record wt_memory_region =
  rg_base :: u32
  rg_size :: u32
  rg_attributes :: u32

record wt_secure_domain =
  sdm_domain_id :: u32
  sdm_regions :: "wt_memory_region list"
  sdm_stack_base :: u32
  sdm_stack_size :: u32

text \<open>\<open>is_secure\<close> reads a register of the bus fabric; a null pointer is \<open>None\<close>.\<close>

record wt_periph =
  pe_base :: u32
  pe_size :: u32
  pe_bus_master :: u32
  pe_is_secure :: "int option"

section \<open>Resolution\<close>

definition wt_ffm_domain_by_id :: "wt_system_manifest \<Rightarrow> u32 \<Rightarrow> wt_domain_descriptor option" where
  "wt_ffm_domain_by_id manifest domain_id =
     map_option (\<lambda>i. carray_list (sm_domains manifest) ! i)
       (first_idx (\<lambda>d. dd_id d = domain_id) (carray_list (sm_domains manifest)))"

definition resolve_region :: "wt_memory_resource \<Rightarrow> wt_memory_region" where
  "resolve_region r =
     \<lparr>rg_base = mr_base r, rg_size = mr_size r,
      rg_attributes = mr_attributes r AND
        (WT_MEM_ATTR_READ OR WT_MEM_ATTR_WRITE OR WT_MEM_ATTR_EXEC OR WT_MEM_ATTR_DEVICE OR
         WT_MEMORY_ATTR_SHARED OR WT_MEMORY_ATTR_RESTART_CLEAR)\<rparr>"

definition empty_secure_domain :: wt_secure_domain where
  "empty_secure_domain =
     \<lparr>sdm_domain_id = WT_DOMAIN_ID_INVALID, sdm_regions = [], sdm_stack_base = 0, sdm_stack_size = 0\<rparr>"

definition wt_ffm_resolve_secure_domain ::
  "wt_system_manifest option \<Rightarrow> u32 \<Rightarrow> wt_secure_domain \<Rightarrow> int \<times> wt_secure_domain" where
  "wt_ffm_resolve_secure_domain manifest domain_id out_domain =
     (case manifest of
        None \<Rightarrow> (WT_SECURE_DOMAIN_ERROR_ARGUMENT, out_domain)
      | Some m \<Rightarrow>
         (case wt_ffm_domain_by_id m domain_id of
            None \<Rightarrow> (WT_SECURE_DOMAIN_ERROR_NOT_FOUND, empty_secure_domain)
          | Some d \<Rightarrow>
             (if dd_domain_class d \<noteq> Enum WT_DOMAIN_CLASS_SECURE_PARTITION \<or>
                 dd_security_state d \<noteq> Enum WT_SECURITY_STATE_SECURE
              then (WT_SECURE_DOMAIN_ERROR_CLASS, empty_secure_domain)
              else if carray_count (dd_memory_resources d) > WT_MAX_MEMORY_REGIONS \<or>
                      (carray_count (dd_memory_resources d) \<noteq> 0 \<and> carray_null (dd_memory_resources d))
              then (WT_SECURE_DOMAIN_ERROR_CAPACITY, empty_secure_domain)
              else (WT_SECURE_DOMAIN_OK,
                    \<lparr>sdm_domain_id = domain_id, sdm_regions = map resolve_region (memory_of d),
                     sdm_stack_base = dd_stack_base d, sdm_stack_size = dd_stack_size d\<rparr>))))"

section \<open>Range checks\<close>

definition wt_secure_domain_contains :: "wt_secure_domain option \<Rightarrow> u32 \<Rightarrow> u32 \<Rightarrow> bool \<Rightarrow> bool" where
  "wt_secure_domain_contains domain addr len need_write =
     (case domain of
        None \<Rightarrow> False
      | Some d \<Rightarrow>
         (if len = 0 then False
          else if addr > UINT32_MAX - len then False
          else list_ex (\<lambda>region.
             \<not> (rg_size region = 0 \<or> rg_base region > UINT32_MAX - rg_size region) \<and>
             rg_attributes region AND WT_MEM_ATTR_READ \<noteq> 0 \<and>
             \<not> (need_write \<and> rg_attributes region AND WT_MEM_ATTR_WRITE = 0) \<and>
             addr \<ge> rg_base region \<and> addr + len \<le> rg_base region + rg_size region) (sdm_regions d)))"

definition wt_secure_range :: "u32 \<Rightarrow> u32 \<Rightarrow> u32 option" where
  "wt_secure_range base sz =
     (if sz = 0 \<or> base > UINT32_MAX - sz then None else Some (base + sz))"

definition wt_secure_regions_overlap :: "wt_memory_region \<Rightarrow> wt_memory_region \<Rightarrow> bool" where
  "wt_secure_regions_overlap first second =
     (case (wt_secure_range (rg_base first) (rg_size first),
            wt_secure_range (rg_base second) (rg_size second)) of
        (Some first_end, Some second_end) \<Rightarrow>
          rg_base first < second_end \<and> rg_base second < first_end
      | _ \<Rightarrow> False)"

definition wt_secure_region_within :: "wt_memory_region \<Rightarrow> wt_memory_region \<Rightarrow> bool" where
  "wt_secure_region_within region window =
     (case (wt_secure_range (rg_base region) (rg_size region),
            wt_secure_range (rg_base window) (rg_size window)) of
        (Some region_end, Some window_end) \<Rightarrow>
          rg_base region \<ge> rg_base window \<and> region_end \<le> window_end
      | _ \<Rightarrow> False)"

definition wt_secure_domain_excludes :: "wt_secure_domain option \<Rightarrow> u32 \<Rightarrow> u32 \<Rightarrow> bool" where
  "wt_secure_domain_excludes domain base sz =
     (case domain of
        None \<Rightarrow> False
      | Some d \<Rightarrow>
         (if length (sdm_regions d) > WT_MAX_MEMORY_REGIONS then False
          else list_all (\<lambda>region.
             \<not> (rg_size region \<noteq> 0 \<and> rg_base region > UINT32_MAX - rg_size region) \<and>
             \<not> wt_secure_regions_overlap region
                 \<lparr>rg_base = base, rg_size = sz, rg_attributes = 0\<rparr>) (sdm_regions d)))"

definition wt_secure_domains_isolated ::
  "wt_secure_domain option \<Rightarrow> wt_secure_domain option \<Rightarrow> wt_memory_region carray \<Rightarrow> bool" where
  "wt_secure_domains_isolated first second shared =
     (case (first, second) of
        (Some f, Some s) \<Rightarrow>
          (if length (sdm_regions f) > WT_MAX_MEMORY_REGIONS \<or>
              length (sdm_regions s) > WT_MAX_MEMORY_REGIONS \<or>
              (carray_null shared \<and> carray_count shared \<noteq> 0) then False
           else list_all (\<lambda>a. list_all (\<lambda>b.
              (rg_attributes a OR rg_attributes b) AND WT_MEM_ATTR_WRITE = 0 \<or>
              \<not> wt_secure_regions_overlap a b \<or>
              list_ex (\<lambda>w. wt_secure_region_within a w \<and> wt_secure_region_within b w)
                (carray_list shared)) (sdm_regions s)) (sdm_regions f))
      | _ \<Rightarrow> False)"

definition wt_ffm_compose_secure_partition_table ::
  "wt_secure_domain option \<Rightarrow> wt_memory_region carray \<Rightarrow> wt_secure_domain \<Rightarrow>
   int \<times> wt_secure_domain" where
  "wt_ffm_compose_secure_partition_table domain shared out_table =
     (case domain of
        None \<Rightarrow> (WT_SECURE_DOMAIN_ERROR_ARGUMENT, out_table)
      | Some d \<Rightarrow>
         (if carray_null shared \<and> carray_count shared \<noteq> 0
          then (WT_SECURE_DOMAIN_ERROR_ARGUMENT, out_table)
          else let out0 = out_table\<lparr>sdm_domain_id := WT_DOMAIN_ID_INVALID, sdm_regions := []\<rparr> in
            if carray_count shared > WT_MAX_MEMORY_REGIONS \<or>
               carray_count shared + length (sdm_regions d) > WT_MAX_MEMORY_REGIONS
            then (WT_SECURE_DOMAIN_ERROR_CAPACITY, out0)
            else (WT_SECURE_DOMAIN_OK,
                  out0\<lparr>sdm_regions := carray_list shared @ sdm_regions d,
                       sdm_domain_id := sdm_domain_id d\<rparr>)))"

section \<open>Peripherals\<close>

definition wt_periph_sp_device_ok :: "wt_periph carray \<Rightarrow> u32 \<Rightarrow> u32 \<Rightarrow> bool" where
  "wt_periph_sp_device_ok table base sz =
     (if carray_null table \<or> sz = 0 \<or> base > UINT32_MAX - sz then False
      else case first_idx (\<lambda>p. pe_base p = base \<and> pe_size p = sz) (carray_list table) of
        None \<Rightarrow> False
      | Some i \<Rightarrow>
         (let p = carray_list table ! i in
          if pe_bus_master p \<noteq> 0 then False else pe_is_secure p = Some 1))"

definition wt_periph_sp_region_ok :: "wt_periph carray \<Rightarrow> u32 \<Rightarrow> u32 \<Rightarrow> bool \<Rightarrow> bool \<Rightarrow> bool" where
  "wt_periph_sp_region_ok table base sz is_device mmio =
     (if \<not> is_device then \<not> mmio else wt_periph_sp_device_ok table base sz)"

definition wt_periph_sp_domain_ok ::
  "wt_periph carray \<Rightarrow> wt_memory_region carray \<Rightarrow> (u32 \<Rightarrow> u32 \<Rightarrow> bool) option \<Rightarrow> bool" where
  "wt_periph_sp_domain_ok table regions is_mmio =
     (case is_mmio of
        None \<Rightarrow> False
      | Some mmio \<Rightarrow>
         (if carray_null regions \<and> carray_count regions \<noteq> 0 then False
          else list_all (\<lambda>r. wt_periph_sp_region_ok table (rg_base r) (rg_size r)
                 (rg_attributes r AND WT_MEM_ATTR_DEVICE \<noteq> 0) (mmio (rg_base r) (rg_size r)))
               (carray_list regions)))"

section \<open>What the checks establish\<close>

text \<open>
  The bytes of a region, and the accesses a table grants. A region that is empty or leaves
  the address space grants nothing that the checks accept.
\<close>

definition in_region :: "u32 \<Rightarrow> wt_memory_region \<Rightarrow> bool" where
  "in_region a r \<longleftrightarrow> unat (rg_base r) \<le> unat a \<and> unat a < unat (rg_base r) + unat (rg_size r)"

definition proper_region :: "wt_memory_region \<Rightarrow> bool" where
  "proper_region r \<longleftrightarrow> unat (rg_base r) + unat (rg_size r) < 2 ^ 32"

definition readable_region :: "wt_memory_region \<Rightarrow> bool" where
  "readable_region r \<longleftrightarrow> rg_attributes r AND WT_MEM_ATTR_READ \<noteq> 0"

definition writable_region :: "wt_memory_region \<Rightarrow> bool" where
  "writable_region r \<longleftrightarrow> rg_attributes r AND WT_MEM_ATTR_WRITE \<noteq> 0"

definition reaches :: "wt_secure_domain \<Rightarrow> u32 \<Rightarrow> bool" where
  "reaches d a \<longleftrightarrow> (\<exists>r \<in> set (sdm_regions d). in_region a r)"

definition may_write :: "wt_secure_domain \<Rightarrow> u32 \<Rightarrow> bool" where
  "may_write d a \<longleftrightarrow> (\<exists>r \<in> set (sdm_regions d). writable_region r \<and> in_region a r)"

definition may_read :: "wt_secure_domain \<Rightarrow> u32 \<Rightarrow> bool" where
  "may_read d a \<longleftrightarrow> (\<exists>r \<in> set (sdm_regions d). readable_region r \<and> in_region a r)"

lemma contains_iff:
  "wt_secure_domain_contains (Some d) addr len w \<longleftrightarrow>
     len \<noteq> 0 \<and> unat addr + unat len < 2 ^ 32 \<and>
     (\<exists>r \<in> set (sdm_regions d). rg_size r \<noteq> 0 \<and> proper_region r \<and> readable_region r \<and>
        (w \<longrightarrow> writable_region r) \<and> unat (rg_base r) \<le> unat addr \<and>
        unat addr + unat len \<le> unat (rg_base r) + unat (rg_size r))"
  unfolding wt_secure_domain_contains_def list_ex_iff proper_region_def readable_region_def
    writable_region_def word_gt_max_minus option.case
  by (auto simp: word_le_nat_alt unat_add_exact not_le word_gt_max_minus)

lemma contains_region:
  assumes "wt_secure_domain_contains (Some t) addr len w" "in_range a addr (unat len)"
  shows "\<exists>r \<in> set (sdm_regions t). in_region a r \<and> proper_region r \<and> readable_region r \<and> (w \<longrightarrow> writable_region r)"
proof -
  obtain r where r: "unat addr + unat len < 2 ^ 32" "r \<in> set (sdm_regions t)" "readable_region r" "proper_region r"
      "w \<longrightarrow> writable_region r" "unat (rg_base r) \<le> unat addr"
      "unat addr + unat len \<le> unat (rg_base r) + unat (rg_size r)"
    using assms(1) unfolding contains_iff by blast
  then have "in_region a r" using assms(2) by (auto simp: in_range_unat in_region_def)
  with r show ?thesis by blast
qed

lemma contains_access:
  assumes "wt_secure_domain_contains d addr len w" "in_range a addr (unat len)"
  shows "\<exists>t. d = Some t \<and> may_read t a \<and> (w \<longrightarrow> may_write t a)"
proof -
  obtain t where t: "d = Some t" using assms(1) by (cases d) (simp_all add: wt_secure_domain_contains_def)
  then show ?thesis using contains_region [of t addr len w a] assms by (auto simp: may_read_def may_write_def)
qed

lemma secure_range_eq:
  "wt_secure_range base sz =
     (if sz \<noteq> 0 \<and> unat base + unat sz < 2 ^ 32 then Some (base + sz) else None)"
  by (auto simp: wt_secure_range_def word_gt_max_minus)

lemma overlap_common:
  assumes "in_region a r" "in_region a s" "proper_region r" "proper_region s"
  shows "wt_secure_regions_overlap r s"
  using assms
  by (auto simp: wt_secure_regions_overlap_def secure_range_eq proper_region_def
      in_region_def word_less_nat_alt unat_add_exact)

lemma excludes_proper:
  "wt_secure_domain_excludes (Some d) base sz \<Longrightarrow> r \<in> set (sdm_regions d) \<Longrightarrow> proper_region r"
  by (auto simp: wt_secure_domain_excludes_def list_all_iff word_gt_max_minus proper_region_def not_le
      unat_u32_less split: if_splits)

lemma excludes_unreachable:
  assumes "wt_secure_domain_excludes (Some d) base sz" "unat base + unat sz < 2 ^ 32"
    and "in_range a base (unat sz)"
  shows "\<not> reaches d a"
proof
  assume "reaches d a"
  then obtain r where r: "r \<in> set (sdm_regions d)" "in_region a r" by (auto simp: reaches_def)
  let ?s = "\<lparr>rg_base = base, rg_size = sz, rg_attributes = 0\<rparr>"
  have "in_region a ?s" using assms(2,3) by (auto simp: in_range_unat in_region_def)
  moreover have "proper_region ?s" using assms(2) by (simp add: proper_region_def)
  ultimately have "wt_secure_regions_overlap r ?s"
    using overlap_common r(2) excludes_proper [OF assms(1) r(1)] by blast
  with assms(1) r(1) show False
    by (auto simp: wt_secure_domain_excludes_def list_all_iff split: if_splits)
qed

lemma or_and_zero: "(x OR y) AND m = 0 \<longleftrightarrow> x AND m = 0 \<and> y AND m = (0 :: u32)"
  by (auto simp: bit_eq_iff bit_simps)

lemma isolated_exclusive:
  assumes "wt_secure_domains_isolated (Some f) (Some s) shared" "carray_list shared = []"
    and "\<And>r. r \<in> set (sdm_regions f) \<union> set (sdm_regions s) \<Longrightarrow> proper_region r"
  shows "may_write f a \<Longrightarrow> \<not> reaches s a" "may_write s a \<Longrightarrow> \<not> reaches f a"
proof -
  have *: False if "r \<in> set (sdm_regions f)" "q \<in> set (sdm_regions s)" "in_region a r" "in_region a q"
    "writable_region r \<or> writable_region q" for r q
    using assms(1) that overlap_common [OF that(3,4)] assms(2,3)
    by (auto simp: wt_secure_domains_isolated_def list_all_iff list_ex_iff or_and_zero writable_region_def
        split: if_splits)
  show "may_write f a \<Longrightarrow> \<not> reaches s a" "may_write s a \<Longrightarrow> \<not> reaches f a"
    using * by (auto simp: may_write_def reaches_def)
qed

text \<open>A region that is inside a shared window has its bytes in the window.\<close>

lemma within_in_region:
  assumes "wt_secure_region_within r k" "in_region a r"
  shows "in_region a k"
  using assms
  by (auto simp: wt_secure_region_within_def secure_range_eq in_region_def word_le_nat_alt unat_add_exact
      split: option.splits if_splits)

lemma isolated_shared:
  assumes "wt_secure_domains_isolated (Some f) (Some s) shared" "r \<in> set (sdm_regions f)" "q \<in> set (sdm_regions s)"
    and "in_region a r" "in_region a q" "proper_region r" "proper_region q" "writable_region r \<or> writable_region q"
  shows "\<exists>k \<in> set (carray_list shared). in_region a k"
proof -
  have "\<exists>k \<in> set (carray_list shared). wt_secure_region_within r k \<and> wt_secure_region_within q k"
    using assms(1-3,8) overlap_common [OF assms(4-7)]
    by (fastforce simp: wt_secure_domains_isolated_def list_all_iff list_ex_iff or_and_zero writable_region_def
        split: if_splits)
  then show ?thesis using within_in_region assms(4) by blast
qed

text \<open>
  C36: The access check and the isolation check of the scheduler fit together. If two
  partition tables pass \<open>wt_secure_domains_isolated\<close>, then a byte that the access check
  grants to both of them, to at least one of them for writing, lies in one of the shared
  windows. Outside the shared windows neither partition can change what the other can read.
\<close>

theorem wt_secure_domains_isolated_sound:
  assumes "wt_secure_domains_isolated (Some f) (Some s) shared"
    and "wt_secure_domain_contains (Some f) addr len w" "in_range a addr (unat len)"
    and "wt_secure_domain_contains (Some s) addr' len' w'" "in_range a addr' (unat len')"
    and "w \<or> w'"
  shows "\<exists>k \<in> set (carray_list shared). in_region a k"
proof -
  obtain r where r: "r \<in> set (sdm_regions f)" "in_region a r" "proper_region r" "w \<longrightarrow> writable_region r"
    using contains_region [OF assms(2,3)] by blast
  obtain q where q: "q \<in> set (sdm_regions s)" "in_region a q" "proper_region q" "w' \<longrightarrow> writable_region q"
    using contains_region [OF assms(4,5)] by blast
  show ?thesis by (rule isolated_shared [OF assms(1) r(1) q(1) r(2) q(2) r(3) q(3)]) (use r q assms(6) in auto)
qed

definition example_region :: "u32 \<Rightarrow> wt_memory_region" where
  "example_region b = \<lparr>rg_base = b, rg_size = 0x100, rg_attributes = WT_MEM_ATTR_READ OR WT_MEM_ATTR_WRITE\<rparr>"

definition example_secure_domain :: "u32 \<Rightarrow> wt_secure_domain" where
  "example_secure_domain b = empty_secure_domain\<lparr>sdm_regions := [example_region b, example_region 0x30000000]\<rparr>"

theorem wt_secure_domains_isolated_sound_witness:
  "\<exists>k \<in> set (carray_list (CArray [example_region 0x30000000])). in_region 0x30000008 k"
  by (rule wt_secure_domains_isolated_sound
      [where f = "example_secure_domain 0x20000000" and s = "example_secure_domain 0x20000100" and
        addr = "0x30000000" and len = 16 and w = True and addr' = "0x30000008" and len' = 4 and w' = False])
    (code_simp, code_simp, simp add: in_range_unat, code_simp, simp add: in_range_unat, simp)

end
