(* ===== verification/Coroutine.thy ===== *)
theory Coroutine
  imports Linked_List Sec_Domain
begin

text \<open>
  The coroutine scheduler of \<open>src/sched/coroutine.c\<close> with the initial stack frame of
  \<open>src/arch/armv8m/coroutine_armv8m.c\<close>. A pointer to a coroutine is the bootstrap or a slot
  of the table, \<open>None\<close> standing for the null pointer. An operation that ends in
  \<open>wt_platform_panic\<close> returns \<open>None\<close>; so does a walk of a cyclic run queue, which would not
  end. Entering a coroutine is the architecture hook \<open>wt_co_arch_enter\<close>: a parameter that
  takes memory, the scheduler and the rest of the system to what they are when control is
  back on the bootstrap stack.
\<close>

section \<open>Data\<close>

abbreviation (input) WT_CO_MAX :: nat where "WT_CO_MAX \<equiv> 12"
abbreviation (input) WT_CO_STACK_SIZE :: u32 where "WT_CO_STACK_SIZE \<equiv> 10240"
abbreviation (input) WT_CO_STACK_MIN :: u32 where "WT_CO_STACK_MIN \<equiv> 1024"
abbreviation (input) WT_CO_STACK_CANARY :: u32 where "WT_CO_STACK_CANARY \<equiv> 0xC0C0DEAD"
abbreviation (input) WT_ARMV8M_STACK_SEAL :: u32 where "WT_ARMV8M_STACK_SEAL \<equiv> 0xFEF5EDA5"
abbreviation (input) WT_EXC_RETURN_S_THREAD_PSP :: u32 where "WT_EXC_RETURN_S_THREAD_PSP \<equiv> 0xFFFFFFFD"

datatype wt_co_state_t = WT_CO_RUNNABLE | WT_CO_RUNNING | WT_CO_BLOCKED | WT_CO_FAULTED

datatype co_ptr = Bootstrap | Slot nat

record wt_co =
  co_sp :: u32
  co_stack_base :: u32
  co_stack_size :: u32
  co_entry :: u32
  co_arg :: u32
  co_state :: wt_co_state_t
  co_id :: nat
  co_next_run :: "co_ptr option"
  co_next_wait :: "co_ptr option"
  co_domain :: "wt_secure_domain option"
  co_unprivileged :: bool
  co_wake_pending :: bool
  co_exc_return :: u32

record co_sched =
  g_co_table :: "wt_co list"
  g_wt_co_bootstrap :: wt_co
  g_wt_co_current :: "co_ptr option"
  g_runqueue_head :: "co_ptr option"
  g_runqueue_tail :: "co_ptr option"
  g_co_count :: nat
  g_wt_co_pendsv_target :: "co_ptr option"

text \<open>Code outside the scheduler: the stack policy of the platform and the entry trampoline.\<close>

record co_port =
  cp_priv_stack_ok :: "u32 \<Rightarrow> u32 \<Rightarrow> bool"
  cp_trampoline :: u32

fun co_of :: "co_sched \<Rightarrow> co_ptr \<Rightarrow> wt_co" where
  "co_of s Bootstrap = g_wt_co_bootstrap s"
| "co_of s (Slot i) = g_co_table s ! i"

fun upd_co :: "co_ptr \<Rightarrow> (wt_co \<Rightarrow> wt_co) \<Rightarrow> co_sched \<Rightarrow> co_sched" where
  "upd_co Bootstrap f s = s\<lparr>g_wt_co_bootstrap := f (g_wt_co_bootstrap s)\<rparr>"
| "upd_co (Slot i) f s = s\<lparr>g_co_table := upd_at i f (g_co_table s)\<rparr>"

section \<open>The run queue\<close>

fun is_valid_co_pointer :: "co_ptr \<Rightarrow> bool" where
  "is_valid_co_pointer Bootstrap = True"
| "is_valid_co_pointer (Slot i) = (i < WT_CO_MAX)"

definition runqueue_enqueue :: "co_sched \<Rightarrow> co_ptr \<Rightarrow> co_sched option" where
  "runqueue_enqueue s co =
     (if \<not> is_valid_co_pointer co \<or> co = Bootstrap then None
      else let s1 = upd_co co (\<lambda>c. c\<lparr>co_next_run := None\<rparr>) s in
        case g_runqueue_tail s1 of
          None \<Rightarrow> Some (s1\<lparr>g_runqueue_head := Some co, g_runqueue_tail := Some co\<rparr>)
        | Some t \<Rightarrow>
           (if \<not> is_valid_co_pointer t then None
            else Some ((upd_co t (\<lambda>c. c\<lparr>co_next_run := Some co\<rparr>) s1)\<lparr>g_runqueue_tail := Some co\<rparr>)))"

definition runqueue_dequeue :: "co_sched \<Rightarrow> co_sched \<times> co_ptr option" where
  "runqueue_dequeue s =
     (case g_runqueue_head s of
        None \<Rightarrow> (s, None)
      | Some co \<Rightarrow>
         (if \<not> is_valid_co_pointer co then (s\<lparr>g_runqueue_head := None, g_runqueue_tail := None\<rparr>, None)
          else let h = co_next_run (co_of s co);
                   h' = (case h of None \<Rightarrow> None | Some p \<Rightarrow> if is_valid_co_pointer p then Some p else None);
                   s1 = s\<lparr>g_runqueue_head := h',
                          g_runqueue_tail := (if h' = None then None else g_runqueue_tail s)\<rparr> in
            (upd_co co (\<lambda>c. c\<lparr>co_next_run := None\<rparr>) s1, Some co)))"

text \<open>
  The walk to the last element that repairs the tail, and the walk that unlinks \<open>co\<close>. The
  link under inspection is that of \<open>prev\<close>, or the head.
\<close>

fun last_run :: "nat \<Rightarrow> co_sched \<Rightarrow> co_ptr \<Rightarrow> co_ptr option" where
  "last_run 0 s tail = None"
| "last_run (Suc n) s tail =
     (case co_next_run (co_of s tail) of None \<Rightarrow> Some tail | Some p \<Rightarrow> last_run n s p)"

definition set_link :: "co_ptr option \<Rightarrow> co_ptr option \<Rightarrow> co_sched \<Rightarrow> co_sched" where
  "set_link prev x s =
     (case prev of
        None \<Rightarrow> s\<lparr>g_runqueue_head := x\<rparr>
      | Some p \<Rightarrow> upd_co p (\<lambda>c. c\<lparr>co_next_run := x\<rparr>) s)"

definition unlink_node :: "nat \<Rightarrow> co_sched \<Rightarrow> co_ptr option \<Rightarrow> co_ptr \<Rightarrow> co_sched option" where
  "unlink_node n s prev node =
     (let s1 = set_link prev (co_next_run (co_of s node)) s;
          clear = upd_co node (\<lambda>c. c\<lparr>co_next_run := None\<rparr>) in
      if g_runqueue_tail s1 \<noteq> Some node then Some (clear s1)
      else case g_runqueue_head s1 of
          None \<Rightarrow> Some (clear (s1\<lparr>g_runqueue_tail := None\<rparr>))
        | Some h \<Rightarrow>
           (case last_run n s1 h of
              None \<Rightarrow> None
            | Some t \<Rightarrow> Some (clear (s1\<lparr>g_runqueue_tail := Some t\<rparr>))))"

fun unlink_loop :: "nat \<Rightarrow> co_sched \<Rightarrow> co_ptr \<Rightarrow> co_ptr option \<Rightarrow> co_sched option" where
  "unlink_loop 0 s co prev = None"
| "unlink_loop (Suc n) s co prev =
     (case (case prev of None \<Rightarrow> g_runqueue_head s | Some p \<Rightarrow> co_next_run (co_of s p)) of
        None \<Rightarrow> Some s
      | Some node \<Rightarrow>
         (if node = co then unlink_node (Suc WT_CO_MAX) s prev node
          else unlink_loop n s co (Some node)))"

definition runqueue_unlink :: "co_sched \<Rightarrow> co_ptr \<Rightarrow> co_sched option" where
  "runqueue_unlink s co = unlink_loop (Suc WT_CO_MAX) s co None"

section \<open>Switching\<close>

definition check_canary :: "(u32 \<Rightarrow> u8) \<Rightarrow> co_sched \<Rightarrow> co_ptr option \<Rightarrow> bool" where
  "check_canary mem s co =
     (case co of
        None \<Rightarrow> True
      | Some p \<Rightarrow> co_stack_base (co_of s p) = 0 \<or>
                  load_word mem (co_stack_base (co_of s p)) = WT_CO_STACK_CANARY)"

type_synonym 'x world = "(u32 \<Rightarrow> u8) \<times> co_sched \<times> 'x"

definition switch_target :: "co_ptr option \<Rightarrow> co_ptr" where
  "switch_target to =
     (case to of None \<Rightarrow> Bootstrap | Some p \<Rightarrow> if is_valid_co_pointer p then p else Bootstrap)"

definition switch_in :: "co_ptr \<Rightarrow> co_sched \<Rightarrow> co_sched" where
  "switch_in t s = upd_co t (\<lambda>c. c\<lparr>co_state := WT_CO_RUNNING\<rparr>) (s\<lparr>g_wt_co_current := Some t\<rparr>)"

definition do_switch ::
  "(co_ptr \<Rightarrow> 'x world \<Rightarrow> 'x world) \<Rightarrow> co_ptr option \<Rightarrow> 'x world \<Rightarrow> 'x world option" where
  "do_switch wt_co_arch_enter to = (\<lambda>(mem, s, x).
     (let t = switch_target to in
      if \<not> check_canary mem s (g_wt_co_current s) \<or> \<not> check_canary mem s (Some t) then None
      else case wt_co_arch_enter t (mem, switch_in t s, x) of
        (mem', s', x') \<Rightarrow> if check_canary mem' s' (Some t) then Some (mem', s', x') else None))"

section \<open>Initialisation and creation\<close>

definition init_co :: "wt_co_state_t \<Rightarrow> wt_co \<Rightarrow> wt_co" where
  "init_co st c = c\<lparr>co_sp := 0, co_stack_base := 0, co_stack_size := 0, co_entry := 0, co_arg := 0,
     co_state := st, co_id := 0, co_next_run := None, co_next_wait := None, co_domain := None,
     co_unprivileged := False, co_exc_return := 0\<rparr>"

definition wt_co_init :: "co_sched \<Rightarrow> co_sched" where
  "wt_co_init s = s\<lparr>g_co_table := map (init_co WT_CO_BLOCKED) (g_co_table s),
     g_wt_co_bootstrap := init_co WT_CO_RUNNING (g_wt_co_bootstrap s),
     g_wt_co_current := Some Bootstrap, g_runqueue_head := None, g_runqueue_tail := None,
     g_co_count := 1\<rparr>"

text \<open>
  The frame a first switch unstacks: the callee-saved registers with the entry in the first,
  the exception frame with the argument, and the two seal words on top.
\<close>

definition stack_top :: "wt_co \<Rightarrow> u32" where
  "stack_top co = (co_stack_base co + co_stack_size co) AND NOT 7"

definition initial_frame :: "u32 \<Rightarrow> u32 \<Rightarrow> u32 \<Rightarrow> u32 list" where
  "initial_frame trampoline entry arg =
     entry # replicate 7 0 @ arg # replicate 5 0 @
     [trampoline, 0x01000000, WT_ARMV8M_STACK_SEAL, WT_ARMV8M_STACK_SEAL]"

definition wt_co_arch_init_stack ::
  "co_port \<Rightarrow> (u32 \<Rightarrow> u8) \<Rightarrow> co_sched \<Rightarrow> co_ptr \<Rightarrow> u32 \<Rightarrow> u32 \<Rightarrow> (u32 \<Rightarrow> u8) \<times> co_sched" where
  "wt_co_arch_init_stack port mem s co entry arg =
     (let frame = stack_top (co_of s co) - 72 in
      (mem_write mem frame (concat (map word_bytes (initial_frame (cp_trampoline port) entry arg))),
       upd_co co (\<lambda>c. c\<lparr>co_sp := frame, co_exc_return := WT_EXC_RETURN_S_THREAD_PSP\<rparr>) s))"

definition wt_co_create_common ::
  "co_port \<Rightarrow> (u32 \<Rightarrow> u8) \<Rightarrow> co_sched \<Rightarrow> u32 \<Rightarrow> u32 \<Rightarrow> u32 \<Rightarrow> u32 \<Rightarrow> wt_co_state_t \<Rightarrow> u32 \<Rightarrow> bool \<Rightarrow>
   ((u32 \<Rightarrow> u8) \<times> co_sched \<times> co_ptr option) option" where
  "wt_co_create_common port mem s stack stack_size entry arg initial_state min_stack require_priv_stack =
     (if entry = 0 \<or> stack = 0 \<or> stack_size < min_stack \<or> stack_size < WT_CO_STACK_MIN \<or>
         stack AND 7 \<noteq> 0 \<or> g_co_count s \<ge> WT_CO_MAX \<or>
         (require_priv_stack \<and> \<not> cp_priv_stack_ok port stack stack_size)
      then Some (mem, s, None)
      else let id = g_co_count s; co = Slot (id - 1);
               s1 = upd_co co (\<lambda>c. c\<lparr>co_id := id, co_stack_base := stack, co_stack_size := stack_size,
                      co_entry := entry, co_arg := arg, co_state := initial_state,
                      co_next_run := None, co_next_wait := None, co_domain := None,
                      co_unprivileged := False\<rparr>) (s\<lparr>g_co_count := id + 1\<rparr>) in
        case wt_co_arch_init_stack port (store_word mem stack WT_CO_STACK_CANARY) s1 co entry arg of
          (mem', s2) \<Rightarrow>
            (if initial_state = WT_CO_RUNNABLE
             then map_option (\<lambda>s3. (mem', s3, Some co)) (runqueue_enqueue s2 co)
             else Some (mem', s2, Some co)))"

definition wt_co_create where
  "wt_co_create port mem s stack stack_size entry arg =
     wt_co_create_common port mem s stack stack_size entry arg WT_CO_RUNNABLE WT_CO_STACK_SIZE True"

definition wt_co_create_blocked where
  "wt_co_create_blocked port mem s stack stack_size entry arg =
     wt_co_create_common port mem s stack stack_size entry arg WT_CO_BLOCKED WT_CO_STACK_SIZE True"

definition wt_co_create_blocked_ex where
  "wt_co_create_blocked_ex port mem s stack stack_size entry arg =
     wt_co_create_common port mem s stack stack_size entry arg WT_CO_BLOCKED WT_CO_STACK_MIN False"

definition wt_co_set_domain ::
  "co_sched \<Rightarrow> co_ptr option \<Rightarrow> wt_secure_domain option \<Rightarrow> bool \<Rightarrow> co_sched option" where
  "wt_co_set_domain s co domain unprivileged =
     (case co of
        None \<Rightarrow> None
      | Some p \<Rightarrow>
         (if \<not> is_valid_co_pointer p \<or> p = Bootstrap then None
          else Some (upd_co p (\<lambda>c. c\<lparr>co_domain := domain, co_unprivileged := unprivileged\<rparr>) s)))"

section \<open>Blocking and waking\<close>

text \<open>
  \<open>wt_co_arch_leave\<close> clears the switch target and pends the switch, which happens when the
  handler returns.
\<close>

definition wt_co_block :: "co_sched \<Rightarrow> co_sched option" where
  "wt_co_block s =
     (case g_wt_co_current s of
        None \<Rightarrow> None
      | Some from \<Rightarrow>
         (if from = Bootstrap then None
          else Some ((upd_co from (\<lambda>c. c\<lparr>co_state := WT_CO_BLOCKED\<rparr>) s)
                 \<lparr>g_wt_co_pendsv_target := None\<rparr>)))"

definition wt_co_wake :: "co_sched \<Rightarrow> co_ptr option \<Rightarrow> co_sched option" where
  "wt_co_wake s co =
     (case co of
        None \<Rightarrow> Some s
      | Some p \<Rightarrow>
         (if \<not> is_valid_co_pointer p \<or> p = Bootstrap then None
          else if co_state (co_of s p) = WT_CO_RUNNABLE \<or> co_state (co_of s p) = WT_CO_RUNNING
          then Some (upd_co p (\<lambda>c. c\<lparr>co_wake_pending := True\<rparr>) s)
          else if co_state (co_of s p) = WT_CO_FAULTED then Some s
          else runqueue_enqueue
                 (upd_co p (\<lambda>c. c\<lparr>co_wake_pending := False, co_state := WT_CO_RUNNABLE\<rparr>) s) p))"

definition leave_current :: "co_ptr \<Rightarrow> co_sched \<Rightarrow> co_sched" where
  "leave_current co s =
     (if g_wt_co_current s = Some co then s\<lparr>g_wt_co_current := Some Bootstrap\<rparr> else s)"

definition wt_co_mark_faulted :: "co_sched \<Rightarrow> co_ptr option \<Rightarrow> co_sched option" where
  "wt_co_mark_faulted s co =
     (case co of
        None \<Rightarrow> Some s
      | Some p \<Rightarrow>
         map_option (\<lambda>s1. leave_current p (upd_co p (\<lambda>c. c\<lparr>co_state := WT_CO_FAULTED\<rparr>) s1))
           (runqueue_unlink s p))"

definition wt_co_reinit ::
  "co_port \<Rightarrow> (u32 \<Rightarrow> u8) \<Rightarrow> co_sched \<Rightarrow> co_ptr option \<Rightarrow> u32 \<Rightarrow> u32 \<Rightarrow>
   ((u32 \<Rightarrow> u8) \<times> co_sched \<times> int) option" where
  "wt_co_reinit port mem s co entry arg =
     (case co of
        None \<Rightarrow> Some (mem, s, - 1)
      | Some p \<Rightarrow>
         (if entry = 0 \<or> \<not> is_valid_co_pointer p \<or> p = Bootstrap \<or> co_stack_base (co_of s p) = 0
          then Some (mem, s, - 1)
          else case runqueue_unlink s p of
            None \<Rightarrow> None
          | Some s1 \<Rightarrow>
             (let s2 = upd_co p (\<lambda>c. c\<lparr>co_sp := 0, co_entry := entry, co_arg := arg,
                         co_state := WT_CO_BLOCKED, co_next_run := None, co_next_wait := None,
                         co_wake_pending := False\<rparr>) (leave_current p s1) in
              case wt_co_arch_init_stack port
                     (store_word mem (co_stack_base (co_of s2 p)) WT_CO_STACK_CANARY) s2 p entry arg of
                (mem', s3) \<Rightarrow> Some (mem', s3, 0))))"

definition wt_co_current :: "co_sched \<Rightarrow> co_ptr option" where
  "wt_co_current s = (if g_wt_co_current s = Some Bootstrap then None else g_wt_co_current s)"

definition wt_co_state :: "co_sched \<Rightarrow> co_ptr option \<Rightarrow> wt_co_state_t" where
  "wt_co_state s co = (case co of None \<Rightarrow> WT_CO_FAULTED | Some p \<Rightarrow> co_state (co_of s p))"

definition wt_co_wake_pending :: "co_sched \<Rightarrow> co_ptr option \<Rightarrow> bool" where
  "wt_co_wake_pending s co = (case co of None \<Rightarrow> False | Some p \<Rightarrow> co_wake_pending (co_of s p))"

section \<open>Running coroutines\<close>

definition wt_co_run ::
  "(co_ptr \<Rightarrow> 'x world \<Rightarrow> 'x world) \<Rightarrow> co_ptr option \<Rightarrow> 'x world \<Rightarrow> ('x world \<times> nat) option" where
  "wt_co_run wt_co_arch_enter co = (\<lambda>(mem, s, x).
     (case co of
        None \<Rightarrow> Some ((mem, s, x), 0)
      | Some p \<Rightarrow>
         (if g_wt_co_current s \<noteq> Some Bootstrap then Some ((mem, s, x), 0)
          else if \<not> is_valid_co_pointer p \<or> p = Bootstrap then None
          else if co_state (co_of s p) \<noteq> WT_CO_RUNNABLE then Some ((mem, s, x), 0)
          else case runqueue_unlink s p of
            None \<Rightarrow> None
          | Some s1 \<Rightarrow>
             map_option (\<lambda>w. (w, 1)) (do_switch wt_co_arch_enter (Some p) (mem, s1, x)))))"

text \<open>The loop of \<open>wt_co_tick\<close>: the first argument is the budget that is left.\<close>

fun tick_loop ::
  "(co_ptr \<Rightarrow> 'x world \<Rightarrow> 'x world) \<Rightarrow> nat \<Rightarrow> nat \<Rightarrow> 'x world \<Rightarrow> ('x world \<times> nat) option" where
  "tick_loop wt_co_arch_enter 0 switches w = Some (w, switches)"
| "tick_loop wt_co_arch_enter (Suc n) switches (mem, s, x) =
     (case runqueue_dequeue s of
        (s1, None) \<Rightarrow> Some ((mem, s1, x), switches)
      | (s1, Some to) \<Rightarrow>
         (case do_switch wt_co_arch_enter (Some to) (mem, s1, x) of
            None \<Rightarrow> None
          | Some w \<Rightarrow> tick_loop wt_co_arch_enter n (Suc switches) w))"

definition wt_co_tick ::
  "(co_ptr \<Rightarrow> 'x world \<Rightarrow> 'x world) \<Rightarrow> u32 \<Rightarrow> 'x world \<Rightarrow> ('x world \<times> nat) option" where
  "wt_co_tick wt_co_arch_enter budget_iterations = (\<lambda>(mem, s, x).
     (if g_wt_co_current s \<noteq> Some Bootstrap then Some ((mem, s, x), 0)
      else if budget_iterations = 0 then Some ((mem, s, x), 0)
      else tick_loop wt_co_arch_enter (unat budget_iterations) 0 (mem, s, x)))"

definition wt_co_request_preempt :: "co_sched \<Rightarrow> co_sched \<times> bool" where
  "wt_co_request_preempt s =
     (case g_wt_co_current s of
        None \<Rightarrow> (s, False)
      | Some current \<Rightarrow>
         (if current = Bootstrap then (s, False)
          else if co_state (co_of s current) \<noteq> WT_CO_RUNNING then (s, False)
          else ((upd_co current (\<lambda>c. c\<lparr>co_state := WT_CO_RUNNABLE\<rparr>) s)
                  \<lparr>g_wt_co_pendsv_target := None\<rparr>, True)))"

end
