(* ===== verification/Run_Queue.thy ===== *)
theory Run_Queue
  imports Coroutine
begin

text \<open>
  The run queue as a list. The scheduler keeps its runnable coroutines in a list threaded
  through \<open>next_run\<close>; under the invariant the walks over it end, no operation panics on a
  coroutine that was created, and the operations act on the list as append, tail and
  removal.
\<close>

named_theorems co_simps \<open>reads of an updated scheduler\<close>

section \<open>Reads of an updated scheduler\<close>

fun in_table :: "co_sched \<Rightarrow> co_ptr \<Rightarrow> bool" where
  "in_table s Bootstrap = True"
| "in_table s (Slot i) = (i < length (g_co_table s))"

lemma co_of_upd [simp, co_simps]:
  "in_table s p \<Longrightarrow> co_of (upd_co p f s) q = (if q = p then f (co_of s q) else co_of s q)"
  by (cases p; cases q) (auto simp: array_simps)

lemma co_of_upd_other: "q \<noteq> p \<Longrightarrow> co_of (upd_co p f s) q = co_of s q"
  by (cases p; cases q) (auto simp: array_simps)

lemma upd_co_beyond: "\<not> in_table s p \<Longrightarrow> upd_co p f s = s"
  by (cases p) (simp_all add: upd_at_beyond)

lemma upd_co_fields [simp, co_simps]:
  "g_wt_co_current (upd_co p f s) = g_wt_co_current s"
  "g_runqueue_head (upd_co p f s) = g_runqueue_head s"
  "g_runqueue_tail (upd_co p f s) = g_runqueue_tail s"
  "g_co_count (upd_co p f s) = g_co_count s"
  "g_wt_co_pendsv_target (upd_co p f s) = g_wt_co_pendsv_target s"
  "length (g_co_table (upd_co p f s)) = length (g_co_table s)"
  "in_table (upd_co p f s) q = in_table s q"
  by (cases p; cases q; simp)+

lemma upd_co_commute [simp, co_simps]:
  "upd_co p f (s\<lparr>g_wt_co_current := c\<rparr>) = (upd_co p f s)\<lparr>g_wt_co_current := c\<rparr>"
  "upd_co p f (s\<lparr>g_runqueue_head := h\<rparr>) = (upd_co p f s)\<lparr>g_runqueue_head := h\<rparr>"
  "upd_co p f (s\<lparr>g_runqueue_tail := t\<rparr>) = (upd_co p f s)\<lparr>g_runqueue_tail := t\<rparr>"
  "upd_co p f (s\<lparr>g_co_count := n\<rparr>) = (upd_co p f s)\<lparr>g_co_count := n\<rparr>"
  by (cases p; simp)+

lemma co_of_fields [simp, co_simps]:
  "co_of (s\<lparr>g_wt_co_current := c\<rparr>) p = co_of s p"
  "co_of (s\<lparr>g_runqueue_head := h\<rparr>) p = co_of s p"
  "co_of (s\<lparr>g_runqueue_tail := t\<rparr>) p = co_of s p"
  "co_of (s\<lparr>g_co_count := n\<rparr>) p = co_of s p"
  "co_of (s\<lparr>g_wt_co_pendsv_target := v\<rparr>) p = co_of s p"
  by (cases p; simp)+

lemma in_table_fields [simp, co_simps]:
  "in_table (s\<lparr>g_wt_co_current := c\<rparr>) p = in_table s p"
  "in_table (s\<lparr>g_runqueue_head := h\<rparr>) p = in_table s p"
  "in_table (s\<lparr>g_runqueue_tail := t\<rparr>) p = in_table s p"
  "in_table (s\<lparr>g_co_count := n\<rparr>) p = in_table s p"
  "in_table (s\<lparr>g_wt_co_pendsv_target := v\<rparr>) p = in_table s p"
  by (cases p; simp)+

declare co_of.simps [simp del] upd_co.simps [simp del]

section \<open>The threaded list\<close>

definition nxr :: "co_sched \<Rightarrow> co_ptr option \<Rightarrow> co_ptr option" where
  "nxr s p = (case p of None \<Rightarrow> None | Some q \<Rightarrow> co_next_run (co_of s q))"

lemma nxr_at: "nxr s (Some p) = co_next_run (co_of s p)"
  by (simp add: nxr_def)

lemma Slot_image [simp]:
  "Some (Slot i) \<in> (Some \<circ> Slot) ` A \<longleftrightarrow> i \<in> A"
  "Some (Slot i) \<in> (\<lambda>x. Some (Slot x)) ` A \<longleftrightarrow> i \<in> A"
  by auto

definition runq :: "co_sched \<Rightarrow> nat list \<Rightarrow> bool" where
  "runq s q \<longleftrightarrow> threaded None (nxr s) (g_runqueue_head s) (g_runqueue_tail s) (map (Some \<circ> Slot) q)"

lemma nxr_link:
  "in_table s p \<Longrightarrow> nxr (upd_co p (\<lambda>c. c\<lparr>co_next_run := x\<rparr>) s) = (nxr s)(Some p := x)"
  by (auto simp: nxr_def fun_eq_iff split: option.split)

lemma nxr_keep:
  assumes "\<And>c. co_next_run (f c) = co_next_run c"
  shows "nxr (upd_co p f s) = nxr s"
proof
  fix q
  show "nxr (upd_co p f s) q = nxr s q"
  proof (cases q)
    case (Some r)
    then show ?thesis
      using assms co_of_upd [of s p f r] co_of_upd_other [of r p f s]
      by (cases "in_table s p") (auto simp: nxr_def upd_co_beyond)
  qed (simp add: nxr_def)
qed

lemma nxr_fields [simp, co_simps]:
  "nxr (s\<lparr>g_wt_co_current := c\<rparr>) = nxr s"
  "nxr (s\<lparr>g_runqueue_head := h\<rparr>) = nxr s"
  "nxr (s\<lparr>g_runqueue_tail := t\<rparr>) = nxr s"
  "nxr (s\<lparr>g_co_count := n\<rparr>) = nxr s"
  "nxr (s\<lparr>g_wt_co_pendsv_target := v\<rparr>) = nxr s"
  by (auto simp: nxr_def fun_eq_iff split: option.split)

lemma runq_keep:
  assumes "\<And>c. co_next_run (f c) = co_next_run c"
  shows "runq (upd_co p f s) q = runq s q"
  using nxr_keep [of f, OF assms] by (simp add: runq_def)

lemma runq_fields [simp, co_simps]:
  "runq (s\<lparr>g_wt_co_current := c\<rparr>) q = runq s q"
  "runq (s\<lparr>g_co_count := n\<rparr>) q = runq s q"
  "runq (s\<lparr>g_wt_co_pendsv_target := v\<rparr>) q = runq s q"
  by (simp_all add: runq_def)

lemma runq_distinct: "runq s q \<Longrightarrow> distinct q"
  by (auto simp: runq_def threaded_def distinct_map)

lemma runq_unique: "runq s q \<Longrightarrow> runq s q' \<Longrightarrow> q = q'"
proof -
  assume "runq s q" "runq s q'"
  then have "map (Some \<circ> Slot) q = map (Some \<circ> Slot) q'"
    using follows_unique unfolding runq_def threaded_def by metis
  then show ?thesis by (rule map_injective) (auto intro: injI)
qed

lemma runq_enqueue:
  assumes r: "runq s q" and i: "i < length (g_co_table s)" "i < WT_CO_MAX" "i \<notin> set q"
    and q: "\<And>j. j \<in> set q \<Longrightarrow> j < length (g_co_table s) \<and> j < WT_CO_MAX"
  shows "\<exists>s'. runqueue_enqueue s (Slot i) = Some s' \<and> runq s' (q @ [i])"
proof -
  let ?s1 = "upd_co (Slot i) (\<lambda>c. c\<lparr>co_next_run := None\<rparr>) s" and ?q = "map (Some \<circ> Slot) q"
  have t1: "threaded None (nxr ?s1) (g_runqueue_head s) (g_runqueue_tail s) ?q"
    using r i(1,3) by (auto simp: runq_def nxr_link)
  have n1: "nxr ?s1 (Some (Slot i)) = None" using i(1) by (simp add: nxr_link)
  have e: "threaded None (if g_runqueue_tail s = None then nxr ?s1
              else (nxr ?s1)(g_runqueue_tail s := Some (Slot i)))
            (if g_runqueue_tail s = None then Some (Slot i) else g_runqueue_head s) (Some (Slot i))
            (?q @ [Some (Slot i)])"
    by (rule threaded_enqueue [OF t1 _ _ n1]) (use i(3) in auto)
  show ?thesis
  proof (cases "g_runqueue_tail s")
    case None
    then show ?thesis using i(2) e by (simp add: runqueue_enqueue_def runq_def)
  next
    case (Some t)
    then have "q \<noteq> []" "t = Slot (last q)" using r by (auto simp: runq_def threaded_def last_map split: if_splits)
    then have "is_valid_co_pointer t" "in_table ?s1 t" using q [OF last_in_set] by auto
    then show ?thesis using i(2) e Some
      by (simp add: runqueue_enqueue_def runq_def nxr_link)
  qed
qed

lemma runq_dequeue:
  assumes r: "runq s q" and q: "\<And>j. j \<in> set q \<Longrightarrow> j < length (g_co_table s) \<and> j < WT_CO_MAX"
  shows "q = [] \<Longrightarrow> runqueue_dequeue s = (s, None)"
    and "q = i # q' \<Longrightarrow> \<exists>s'. runqueue_dequeue s = (s', Some (Slot i)) \<and> runq s' q'"
proof -
  show "q = [] \<Longrightarrow> runqueue_dequeue s = (s, None)"
    using r by (simp add: runqueue_dequeue_def runq_def threaded_def)
  assume qi: "q = i # q'"
  let ?n = "co_next_run (co_of s (Slot i))"
  have h: "g_runqueue_head s = Some (Slot i)" using r qi by (simp add: runq_def threaded_def)
  have n: "?n = (case q' of [] \<Rightarrow> None | j # _ \<Rightarrow> Some (Slot j))"
    using r qi by (cases q') (auto simp: runq_def threaded_def nxr_def)
  have v: "(case ?n of None \<Rightarrow> None | Some p \<Rightarrow> if is_valid_co_pointer p then Some p else None) = ?n"
    using q qi n by (auto split: list.split)
  have it: "in_table s (Slot i)" "is_valid_co_pointer (Slot i)" using q [of i] qi by auto
  have "threaded None ((nxr s)(Some (Slot i) := None)) (nxr s (Some (Slot i)))
          (if nxr s (Some (Slot i)) = None then None else g_runqueue_tail s) (map (Some \<circ> Slot) q')"
    using threaded_pop [of None "nxr s" "g_runqueue_head s" "g_runqueue_tail s" "Some (Slot i)"] r qi
    by (simp add: runq_def)
  then show "\<exists>s'. runqueue_dequeue s = (s', Some (Slot i)) \<and> runq s' q'"
    using h v it by (simp add: runqueue_dequeue_def runq_def nxr_link Let_def nxr_at)
qed

section \<open>Unlinking\<close>

lemma map_Slot_last: "q \<noteq> [] \<Longrightarrow> last (map (Some \<circ> Slot) q) = Some (Slot (last q))"
  by (simp add: last_map)

definition link_before :: "nat list \<Rightarrow> co_ptr option" where
  "link_before q = (if q = [] then None else Some (Slot (last q)))"

lemma runq_link:
  assumes "runq s (q1 @ q2)"
  shows "(case link_before q1 of None \<Rightarrow> g_runqueue_head s | Some p \<Rightarrow> co_next_run (co_of s p)) =
           (case q2 of [] \<Rightarrow> None | j # _ \<Rightarrow> Some (Slot j))"
proof -
  have "follows None (nxr s) (if q1 = [] then g_runqueue_head s else nxr s (Some (Slot (last q1))))
          (map (Some \<circ> Slot) q2)"
    using follows_append [of None "nxr s" "g_runqueue_head s" "map (Some \<circ> Slot) q1"] assms
    by (cases "q1 = []") (simp_all add: runq_def threaded_def map_Slot_last)
  then show ?thesis by (cases q2) (simp_all add: link_before_def nxr_at split: if_splits)
qed

lemma unlink_loop_walk:
  assumes "runq s (q1 @ q2)" "length q2 < n"
  shows "i \<notin> set q2 \<Longrightarrow> unlink_loop n s (Slot i) (link_before q1) = Some s"
    and "q2 = a @ i # b \<Longrightarrow> i \<notin> set a \<Longrightarrow>
      unlink_loop n s (Slot i) (link_before q1) = unlink_node (Suc WT_CO_MAX) s (link_before (q1 @ a)) (Slot i)"
proof -
  have *: "(i \<notin> set q2 \<longrightarrow> unlink_loop n s (Slot i) (link_before q1) = Some s) \<and>
        (\<forall>a b. q2 = a @ i # b \<longrightarrow> i \<notin> set a \<longrightarrow>
      unlink_loop n s (Slot i) (link_before q1) = unlink_node (Suc WT_CO_MAX) s (link_before (q1 @ a)) (Slot i))"
    using assms
  proof (induction q2 arbitrary: q1 n)
    case Nil
    then obtain k where "n = Suc k" by (cases n) auto
    then show ?case using runq_link [OF Nil.prems(1)] by simp
  next
    case (Cons j q2)
    obtain k where n: "n = Suc k" using Cons.prems by (cases n) auto
    have l: "(case link_before q1 of None \<Rightarrow> g_runqueue_head s | Some p \<Rightarrow> co_next_run (co_of s p)) = Some (Slot j)"
      using runq_link [OF Cons.prems(1)] by simp
    have b: "Some (Slot j) = link_before (q1 @ [j])" by (simp add: link_before_def)
    show ?case
    proof (cases "j = i")
      case True
      then show ?thesis using n l by (auto simp: Cons_eq_append_conv)
    next
      case False
      have "unlink_loop n s (Slot i) (link_before q1) = unlink_loop k s (Slot i) (link_before (q1 @ [j]))"
        using n l False by (simp flip: b)
      then show ?thesis using Cons.IH [of "q1 @ [j]" k] Cons.prems n False
        by (auto simp: Cons_eq_append_conv)
    qed
  qed
  show "i \<notin> set q2 \<Longrightarrow> unlink_loop n s (Slot i) (link_before q1) = Some s" using * by blast
  show "q2 = a @ i # b \<Longrightarrow> i \<notin> set a \<Longrightarrow>
      unlink_loop n s (Slot i) (link_before q1) = unlink_node (Suc WT_CO_MAX) s (link_before (q1 @ a)) (Slot i)"
    using * by blast
qed

lemma last_run_follows:
  "follows None (nxr s) (Some (Slot h)) (map (Some \<circ> Slot) (h # q)) \<Longrightarrow> length q < n \<Longrightarrow>
     last_run n s (Slot h) = Some (Slot (last (h # q)))"
proof (induction q arbitrary: h n)
  case Nil
  then obtain k where "n = Suc k" by (cases n) auto
  then show ?case using Nil by (simp add: nxr_at)
next
  case (Cons j q)
  then obtain k where "n = Suc k" by (cases n) auto
  then show ?case using Cons.IH [of j k] Cons.prems by (simp add: nxr_at)
qed

lemma set_link_fields [simp]:
  "g_runqueue_tail (set_link p x s) = g_runqueue_tail s"
  "g_runqueue_head (set_link p x s) = (if p = None then x else g_runqueue_head s)"
  "length (g_co_table (set_link p x s)) = length (g_co_table s)"
  "in_table (set_link p x s) q = in_table s q"
  by (auto simp: set_link_def split: option.split)

lemma runq_unlink_node:
  assumes r: "runq s (a @ i # b)"
    and q: "\<And>j. j \<in> set (a @ i # b) \<Longrightarrow> j < length (g_co_table s)" and n: "length (a @ i # b) < n"
  shows "\<exists>s'. unlink_node n s (link_before a) (Slot i) = Some s' \<and> runq s' (a @ b)"
proof -
  let ?m = "map (Some \<circ> Slot)" and ?x = "nxr s (Some (Slot i))"
  let ?nx = "if a = [] then nxr s else (nxr s)(Some (Slot (last a)) := ?x)"
  let ?s1 = "set_link (link_before a) (co_next_run (co_of s (Slot i))) s"
  let ?h = "if a = [] then ?x else g_runqueue_head s"
  have it: "in_table s (Slot i)" "\<And>j. j \<in> set a \<Longrightarrow> in_table s (Slot j)" using q by auto
  have d: "distinct (a @ i # b)" using runq_distinct [OF r] .
  have nx1: "nxr ?s1 = ?nx"
    using it(2) by (auto simp: set_link_def link_before_def nxr_link nxr_at)
  have h1: "g_runqueue_head ?s1 = ?h" by (simp add: link_before_def nxr_at)
  have t: "g_runqueue_tail s = last (?m (a @ i # b))" using r by (simp add: runq_def threaded_def)
  have p: "link_before a = (if ?m a = [] then None else last (?m a))"
    by (simp add: link_before_def map_Slot_last)
  have th: "threaded None (?nx(Some (Slot i) := None)) ?h
      (if g_runqueue_tail s = Some (Slot i) then link_before a else g_runqueue_tail s) (?m (a @ b))"
    using threaded_unlink [OF _ p, of "nxr s" "g_runqueue_head s" "g_runqueue_tail s" "Some (Slot i)" "?m b"] r
    by (cases "a = []") (simp_all add: runq_def link_before_def)
  have c: "nxr (upd_co (Slot i) (\<lambda>c. c\<lparr>co_next_run := None\<rparr>) ?s1) = ?nx(Some (Slot i) := None)"
    using it(1) by (simp add: nxr_link nx1)
  show ?thesis
  proof (cases "g_runqueue_tail s = Some (Slot i)")
    case False
    then show ?thesis using th c h1 by (simp add: unlink_node_def runq_def)
  next
    case True
    then have b: "b = []" using t d map_Slot_last [of "a @ i # b"] by (auto split: if_splits)
    then have x: "?x = None"
      using runq_link [of s "a @ [i]" "[]"] r by (simp add: link_before_def nxr_at)
    show ?thesis
    proof (cases a)
      case Nil
      then show ?thesis using True th c h1 x b
        by (simp add: unlink_node_def runq_def link_before_def nxr_at threaded_def)
    next
      case (Cons j a')
      have f: "follows None ?nx ?h (?m a)" using th d b by (simp add: threaded_def)
      then have hj: "g_runqueue_head s = Some (Slot j)" using Cons by simp
      have "last_run n ?s1 (Slot j) = Some (Slot (last a))"
        using last_run_follows [of ?s1 j a' n] f n Cons hj nx1 by simp
      then show ?thesis using True th c h1 hj Cons b
        by (simp add: unlink_node_def runq_def link_before_def)
    qed
  qed
qed

section \<open>What the queue operations leave alone\<close>

definition run_frame :: "co_sched \<Rightarrow> co_sched \<Rightarrow> bool" where
  "run_frame s s' \<longleftrightarrow>
     (\<forall>p. \<exists>x. co_of s' p = (co_of s p)\<lparr>co_next_run := x\<rparr>) \<and>
     length (g_co_table s') = length (g_co_table s) \<and> g_wt_co_current s' = g_wt_co_current s \<and>
     g_co_count s' = g_co_count s \<and> g_wt_co_pendsv_target s' = g_wt_co_pendsv_target s"

lemma run_frame_refl: "run_frame s s"
proof -
  have "\<exists>x. c = c\<lparr>co_next_run := x\<rparr>" for c :: wt_co by (rule exI [of _ "co_next_run c"]) simp
  then show ?thesis by (simp add: run_frame_def)
qed

lemma run_frame_trans:
  assumes "run_frame a b" "run_frame b c"
  shows "run_frame a c"
proof -
  have "\<exists>x. co_of c p = (co_of a p)\<lparr>co_next_run := x\<rparr>" for p
  proof -
    obtain x where x: "co_of b p = (co_of a p)\<lparr>co_next_run := x\<rparr>" using assms(1) by (auto simp: run_frame_def)
    obtain y where "co_of c p = (co_of b p)\<lparr>co_next_run := y\<rparr>" using assms(2) by (auto simp: run_frame_def)
    then show ?thesis using x by auto
  qed
  then show ?thesis using assms by (simp add: run_frame_def)
qed

lemma run_frame_link: "run_frame s (upd_co p (\<lambda>c. c\<lparr>co_next_run := x\<rparr>) s)"
proof -
  have "\<exists>y. co_of (upd_co p (\<lambda>c. c\<lparr>co_next_run := x\<rparr>) s) q = (co_of s q)\<lparr>co_next_run := y\<rparr>" for q
    using run_frame_refl [of s] by (cases "in_table s p") (auto simp: upd_co_beyond run_frame_def)
  then show ?thesis by (simp add: run_frame_def)
qed

lemma run_frame_fields [simp]:
  "run_frame s (t\<lparr>g_runqueue_head := h\<rparr>) = run_frame s t"
  "run_frame s (t\<lparr>g_runqueue_tail := h\<rparr>) = run_frame s t"
  by (simp_all add: run_frame_def)

lemma run_frame_set_link: "run_frame s (set_link p x s)"
  using run_frame_link run_frame_refl by (auto simp: set_link_def split: option.split)

lemma enqueue_frame_co: "runqueue_enqueue s p = Some s' \<Longrightarrow> run_frame s s'"
  by (auto simp: runqueue_enqueue_def Let_def split: if_splits option.splits
      intro: run_frame_link run_frame_trans [OF run_frame_link run_frame_link])

lemma dequeue_frame_co: "run_frame s (fst (runqueue_dequeue s))"
  by (auto simp: runqueue_dequeue_def Let_def run_frame_refl split: option.split
      intro: run_frame_trans [OF _ run_frame_link] simp: run_frame_refl)

lemma unlink_node_frame: "unlink_node n s prev node = Some s' \<Longrightarrow> run_frame s s'"
  by (auto simp: unlink_node_def Let_def run_frame_set_link split: if_splits option.splits
      intro!: run_frame_trans [OF _ run_frame_link])

lemma unlink_loop_frame: "unlink_loop n s co prev = Some s' \<Longrightarrow> run_frame s s'"
  by (induction n s co prev rule: unlink_loop.induct)
    (auto simp: run_frame_refl unlink_node_frame split: option.splits if_splits)

lemma run_frame_reads:
  assumes "run_frame s s'"
  shows "co_state (co_of s' p) = co_state (co_of s p)" "co_next_wait (co_of s' p) = co_next_wait (co_of s p)"
    "co_stack_base (co_of s' p) = co_stack_base (co_of s p)" "co_stack_size (co_of s' p) = co_stack_size (co_of s p)"
    "co_id (co_of s' p) = co_id (co_of s p)" "co_domain (co_of s' p) = co_domain (co_of s p)"
    "co_unprivileged (co_of s' p) = co_unprivileged (co_of s p)"
    "co_wake_pending (co_of s' p) = co_wake_pending (co_of s p)"
    "co_entry (co_of s' p) = co_entry (co_of s p)" "co_arg (co_of s' p) = co_arg (co_of s p)"
    "length (g_co_table s') = length (g_co_table s)" "g_wt_co_current s' = g_wt_co_current s"
    "g_co_count s' = g_co_count s" "g_wt_co_pendsv_target s' = g_wt_co_pendsv_target s"
  using assms unfolding run_frame_def by (metis (no_types, lifting) wt_co.select_convs wt_co.surjective wt_co.update_convs(8))+

end
