(* ===== verification/Scheduler.thy ===== *)
theory Scheduler
  imports Run_Queue
begin

text \<open>
  The coroutine scheduler as a transition system. A step is one operation of
  \<open>src/sched/coroutine.c\<close> on a coroutine that was created, the entry into a coroutine, or
  the switch back that the exception return performs once the running coroutine has blocked,
  was preempted or faulted. Only a running coroutine blocks itself. In every reachable state the run queue is a proper list of
  runnable coroutines, only the current coroutine runs, and no operation panics.
\<close>

section \<open>Steps\<close>

fun created :: "co_sched \<Rightarrow> co_ptr \<Rightarrow> bool" where
  "created s Bootstrap = False"
| "created s (Slot i) = (i + 1 < g_co_count s)"

text \<open>The switch back to the bootstrap saves the stack pointer and the return code.\<close>

definition switch_back :: "u32 \<Rightarrow> u32 \<Rightarrow> co_ptr \<Rightarrow> co_sched \<Rightarrow> co_sched" where
  "switch_back sp exc p s =
     (upd_co p (\<lambda>c. c\<lparr>co_sp := sp, co_exc_return := exc\<rparr>) s)\<lparr>g_wt_co_current := Some Bootstrap\<rparr>"

inductive sched_step :: "co_sched \<Rightarrow> co_sched \<Rightarrow> bool" where
  create: "wt_co_create_common port mem s stack sz entry arg st mn pr = Some (mem', s', r) \<Longrightarrow>
    st = WT_CO_RUNNABLE \<or> st = WT_CO_BLOCKED \<Longrightarrow> sched_step s s'"
| set_domain: "wt_co_set_domain s (Some p) d u = Some s' \<Longrightarrow> sched_step s s'"
| block: "g_wt_co_current s = Some p \<Longrightarrow> co_state (co_of s p) = WT_CO_RUNNING \<Longrightarrow>
    wt_co_block s = Some s' \<Longrightarrow> sched_step s s'"
| preempt: "wt_co_request_preempt s = (s', b) \<Longrightarrow> sched_step s s'"
| wake: "created s p \<Longrightarrow> wt_co_wake s (Some p) = Some s' \<Longrightarrow> sched_step s s'"
| mark_faulted: "created s p \<Longrightarrow> wt_co_mark_faulted s (Some p) = Some s' \<Longrightarrow> sched_step s s'"
| reinit: "created s p \<Longrightarrow> wt_co_reinit port mem s (Some p) entry arg = Some (mem', s', r) \<Longrightarrow> sched_step s s'"
| run: "g_wt_co_current s = Some Bootstrap \<Longrightarrow> created s p \<Longrightarrow> co_state (co_of s p) = WT_CO_RUNNABLE \<Longrightarrow>
    runqueue_unlink s p = Some s' \<Longrightarrow> sched_step s (switch_in p s')"
| tick: "g_wt_co_current s = Some Bootstrap \<Longrightarrow> runqueue_dequeue s = (s', Some p) \<Longrightarrow>
    sched_step s (switch_in p s')"
| switch_back: "g_wt_co_current s = Some p \<Longrightarrow> p \<noteq> Bootstrap \<Longrightarrow> co_state (co_of s p) \<noteq> WT_CO_RUNNING \<Longrightarrow>
    sched_step s (switch_back sp exc p s)"

definition sched_started :: "co_sched \<Rightarrow> bool" where
  "sched_started s \<longleftrightarrow> (\<exists>s0. length (g_co_table s0) = WT_CO_MAX \<and> s = wt_co_init s0)"

section \<open>The invariant\<close>

definition sched_core :: "co_sched \<Rightarrow> bool" where
  "sched_core s \<longleftrightarrow>
     length (g_co_table s) = WT_CO_MAX \<and> 1 \<le> g_co_count s \<and> g_co_count s \<le> WT_CO_MAX \<and>
     (\<forall>i. co_state (co_of s (Slot i)) = WT_CO_RUNNING \<longrightarrow> i < WT_CO_MAX \<longrightarrow> g_wt_co_current s = Some (Slot i)) \<and>
     (g_wt_co_current s = Some Bootstrap \<or> (\<exists>p. g_wt_co_current s = Some p \<and> created s p))"

definition queued_runnable :: "co_sched \<Rightarrow> nat list \<Rightarrow> bool" where
  "queued_runnable s q \<longleftrightarrow>
     runq s q \<and> (\<forall>i \<in> set q. created s (Slot i) \<and> co_state (co_of s (Slot i)) = WT_CO_RUNNABLE)"

definition sched_inv :: "co_sched \<Rightarrow> bool" where
  "sched_inv s \<longleftrightarrow> sched_core s \<and> (\<exists>q. queued_runnable s q)"

lemma created_valid:
  assumes "sched_core s" "created s p"
  shows "is_valid_co_pointer p" "in_table s p" "p \<noteq> Bootstrap"
  using assms by (cases p; force simp: sched_core_def)+

lemma queued_bounds:
  "sched_core s \<Longrightarrow> queued_runnable s q \<Longrightarrow> j \<in> set q \<Longrightarrow> j < length (g_co_table s) \<and> j < WT_CO_MAX"
  by (force simp: sched_core_def queued_runnable_def)

lemma queued_length:
  assumes "sched_core s" "queued_runnable s q"
  shows "length q < WT_CO_MAX"
proof -
  have "set q \<subseteq> {..<11}" using assms by (force simp: sched_core_def queued_runnable_def)
  then have "card (set q) \<le> 11" using card_mono [of "{..<11}" "set q"] by simp
  then show ?thesis
    using runq_distinct [of s q] distinct_card [of q] assms(2) by (simp add: queued_runnable_def)
qed

text \<open>Under the invariant the walk over the queue ends, and unlinks the coroutine if it is there.\<close>

lemma unlink_result:
  assumes "sched_core s" "queued_runnable s q"
  shows "\<exists>s'. runqueue_unlink s (Slot i) = Some s' \<and> runq s' (remove1 i q) \<and> run_frame s s'"
proof (cases "i \<in> set q")
  case False
  then show ?thesis
    using unlink_loop_walk(1) [of s "[]" q "Suc WT_CO_MAX" i] queued_length [OF assms] assms(2)
    by (simp add: runqueue_unlink_def link_before_def queued_runnable_def remove1_idem run_frame_refl)
next
  case True
  then obtain a b where q: "q = a @ i # b" "i \<notin> set a" by (meson split_list_first)
  have r: "runq s (a @ i # b)" using assms(2) q by (simp add: queued_runnable_def)
  have u: "runqueue_unlink s (Slot i) = unlink_node (Suc WT_CO_MAX) s (link_before a) (Slot i)"
    using unlink_loop_walk(2) [of s "[]" q "Suc WT_CO_MAX" a i b] queued_length [OF assms] q r
    by (simp add: runqueue_unlink_def link_before_def)
  have "\<exists>s'. unlink_node (Suc WT_CO_MAX) s (link_before a) (Slot i) = Some s' \<and> runq s' (a @ b)"
    by (rule runq_unlink_node [OF r]) (use queued_bounds [OF assms] queued_length [OF assms] q in auto)
  then show ?thesis using u unlink_node_frame q by (auto simp: remove1_append)
qed

lemma created_frame: "run_frame s s' \<Longrightarrow> created s' p = created s p"
  by (cases p) (simp_all add: run_frame_reads)

lemma core_frame: "sched_core s \<Longrightarrow> run_frame s s' \<Longrightarrow> sched_core s'"
  by (simp add: sched_core_def run_frame_reads created_frame)

lemma queued_frame: "queued_runnable s q \<Longrightarrow> run_frame s s' \<Longrightarrow> runq s' q' \<Longrightarrow> set q' \<subseteq> set q \<Longrightarrow> queued_runnable s' q'"
  by (auto simp: queued_runnable_def run_frame_reads created_frame)

lemma enqueue_result:
  assumes "sched_core s" "queued_runnable s q" "created s (Slot i)" "i \<notin> set q"
    and "co_state (co_of s (Slot i)) = WT_CO_RUNNABLE"
  shows "\<exists>s'. runqueue_enqueue s (Slot i) = Some s' \<and> queued_runnable s' (q @ [i]) \<and> run_frame s s'"
proof -
  obtain s' where s': "runqueue_enqueue s (Slot i) = Some s'" "runq s' (q @ [i])"
    using runq_enqueue [of s q i] queued_bounds [OF assms(1,2)] created_valid [OF assms(1,3)] assms(2,4)
    by (auto simp: queued_runnable_def)
  then have "run_frame s s'" using enqueue_frame_co by blast
  then show ?thesis using s' assms(2,3,5)
    by (auto simp: queued_runnable_def run_frame_reads created_frame)
qed

section \<open>Every step keeps it\<close>

lemma created_fields [simp]:
  "created (upd_co p f s) q = created s q"
  "created (s\<lparr>g_wt_co_current := c\<rparr>) q = created s q"
  "created (s\<lparr>g_wt_co_pendsv_target := v\<rparr>) q = created s q"
  by (cases q; simp)+

lemma core_upd:
  assumes "sched_core s" "\<And>c. co_state (f c) = WT_CO_RUNNING \<Longrightarrow> co_state c = WT_CO_RUNNING"
  shows "sched_core (upd_co p f s)"
proof -
  have "co_state (co_of s q) = WT_CO_RUNNING" if "co_state (co_of (upd_co p f s) q) = WT_CO_RUNNING" for q
    using that assms(2) by (cases "in_table s p") (auto simp: upd_co_beyond split: if_splits)
  then show ?thesis using assms(1) by (simp add: sched_core_def)
qed

lemma queued_upd:
  assumes "queued_runnable s q" "\<And>c. co_next_run (f c) = co_next_run c"
    and "\<And>i c. p = Slot i \<Longrightarrow> i \<in> set q \<Longrightarrow> co_state c = WT_CO_RUNNABLE \<Longrightarrow> co_state (f c) = WT_CO_RUNNABLE"
  shows "queued_runnable (upd_co p f s) q"
proof -
  have "co_state (co_of (upd_co p f s) (Slot i)) = WT_CO_RUNNABLE" if "i \<in> set q" for i
    using that assms(1,3) by (cases "in_table s p") (auto simp: upd_co_beyond queued_runnable_def)
  then show ?thesis using assms(1) runq_keep [of f, OF assms(2)] by (simp add: queued_runnable_def)
qed

lemma queued_fields [simp]:
  "queued_runnable (s\<lparr>g_wt_co_current := c\<rparr>) q = queued_runnable s q"
  "queued_runnable (s\<lparr>g_wt_co_pendsv_target := v\<rparr>) q = queued_runnable s q"
  by (simp_all add: queued_runnable_def)

lemma core_fields [simp]:
  "sched_core (s\<lparr>g_wt_co_pendsv_target := v\<rparr>) = sched_core s"
  by (simp add: sched_core_def)

lemma leave_current_reads [simp]:
  "co_of (leave_current p s) q = co_of s q"
  "p \<noteq> Bootstrap \<Longrightarrow> g_wt_co_current (leave_current p s) \<noteq> Some p"
  "in_table (leave_current p s) q = in_table s q"
  "length (g_co_table (leave_current p s)) = length (g_co_table s)"
  "created (leave_current p s) q = created s q"
  by (simp_all add: leave_current_def)

lemma core_leave:
  "sched_core s \<Longrightarrow> co_state (co_of s p) \<noteq> WT_CO_RUNNING \<Longrightarrow> sched_core (leave_current p s)"
  by (auto simp: sched_core_def leave_current_def)

lemma queued_leave [simp]: "queued_runnable (leave_current p s) q = queued_runnable s q"
  by (simp add: leave_current_def)

lemma wake_result:
  assumes c: "sched_core s" and q: "queued_runnable s q" and p: "created s (Slot i)"
  shows "\<exists>s'. wt_co_wake s (Some (Slot i)) = Some s' \<and> sched_core s' \<and>
     queued_runnable s' (if co_state (co_of s (Slot i)) = WT_CO_BLOCKED then q @ [i] else q) \<and>
     (co_state (co_of s (Slot i)) = WT_CO_BLOCKED \<longrightarrow> co_state (co_of s' (Slot i)) = WT_CO_RUNNABLE) \<and>
     (co_state (co_of s (Slot i)) = WT_CO_FAULTED \<longrightarrow> s' = s) \<and>
     (co_state (co_of s (Slot i)) \<in> {WT_CO_RUNNABLE, WT_CO_RUNNING} \<longrightarrow> wt_co_wake_pending s' (Some (Slot i)))"
proof -
  note v = created_valid [OF c p]
  show ?thesis
  proof (cases "co_state (co_of s (Slot i)) = WT_CO_BLOCKED")
    case True
    let ?s1 = "upd_co (Slot i) (\<lambda>c. c\<lparr>co_wake_pending := False, co_state := WT_CO_RUNNABLE\<rparr>) s"
    have c1: "sched_core ?s1" by (rule core_upd [OF c]) simp
    have ni: "i \<notin> set q" using q True by (auto simp: queued_runnable_def)
    then have q1: "queued_runnable ?s1 q" by (intro queued_upd [OF q]) auto
    obtain s' where s': "runqueue_enqueue ?s1 (Slot i) = Some s'" "queued_runnable s' (q @ [i])" "run_frame ?s1 s'"
      using enqueue_result [OF c1 q1 _ ni] p v by auto
    then show ?thesis using True v core_frame [OF c1] by (auto simp: wt_co_wake_def run_frame_reads)
  next
    case False
    have "sched_core (upd_co (Slot i) (\<lambda>c. c\<lparr>co_wake_pending := True\<rparr>) s)" by (rule core_upd [OF c]) simp
    moreover have "queued_runnable (upd_co (Slot i) (\<lambda>c. c\<lparr>co_wake_pending := True\<rparr>) s) q"
      by (rule queued_upd [OF q]) auto
    ultimately show ?thesis using False v c q
      by (cases "co_state (co_of s (Slot i))") (auto simp: wt_co_wake_def wt_co_wake_pending_def)
  qed
qed

lemma faulted_result:
  assumes c: "sched_core s" and q: "queued_runnable s q" and p: "created s (Slot i)"
  shows "\<exists>s'. wt_co_mark_faulted s (Some (Slot i)) = Some s' \<and> sched_core s' \<and>
     queued_runnable s' (remove1 i q) \<and> co_state (co_of s' (Slot i)) = WT_CO_FAULTED \<and>
     g_wt_co_current s' \<noteq> Some (Slot i)"
proof -
  obtain s1 where s1: "runqueue_unlink s (Slot i) = Some s1" "runq s1 (remove1 i q)" "run_frame s s1"
    using unlink_result [OF c q] by blast
  let ?s2 = "upd_co (Slot i) (\<lambda>c. c\<lparr>co_state := WT_CO_FAULTED\<rparr>) s1"
  have c1: "sched_core s1" by (rule core_frame [OF c s1(3)])
  have q1: "queued_runnable s1 (remove1 i q)" by (rule queued_frame [OF q s1(3,2) set_remove1_subset])
  have "i \<notin> set (remove1 i q)" using runq_distinct [of s q] q by (simp add: queued_runnable_def)
  then have q2: "queued_runnable ?s2 (remove1 i q)" by (intro queued_upd [OF q1]) auto
  have c2: "sched_core ?s2" by (rule core_upd [OF c1]) simp
  have st: "co_state (co_of ?s2 (Slot i)) = WT_CO_FAULTED" using created_valid [OF c p] s1(3) by (simp add: run_frame_reads)
  then show ?thesis using s1(1) core_leave [OF c2, of "Slot i"] q2
    by (auto simp: wt_co_mark_faulted_def)
qed

lemma init_stack_sched:
  "wt_co_arch_init_stack port mem s p entry arg = (mem', s') \<Longrightarrow>
     s' = upd_co p (\<lambda>c. c\<lparr>co_sp := stack_top (co_of s p) - 72, co_exc_return := WT_EXC_RETURN_S_THREAD_PSP\<rparr>) s"
  by (auto simp: wt_co_arch_init_stack_def Let_def)

lemma runq_other:
  assumes "i \<notin> set q"
  shows "runq (upd_co (Slot i) f s) q = runq s q"
proof -
  have "nxr (upd_co (Slot i) f s) x = nxr s x" if x: "x \<in> set (map (Some \<circ> Slot) q)" for x
  proof -
    obtain j where "x = Some (Slot j)" "j \<in> set q" using x by auto
    moreover from this assms have "Slot j \<noteq> Slot i" by auto
    ultimately show ?thesis by (simp add: nxr_at co_of_upd_other)
  qed
  then show ?thesis
    using threaded_cong [of "map (Some \<circ> Slot) q" "nxr (upd_co (Slot i) f s)" "nxr s"] by (simp add: runq_def)
qed

lemma queued_other:
  assumes "i \<notin> set q"
  shows "queued_runnable (upd_co (Slot i) f s) q = queued_runnable s q"
proof -
  have "co_of (upd_co (Slot i) f s) (Slot j) = co_of s (Slot j)" if "j \<in> set q" for j
    using that assms by (intro co_of_upd_other) auto
  then show ?thesis using assms by (simp add: queued_runnable_def runq_other)
qed

lemma reinit_result:
  assumes c: "sched_core s" and q: "queued_runnable s q" and p: "created s (Slot i)"
  shows "\<exists>mem' s' r. wt_co_reinit port mem s (Some (Slot i)) entry arg = Some (mem', s', r) \<and>
     (r = 0 \<longrightarrow> sched_core s' \<and> queued_runnable s' (remove1 i q) \<and>
        co_state (co_of s' (Slot i)) = WT_CO_BLOCKED \<and> g_wt_co_current s' \<noteq> Some (Slot i) \<and>
        co_domain (co_of s' (Slot i)) = co_domain (co_of s (Slot i)) \<and>
        co_unprivileged (co_of s' (Slot i)) = co_unprivileged (co_of s (Slot i))) \<and>
     (r \<noteq> 0 \<longrightarrow> s' = s)"
proof (cases "entry = 0 \<or> co_stack_base (co_of s (Slot i)) = 0")
  case True
  then show ?thesis by (simp add: wt_co_reinit_def)
next
  case False
  note v = created_valid [OF c p]
  obtain s1 where s1: "runqueue_unlink s (Slot i) = Some s1" "runq s1 (remove1 i q)" "run_frame s s1"
    using unlink_result [OF c q] by blast
  have ni: "i \<notin> set (remove1 i q)" using runq_distinct [of s q] q by (simp add: queued_runnable_def)
  have q1: "queued_runnable s1 (remove1 i q)" by (rule queued_frame [OF q s1(3,2) set_remove1_subset])
  let ?f = "\<lambda>c. c\<lparr>co_sp := 0, co_entry := entry, co_arg := arg, co_state := WT_CO_BLOCKED,
      co_next_run := None, co_next_wait := None, co_wake_pending := False\<rparr>"
  let ?s2 = "upd_co (Slot i) ?f (leave_current (Slot i) s1)"
  obtain mem' s3 where m: "wt_co_arch_init_stack port
      (store_word mem (co_stack_base (co_of ?s2 (Slot i))) WT_CO_STACK_CANARY) ?s2 (Slot i) entry arg = (mem', s3)"
    by (metis surj_pair)
  note s3 = init_stack_sched [OF m]
  have eq: "leave_current (Slot i) (upd_co (Slot i) ?f s1) = ?s2" by (simp add: leave_current_def)
  have it: "in_table s1 (Slot i)" using v s1(3) by (simp add: run_frame_reads)
  have "sched_core (upd_co (Slot i) ?f s1)" by (rule core_upd [OF core_frame [OF c s1(3)]]) simp
  then have "sched_core ?s2"
    unfolding eq [symmetric] by (rule core_leave) (use it in simp)
  then have "sched_core s3" unfolding s3 by (rule core_upd) simp
  moreover have "queued_runnable s3 (remove1 i q)" unfolding s3 using q1 ni by (simp add: queued_other)
  moreover have "wt_co_reinit port mem s (Some (Slot i)) entry arg = Some (mem', s3, 0)"
    using False v s1(1) m by (simp add: wt_co_reinit_def Let_def)
  moreover have "co_state (co_of s3 (Slot i)) = WT_CO_BLOCKED \<and> g_wt_co_current s3 \<noteq> Some (Slot i) \<and>
        co_domain (co_of s3 (Slot i)) = co_domain (co_of s (Slot i)) \<and>
        co_unprivileged (co_of s3 (Slot i)) = co_unprivileged (co_of s (Slot i))"
    unfolding s3 using it s1(3) by (simp add: run_frame_reads)
  ultimately show ?thesis by auto
qed

lemma core_created:
  assumes "sched_core s" "g_co_count s < WT_CO_MAX"
  shows "sched_core (s\<lparr>g_co_count := g_co_count s + 1\<rparr>)"
proof -
  have "created (s\<lparr>g_co_count := g_co_count s + 1\<rparr>) p" if "created s p" for p using that by (cases p) auto
  then show ?thesis using assms by (auto simp: sched_core_def)
qed

lemma create_result:
  assumes c: "sched_core s" and q: "queued_runnable s q" and st: "st = WT_CO_RUNNABLE \<or> st = WT_CO_BLOCKED"
  shows "\<exists>mem' s' r q'. wt_co_create_common port mem s stack sz entry arg st mn pr = Some (mem', s', r) \<and>
     sched_core s' \<and> queued_runnable s' q'"
proof (cases "entry = 0 \<or> stack = 0 \<or> sz < mn \<or> sz < WT_CO_STACK_MIN \<or> stack AND 7 \<noteq> 0 \<or>
      g_co_count s \<ge> WT_CO_MAX \<or> (pr \<and> \<not> cp_priv_stack_ok port stack sz)")
  case True
  then show ?thesis using c q by (auto simp: wt_co_create_common_def)
next
  case False
  define i where "i = g_co_count s - 1"
  have i: "g_co_count s = Suc i" using c by (simp add: i_def sched_core_def)
  let ?s0 = "s\<lparr>g_co_count := g_co_count s + 1\<rparr>"
  let ?f = "\<lambda>c. c\<lparr>co_id := g_co_count s, co_stack_base := stack, co_stack_size := sz, co_entry := entry,
      co_arg := arg, co_state := st, co_next_run := None, co_next_wait := None, co_domain := None,
      co_unprivileged := False\<rparr>"
  obtain mem' s2 where m: "wt_co_arch_init_stack port (store_word mem stack WT_CO_STACK_CANARY)
      (upd_co (Slot i) ?f ?s0) (Slot i) entry arg = (mem', s2)"
    by (metis surj_pair)
  note s2 = init_stack_sched [OF m]
  have ni: "i \<notin> set q" using q i by (auto simp: queued_runnable_def)
  have "queued_runnable ?s0 q" using q by (force simp: queued_runnable_def)
  then have q2: "queued_runnable s2 q" unfolding s2 using ni by (simp add: queued_other del: upd_co_commute)
  have "sched_core (upd_co (Slot i) ?f ?s0)"
    by (rule core_upd [OF core_created [OF c]]) (use False st in auto)
  then have c2: "sched_core s2" unfolding s2 by (rule core_upd) simp
  have cr: "created s2 (Slot i)" "co_state (co_of s2 (Slot i)) = st"
    unfolding s2 using i c False by (auto simp: sched_core_def)
  have eq: "wt_co_create_common port mem s stack sz entry arg st mn pr =
      (if st = WT_CO_RUNNABLE then map_option (\<lambda>s3. (mem', s3, Some (Slot i))) (runqueue_enqueue s2 (Slot i))
       else Some (mem', s2, Some (Slot i)))"
    unfolding wt_co_create_common_def if_not_P [OF False] Let_def i_def [symmetric] m prod.case by (rule refl)
  show ?thesis
  proof (cases "st = WT_CO_RUNNABLE")
    case True
    then obtain s3 where "runqueue_enqueue s2 (Slot i) = Some s3" "queued_runnable s3 (q @ [i])" "run_frame s2 s3"
      using enqueue_result [OF c2 q2 cr(1) ni] cr(2) by auto
    then show ?thesis using eq True core_frame [OF c2] by auto
  next
    case False
    then show ?thesis using eq c2 q2 by auto
  qed
qed

lemma core_switch_in:
  assumes "sched_core s" "g_wt_co_current s = Some Bootstrap" "created s (Slot i)"
  shows "sched_core (switch_in (Slot i) s)"
proof -
  have "in_table s (Slot i)" using created_valid [OF assms(1,3)] by blast
  then show ?thesis using assms by (auto simp: sched_core_def switch_in_def split: if_splits)
qed

lemma switch_in_result:
  assumes c: "sched_core s" and q: "queued_runnable s q" and b: "g_wt_co_current s = Some Bootstrap"
    and p: "created s (Slot i)" and f: "run_frame s s1" and r: "runq s1 (remove1 i q)"
  shows "sched_core (switch_in (Slot i) s1) \<and> queued_runnable (switch_in (Slot i) s1) (remove1 i q)"
proof -
  have "i \<notin> set (remove1 i q)" using runq_distinct [of s q] q by (simp add: queued_runnable_def)
  moreover have "queued_runnable s1 (remove1 i q)" by (rule queued_frame [OF q f r set_remove1_subset])
  moreover have "sched_core (switch_in (Slot i) s1)"
    by (rule core_switch_in [OF core_frame [OF c f]]) (use b p f in \<open>simp_all add: run_frame_reads created_frame\<close>)
  ultimately show ?thesis by (simp add: switch_in_def queued_other)
qed

lemma dequeue_result:
  assumes c: "sched_core s" and q: "queued_runnable s q" and d: "runqueue_dequeue s = (s1, Some p)"
  shows "\<exists>i. q = i # tl q \<and> p = Slot i \<and> runq s1 (remove1 i q) \<and> run_frame s s1 \<and> created s (Slot i)"
proof (cases q)
  case Nil
  then show ?thesis using runq_dequeue(1) [of s q] q d by (simp add: queued_runnable_def)
next
  case (Cons i q')
  have "runq s q" using q by (simp add: queued_runnable_def)
  with Cons show ?thesis
    using runq_dequeue(2) [of s q i q'] queued_bounds [OF c q] d dequeue_frame_co [of s] q
    by (auto simp: queued_runnable_def)
qed

lemma created_Slot: "created s p \<Longrightarrow> \<exists>i. p = Slot i"
  by (cases p) auto

lemma sched_step_inv:
  assumes "sched_step s s'" "sched_inv s"
  shows "sched_inv s'"
proof -
  from assms(2) obtain q where c: "sched_core s" and q: "queued_runnable s q" by (auto simp: sched_inv_def)
  from assms(1) show ?thesis
  proof cases
    case (create port mem stack sz entry arg st mn pr mem' r)
    then show ?thesis using create_result [OF c q, of st port mem stack sz entry arg mn pr] by (auto simp: sched_inv_def)
  next
    case (set_domain p d u)
    then have s': "s' = upd_co p (\<lambda>c. c\<lparr>co_domain := d, co_unprivileged := u\<rparr>) s"
      by (auto simp: wt_co_set_domain_def split: if_splits)
    have "sched_core s'" unfolding s' by (rule core_upd [OF c]) simp
    moreover have "queued_runnable s' q" unfolding s' by (rule queued_upd [OF q]) auto
    ultimately show ?thesis by (auto simp: sched_inv_def)
  next
    case (block p)
    then have s': "s' = (upd_co p (\<lambda>c. c\<lparr>co_state := WT_CO_BLOCKED\<rparr>) s)\<lparr>g_wt_co_pendsv_target := None\<rparr>"
      by (auto simp: wt_co_block_def split: if_splits)
    have "sched_core (upd_co p (\<lambda>c. c\<lparr>co_state := WT_CO_BLOCKED\<rparr>) s)" by (rule core_upd [OF c]) simp
    moreover have "queued_runnable (upd_co p (\<lambda>c. c\<lparr>co_state := WT_CO_BLOCKED\<rparr>) s) q"
      using q block by (intro queued_upd [OF q]) (auto simp: queued_runnable_def)
    ultimately show ?thesis by (auto simp: sched_inv_def s')
  next
    case (preempt b)
    then consider "s' = s" | p where "g_wt_co_current s = Some p"
        "s' = (upd_co p (\<lambda>c. c\<lparr>co_state := WT_CO_RUNNABLE\<rparr>) s)\<lparr>g_wt_co_pendsv_target := None\<rparr>"
      by (auto simp: wt_co_request_preempt_def split: option.splits if_splits)
    then show ?thesis
    proof cases
      case 2
      have "sched_core (upd_co p (\<lambda>c. c\<lparr>co_state := WT_CO_RUNNABLE\<rparr>) s)" by (rule core_upd [OF c]) simp
      moreover have "queued_runnable (upd_co p (\<lambda>c. c\<lparr>co_state := WT_CO_RUNNABLE\<rparr>) s) q"
        by (rule queued_upd [OF q]) auto
      ultimately show ?thesis by (auto simp: sched_inv_def 2)
    qed (use assms(2) in simp)
  next
    case (wake p)
    then obtain i where i: "p = Slot i" using created_Slot by blast
    obtain t q' where "wt_co_wake s (Some (Slot i)) = Some t" "sched_core t" "queued_runnable t q'"
      using wake_result [OF c q, of i] wake(1) i by blast
    then show ?thesis using wake(2) i by (auto simp: sched_inv_def)
  next
    case (mark_faulted p)
    then obtain i where i: "p = Slot i" using created_Slot by blast
    then show ?thesis using faulted_result [OF c q, of i] mark_faulted by (auto simp: sched_inv_def)
  next
    case (reinit p port mem entry arg mem' r)
    then obtain i where i: "p = Slot i" using created_Slot by blast
    then show ?thesis using reinit_result [OF c q, of i port mem entry arg] reinit assms(2)
      by (cases "r = 0") (auto simp: sched_inv_def)
  next
    case (run p s1)
    then obtain i where i: "p = Slot i" using created_Slot by blast
    then show ?thesis using unlink_result [OF c q, of i] switch_in_result [OF c q run(2), of i s1] run
      by (auto simp: sched_inv_def)
  next
    case (tick s1 p)
    then obtain i where i: "p = Slot i" "runq s1 (remove1 i q)" "run_frame s s1" "created s (Slot i)"
      using dequeue_result [OF c q] by blast
    then show ?thesis using switch_in_result [OF c q tick(2) i(4,3,2)] tick by (auto simp: sched_inv_def)
  next
    case (switch_back p sp exc)
    let ?s1 = "upd_co p (\<lambda>c. c\<lparr>co_sp := sp, co_exc_return := exc\<rparr>) s"
    have c1: "sched_core ?s1" by (rule core_upd [OF c]) simp
    have "in_table s p" using switch_back c created_valid(2) [OF c, of p] by (auto simp: sched_core_def)
    then have "sched_core (leave_current p ?s1)" by (intro core_leave [OF c1]) (use switch_back in simp)
    moreover have "queued_runnable ?s1 q" by (rule queued_upd [OF q]) auto
    ultimately show ?thesis using switch_back
      by (auto simp: sched_inv_def switch_back_def leave_current_def)
  qed
qed

lemma sched_started_inv: "sched_started s \<Longrightarrow> sched_inv s"
proof -
  assume "sched_started s"
  then obtain s0 where s0: "length (g_co_table s0) = WT_CO_MAX" "s = wt_co_init s0"
    by (auto simp: sched_started_def)
  have "runq s []" by (simp add: s0 wt_co_init_def runq_def threaded_def)
  then have "queued_runnable s []" by (simp add: queued_runnable_def)
  moreover have "sched_core s" using s0 by (auto simp: sched_core_def wt_co_init_def init_co_def co_of.simps)
  ultimately show ?thesis by (auto simp: sched_inv_def)
qed

interpretation sched_machine: invariant_system sched_started sched_step sched_inv
  by unfold_locales (auto intro: sched_started_inv sched_step_inv)

section \<open>What every reachable scheduler guarantees\<close>


end
