(* ===== verification/Co_Stack.thy ===== *)
theory Co_Stack
  imports Scheduler
begin

text \<open>
  The stack of a new coroutine: creation and restart write inside the stack they are given
  and nowhere else, plant the canary at its bottom and the two seal words at its top, and
  leave a frame below the seal from which the first switch enters the coroutine.
\<close>

lemma align_down: "unat (x AND NOT 7 :: u32) = unat x - unat x mod 8"
proof -
  have "(7 :: u32) = mask 3" by (simp add: mask_eq_exp_minus_1)
  moreover have "x AND NOT (mask 3) = push_bit 3 (drop_bit 3 x)"
    by (rule bit_word_eqI) (auto simp: bit_simps)
  ultimately have "x AND NOT 7 = push_bit 3 (drop_bit 3 x)" by simp
  moreover have "unat (push_bit 3 (drop_bit 3 x)) = unat x div 8 * 8"
    using unat_u32_less [of x] by (simp add: push_bit_eq_mult unat_word_ariths unat_drop_bit_eq drop_bit_eq_div)
  ultimately show ?thesis by (simp add: minus_mod_eq_div_mult)
qed

lemma aligned_mod: "x AND 7 = (0 :: u32) \<longleftrightarrow> unat x mod 8 = 0"
proof -
  have "x AND 7 = take_bit 3 x" by (simp add: take_bit_eq_mask mask_eq_exp_minus_1)
  moreover have "unat (take_bit 3 x) = unat x mod 8" 
    by (simp only: unsigned_take_bit_eq) (simp add: take_bit_eq_mod)
  ultimately show ?thesis using word_unat_eq_iff [of "take_bit 3 x" 0] by simp
qed

lemma frame_length: "length (initial_frame t e a) = 18"
  by (simp add: initial_frame_def)

lemma frame_words:
  "initial_frame t e a ! 0 = e" "initial_frame t e a ! 8 = a" "initial_frame t e a ! 14 = t"
  "initial_frame t e a ! 16 = WT_ARMV8M_STACK_SEAL" "initial_frame t e a ! 17 = WT_ARMV8M_STACK_SEAL"
  by (simp_all add: initial_frame_def nth_append nth_Cons')

text \<open>Where the frame of \<open>wt_co_arch_init_stack\<close> lies, for a stack of at least the minimal size.\<close>

lemma frame_place:
  assumes "unat b + unat n < 2 ^ 32" "WT_CO_STACK_MIN \<le> n" "b AND 7 = 0"
  defines "tp \<equiv> (b + n) AND NOT (7 :: u32)"
  shows "unat (tp - 72) = unat tp - 72" "unat b + 40 \<le> unat (tp - 72)" "unat tp \<le> unat b + unat n"
    "unat tp mod 8 = 0"
proof -
  have n: "1024 \<le> unat n" using assms(2) by (simp add: word_le_nat_alt)
  have t: "unat tp = unat b + unat n - (unat b + unat n) mod 8"
    using assms(1) unfolding tp_def align_down by (simp add: unat_add_exact)
  have r: "(unat b + unat n) mod 8 < 8" by simp
  then have "72 \<le> tp" using t n by (simp add: word_le_nat_alt)
  then show s: "unat (tp - 72) = unat tp - 72" by (simp add: unat_sub)
  show "unat b + 40 \<le> unat (tp - 72)" unfolding s using t n r by linarith
  show "unat tp \<le> unat b + unat n" "unat tp mod 8 = 0" using t by (simp_all add: minus_mod_eq_div_mult)
qed

lemma init_stack_memory:
  assumes fits: "unat (co_stack_base (co_of s p)) + unat (co_stack_size (co_of s p)) < 2 ^ 32"
      "WT_CO_STACK_MIN \<le> co_stack_size (co_of s p)" "co_stack_base (co_of s p) AND 7 = 0"
    and init: "wt_co_arch_init_stack port (store_word mem (co_stack_base (co_of s p)) WT_CO_STACK_CANARY) s p entry arg =
      (mem', s')"
  defines "b \<equiv> co_stack_base (co_of s p)" and "n \<equiv> co_stack_size (co_of s p)"
    and "fr \<equiv> stack_top (co_of s p) - 72"
  shows "\<not> in_range a b (unat n) \<Longrightarrow> mem' a = mem a" "load_word mem' b = WT_CO_STACK_CANARY"
    and "k < 18 \<Longrightarrow> load_word mem' (fr + of_nat (4 * k)) = initial_frame (cp_trampoline port) entry arg ! k"
proof -
  let ?ws = "initial_frame (cp_trampoline port) entry arg"
  have m: "mem' = mem_write (store_word mem b WT_CO_STACK_CANARY) fr (concat (map word_bytes ?ws))"
    using init by (auto simp: wt_co_arch_init_stack_def Let_def b_def fr_def)
  have pl: "unat fr = unat (stack_top (co_of s p)) - 72" "unat b + 40 \<le> unat fr"
      "unat (stack_top (co_of s p)) \<le> unat b + unat n"
    using frame_place [OF fits] by (simp_all add: stack_top_def b_def n_def fr_def)
  have bn: "unat b + unat n < 2 ^ 32" "1024 \<le> unat n" using fits by (simp_all add: b_def n_def word_le_nat_alt)
  have fr: "in_range a fr 72 \<longleftrightarrow> unat fr \<le> unat a \<and> unat a < unat fr + 72" for a
    by (rule in_range_unat) (use pl bn in linarith)
  have b4: "in_range a b 4 \<longleftrightarrow> unat b \<le> unat a \<and> unat a < unat b + 4" for a
    by (rule in_range_unat) (use bn in linarith)
  have out: "mem' a = store_word mem b WT_CO_STACK_CANARY a" if "\<not> in_range a fr 72" for a
    unfolding m by (rule mem_write_outside) (use that in \<open>simp add: frame_length\<close>)
  show "mem' a = mem a" if "\<not> in_range a b (unat n)" for a
  proof -
    have na: "\<not> (unat b \<le> unat a \<and> unat a < unat b + unat n)" using that in_range_unat [of b "unat n" a] bn by simp
    have "\<not> in_range a fr 72" unfolding fr using na pl by linarith
    moreover have "\<not> in_range a b 4" unfolding b4 using na bn by linarith
    ultimately show ?thesis by (simp add: out store_word_outside)
  qed
  have "load_word mem' b = load_word (store_word mem b WT_CO_STACK_CANARY) b"
    by (rule load_word_outside, rule out) (use fr b4 pl in auto)
  then show "load_word mem' b = WT_CO_STACK_CANARY" by simp
  show "k < 18 \<Longrightarrow> load_word mem' (fr + of_nat (4 * k)) = ?ws ! k"
    unfolding m by (rule load_written_word) (simp_all add: frame_length)
qed

text \<open>
  C34: A coroutine that is created gets a stack it does not leave. Creation writes no byte
  outside the stack buffer, plants the canary at its bottom, and builds an aligned frame
  under two seal words at its top, with the entry point and the trampoline in it and at least
  forty bytes between it and the bottom. The coroutine then passes the canary check every
  switch performs.
\<close>

theorem wt_co_create_stack:
  assumes "wt_co_create_common port mem s stack sz entry arg st mn pr = Some (mem', s', Some co)"
    and "length (g_co_table s) = WT_CO_MAX" "1 \<le> g_co_count s" "unat stack + unat sz < 2 ^ 32"
  shows "(\<forall>a. \<not> in_range a stack (unat sz) \<longrightarrow> mem' a = mem a) \<and> check_canary mem' s' (Some co) \<and>
     unat (co_sp (co_of s' co)) mod 8 = 0 \<and> unat stack + 40 \<le> unat (co_sp (co_of s' co)) \<and>
     unat (co_sp (co_of s' co)) + 72 \<le> unat stack + unat sz \<and>
     load_word mem' (co_sp (co_of s' co)) = entry \<and> load_word mem' (co_sp (co_of s' co) + 32) = arg \<and>
     load_word mem' (co_sp (co_of s' co) + 56) = cp_trampoline port \<and>
     load_word mem' (co_sp (co_of s' co) + 64) = WT_ARMV8M_STACK_SEAL \<and>
     load_word mem' (co_sp (co_of s' co) + 68) = WT_ARMV8M_STACK_SEAL"
proof -
  let ?i = "g_co_count s - 1"
  let ?s1 = "upd_co (Slot ?i) (\<lambda>c. c\<lparr>co_id := g_co_count s, co_stack_base := stack, co_stack_size := sz,
      co_entry := entry, co_arg := arg, co_state := st, co_next_run := None, co_next_wait := None,
      co_domain := None, co_unprivileged := False\<rparr>) (s\<lparr>g_co_count := g_co_count s + 1\<rparr>)"
  have g: "\<not> (entry = 0 \<or> stack = 0 \<or> sz < mn \<or> sz < WT_CO_STACK_MIN \<or> stack AND 7 \<noteq> 0 \<or>
      g_co_count s \<ge> WT_CO_MAX \<or> (pr \<and> \<not> cp_priv_stack_ok port stack sz))"
  proof
    assume bad: "entry = 0 \<or> stack = 0 \<or> sz < mn \<or> sz < WT_CO_STACK_MIN \<or> stack AND 7 \<noteq> 0 \<or>
      g_co_count s \<ge> WT_CO_MAX \<or> (pr \<and> \<not> cp_priv_stack_ok port stack sz)"
    show False using assms(1) unfolding wt_co_create_common_def if_P [OF bad] by simp
  qed
  obtain s2 where i: "wt_co_arch_init_stack port (store_word mem stack WT_CO_STACK_CANARY) ?s1 (Slot ?i) entry arg =
        (mem', s2)" and co: "co = Slot ?i" and f: "run_frame s2 s'"
    using assms(1) unfolding wt_co_create_common_def if_not_P [OF g] Let_def
    by (auto split: prod.splits if_splits intro: enqueue_frame_co run_frame_refl)
  have t1: "in_table s (Slot ?i)" using assms(2,3) g by auto
  then have b: "co_stack_base (co_of ?s1 (Slot ?i)) = stack" "co_stack_size (co_of ?s1 (Slot ?i)) = sz" by simp_all
  have sz: "WT_CO_STACK_MIN \<le> sz" "stack AND 7 = 0" using g by auto
  note mem = init_stack_memory [of ?s1 "Slot ?i", unfolded b, OF assms(4) sz i]
  note s2 = init_stack_sched [OF i]
  have sp: "co_sp (co_of s2 co) = stack_top (co_of ?s1 (Slot ?i)) - 72" "co_stack_base (co_of s2 co) = stack"
    unfolding s2 co using t1 by simp_all
  have sp': "co_sp (co_of s' co) = co_sp (co_of s2 co)" using f unfolding run_frame_def
    by (metis (no_types, lifting) wt_co.select_convs(1) wt_co.surjective wt_co.update_convs(8))
  have tp: "stack_top (co_of ?s1 (Slot ?i)) = (stack + sz) AND NOT 7" unfolding stack_top_def b by (rule refl)
  note pl = frame_place [OF assms(4) sz, folded tp]
  have al: "unat (co_sp (co_of s' co)) mod 8 = 0"
  proof -
    have "72 \<le> unat (stack_top (co_of ?s1 (Slot ?i)))" using pl by linarith
    then show ?thesis unfolding sp' sp pl(1) using pl(4) by presburger
  qed
  have ld: "load_word mem' (co_sp (co_of s' co) + of_nat (4 * k)) = initial_frame (cp_trampoline port) entry arg ! k"
    if "k < 18" for k
    using mem(3) [OF that] by (simp only: sp' sp)
  have "unat stack + 40 \<le> unat (co_sp (co_of s' co))" "unat (co_sp (co_of s' co)) + 72 \<le> unat stack + unat sz"
    unfolding sp' sp(1) using pl by linarith+
  moreover have "check_canary mem' s' (Some co)"
    using mem(2) sp(2) f by (simp add: check_canary_def run_frame_reads)
  ultimately show ?thesis
    using mem(1) al ld [of 0] ld [of 8] ld [of 14] ld [of 16] ld [of 17] by (simp add: frame_words)
qed

end
