(* ===== verification/Mutex.thy ===== *)
theory Mutex
  imports Scheduler
begin

text \<open>
  The sleep mutex of \<open>src/sync/mutex.c\<close>, with the fault cleanup \<open>wt_hsm_release_locks\<close> of
  \<open>src/services/nvm_boot.c\<close>. The waiters form a list threaded through the \<open>next_wait\<close> fields
  of the coroutines, so the operations work on the mutex and on the scheduler. \<open>None\<close> stands
  for a panic or for a walk that does not end. \<open>wt_mutex_acquire\<close> suspends its caller in the
  middle: what precedes the first block and what follows each resumption are two definitions.
\<close>

section \<open>Operations\<close>

record wt_mutex =
  mx_holder :: "co_ptr option"
  mx_wait_head :: "co_ptr option"
  mx_wait_tail :: "co_ptr option"
  mx_acquire_count :: u32
  mx_contend_count :: u32

type_synonym mutex_state = "wt_mutex \<times> co_sched"

definition wt_mutex_init :: "wt_mutex \<Rightarrow> wt_mutex" where
  "wt_mutex_init m = m\<lparr>mx_holder := None, mx_wait_head := None, mx_wait_tail := None,
     mx_acquire_count := 0, mx_contend_count := 0\<rparr>"

definition mutex_enqueue :: "wt_mutex \<Rightarrow> co_sched \<Rightarrow> co_ptr \<Rightarrow> mutex_state" where
  "mutex_enqueue m s self =
     (let m1 = m\<lparr>mx_contend_count := mx_contend_count m + 1\<rparr>;
          s1 = upd_co self (\<lambda>c. c\<lparr>co_next_wait := None\<rparr>) s in
      case mx_wait_head m1 of
        None \<Rightarrow> (m1\<lparr>mx_wait_head := Some self, mx_wait_tail := Some self\<rparr>, s1)
      | Some _ \<Rightarrow>
         (m1\<lparr>mx_wait_tail := Some self\<rparr>,
          case mx_wait_tail m1 of
            None \<Rightarrow> s1 | Some t \<Rightarrow> upd_co t (\<lambda>c. c\<lparr>co_next_wait := Some self\<rparr>) s1))"

datatype acquire_result = Returned int | Suspended

definition wt_mutex_acquire :: "wt_mutex \<Rightarrow> co_sched \<Rightarrow> (mutex_state \<times> acquire_result) option" where
  "wt_mutex_acquire m s =
     (case wt_co_current s of
        None \<Rightarrow> Some ((m, s), Returned (- 1))
      | Some self \<Rightarrow>
         (if mx_holder m = None
          then Some ((m\<lparr>mx_holder := Some self, mx_acquire_count := mx_acquire_count m + 1\<rparr>, s), Returned 0)
          else case mutex_enqueue m s self of (m1, s1) \<Rightarrow>
            map_option (\<lambda>s2. ((m1, s2), Suspended)) (wt_co_block s1)))"

definition wt_mutex_acquire_resumed ::
  "wt_mutex \<Rightarrow> co_sched \<Rightarrow> co_ptr \<Rightarrow> (mutex_state \<times> acquire_result) option" where
  "wt_mutex_acquire_resumed m s self =
     (if mx_holder m \<noteq> Some self then map_option (\<lambda>s1. ((m, s1), Suspended)) (wt_co_block s)
      else Some ((m\<lparr>mx_acquire_count := mx_acquire_count m + 1\<rparr>, s), Returned 0))"

definition mutex_hand_over :: "wt_mutex \<Rightarrow> co_sched \<Rightarrow> mutex_state option" where
  "mutex_hand_over m s =
     (case mx_wait_head m of
        None \<Rightarrow> Some (m\<lparr>mx_holder := None\<rparr>, s)
      | Some nxt \<Rightarrow>
         (let h = co_next_wait (co_of s nxt);
              m1 = m\<lparr>mx_wait_head := h, mx_wait_tail := (if h = None then None else mx_wait_tail m),
                     mx_holder := Some nxt\<rparr> in
          map_option (Pair m1) (wt_co_wake (upd_co nxt (\<lambda>c. c\<lparr>co_next_wait := None\<rparr>) s) (Some nxt))))"

definition wt_mutex_release :: "wt_mutex \<Rightarrow> co_sched \<Rightarrow> (mutex_state \<times> int) option" where
  "wt_mutex_release m s =
     (if mx_holder m \<noteq> wt_co_current s then Some ((m, s), - 1)
      else map_option (\<lambda>ms. (ms, 0)) (mutex_hand_over m s))"

definition wt_mutex_try_acquire :: "wt_mutex \<Rightarrow> co_sched \<Rightarrow> wt_mutex \<times> bool" where
  "wt_mutex_try_acquire m s =
     (if mx_holder m \<noteq> None then (m, False)
      else (m\<lparr>mx_holder := wt_co_current s, mx_acquire_count := mx_acquire_count m + 1\<rparr>, True))"

definition wt_mutex_holder :: "wt_mutex \<Rightarrow> co_ptr option" where
  "wt_mutex_holder m = mx_holder m"

text \<open>The search for a waiter, whether \<open>self\<close> is in the queue already.\<close>

fun waiting_loop :: "nat \<Rightarrow> co_sched \<Rightarrow> co_ptr \<Rightarrow> co_ptr option \<Rightarrow> bool option" where
  "waiting_loop 0 s self waiter = None"
| "waiting_loop (Suc n) s self waiter =
     (case waiter of
        None \<Rightarrow> Some False
      | Some w \<Rightarrow> if w = self then Some True else waiting_loop n s self (co_next_wait (co_of s w)))"

definition wt_mutex_acquire_queued ::
  "wt_mutex \<Rightarrow> co_sched \<Rightarrow> co_ptr option \<Rightarrow> (mutex_state \<times> int) option" where
  "wt_mutex_acquire_queued m s self =
     (case self of
        None \<Rightarrow> Some ((m, s), - 1)
      | Some p \<Rightarrow>
         (if mx_holder m = None
          then Some ((m\<lparr>mx_holder := Some p, mx_acquire_count := mx_acquire_count m + 1\<rparr>, s), 0)
          else if mx_holder m = Some p then Some ((m, s), 0)
          else case waiting_loop (Suc WT_CO_MAX) s p (mx_wait_head m) of
            None \<Rightarrow> None
          | Some True \<Rightarrow> Some ((m, s), 1)
          | Some False \<Rightarrow> Some (mutex_enqueue m s p, 1)))"

definition mutex_unlink :: "wt_mutex \<Rightarrow> co_sched \<Rightarrow> co_ptr option \<Rightarrow> co_ptr \<Rightarrow> mutex_state" where
  "mutex_unlink m s prev cur =
     (let nxt = co_next_wait (co_of s cur);
          m1 = (if prev = None then m\<lparr>mx_wait_head := nxt\<rparr> else m);
          s1 = (case prev of None \<Rightarrow> s | Some p \<Rightarrow> upd_co p (\<lambda>c. c\<lparr>co_next_wait := nxt\<rparr>) s);
          m2 = (if mx_wait_tail m1 = Some cur then m1\<lparr>mx_wait_tail := prev\<rparr> else m1) in
      (m2, upd_co cur (\<lambda>c. c\<lparr>co_next_wait := None\<rparr>) s1))"

fun remove_loop ::
  "nat \<Rightarrow> wt_mutex \<Rightarrow> co_sched \<Rightarrow> co_ptr \<Rightarrow> co_ptr option \<Rightarrow> co_ptr option \<Rightarrow> mutex_state option" where
  "remove_loop 0 m s co prev cur = None"
| "remove_loop (Suc n) m s co prev cur =
     (case cur of
        None \<Rightarrow> Some (m, s)
      | Some c \<Rightarrow>
         (if c = co then Some (mutex_unlink m s prev c)
          else remove_loop n m s co (Some c) (co_next_wait (co_of s c))))"

definition wt_mutex_remove_waiter :: "wt_mutex \<Rightarrow> co_sched \<Rightarrow> co_ptr option \<Rightarrow> mutex_state option" where
  "wt_mutex_remove_waiter m s co =
     (case co of
        None \<Rightarrow> Some (m, s)
      | Some p \<Rightarrow> remove_loop (Suc WT_CO_MAX) m s p None (mx_wait_head m))"

definition wt_mutex_release_if_holder :: "wt_mutex \<Rightarrow> co_sched \<Rightarrow> co_ptr option \<Rightarrow> mutex_state option" where
  "wt_mutex_release_if_holder m s co =
     (if co = None \<or> mx_holder m \<noteq> co then Some (m, s) else mutex_hand_over m s)"

definition wt_hsm_release_locks :: "wt_mutex \<Rightarrow> co_sched \<Rightarrow> co_ptr option \<Rightarrow> mutex_state option" where
  "wt_hsm_release_locks m s co =
     (if co = None then Some (m, s)
      else case wt_mutex_release_if_holder m s co of
        None \<Rightarrow> None
      | Some (m1, s1) \<Rightarrow> wt_mutex_remove_waiter m1 s1 co)"

section \<open>The wait queue as a list\<close>

definition nxw :: "co_sched \<Rightarrow> co_ptr option \<Rightarrow> co_ptr option" where
  "nxw s p = (case p of None \<Rightarrow> None | Some q \<Rightarrow> co_next_wait (co_of s q))"

definition waitq :: "wt_mutex \<Rightarrow> co_sched \<Rightarrow> nat list \<Rightarrow> bool" where
  "waitq m s w \<longleftrightarrow> threaded None (nxw s) (mx_wait_head m) (mx_wait_tail m) (map (Some \<circ> Slot) w)"

lemma nxw_at: "nxw s (Some p) = co_next_wait (co_of s p)"
  by (simp add: nxw_def)

lemma nxw_link:
  "in_table s p \<Longrightarrow> nxw (upd_co p (\<lambda>c. c\<lparr>co_next_wait := x\<rparr>) s) = (nxw s)(Some p := x)"
  by (auto simp: nxw_def fun_eq_iff split: option.split)

lemma nxw_frame: "run_frame s s' \<Longrightarrow> nxw s' = nxw s"
  by (auto simp: nxw_def fun_eq_iff run_frame_reads split: option.split)

lemma waitq_cong:
  "waitq m s w \<Longrightarrow> mx_wait_head m' = mx_wait_head m \<Longrightarrow> mx_wait_tail m' = mx_wait_tail m \<Longrightarrow>
     (\<And>i. i \<in> set w \<Longrightarrow> co_next_wait (co_of s' (Slot i)) = co_next_wait (co_of s (Slot i))) \<Longrightarrow> waitq m' s' w"
  unfolding waitq_def
  by (subst threaded_cong [of _ _ "nxw s"]) (auto simp: nxw_at)

lemma waitq_distinct: "waitq m s w \<Longrightarrow> distinct w"
  by (auto simp: waitq_def threaded_def distinct_map)

lemma waitq_unique: "waitq m s w \<Longrightarrow> waitq m s v \<Longrightarrow> w = v"
proof -
  assume "waitq m s w" "waitq m s v"
  then have "map (Some \<circ> Slot) w = map (Some \<circ> Slot) v"
    using follows_unique unfolding waitq_def threaded_def by metis
  then show ?thesis by (rule map_injective) (auto intro: injI)
qed

lemma waitq_head: "waitq m s w \<Longrightarrow> mx_wait_head m = (if w = [] then None else Some (Slot (hd w)))"
  by (cases w) (auto simp: waitq_def threaded_def)

lemma waitq_enqueue:
  assumes w: "waitq m s w" and i: "in_table s (Slot i)" "i \<notin> set w"
    and t: "\<And>j. j \<in> set w \<Longrightarrow> in_table s (Slot j)"
  shows "\<exists>m' s'. mutex_enqueue m s (Slot i) = (m', s') \<and> waitq m' s' (w @ [i]) \<and> mx_holder m' = mx_holder m"
proof -
  let ?s1 = "upd_co (Slot i) (\<lambda>c. c\<lparr>co_next_wait := None\<rparr>) s" and ?w = "map (Some \<circ> Slot) w"
  have t1: "threaded None (nxw ?s1) (mx_wait_head m) (mx_wait_tail m) ?w"
    using w i by (auto simp: waitq_def nxw_link)
  have e: "threaded None (if mx_wait_tail m = None then nxw ?s1 else (nxw ?s1)(mx_wait_tail m := Some (Slot i)))
      (if mx_wait_tail m = None then Some (Slot i) else mx_wait_head m) (Some (Slot i)) (?w @ [Some (Slot i)])"
    by (rule threaded_enqueue [OF t1]) (use i in \<open>auto simp: nxw_link\<close>)
  show ?thesis
  proof (cases w rule: rev_cases)
    case Nil
    then show ?thesis using w e waitq_head [OF w] by (simp add: mutex_enqueue_def waitq_def threaded_def)
  next
    case (snoc w' j)
    then have "mx_wait_tail m = Some (Slot j)" "in_table ?s1 (Slot j)" "mx_wait_head m \<noteq> None"
      using w t waitq_head [OF w] by (auto simp: waitq_def threaded_def)
    then show ?thesis using e by (auto simp: mutex_enqueue_def waitq_def nxw_link)
  qed
qed

section \<open>The scheduler under the mutex operations\<close>

lemma wait_link_inv: "sched_inv s \<Longrightarrow> sched_inv (upd_co p (\<lambda>c. c\<lparr>co_next_wait := x\<rparr>) s)"
  unfolding sched_inv_def by (auto intro!: core_upd exI queued_upd)

lemma wake_keeps:
  assumes "wt_co_wake s p = Some s'"
  shows "co_next_wait (co_of s' q) = co_next_wait (co_of s q)" "created s' q = created s q"
    "g_wt_co_current s' = g_wt_co_current s" "length (g_co_table s') = length (g_co_table s)"
proof -
  have k: "co_next_wait (co_of (upd_co r f s) q) = co_next_wait (co_of s q)"
    if "\<And>c. co_next_wait (f c) = co_next_wait c" for r f
    using that by (cases "in_table s r") (auto simp: upd_co_beyond)
  show "co_next_wait (co_of s' q) = co_next_wait (co_of s q)" "created s' q = created s q"
    "g_wt_co_current s' = g_wt_co_current s" "length (g_co_table s') = length (g_co_table s)"
    using assms
    by (auto simp: wt_co_wake_def k run_frame_reads created_frame dest!: enqueue_frame_co
        split: option.splits if_splits)
qed

lemma wake_inv:
  assumes "sched_inv s" "created s (Slot i)"
  shows "\<exists>s'. wt_co_wake s (Some (Slot i)) = Some s' \<and> sched_inv s' \<and>
     (co_state (co_of s (Slot i)) = WT_CO_BLOCKED \<longrightarrow> co_state (co_of s' (Slot i)) = WT_CO_RUNNABLE)"
proof -
  obtain q where c: "sched_core s" and q: "queued_runnable s q" using assms(1) by (auto simp: sched_inv_def)
  show ?thesis using wake_result [OF c q assms(2)] by (elim exE) (rule exI, auto simp: sched_inv_def)
qed

lemma inv_created_table: "sched_inv s \<Longrightarrow> created s p \<Longrightarrow> in_table s p"
  using created_valid(2) by (auto simp: sched_inv_def)

section \<open>The invariant\<close>

definition mutex_ok :: "wt_mutex \<Rightarrow> co_sched \<Rightarrow> nat list \<Rightarrow> bool" where
  "mutex_ok m s w \<longleftrightarrow> waitq m s w \<and> (\<forall>i \<in> set w. created s (Slot i) \<and> mx_holder m \<noteq> Some (Slot i)) \<and>
     (mx_holder m = None \<longrightarrow> w = []) \<and> (\<forall>p. mx_holder m = Some p \<longrightarrow> created s p)"

lemma mutex_ok_length:
  assumes "sched_inv s" "mutex_ok m s w"
  shows "length w < WT_CO_MAX"
proof -
  have "set w \<subseteq> {..<11}" using assms by (force simp: sched_inv_def sched_core_def mutex_ok_def)
  then have "card (set w) \<le> 11" using card_mono [of "{..<11}" "set w"] by simp
  then show ?thesis using waitq_distinct [of m s w] distinct_card [of w] assms(2) by (simp add: mutex_ok_def)
qed

lemma hand_over_result:
  assumes inv: "sched_inv s" and ok: "mutex_ok m s w"
  shows "\<exists>m' s'. mutex_hand_over m s = Some (m', s') \<and> sched_inv s' \<and> mutex_ok m' s' (tl w) \<and>
     mx_holder m' = (if w = [] then None else Some (Slot (hd w))) \<and>
     (w \<noteq> [] \<longrightarrow> co_state (co_of s (Slot (hd w))) = WT_CO_BLOCKED \<longrightarrow>
        co_state (co_of s' (Slot (hd w))) = WT_CO_RUNNABLE)"
proof (cases w)
  case Nil
  then show ?thesis using inv ok waitq_head [of m s w]
    by (auto simp: mutex_hand_over_def mutex_ok_def waitq_def threaded_def)
next
  case (Cons i w')
  have wq: "waitq m s (i # w')" "created s (Slot i)" using ok Cons by (auto simp: mutex_ok_def)
  have it: "in_table s (Slot i)" by (rule inv_created_table [OF inv wq(2)])
  let ?s1 = "upd_co (Slot i) (\<lambda>c. c\<lparr>co_next_wait := None\<rparr>) s"
  obtain s' where s': "wt_co_wake ?s1 (Some (Slot i)) = Some s'" "sched_inv s'"
      "co_state (co_of s (Slot i)) = WT_CO_BLOCKED \<Longrightarrow> co_state (co_of s' (Slot i)) = WT_CO_RUNNABLE"
    using wake_inv [OF wait_link_inv [OF inv, of "Slot i" None], of i] wq(2) it by auto
  let ?m' = "m\<lparr>mx_wait_head := nxw s (Some (Slot i)),
      mx_wait_tail := (if nxw s (Some (Slot i)) = None then None else mx_wait_tail m), mx_holder := Some (Slot i)\<rparr>"
  have "waitq ?m' ?s1 w'"
    using threaded_pop [of None "nxw s" "mx_wait_head m" "mx_wait_tail m" "Some (Slot i)"] wq(1) it
    by (simp add: waitq_def nxw_link)
  then have "waitq ?m' s' w'" by (rule waitq_cong) (simp_all add: wake_keeps(1) [OF s'(1)])
  then have "mutex_ok ?m' s' w'"
    using ok Cons waitq_distinct [OF wq(1)] by (auto simp: mutex_ok_def wake_keeps(2) [OF s'(1)] simp del: created.simps)
  moreover have "mutex_hand_over m s = Some (?m', s')"
    using waitq_head [OF wq(1)] s'(1) by (simp add: mutex_hand_over_def Let_def nxw_at)
  ultimately show ?thesis using Cons s' by auto
qed

lemma waiting_loop_result:
  "follows None (nxw s) h (map (Some \<circ> Slot) w) \<Longrightarrow> length w < n \<Longrightarrow>
     waiting_loop n s (Slot i) h = Some (i \<in> set w)"
proof (induction w arbitrary: h n)
  case Nil
  then show ?case by (cases n) auto
next
  case (Cons j w)
  then show ?case by (cases n) (auto simp: nxw_at)
qed

lemma enqueue_result_mutex:
  assumes inv: "sched_inv s" and ok: "mutex_ok m s w" and i: "created s (Slot i)" "i \<notin> set w"
    and h: "mx_holder m \<noteq> None" "mx_holder m \<noteq> Some (Slot i)"
  shows "\<exists>m' s'. mutex_enqueue m s (Slot i) = (m', s') \<and> sched_inv s' \<and> mutex_ok m' s' (w @ [i]) \<and>
     mx_holder m' = mx_holder m"
proof -
  have wq: "waitq m s w" "\<And>j. j \<in> set w \<Longrightarrow> in_table s (Slot j)"
    using ok inv_created_table [OF inv] by (auto simp: mutex_ok_def simp del: in_table.simps)
  obtain m' s' where e: "mutex_enqueue m s (Slot i) = (m', s')" "waitq m' s' (w @ [i])" "mx_holder m' = mx_holder m"
    using waitq_enqueue [OF wq(1) inv_created_table [OF inv i(1)] i(2) wq(2)] by blast
  have "sched_inv s' \<and> (\<forall>p. created s' p = created s p)"
    using e(1) inv by (auto simp: mutex_enqueue_def Let_def wait_link_inv split: option.splits)
  then show ?thesis using e ok i h by (auto simp: mutex_ok_def simp del: created.simps)
qed

lemma waitq_next:
  assumes "waitq m s (a @ j # b)"
  shows "co_next_wait (co_of s (Slot j)) = (case b of [] \<Rightarrow> None | k # _ \<Rightarrow> Some (Slot k))"
  using follows_append [of None "nxw s" "mx_wait_head m" "map (Some \<circ> Slot) (a @ [j])" "map (Some \<circ> Slot) b"] assms
  by (cases b) (simp_all add: waitq_def threaded_def nxw_at)

lemma remove_loop_walk:
  "waitq m s (a @ b) \<Longrightarrow> length b < n \<Longrightarrow>
     remove_loop n m s (Slot i) (link_before a) (case b of [] \<Rightarrow> None | j # _ \<Rightarrow> Some (Slot j)) =
     Some (if i \<in> set b then mutex_unlink m s (link_before (a @ takeWhile (\<lambda>j. j \<noteq> i) b)) (Slot i) else (m, s))"
proof (induction b arbitrary: a n)
  case Nil
  then show ?case by (cases n) auto
next
  case (Cons j b)
  obtain k where n: "n = Suc k" using Cons.prems by (cases n) auto
  have "link_before (a @ [j]) = Some (Slot j)" by (simp add: link_before_def)
  then show ?case using Cons.IH [of "a @ [j]" k] Cons.prems n waitq_next [of m s a j b] by simp
qed

lemma mutex_unlink_result:
  assumes w: "waitq m s (a @ i # b)" and t: "\<And>j. j \<in> set (a @ i # b) \<Longrightarrow> in_table s (Slot j)"
    and u: "mutex_unlink m s (link_before a) (Slot i) = (m', s')"
  shows "waitq m' s' (a @ b) \<and> mx_holder m' = mx_holder m"
proof -
  let ?m = "map (Some \<circ> Slot)" and ?x = "nxw s (Some (Slot i))"
  have p: "link_before a = (if ?m a = [] then None else last (?m a))"
    by (simp add: link_before_def map_Slot_last)
  have th: "threaded None ((if link_before a = None then nxw s else (nxw s)(link_before a := ?x))(Some (Slot i) := None))
      (if link_before a = None then ?x else mx_wait_head m)
      (if mx_wait_tail m = Some (Slot i) then link_before a else mx_wait_tail m) (?m (a @ b))"
    using threaded_unlink [OF _ p, of "nxw s" "mx_wait_head m" "mx_wait_tail m" "Some (Slot i)" "?m b"] w
    by (simp add: waitq_def)
  have it: "in_table s (Slot i)" "a \<noteq> [] \<Longrightarrow> in_table s (Slot (last a))"
    using t [of i] t [of "last a"] by (simp_all del: in_table.simps)
  show ?thesis
  proof (cases "a = []")
    case True
    then show ?thesis using u th it(1)
      by (auto simp: mutex_unlink_def Let_def link_before_def waitq_def nxw_link nxw_at simp del: in_table.simps)
  next
    case False
    have "nxw s' = ((nxw s)(Some (Slot (last a)) := ?x))(Some (Slot i) := None)"
      using u it False by (auto simp: mutex_unlink_def Let_def link_before_def nxw_link nxw_at simp del: in_table.simps)
    then show ?thesis using u th False
      by (auto simp: mutex_unlink_def Let_def link_before_def waitq_def nxw_at)
  qed
qed

lemma takeWhile_split: "i \<in> set b \<Longrightarrow> \<exists>d. b = takeWhile (\<lambda>j. j \<noteq> i) b @ i # d"
  by (induction b) auto

lemma remove_result:
  assumes inv: "sched_inv s" and ok: "mutex_ok m s w"
  shows "\<exists>m' s'. wt_mutex_remove_waiter m s (Some (Slot i)) = Some (m', s') \<and> sched_inv s' \<and>
     mutex_ok m' s' (remove1 i w) \<and> mx_holder m' = mx_holder m"
proof (cases "i \<in> set w")
  case False
  have wq: "waitq m s ([] @ w)" using ok by (simp add: mutex_ok_def)
  show ?thesis using remove_loop_walk [OF wq, of "Suc WT_CO_MAX" i] waitq_head [OF wq] mutex_ok_length [OF inv ok] False inv ok
    by (cases w) (auto simp: wt_mutex_remove_waiter_def link_before_def remove1_idem)
next
  case True
  define a where "a = takeWhile (\<lambda>j. j \<noteq> i) w"
  obtain b where w: "w = a @ i # b" using takeWhile_split [OF True] by (auto simp: a_def)
  have na: "i \<notin> set a" by (auto simp: a_def dest: set_takeWhileD)
  have wq: "waitq m s ([] @ w)" using ok by (simp add: mutex_ok_def)
  have t: "in_table s (Slot j)" if "j \<in> set (a @ i # b)" for j
    using that ok w by (intro inv_created_table [OF inv]) (auto simp: mutex_ok_def simp del: created.simps)
  have h: "mx_wait_head m = (case w of [] \<Rightarrow> None | j # _ \<Rightarrow> Some (Slot j))"
    using waitq_head [OF wq] by (cases w) simp_all
  have r: "wt_mutex_remove_waiter m s (Some (Slot i)) = Some (mutex_unlink m s (link_before a) (Slot i))"
    using remove_loop_walk [OF wq, of "Suc WT_CO_MAX" i] mutex_ok_length [OF inv ok] True h
    by (simp add: wt_mutex_remove_waiter_def link_before_def [of "[]"] flip: a_def)
  obtain m' s' where u: "mutex_unlink m s (link_before a) (Slot i) = (m', s')" by fastforce
  have "waitq m s (a @ i # b)" using wq w by simp
  then have q: "waitq m' s' (a @ b)" "mx_holder m' = mx_holder m"
    using mutex_unlink_result [OF _ t u] by blast+
  have "sched_inv s' \<and> (\<forall>p. created s' p = created s p)"
    using u inv by (auto simp: mutex_unlink_def Let_def wait_link_inv split: option.splits)
  then show ?thesis using r u q ok w na
    by (auto simp: mutex_ok_def remove1_append simp del: created.simps)
qed

section \<open>Results of the operations\<close>

lemma release_locks_result:
  assumes inv: "sched_inv s" and ok: "mutex_ok m s w"
  shows "\<exists>m' s'. wt_hsm_release_locks m s (Some (Slot i)) = Some (m', s') \<and> sched_inv s' \<and>
     mutex_ok m' s' (if mx_holder m = Some (Slot i) then tl w else remove1 i w) \<and> mx_holder m' \<noteq> Some (Slot i) \<and>
     mx_holder m' = (if mx_holder m = Some (Slot i) then (if w = [] then None else Some (Slot (hd w)))
                     else mx_holder m)"
proof (cases "mx_holder m = Some (Slot i)")
  case True
  then have ni: "i \<notin> set w" using ok by (auto simp: mutex_ok_def)
  then have nt: "i \<notin> set (tl w)" "w \<noteq> [] \<Longrightarrow> hd w \<noteq> i" by (cases w; auto)+
  obtain m1 s1 where h: "mutex_hand_over m s = Some (m1, s1)" "sched_inv s1" "mutex_ok m1 s1 (tl w)"
      "mx_holder m1 = (if w = [] then None else Some (Slot (hd w)))"
    using hand_over_result [OF inv ok] by blast
  obtain m' s' where "wt_mutex_remove_waiter m1 s1 (Some (Slot i)) = Some (m', s')" "sched_inv s'"
      "mutex_ok m' s' (tl w)" "mx_holder m' = mx_holder m1"
    using remove_result [OF h(2,3), of i] nt(1) by (auto simp: remove1_idem)
  then show ?thesis using True h nt(2)
    by (auto simp: wt_hsm_release_locks_def wt_mutex_release_if_holder_def)
next
  case False
  then show ?thesis using remove_result [OF inv ok, of i]
    by (auto simp: wt_hsm_release_locks_def wt_mutex_release_if_holder_def)
qed

lemma acquire_queued_result:
  assumes inv: "sched_inv s" and ok: "mutex_ok m s w" and i: "created s (Slot i)"
  shows "\<exists>m' s' r. wt_mutex_acquire_queued m s (Some (Slot i)) = Some ((m', s'), r) \<and> sched_inv s' \<and>
     (r = 0 \<longleftrightarrow> mx_holder m = None \<or> mx_holder m = Some (Slot i)) \<and>
     (r = 0 \<longrightarrow> mx_holder m' = Some (Slot i) \<and> mutex_ok m' s' w) \<and>
     (r \<noteq> 0 \<longrightarrow> r = 1 \<and> mx_holder m' = mx_holder m \<and> mutex_ok m' s' (if i \<in> set w then w else w @ [i]))"
proof -
  have wq: "waitq m s w" using ok by (simp add: mutex_ok_def)
  consider "mx_holder m = None" | "mx_holder m = Some (Slot i)" | "mx_holder m \<noteq> None" "mx_holder m \<noteq> Some (Slot i)"
    by blast
  then show ?thesis
  proof cases
    case 1
    then show ?thesis using inv ok i by (auto simp: wt_mutex_acquire_queued_def mutex_ok_def waitq_def)
  next
    case 2
    then show ?thesis using inv ok by (auto simp: wt_mutex_acquire_queued_def)
  next
    case 3
    have lp: "waiting_loop (Suc WT_CO_MAX) s (Slot i) (mx_wait_head m) = Some (i \<in> set w)"
      by (rule waiting_loop_result) (use wq mutex_ok_length [OF inv ok] in \<open>auto simp: waitq_def threaded_def\<close>)
    show ?thesis
    proof (cases "i \<in> set w")
      case True
      then show ?thesis using 3 lp inv ok by (auto simp: wt_mutex_acquire_queued_def)
    next
      case False
      then show ?thesis using 3 lp enqueue_result_mutex [OF inv ok i False 3]
        by (auto simp: wt_mutex_acquire_queued_def)
    qed
  qed
qed

section \<open>Steps\<close>

definition waits :: "wt_mutex \<Rightarrow> co_sched \<Rightarrow> co_ptr \<Rightarrow> bool" where
  "waits m s p \<longleftrightarrow> (\<exists>w i. waitq m s w \<and> i \<in> set w \<and> p = Slot i)"

text \<open>
  A step of the mutex, or a step of the scheduler that leaves the links of the waiters
  alone: fault recovery takes a coroutine out of the wait queue before it restarts it. A
  coroutine does not acquire a mutex it holds, and acquires none while it waits.
\<close>

inductive mutex_step :: "mutex_state \<Rightarrow> mutex_state \<Rightarrow> bool" where
  acquire: "wt_co_current s = Some p \<Longrightarrow> co_state (co_of s p) = WT_CO_RUNNING \<Longrightarrow> mx_holder m \<noteq> Some p \<Longrightarrow>
    \<not> waits m s p \<Longrightarrow> wt_mutex_acquire m s = Some (ms, r) \<Longrightarrow> mutex_step (m, s) ms"
| resumed: "wt_co_current s = Some p \<Longrightarrow> co_state (co_of s p) = WT_CO_RUNNING \<Longrightarrow>
    wt_mutex_acquire_resumed m s p = Some (ms, r) \<Longrightarrow> mutex_step (m, s) ms"
| queued: "created s p \<Longrightarrow> wt_mutex_acquire_queued m s (Some p) = Some (ms, r) \<Longrightarrow> mutex_step (m, s) ms"
| try_acquire: "wt_mutex_try_acquire m s = (m', b) \<Longrightarrow> mutex_step (m, s) (m', s)"
| release: "wt_mutex_release m s = Some (ms, r) \<Longrightarrow> mutex_step (m, s) ms"
| faulted: "created s p \<Longrightarrow> wt_hsm_release_locks m s (Some p) = Some ms \<Longrightarrow> mutex_step (m, s) ms"
| sched: "sched_step s s' \<Longrightarrow> (\<And>p. waits m s p \<Longrightarrow> co_next_wait (co_of s' p) = co_next_wait (co_of s p)) \<Longrightarrow>
    mutex_step (m, s) (m, s')"

definition mutex_inv :: "mutex_state \<Rightarrow> bool" where
  "mutex_inv ms \<longleftrightarrow> sched_inv (snd ms) \<and> (\<exists>w. mutex_ok (fst ms) (snd ms) w)"

lemma created_mono: "g_co_count s \<le> g_co_count t \<Longrightarrow> created s p \<Longrightarrow> created t p"
  by (cases p) auto

lemma leave_count [simp]: "g_co_count (leave_current p s) = g_co_count s"
  by (simp add: leave_current_def)

lemma unlink_count: "runqueue_unlink s p = Some s' \<Longrightarrow> g_co_count s' = g_co_count s"
  by (auto simp: runqueue_unlink_def run_frame_reads dest!: unlink_loop_frame split: if_splits)

lemma create_count:
  "wt_co_create_common port mem s stack sz entry arg st mn pr = Some (mem', s', r) \<Longrightarrow> g_co_count s \<le> g_co_count s'"
  by (auto simp: wt_co_create_common_def Let_def run_frame_reads dest!: init_stack_sched enqueue_frame_co
      split: if_splits prod.splits)

lemma reinit_count:
  "wt_co_reinit port mem s (Some p) entry arg = Some (mem', s', r) \<Longrightarrow> g_co_count s' = g_co_count s"
  by (auto simp: wt_co_reinit_def Let_def unlink_count dest!: init_stack_sched
      split: if_splits prod.splits option.splits)

lemma wake_count: "wt_co_wake s (Some p) = Some s' \<Longrightarrow> g_co_count s' = g_co_count s"
  by (auto simp: wt_co_wake_def run_frame_reads dest!: enqueue_frame_co split: if_splits)

lemma dequeue_count: "runqueue_dequeue s = (s', p) \<Longrightarrow> g_co_count s' = g_co_count s"
  using dequeue_frame_co [of s] by (simp add: run_frame_def)

lemma sched_step_count: "sched_step s s' \<Longrightarrow> g_co_count s \<le> g_co_count s'"
  by (induction rule: sched_step.induct)
    (auto simp: create_count reinit_count wake_count unlink_count dequeue_count wt_co_set_domain_def wt_co_block_def
      wt_co_request_preempt_def wt_co_mark_faulted_def switch_in_def switch_back_def Let_def
      split: option.splits if_splits)

lemma waits_iff: "mutex_ok m s w \<Longrightarrow> waits m s p \<longleftrightarrow> (\<exists>i \<in> set w. p = Slot i)"
  by (auto simp: waits_def mutex_ok_def dest: waitq_unique)

lemma mutex_ok_keep:
  assumes "mutex_ok m s w" "\<And>i. i \<in> set w \<Longrightarrow> co_next_wait (co_of s' (Slot i)) = co_next_wait (co_of s (Slot i))"
    "\<And>p. created s p \<Longrightarrow> created s' p"
  shows "mutex_ok m s' w"
  using assms waitq_cong [of m s w m s'] by (auto simp: mutex_ok_def simp del: created.simps)

lemma block_mutex:
  assumes inv: "sched_inv s" and ok: "mutex_ok m s w" and b: "wt_co_block s = Some s'"
    and r: "wt_co_current s = Some p" "co_state (co_of s p) = WT_CO_RUNNING"
  shows "mutex_inv (m, s')"
proof -
  have "g_wt_co_current s = Some p" using r(1) by (simp add: wt_co_current_def split: if_splits)
  then have "sched_inv s'" using sched_step_inv [OF sched_step.block inv] r(2) b by blast
  moreover have "co_next_wait (co_of s' q) = co_next_wait (co_of s q)" for q
    using b \<open>g_wt_co_current s = Some p\<close>
    by (cases "in_table s p") (auto simp: wt_co_block_def upd_co_beyond split: option.splits if_splits)
  moreover have "created s' q = created s q" for q
    using b by (auto simp: wt_co_block_def split: option.splits if_splits)
  ultimately show ?thesis using mutex_ok_keep [OF ok, of s'] by (auto simp: mutex_inv_def)
qed

lemma link_state [simp]: "co_state (co_of (upd_co r (\<lambda>c. c\<lparr>co_next_wait := x\<rparr>) s) q) = co_state (co_of s q)"
  by (cases "in_table s r") (auto simp: upd_co_beyond)

lemma current_created: "sched_inv s \<Longrightarrow> wt_co_current s = Some p \<Longrightarrow> created s p"
  by (auto simp: sched_inv_def sched_core_def wt_co_current_def split: if_splits)

lemma acquire_inv:
  assumes inv: "sched_inv s" and ok: "mutex_ok m s w" and a: "wt_mutex_acquire m s = Some (ms, r)"
    and p: "wt_co_current s = Some p" "co_state (co_of s p) = WT_CO_RUNNING" "mx_holder m \<noteq> Some p" "\<not> waits m s p"
  shows "mutex_inv ms"
proof -
  have c: "created s p" by (rule current_created [OF inv p(1)])
  then obtain i where i: "p = Slot i" using created_Slot by blast
  show ?thesis
  proof (cases "mx_holder m")
    case None
    then have "mutex_ok (m\<lparr>mx_holder := Some p, mx_acquire_count := mx_acquire_count m + 1\<rparr>) s w"
      using ok c by (auto simp: mutex_ok_def waitq_def simp del: created.simps)
    then show ?thesis using a p(1) inv None by (auto simp: wt_mutex_acquire_def mutex_inv_def)
  next
    case (Some h)
    obtain m1 s1 where e: "mutex_enqueue m s p = (m1, s1)" "sched_inv s1" "mutex_ok m1 s1 (w @ [i])"
      using enqueue_result_mutex [OF inv ok, of i] c p(3,4) Some i waits_iff [OF ok] by auto
    have k: "wt_co_current s1 = wt_co_current s" "co_state (co_of s1 p) = co_state (co_of s p)"
      using e(1) by (auto simp: mutex_enqueue_def Let_def wt_co_current_def simp del: co_of_upd split: option.splits if_splits)
    show ?thesis using a p(1,2) Some e k block_mutex [OF e(2,3)]
      by (auto simp: wt_mutex_acquire_def)
  qed
qed

lemma mutex_invI: "sched_inv s \<Longrightarrow> mutex_ok m s w \<Longrightarrow> mutex_inv (m, s)"
  by (auto simp: mutex_inv_def)

lemma mutex_invE:
  assumes "mutex_inv (m, s)"
  obtains w where "sched_inv s" "mutex_ok m s w"
  using assms by (auto simp: mutex_inv_def)

lemma mutex_step_inv:
  assumes "mutex_step ms ms'" "mutex_inv ms"
  shows "mutex_inv ms'"
  using assms
proof (induction rule: mutex_step.induct)
  case (acquire s p m ms r)
  then show ?case by (elim mutex_invE) (rule acquire_inv)
next
  case (resumed s p m ms r)
  obtain w where w: "sched_inv s" "mutex_ok m s w" using resumed(4) by (rule mutex_invE)
  then have "mutex_ok (m\<lparr>mx_acquire_count := mx_acquire_count m + 1\<rparr>) s w"
    by (simp add: mutex_ok_def waitq_def)
  then show ?case using resumed(3) block_mutex [OF w _ resumed(1,2)] mutex_invI [OF w(1)]
    by (auto simp: wt_mutex_acquire_resumed_def split: if_splits)
next
  case (queued s p m ms r)
  obtain w where w: "sched_inv s" "mutex_ok m s w" using queued(3) by (rule mutex_invE)
  obtain i where i: "p = Slot i" using created_Slot [OF queued(1)] by blast
  have "created s (Slot i)" using queued(1) i by simp
  from acquire_queued_result [OF w this] obtain m' s' where "ms = (m', s')" "sched_inv s'"
      "r = 0 \<Longrightarrow> mutex_ok m' s' w" "r \<noteq> 0 \<Longrightarrow> mutex_ok m' s' (if i \<in> set w then w else w @ [i])"
    using queued(2) i by auto
  then show ?case using mutex_invI by (cases "r = 0") auto
next
  case (try_acquire m s m' b)
  obtain w where w: "sched_inv s" "mutex_ok m s w" using try_acquire(2) by (rule mutex_invE)
  have "mutex_ok m' s w" using w try_acquire(1) current_created [OF w(1)]
    by (auto simp: wt_mutex_try_acquire_def mutex_ok_def waitq_def simp del: created.simps split: if_splits)
  then show ?case using w(1) by (rule mutex_invI [rotated])
next
  case (release m s ms r)
  obtain w where w: "sched_inv s" "mutex_ok m s w" using release(2) by (rule mutex_invE)
  show ?case using release(1) hand_over_result [OF w] mutex_invI mutex_invI [OF w]
    by (auto simp: wt_mutex_release_def split: if_splits)
next
  case (faulted s p m ms)
  obtain w where w: "sched_inv s" "mutex_ok m s w" using faulted(3) by (rule mutex_invE)
  obtain i where i: "p = Slot i" using created_Slot [OF faulted(1)] by blast
  show ?case using release_locks_result [OF w, of i] faulted(2) i mutex_invI by auto
next
  case (sched s s' m)
  obtain w where w: "sched_inv s" "mutex_ok m s w" using sched(3) by (rule mutex_invE)
  have "mutex_ok m s' w"
    by (rule mutex_ok_keep [OF w(2)])
      (use sched(2) waits_iff [OF w(2)] created_mono [OF sched_step_count [OF sched(1)]] in \<open>auto simp del: created.simps\<close>)
  then show ?case by (rule mutex_invI [OF sched_step_inv [OF sched(1) w(1)]])
qed

lemma mutex_started_inv: "sched_started s \<Longrightarrow> mutex_inv (wt_mutex_init m, s)"
  using sched_started_inv [of s]
  by (auto simp: mutex_inv_def mutex_ok_def wt_mutex_init_def waitq_def threaded_def intro!: exI [of _ "[]"])

interpretation mutex_machine:
  invariant_system "\<lambda>ms. \<exists>m. fst ms = wt_mutex_init m \<and> sched_started (snd ms)" mutex_step mutex_inv
  by unfold_locales (auto intro: mutex_started_inv mutex_step_inv)

section \<open>What the mutex guarantees\<close>

text \<open>
  C35: From initialisation on, whatever mutex and scheduler operations the coroutines perform,
  the wait queue is a list of distinct created coroutines without the holder, and it is empty
  while the mutex is free. A release by the holder hands the mutex to the coroutine that has
  waited longest and makes it runnable if it was blocked; a release by anyone else changes
  nothing. A queued acquire answers 0 exactly if the mutex was free or already held by the
  caller, and otherwise has the caller in the queue once, behind those that wait already. When
  a coroutine dies, its locks are released: it neither holds the mutex nor waits for it, the
  others keep their order, and a mutex it held passes to the first waiter.
\<close>

theorem wt_mutex_fair:
  assumes "sched_started s0" "mutex_step\<^sup>*\<^sup>* (wt_mutex_init m0, s0) (m, s)"
  shows "\<exists>w. waitq m s w \<and> distinct w \<and> (\<forall>i \<in> set w. created s (Slot i) \<and> mx_holder m \<noteq> Some (Slot i)) \<and>
    (mx_holder m = None \<longrightarrow> w = []) \<and>
    (mx_holder m = wt_co_current s \<longrightarrow>
       (\<exists>m' s'. wt_mutex_release m s = Some ((m', s'), 0) \<and> waitq m' s' (tl w) \<and>
          mx_holder m' = (if w = [] then None else Some (Slot (hd w))) \<and>
          (w \<noteq> [] \<longrightarrow> co_state (co_of s (Slot (hd w))) = WT_CO_BLOCKED \<longrightarrow>
             co_state (co_of s' (Slot (hd w))) = WT_CO_RUNNABLE))) \<and>
    (mx_holder m \<noteq> wt_co_current s \<longrightarrow> wt_mutex_release m s = Some ((m, s), - 1)) \<and>
    (\<forall>i. created s (Slot i) \<longrightarrow>
       (\<exists>m' s' r. wt_mutex_acquire_queued m s (Some (Slot i)) = Some ((m', s'), r) \<and>
          (r = 0 \<longleftrightarrow> mx_holder m = None \<or> mx_holder m = Some (Slot i)) \<and>
          (r = 0 \<longrightarrow> mx_holder m' = Some (Slot i) \<and> waitq m' s' w) \<and>
          (r \<noteq> 0 \<longrightarrow> r = 1 \<and> mx_holder m' = mx_holder m \<and> waitq m' s' (if i \<in> set w then w else w @ [i])))) \<and>
    (\<forall>i. \<exists>m' s'. wt_hsm_release_locks m s (Some (Slot i)) = Some (m', s') \<and> mx_holder m' \<noteq> Some (Slot i) \<and>
       waitq m' s' (if mx_holder m = Some (Slot i) then tl w else remove1 i w) \<and>
       mx_holder m' = (if mx_holder m = Some (Slot i) then (if w = [] then None else Some (Slot (hd w)))
                       else mx_holder m))"
proof -
  have "mutex_inv (m, s)" using mutex_machine.reachable_inv [OF _ assms(2)] assms(1) by auto
  then obtain w where inv: "sched_inv s" and ok: "mutex_ok m s w" by (rule mutex_invE)
  have q: "waitq m' s' v" if "mutex_ok m' s' v" for m' s' v using that by (simp add: mutex_ok_def)
  have b: "waitq m s w \<and> distinct w \<and> (\<forall>i \<in> set w. created s (Slot i) \<and> mx_holder m \<noteq> Some (Slot i)) \<and>
      (mx_holder m = None \<longrightarrow> w = [])"
    using ok waitq_distinct by (auto simp: mutex_ok_def simp del: created.simps)
  have r: "\<exists>m' s'. wt_mutex_release m s = Some ((m', s'), 0) \<and> waitq m' s' (tl w) \<and>
      mx_holder m' = (if w = [] then None else Some (Slot (hd w))) \<and>
      (w \<noteq> [] \<longrightarrow> co_state (co_of s (Slot (hd w))) = WT_CO_BLOCKED \<longrightarrow>
         co_state (co_of s' (Slot (hd w))) = WT_CO_RUNNABLE)" if "mx_holder m = wt_co_current s"
    using hand_over_result [OF inv ok] that q unfolding wt_mutex_release_def
    by (elim exE) (rule exI, rule exI, auto)
  have a: "\<exists>m' s' r. wt_mutex_acquire_queued m s (Some (Slot i)) = Some ((m', s'), r) \<and>
      (r = 0 \<longleftrightarrow> mx_holder m = None \<or> mx_holder m = Some (Slot i)) \<and>
      (r = 0 \<longrightarrow> mx_holder m' = Some (Slot i) \<and> waitq m' s' w) \<and>
      (r \<noteq> 0 \<longrightarrow> r = 1 \<and> mx_holder m' = mx_holder m \<and> waitq m' s' (if i \<in> set w then w else w @ [i]))"
    if "created s (Slot i)" for i
    using acquire_queued_result [OF inv ok that] q
    by (elim exE) (intro exI conjI, auto simp del: if_image_distrib split del: if_split)
  have d: "\<exists>m' s'. wt_hsm_release_locks m s (Some (Slot i)) = Some (m', s') \<and> mx_holder m' \<noteq> Some (Slot i) \<and>
      waitq m' s' (if mx_holder m = Some (Slot i) then tl w else remove1 i w) \<and>
      mx_holder m' = (if mx_holder m = Some (Slot i) then (if w = [] then None else Some (Slot (hd w)))
                      else mx_holder m)" for i
    using release_locks_result [OF inv ok, of i] q by (elim exE) (intro exI, fast)
  have n: "wt_mutex_release m s = Some ((m, s), - 1)" if "mx_holder m \<noteq> wt_co_current s"
    using that by (simp add: wt_mutex_release_def)
  show ?thesis using b r n a d by (intro exI [of _ w] conjI allI impI) blast+
qed

end
