(* ===== verification/Co_Witness.thy ===== *)
theory Co_Witness
  imports Co_Stack Mutex "HOL-Library.Code_Target_Nat"
begin

text \<open>
  A concrete scheduler with two coroutines: the first is created runnable, is entered and
  takes the mutex, the second is created blocked and queues for it.
\<close>

definition ex_co :: wt_co where
  "ex_co = \<lparr>co_sp = 0, co_stack_base = 0, co_stack_size = 0, co_entry = 0, co_arg = 0, co_state = WT_CO_BLOCKED,
     co_id = 0, co_next_run = None, co_next_wait = None, co_domain = None, co_unprivileged = False,
     co_wake_pending = False, co_exc_return = 0\<rparr>"

definition ex_co_blank :: co_sched where
  "ex_co_blank = \<lparr>g_co_table = replicate WT_CO_MAX ex_co, g_wt_co_bootstrap = ex_co, g_wt_co_current = None,
     g_runqueue_head = None, g_runqueue_tail = None, g_co_count = 0, g_wt_co_pendsv_target = None\<rparr>"

definition ex_co_port :: co_port where
  "ex_co_port = \<lparr>cp_priv_stack_ok = (\<lambda>_ _. True), cp_trampoline = 0x08001001\<rparr>"

definition ex_create :: "co_sched \<Rightarrow> u32 \<Rightarrow> wt_co_state_t \<Rightarrow> ((u32 \<Rightarrow> u8) \<times> co_sched \<times> co_ptr option) option" where
  "ex_create s stack st = wt_co_create_common ex_co_port (\<lambda>_. 0) s stack 10240 0x08000101 7 st 10240 True"

definition ex_sched :: "(u32 \<Rightarrow> u8) \<times> co_sched \<times> co_ptr option \<Rightarrow> co_sched" where
  "ex_sched r = fst (snd r)"

definition ex_co0 :: co_sched where "ex_co0 = wt_co_init ex_co_blank"
definition ex_co1 :: co_sched where "ex_co1 = ex_sched (the (ex_create ex_co0 0x20000000 WT_CO_RUNNABLE))"
definition ex_co2 :: co_sched where "ex_co2 = ex_sched (the (ex_create ex_co1 0x20004000 WT_CO_BLOCKED))"
definition ex_co3 :: co_sched where "ex_co3 = switch_in (Slot 0) (fst (runqueue_dequeue ex_co2))"

lemma ex_co_created:
  "(map_option (snd \<circ> snd) (ex_create ex_co0 0x20000000 WT_CO_RUNNABLE),
    map_option (snd \<circ> snd) (ex_create ex_co1 0x20004000 WT_CO_BLOCKED)) = (Some (Some (Slot 0)), Some (Some (Slot 1)))"
  by code_simp

lemma ex_create_step:
  assumes "map_option (snd \<circ> snd) (ex_create s b st) = Some r" "st = WT_CO_RUNNABLE \<or> st = WT_CO_BLOCKED"
  shows "sched_step s (ex_sched (the (ex_create s b st)))"
proof -
  obtain mem' s' where "ex_create s b st = Some (mem', s', r)" using assms(1) by auto
  then show ?thesis using sched_step.create [OF _ assms(2)] by (auto simp: ex_create_def ex_sched_def)
qed

lemma ex_co_started: "sched_started ex_co0"
  unfolding sched_started_def ex_co0_def by (rule exI [of _ ex_co_blank]) (simp add: ex_co_blank_def)

lemmas ex_co_returned = ex_co_created [unfolded prod.inject]

lemma ex_co_step1: "sched_step ex_co0 ex_co1"
  unfolding ex_co1_def by (rule ex_create_step [OF ex_co_returned [THEN conjunct1]]) simp

lemma ex_co_step2: "sched_step ex_co1 ex_co2"
  unfolding ex_co2_def by (rule ex_create_step [OF ex_co_returned [THEN conjunct2]]) simp

lemma ex_co2_facts:
  "(let s = ex_co2 in (g_runqueue_head s, g_runqueue_tail s, co_next_run (co_of s (Slot 0)), g_co_count s,
      co_state (co_of s (Slot 0)), co_state (co_of s (Slot 1)), g_wt_co_current s)) =
   (Some (Slot 0), Some (Slot 0), None, 3, WT_CO_RUNNABLE, WT_CO_BLOCKED, Some Bootstrap)"
  by code_simp

lemmas ex_co2_reads = ex_co2_facts [unfolded Let_def prod.inject]

lemma ex_co2_runq: "runq ex_co2 [0]"
  using ex_co2_reads by (simp add: runq_def threaded_def nxr_at)

lemma all_mp: "\<forall>x. P x \<longrightarrow> Q x \<Longrightarrow> P a \<Longrightarrow> Q a"
  by blast


theorem wt_co_create_stack_witness:
  "\<exists>mem' s' co. ex_create ex_co0 0x20000000 WT_CO_RUNNABLE = Some (mem', s', Some co) \<and>
     check_canary mem' s' (Some co) \<and> load_word mem' (co_sp (co_of s' co)) = 0x08000101"
proof -
  obtain mem' s' where c: "ex_create ex_co0 0x20000000 WT_CO_RUNNABLE = Some (mem', s', Some (Slot 0))"
    using ex_co_created by auto
  have "length (g_co_table ex_co0) = WT_CO_MAX" "1 \<le> g_co_count ex_co0" "unat (0x20000000 :: u32) + unat (10240 :: u32) < 2 ^ 32"
    by (simp_all add: ex_co0_def ex_co_blank_def wt_co_init_def)
  note T = wt_co_create_stack [OF c [unfolded ex_create_def] this]
  then show ?thesis using c by blast
qed

section \<open>The mutex\<close>

definition ex_mutex0 :: wt_mutex where
  "ex_mutex0 = \<lparr>mx_holder = None, mx_wait_head = None, mx_wait_tail = None, mx_acquire_count = 0, mx_contend_count = 0\<rparr>"

definition ex_mutex1 :: mutex_state where
  "ex_mutex1 = fst (the (wt_mutex_acquire ex_mutex0 ex_co3))"

definition ex_mutex2 :: mutex_state where
  "ex_mutex2 = fst (the (wt_mutex_acquire_queued (fst ex_mutex1) (snd ex_mutex1) (Some (Slot 1))))"

lemma ex_mutex_facts:
  "(let s = ex_co3; m1 = wt_mutex_acquire ex_mutex0 s; ms = fst (the m1);
        m2 = wt_mutex_acquire_queued (fst ms) (snd ms) (Some (Slot 1)); m = fst (the m2) in
     (wt_co_current s, co_state (co_of s (Slot 0)), snd (runqueue_dequeue ex_co2), map_option snd m1,
      map_option snd m2, g_co_count (snd ms), mx_holder (fst m), mx_wait_head (fst m), mx_wait_tail (fst m),
      co_next_wait (co_of (snd m) (Slot 1)), co_state (co_of (snd m) (Slot 1)), wt_co_current (snd m))) =
   (Some (Slot 0), WT_CO_RUNNING, Some (Slot 0), Some (Returned 0), Some 1, 3, Some (Slot 0), Some (Slot 1),
      Some (Slot 1), None, WT_CO_BLOCKED, Some (Slot 0))"
  by code_simp

lemmas ex_mutex_reads = ex_mutex_facts [unfolded Let_def prod.inject, folded ex_mutex1_def, folded ex_mutex2_def]

lemma free_no_waiter: "mx_wait_head m = None \<Longrightarrow> \<not> waits m s p"
  by (auto simp: waits_def dest: waitq_head split: if_splits)

lemma ex_mutex_steps: "mutex_step\<^sup>*\<^sup>* (wt_mutex_init ex_mutex0, ex_co0) (fst ex_mutex2, snd ex_mutex2)"
proof -
  have i: "wt_mutex_init ex_mutex0 = ex_mutex0" by (simp add: wt_mutex_init_def ex_mutex0_def)
  have n: "\<not> waits ex_mutex0 s p" for s p by (rule free_no_waiter) (simp add: ex_mutex0_def)
  have t: "sched_step ex_co2 ex_co3" unfolding ex_co3_def
    by (rule sched_step.tick) (use ex_co2_reads ex_mutex_reads in \<open>auto simp: prod_eq_iff\<close>)
  have "mutex_step (ex_mutex0, ex_co0) (ex_mutex0, ex_co1)" "mutex_step (ex_mutex0, ex_co1) (ex_mutex0, ex_co2)"
    "mutex_step (ex_mutex0, ex_co2) (ex_mutex0, ex_co3)"
    using mutex_step.sched ex_co_step1 ex_co_step2 t n by blast+
  moreover have "mutex_step (ex_mutex0, ex_co3) ex_mutex1"
    by (rule mutex_step.acquire [where p = "Slot 0" and r = "Returned 0"])
      (use ex_mutex_reads n in \<open>auto simp: ex_mutex1_def ex_mutex0_def\<close>)
  moreover have "mutex_step (fst ex_mutex1, snd ex_mutex1) ex_mutex2"
    by (rule mutex_step.queued [where p = "Slot 1" and r = 1]) (use ex_mutex_reads in \<open>auto simp: ex_mutex2_def\<close>)
  ultimately show ?thesis unfolding i by (simp add: converse_rtranclp_into_rtranclp)
qed

theorem wt_mutex_fair_witness:
  "\<exists>m s m' s'. mutex_step\<^sup>*\<^sup>* (wt_mutex_init ex_mutex0, ex_co0) (m, s) \<and> mx_holder m = Some (Slot 0) \<and>
     wt_mutex_release m s = Some ((m', s'), 0) \<and> mx_holder m' = Some (Slot 1) \<and>
     co_state (co_of s' (Slot 1)) = WT_CO_RUNNABLE"
proof -
  let ?m = "fst ex_mutex2" and ?s = "snd ex_mutex2"
  obtain w where w: "waitq ?m ?s w" and r: "mx_holder ?m = wt_co_current ?s \<Longrightarrow>
      \<exists>m' s'. wt_mutex_release ?m ?s = Some ((m', s'), 0) \<and> waitq m' s' (tl w) \<and>
        mx_holder m' = (if w = [] then None else Some (Slot (hd w))) \<and>
        (w \<noteq> [] \<longrightarrow> co_state (co_of ?s (Slot (hd w))) = WT_CO_BLOCKED \<longrightarrow>
           co_state (co_of s' (Slot (hd w))) = WT_CO_RUNNABLE)"
    using wt_mutex_fair [OF ex_co_started ex_mutex_steps] by blast
  have "w = [1]" by (rule waitq_unique [OF w]) (use ex_mutex_reads in \<open>simp add: waitq_def threaded_def nxw_at\<close>)
  moreover have h: "mx_holder ?m = wt_co_current ?s" "mx_holder ?m = Some (Slot 0)"
      "co_state (co_of ?s (Slot 1)) = WT_CO_BLOCKED" using ex_mutex_reads by simp_all
  ultimately obtain m' s' where "wt_mutex_release ?m ?s = Some ((m', s'), 0)" "mx_holder m' = Some (Slot 1)"
      "co_state (co_of s' (Slot 1)) = WT_CO_RUNNABLE"
    using r by (auto simp del: co_of.simps One_nat_def)
  then show ?thesis using ex_mutex_steps h(2) by blast
qed

end
