(* ===== verification/Spm_Gate.thy ===== *)
theory Spm_Gate
  imports Ffm_Service Sec_Domain
begin

text \<open>
  The gate of \<open>src/spm_gate.c\<close>: the one privileged entry point of every request of a Secure
  Partition. The request block is a record; a pointer in it is an address of the client
  memory of the runtime, 0 being the null pointer, and the gate reads and writes that memory
  at the addresses the block gives it.
\<close>

section \<open>Requests\<close>

abbreviation (input) WT_SPM_SP_IOVEC :: u8 where "WT_SPM_SP_IOVEC \<equiv> 4"
abbreviation (input) PSA_BLOCK :: u32 where "PSA_BLOCK \<equiv> 0x80000000"

datatype wt_spm_op =
    WT_SPM_OP_WAIT | WT_SPM_OP_GET | WT_SPM_OP_SET_RHANDLE | WT_SPM_OP_READ | WT_SPM_OP_SKIP | WT_SPM_OP_WRITE
  | WT_SPM_OP_REPLY | WT_SPM_OP_NOTIFY | WT_SPM_OP_CLEAR | WT_SPM_OP_VERSION | WT_SPM_OP_CONNECT | WT_SPM_OP_CALL
  | WT_SPM_OP_CLOSE | WT_SPM_OP_EOI | WT_SPM_OP_IRQ_ENABLE | WT_SPM_OP_LIFECYCLE | WT_SPM_OP_FWU_BACKEND
  | WT_SPM_OP_KEYSTORE_FLASH | WT_SPM_OP_KEYSTORE_ENTROPY | WT_SPM_OP_KEYSTORE_LOCK | WT_SPM_OP_MEASURE_READ

record wt_spm_call =
  sc_op :: "wt_spm_op cenum"
  sc_partition_id :: int
  sc_notify_partition :: int
  sc_msg_handle :: int
  sc_signal_mask :: u32
  sc_timeout :: u32
  sc_signal :: u32
  sc_vec_idx :: u32
  sc_buffer :: u32
  sc_num_bytes :: u32
  sc_status :: int
  sc_msg :: u32
  sc_asserted :: u32
  sc_rhandle :: u32
  sc_sid :: u32
  sc_version :: u32
  sc_call_type :: int
  sc_sp_in :: "psa_invec list"
  sc_sp_out :: "psa_outvec list"
  sc_sp_in_len :: u8
  sc_sp_out_len :: u8
  sc_pending_msg :: u16
  sc_pending_valid :: bool
  sc_ret_status :: int
  sc_ret_size :: u32
  sc_ret_int :: int
  sc_ret_handle :: int
  sc_ret_version :: u32
  sc_ret_tick :: u32
  sc_must_panic :: bool

definition wt_spm_keystore_op_pinned :: "wt_spm_op cenum \<Rightarrow> int \<Rightarrow> int \<Rightarrow> int \<Rightarrow> bool" where
  "wt_spm_keystore_op_pinned op caller vault crypto =
     (if caller \<le> 0 then False
      else if caller = vault then True
      else op = Enum WT_SPM_OP_KEYSTORE_ENTROPY \<and> caller = crypto)"

section \<open>Checks\<close>

definition wt_spm_check_buffer :: "wt_secure_domain option \<Rightarrow> u32 \<Rightarrow> u32 \<Rightarrow> bool \<Rightarrow> int" where
  "wt_spm_check_buffer domain buffer len need_write =
     (if domain = None then WT_FFM_SUCCESS
      else if len = 0 then WT_FFM_SUCCESS
      else if buffer = 0 then WT_FFM_ERROR_BUFFER
      else if \<not> wt_secure_domain_contains domain buffer len need_write then WT_FFM_ERROR_BUFFER
      else WT_FFM_SUCCESS)"

definition wt_spm_pending_owned :: "wt_ffm_runtime \<Rightarrow> wt_spm_call \<Rightarrow> bool" where
  "wt_spm_pending_owned rt call =
     (let m = unat (sc_pending_msg call) in
      if m \<ge> WT_FFM_MAX_MESSAGES then False
      else if \<not> msg_allocated (msg_of rt m) then False
      else msg_caller (msg_of rt m) = sc_partition_id call)"

definition wt_spm_check_sp_vectors :: "wt_secure_domain option \<Rightarrow> wt_spm_call \<Rightarrow> int" where
  "wt_spm_check_sp_vectors domain call =
     (if sc_sp_in_len call > WT_SPM_SP_IOVEC \<or> sc_sp_out_len call > WT_SPM_SP_IOVEC then WT_FFM_ERROR_ARGUMENT
      else chain WT_FFM_SUCCESS
        (first_err WT_FFM_SUCCESS
           (\<lambda>v. if inv_len v = 0 then WT_FFM_SUCCESS
                 else wt_spm_check_buffer domain (inv_base v) (inv_len v) False)
           (take (unat (sc_sp_in_len call)) (sc_sp_in call)))
        (first_err WT_FFM_SUCCESS
           (\<lambda>v. if outv_len v = 0 then WT_FFM_SUCCESS
                 else wt_spm_check_buffer domain (outv_base v) (outv_len v) True)
           (take (unat (sc_sp_out_len call)) (sc_sp_out call))))"

section \<open>Service requests\<close>

text \<open>A message descriptor as the gate stores it: \<open>psa_msg_t\<close> has twelve words.\<close>

definition psa_msg_bytes :: "psa_msg_t \<Rightarrow> u8 list" where
  "psa_msg_bytes m = concat (map word_bytes
     ([word_of_int (pm_type m), word_of_int (pm_handle m), word_of_int (pm_client_id m), pm_rhandle m] @
      map (\<lambda>i. of_nat (pm_in_size m i)) [0..<PSA_MAX_IOVEC] @ map (\<lambda>i. of_nat (pm_out_size m i)) [0..<PSA_MAX_IOVEC]))"

definition store_at :: "u32 \<Rightarrow> u8 list \<Rightarrow> wt_ffm_runtime \<Rightarrow> wt_ffm_runtime" where
  "store_at a bs rt = rt\<lparr>client_memory := mem_write (client_memory rt) a bs\<rparr>"

type_synonym gate_state = "wt_ffm_runtime \<times> wt_spm_call"

definition gate_wait :: "wt_secure_domain option \<Rightarrow> wt_ffm_runtime \<Rightarrow> wt_spm_call \<Rightarrow> gate_state" where
  "gate_wait domain rt call =
     (let ret = wt_spm_check_buffer domain (sc_asserted call) 4 True in
      if ret \<noteq> WT_FFM_SUCCESS then (rt, call\<lparr>sc_must_panic := True, sc_ret_int := ret\<rparr>)
      else case (if sc_asserted call = 0 then (WT_FFM_ERROR_ARGUMENT, None)
                 else wt_ffm_wait rt (sc_partition_id call) (sc_signal_mask call)) of
        (ret, out) \<Rightarrow>
          (case out of None \<Rightarrow> rt | Some a \<Rightarrow> store_at (sc_asserted call) (word_bytes a) rt,
           call\<lparr>sc_must_panic := (ret = WT_FFM_ERROR_ARGUMENT), sc_ret_int := ret\<rparr>))"

definition gate_get :: "wt_secure_domain option \<Rightarrow> wt_ffm_runtime \<Rightarrow> wt_spm_call \<Rightarrow> gate_state" where
  "gate_get domain rt call =
     (let ret = wt_spm_check_buffer domain (sc_msg call) 48 True in
      if ret \<noteq> WT_FFM_SUCCESS
      then (rt, call\<lparr>sc_ret_status := ret, sc_must_panic := True, sc_ret_int := ret\<rparr>)
      else case (if sc_msg call = 0 then (rt, PSA_ERROR_PROGRAMMER_ERROR, None)
                 else wt_ffm_get rt (sc_partition_id call) (sc_signal call)) of
        (rt', status, out) \<Rightarrow>
          (case out of None \<Rightarrow> rt' | Some m \<Rightarrow> store_at (sc_msg call) (psa_msg_bytes m) rt',
           call\<lparr>sc_ret_status := status, sc_must_panic := (status \<noteq> PSA_SUCCESS), sc_ret_int := ret\<rparr>))"

definition gate_read :: "wt_secure_domain option \<Rightarrow> wt_ffm_runtime \<Rightarrow> wt_spm_call \<Rightarrow> gate_state" where
  "gate_read domain rt call =
     (let ret = wt_ffm_msg_access_check rt (sc_partition_id call) (sc_msg_handle call) (unat (sc_vec_idx call)) in
      if ret \<noteq> WT_FFM_SUCCESS then (rt, call\<lparr>sc_ret_int := ret, sc_must_panic := True\<rparr>)
      else let ret = wt_spm_check_buffer domain (sc_buffer call) (sc_num_bytes call) True in
        if ret \<noteq> WT_FFM_SUCCESS then (rt, call\<lparr>sc_ret_int := ret, sc_must_panic := True\<rparr>)
        else case wt_ffm_read rt (sc_partition_id call) (sc_msg_handle call) (unat (sc_vec_idx call))
                    (sc_buffer call = 0) (unat (sc_num_bytes call)) of
          (rt', n, bs) \<Rightarrow>
            (store_at (sc_buffer call) bs rt', call\<lparr>sc_ret_size := of_nat n, sc_ret_int := WT_FFM_SUCCESS\<rparr>))"

definition gate_skip :: "wt_ffm_runtime \<Rightarrow> wt_spm_call \<Rightarrow> gate_state" where
  "gate_skip rt call =
     (let ret = wt_ffm_msg_access_check rt (sc_partition_id call) (sc_msg_handle call) (unat (sc_vec_idx call)) in
      if ret \<noteq> WT_FFM_SUCCESS then (rt, call\<lparr>sc_ret_int := ret, sc_must_panic := True\<rparr>)
      else case wt_ffm_skip rt (sc_partition_id call) (sc_msg_handle call) (unat (sc_vec_idx call))
                  (unat (sc_num_bytes call)) of
        (rt', n) \<Rightarrow> (rt', call\<lparr>sc_ret_size := of_nat n, sc_ret_int := WT_FFM_SUCCESS\<rparr>))"

definition client_buffer :: "wt_ffm_runtime \<Rightarrow> u32 \<Rightarrow> u32 \<Rightarrow> u8 carray" where
  "client_buffer rt a n = (if a = 0 then CNull (unat n) else CArray (mem_read (client_memory rt) a (unat n)))"

definition gate_write :: "wt_secure_domain option \<Rightarrow> wt_ffm_runtime \<Rightarrow> wt_spm_call \<Rightarrow> gate_state" where
  "gate_write domain rt call =
     (let ret = wt_spm_check_buffer domain (sc_buffer call) (sc_num_bytes call) False in
      if ret \<noteq> WT_FFM_SUCCESS then (rt, call\<lparr>sc_must_panic := True, sc_ret_int := ret\<rparr>)
      else case wt_ffm_write rt (sc_partition_id call) (sc_msg_handle call) (unat (sc_vec_idx call))
                  (client_buffer rt (sc_buffer call) (sc_num_bytes call)) of
        (rt', ret) \<Rightarrow> (rt', call\<lparr>sc_must_panic := (ret \<noteq> WT_FFM_SUCCESS), sc_ret_int := ret\<rparr>))"

text \<open>The operations that answer with an error code alone and panic their caller on a failure.\<close>

definition gate_simple :: "wt_ffm_runtime \<times> int \<Rightarrow> wt_spm_call \<Rightarrow> gate_state" where
  "gate_simple r call =
     (fst r, call\<lparr>sc_ret_int := snd r, sc_must_panic := (snd r \<noteq> WT_FFM_SUCCESS)\<rparr>)"

definition gate_irq_enable :: "wt_ffm_runtime \<Rightarrow> wt_spm_call \<Rightarrow> wt_spm_call" where
  "gate_irq_enable rt call =
     (case wt_ffm_irq_lookup rt (sc_partition_id call) (sc_signal_mask call) of
        Inl e \<Rightarrow> call\<lparr>sc_must_panic := True, sc_ret_int := e\<rparr>
      | Inr irq \<Rightarrow> call\<lparr>sc_ret_version := irq, sc_ret_int := WT_FFM_SUCCESS\<rparr>)"

definition gate_eoi :: "wt_ffm_runtime \<Rightarrow> wt_spm_call \<Rightarrow> gate_state" where
  "gate_eoi rt call =
     (case wt_ffm_eoi rt (sc_partition_id call) (sc_signal_mask call) of
        (rt', ret) \<Rightarrow>
          (rt', if ret \<noteq> WT_FFM_SUCCESS then call\<lparr>sc_must_panic := True, sc_ret_int := ret\<rparr>
                else case wt_ffm_irq_lookup rt' (sc_partition_id call) (sc_signal_mask call) of
                    Inl e \<Rightarrow> call\<lparr>sc_ret_int := e\<rparr>
                  | Inr irq \<Rightarrow> call\<lparr>sc_ret_version := irq, sc_ret_int := WT_FFM_SUCCESS\<rparr>))"

section \<open>Client requests\<close>

text \<open>
  A client request is issued twice. The first pass posts a message and records it in the
  block; the second harvests the message once it is complete.
\<close>

definition gate_posted :: "nat option \<Rightarrow> wt_spm_call \<Rightarrow> wt_spm_call" where
  "gate_posted m call = (case m of None \<Rightarrow> call | Some i \<Rightarrow> call\<lparr>sc_pending_msg := of_nat i\<rparr>)"

definition gate_resume ::
  "wt_ffm_runtime \<Rightarrow> wt_spm_call \<Rightarrow> (nat \<Rightarrow> gate_state) \<Rightarrow> gate_state" where
  "gate_resume rt call finish =
     (if \<not> wt_spm_pending_owned rt call then (rt, call\<lparr>sc_ret_int := WT_FFM_ERROR_ARGUMENT\<rparr>)
      else if \<not> wt_ffm_msg_complete rt (unat (sc_pending_msg call))
      then (rt, call\<lparr>sc_ret_int := WT_FFM_ERROR_NOT_READY\<rparr>)
      else finish (unat (sc_pending_msg call)))"

definition gate_connect :: "wt_ffm_runtime \<Rightarrow> wt_spm_call \<Rightarrow> gate_state" where
  "gate_connect rt call =
     (if \<not> sc_pending_valid call
      then case wt_ffm_connect_begin rt (sc_partition_id call) (sc_sid call) (sc_version call) of
        (rt', handle, m) \<Rightarrow>
          (rt', if handle \<le> 0
                then (gate_posted m call)\<lparr>sc_ret_handle := handle, sc_ret_int := WT_FFM_SUCCESS,
                       sc_must_panic := (handle = PSA_ERROR_CONNECTION_REFUSED \<or> handle = PSA_ERROR_NOT_SUPPORTED)\<rparr>
                else (gate_posted m call)\<lparr>sc_pending_valid := True, sc_ret_int := WT_FFM_ERROR_NOT_READY\<rparr>)
      else gate_resume rt call (\<lambda>m. case wt_ffm_connect_finish rt m of
        (rt', handle) \<Rightarrow>
          (rt', call\<lparr>sc_ret_handle := handle, sc_pending_valid := False, sc_ret_int := WT_FFM_SUCCESS\<rparr>)))"

definition gate_call :: "wt_ffm_port_ops \<Rightarrow> wt_secure_domain option \<Rightarrow> wt_ffm_runtime \<Rightarrow> wt_spm_call \<Rightarrow> gate_state" where
  "gate_call ops domain rt call =
     (if \<not> sc_pending_valid call
      then (if wt_spm_check_sp_vectors domain call \<noteq> WT_FFM_SUCCESS
            then (rt, call\<lparr>sc_ret_status := PSA_ERROR_PROGRAMMER_ERROR, sc_ret_int := WT_FFM_SUCCESS,
                        sc_must_panic := True\<rparr>)
            else case wt_ffm_call_begin ops rt (sc_partition_id call) (sc_msg_handle call) (sc_call_type call)
                        (CArray (take (unat (sc_sp_in_len call)) (sc_sp_in call)))
                        (CArray (take (unat (sc_sp_out_len call)) (sc_sp_out call))) of
              (rt', status, m) \<Rightarrow>
                (rt', if status \<noteq> PSA_SUCCESS
                      then (gate_posted m call)\<lparr>sc_ret_status := status, sc_ret_int := WT_FFM_SUCCESS,
                             sc_must_panic := (status = PSA_ERROR_PROGRAMMER_ERROR)\<rparr>
                      else (gate_posted m call)\<lparr>sc_ret_status := status, sc_pending_valid := True,
                             sc_ret_int := WT_FFM_ERROR_NOT_READY\<rparr>))
      else gate_resume rt call (\<lambda>m.
        case wt_ffm_call_finish ops rt m (CArray (take (unat (sc_sp_out_len call)) (sc_sp_out call))) of
          (rt', status, vs) \<Rightarrow>
            (rt', call\<lparr>sc_ret_status := status, sc_sp_out := vs @ drop (length vs) (sc_sp_out call),
                       sc_pending_valid := False, sc_ret_int := WT_FFM_SUCCESS,
                       sc_must_panic := (status = PSA_ERROR_PROGRAMMER_ERROR)\<rparr>)))"

definition gate_close :: "wt_ffm_runtime \<Rightarrow> wt_spm_call \<Rightarrow> gate_state" where
  "gate_close rt call =
     (if \<not> sc_pending_valid call
      then case wt_ffm_close_begin rt (sc_partition_id call) (sc_msg_handle call) of
        (rt', ret, m) \<Rightarrow>
          (let call' = gate_posted m call in
           (rt', if ret \<noteq> WT_FFM_SUCCESS then call'\<lparr>sc_ret_int := ret, sc_must_panic := True\<rparr>
                 else if unat (sc_pending_msg call') = WT_FFM_QUEUE_NONE then call'\<lparr>sc_ret_int := WT_FFM_SUCCESS\<rparr>
                 else call'\<lparr>sc_pending_valid := True, sc_ret_int := WT_FFM_ERROR_NOT_READY\<rparr>))
      else gate_resume rt call (\<lambda>m. case wt_ffm_close_finish rt m of
        (rt', ret) \<Rightarrow> (rt', call\<lparr>sc_ret_int := ret, sc_pending_valid := False\<rparr>)))"

section \<open>The gate\<close>

definition gate_reset :: "wt_spm_call \<Rightarrow> wt_spm_call" where
  "gate_reset call = call\<lparr>sc_ret_status := PSA_ERROR_PROGRAMMER_ERROR, sc_ret_size := 0,
     sc_ret_int := WT_FFM_ERROR_ARGUMENT, sc_must_panic := False\<rparr>"

definition gate_run ::
  "wt_ffm_port_ops \<Rightarrow> wt_secure_domain option \<Rightarrow> wt_ffm_runtime \<Rightarrow> wt_spm_call \<Rightarrow> wt_spm_op \<Rightarrow> gate_state option" where
  "gate_run ops domain rt call op =
     (case op of
        WT_SPM_OP_WAIT \<Rightarrow> Some (gate_wait domain rt call)
      | WT_SPM_OP_GET \<Rightarrow> Some (gate_get domain rt call)
      | WT_SPM_OP_SET_RHANDLE \<Rightarrow>
          Some (gate_simple (wt_ffm_set_rhandle rt (sc_partition_id call) (sc_msg_handle call) (sc_rhandle call)) call)
      | WT_SPM_OP_READ \<Rightarrow> Some (gate_read domain rt call)
      | WT_SPM_OP_SKIP \<Rightarrow> Some (gate_skip rt call)
      | WT_SPM_OP_WRITE \<Rightarrow> Some (gate_write domain rt call)
      | WT_SPM_OP_REPLY \<Rightarrow>
          Some (gate_simple (wt_ffm_reply rt (sc_partition_id call) (sc_msg_handle call) (sc_status call)) call)
      | WT_SPM_OP_NOTIFY \<Rightarrow> Some (gate_simple (wt_ffm_notify rt (sc_notify_partition call)) call)
      | WT_SPM_OP_CLEAR \<Rightarrow> Some (gate_simple (wt_ffm_clear rt (sc_partition_id call)) call)
      | WT_SPM_OP_EOI \<Rightarrow> Some (gate_eoi rt call)
      | WT_SPM_OP_IRQ_ENABLE \<Rightarrow> Some (rt, gate_irq_enable rt call)
      | WT_SPM_OP_VERSION \<Rightarrow>
          Some (rt, call\<lparr>sc_ret_version := wt_ffm_service_version rt (sc_partition_id call) (sc_sid call),
                         sc_ret_int := WT_FFM_SUCCESS\<rparr>)
      | WT_SPM_OP_LIFECYCLE \<Rightarrow> Some (rt, call\<lparr>sc_ret_version := rt_lifecycle rt, sc_ret_int := WT_FFM_SUCCESS\<rparr>)
      | WT_SPM_OP_CONNECT \<Rightarrow> Some (gate_connect rt call)
      | WT_SPM_OP_CALL \<Rightarrow> Some (gate_call ops domain rt call)
      | WT_SPM_OP_CLOSE \<Rightarrow> Some (gate_close rt call)
      | _ \<Rightarrow> None)"

definition wt_spm_gate_held ::
  "wt_ffm_port_ops \<Rightarrow> wt_ffm_runtime \<Rightarrow> wt_secure_domain option \<Rightarrow> wt_spm_call \<Rightarrow> gate_state \<times> int" where
  "wt_spm_gate_held ops rt caller_domain call =
     (let call1 = gate_reset call in
      case sc_op call1 of
        OutOfRange _ \<Rightarrow> ((rt, call1), WT_FFM_ERROR_ARGUMENT)
      | Enum op \<Rightarrow>
         (case gate_run ops caller_domain rt call1 op of
            None \<Rightarrow> ((rt, call1), WT_FFM_ERROR_ARGUMENT)
          | Some (rt', call') \<Rightarrow> ((rt', call'), WT_FFM_SUCCESS)))"

definition wt_spm_gate ::
  "wt_ffm_port_ops \<Rightarrow> wt_ffm_runtime \<Rightarrow> wt_secure_domain option \<Rightarrow> wt_spm_call option \<Rightarrow>
   wt_ffm_runtime \<times> wt_spm_call option \<times> int" where
  "wt_spm_gate ops rt caller_domain call =
     (case call of
        None \<Rightarrow> (rt, None, WT_FFM_ERROR_ARGUMENT)
      | Some c \<Rightarrow> (case wt_spm_gate_held ops rt caller_domain c of ((rt', held), ret) \<Rightarrow> (rt', Some held, ret)))"

definition wt_spm_call_would_block :: "wt_spm_call option \<Rightarrow> bool" where
  "wt_spm_call_would_block call =
     (case call of
        None \<Rightarrow> False
      | Some c \<Rightarrow>
         (if sc_ret_int c \<noteq> WT_FFM_ERROR_NOT_READY then False
          else if sc_op c = Enum WT_SPM_OP_WAIT then sc_timeout c AND PSA_BLOCK \<noteq> 0
          else sc_op c = Enum WT_SPM_OP_CONNECT \<or> sc_op c = Enum WT_SPM_OP_CALL \<or> sc_op c = Enum WT_SPM_OP_CLOSE))"

text \<open>The retries of the direct transport: the first argument counts those that are left.\<close>

fun transport_loop ::
  "nat \<Rightarrow> wt_ffm_port_ops \<Rightarrow> wt_ffm_runtime \<Rightarrow> wt_spm_call \<Rightarrow> int \<Rightarrow> wt_ffm_runtime \<times> wt_spm_call \<times> int" where
  "transport_loop 0 ops rt call status = (rt, call, status)"
| "transport_loop (Suc n) ops rt call status =
     (if status = WT_FFM_SUCCESS \<and> sc_pending_valid call \<and> sc_ret_int call = WT_FFM_ERROR_NOT_READY
      then case wt_spm_gate_held ops (fst (wt_ffm_dispatch_pending ops rt (unat (sc_pending_msg call)))) None call of
        ((rt', call'), status') \<Rightarrow> transport_loop n ops rt' call' status'
      else (rt, call, status))"

definition wt_spm_transport_direct ::
  "wt_ffm_port_ops \<Rightarrow> wt_ffm_runtime \<Rightarrow> wt_spm_call \<Rightarrow> wt_ffm_runtime \<times> wt_spm_call \<times> int" where
  "wt_spm_transport_direct ops rt call =
     (case wt_spm_gate_held ops rt None call of ((rt', call'), status) \<Rightarrow> transport_loop 8 ops rt' call' status)"

end
