(* ===== verification/Spm_Memory.thy ===== *)
theory Spm_Memory
  imports Spm_Gate Ffm_Serve
begin

text \<open>
  How the operations of the runtime depend on the client memory. Apart from the capture of
  the request of a call and the publication of its results, no operation reads or writes it:
  each commutes with a replacement of the memory.
\<close>

section \<open>Operations commute with the memory\<close>

abbreviation set_mem :: "(u32 \<Rightarrow> u8) \<Rightarrow> wt_ffm_runtime \<Rightarrow> wt_ffm_runtime" where
  "set_mem mem \<equiv> client_memory_update (\<lambda>_. mem)"

named_theorems mem_free \<open>operations that commute with the client memory\<close>

lemma views_mem [mem_free]:
  "msg_of (set_mem mem rt) = msg_of rt" "conn_of (set_mem mem rt) = conn_of rt"
  "svc_of (set_mem mem rt) = svc_of rt" "part_of (set_mem mem rt) = part_of rt"
  by (simp_all add: fun_eq_iff msg_of_def conn_of_def svc_of_def part_of_def)

lemma upd_mem [mem_free]:
  "upd_msg i f (set_mem mem rt) = set_mem mem (upd_msg i f rt)"
  "upd_conn i g (set_mem mem rt) = set_mem mem (upd_conn i g rt)"
  "upd_svc i h (set_mem mem rt) = set_mem mem (upd_svc i h rt)"
  "upd_part i k (set_mem mem rt) = set_mem mem (upd_part i k rt)"
  by (simp_all add: upd_msg_def upd_conn_def upd_svc_def upd_part_def)

lemma lookup_mem [mem_free]:
  "wt_ffm_find_partition (set_mem mem rt) = wt_ffm_find_partition rt"
  "wt_ffm_find_service (set_mem mem rt) = wt_ffm_find_service rt"
  "wt_ffm_caller_allowed (set_mem mem rt) = wt_ffm_caller_allowed rt"
  "wt_ffm_client_connection_count (set_mem mem rt) = wt_ffm_client_connection_count rt"
  "wt_ffm_ns_connection_count (set_mem mem rt) = wt_ffm_ns_connection_count rt"
  "wt_ffm_partition_signal_set (set_mem mem rt) = wt_ffm_partition_signal_set rt"
  by (simp_all add: fun_eq_iff wt_ffm_find_partition_def wt_ffm_find_service_def wt_ffm_caller_allowed_def
      wt_ffm_client_connection_count_def wt_ffm_ns_connection_count_def wt_ffm_partition_signal_set_def Let_def mem_free
      split: option.split)

lemma handle_mem [mem_free]:
  "wt_ffm_caller_instance (set_mem mem rt) = wt_ffm_caller_instance rt"
  "wt_ffm_message_from_handle (set_mem mem rt) = wt_ffm_message_from_handle rt"
  "wt_ffm_irq_lookup (set_mem mem rt) = wt_ffm_irq_lookup rt"
  "wt_ffm_msg_complete (set_mem mem rt) = wt_ffm_msg_complete rt"
  "wt_ffm_wait (set_mem mem rt) = wt_ffm_wait rt"
  by (simp_all add: fun_eq_iff wt_ffm_caller_instance_def wt_ffm_message_from_handle_def wt_ffm_irq_lookup_def
      wt_ffm_msg_complete_def wt_ffm_wait_def Let_def mem_free split: option.split sum.split prod.split)

lemma access_mem [mem_free]:
  "wt_ffm_connection_from_handle (set_mem mem rt) = wt_ffm_connection_from_handle rt"
  "wt_ffm_service_version (set_mem mem rt) = wt_ffm_service_version rt"
  "wt_ffm_msg_access_check (set_mem mem rt) = wt_ffm_msg_access_check rt"
  by (simp_all add: fun_eq_iff wt_ffm_connection_from_handle_def wt_ffm_service_version_def
      wt_ffm_msg_access_check_def Let_def mem_free cong: sum.case_cong if_cong)

lemma pool_mem [mem_free]:
  "wt_ffm_release_connection (set_mem mem rt) c = set_mem mem (wt_ffm_release_connection rt c)"
  "wt_ffm_release_message (set_mem mem rt) m = set_mem mem (wt_ffm_release_message rt m)"
  "wt_ffm_alloc_connection (set_mem mem rt) = map_sum id (map_prod (set_mem mem) id) (wt_ffm_alloc_connection rt)"
  "wt_ffm_alloc_message (set_mem mem rt) = map_sum id (map_prod (set_mem mem) id) (wt_ffm_alloc_message rt)"
  "wt_ffm_close_abandoned (set_mem mem rt) c = map_prod (set_mem mem) id (wt_ffm_close_abandoned rt c)"
  by (simp_all add: wt_ffm_release_connection_def wt_ffm_release_message_def wt_ffm_alloc_connection_def
      wt_ffm_alloc_message_def wt_ffm_close_abandoned_def mem_free split: option.split)

lemma queue_mem [mem_free]:
  "wt_ffm_update_service_signal (set_mem mem rt) s = set_mem mem (wt_ffm_update_service_signal rt s)"
  by (simp add: wt_ffm_update_service_signal_def Let_def mem_free)

lemma enqueue_mem [mem_free]:
  "wt_ffm_enqueue (set_mem mem rt) s m = set_mem mem (wt_ffm_enqueue rt s m)"
  by (simp add: wt_ffm_enqueue_def Let_def mem_free)

lemma post_mem [mem_free]:
  "ffm_post (set_mem mem rt) m caller c s t = set_mem mem (ffm_post rt m caller c s t)"
  "ffm_drop_connection (set_mem mem rt) c = set_mem mem (ffm_drop_connection rt c)"
  "wt_ffm_finish_abandoned (set_mem mem rt) m = set_mem mem (wt_ffm_finish_abandoned rt m)"
  by (simp_all add: ffm_post_def ffm_drop_connection_def wt_ffm_finish_abandoned_def Let_def mem_free)

lemma serve_mem [mem_free]:
  "wt_ffm_get (set_mem mem rt) pid sig = map_prod (set_mem mem) id (wt_ffm_get rt pid sig)"
  "wt_ffm_set_rhandle (set_mem mem rt) pid h rh = map_prod (set_mem mem) id (wt_ffm_set_rhandle rt pid h rh)"
  "wt_ffm_read (set_mem mem rt) pid h i nul n = map_prod (set_mem mem) id (wt_ffm_read rt pid h i nul n)"
  "wt_ffm_skip (set_mem mem rt) pid h i n = map_prod (set_mem mem) id (wt_ffm_skip rt pid h i n)"
  "wt_ffm_write (set_mem mem rt) pid h i buf = map_prod (set_mem mem) id (wt_ffm_write rt pid h i buf)"
  "wt_ffm_reply (set_mem mem rt) pid h st = map_prod (set_mem mem) id (wt_ffm_reply rt pid h st)"
  "wt_ffm_notify (set_mem mem rt) pid = map_prod (set_mem mem) id (wt_ffm_notify rt pid)"
  "wt_ffm_clear (set_mem mem rt) pid = map_prod (set_mem mem) id (wt_ffm_clear rt pid)"
  "wt_ffm_eoi (set_mem mem rt) pid sig = map_prod (set_mem mem) id (wt_ffm_eoi rt pid sig)"
  by (simp_all add: wt_ffm_get_def wt_ffm_set_rhandle_def wt_ffm_read_def wt_ffm_skip_def wt_ffm_write_def
      wt_ffm_reply_def wt_ffm_notify_def wt_ffm_clear_def wt_ffm_eoi_def Let_def mem_free
      split: sum.split option.split)

lemma client_mem [mem_free]:
  "wt_ffm_connect_begin (set_mem mem rt) caller sid v = map_prod (set_mem mem) id (wt_ffm_connect_begin rt caller sid v)"
  "wt_ffm_close_begin (set_mem mem rt) caller h = map_prod (set_mem mem) id (wt_ffm_close_begin rt caller h)"
  "wt_ffm_connect_finish (set_mem mem rt) m = map_prod (set_mem mem) id (wt_ffm_connect_finish rt m)"
  "wt_ffm_close_finish (set_mem mem rt) m = map_prod (set_mem mem) id (wt_ffm_close_finish rt m)"
  by (auto simp: wt_ffm_connect_begin_def wt_ffm_close_begin_def wt_ffm_connect_finish_def wt_ffm_close_finish_def
      Let_def mem_free split: sum.split prod.split bool.split)

section \<open>Capture and publication\<close>

lemma copy_in_agree:
  "(\<And>v. v \<in> set ins \<Longrightarrow> inv_len v \<noteq> 0 \<Longrightarrow>
      mem_read mem (inv_base v) (unat (inv_len v)) = mem_read mem' (inv_base v) (unat (inv_len v))) \<Longrightarrow>
   ffm_copy_in mem ins i off m = ffm_copy_in mem' ins i off m"
  by (induction ins arbitrary: i off m) auto

definition reads_agree :: "psa_invec list \<Rightarrow> (u32 \<Rightarrow> u8) \<Rightarrow> (u32 \<Rightarrow> u8) \<Rightarrow> bool" where
  "reads_agree ins mem mem' \<longleftrightarrow> (\<forall>v \<in> set ins. inv_len v \<noteq> 0 \<longrightarrow>
     mem_read mem (inv_base v) (unat (inv_len v)) = mem_read mem' (inv_base v) (unat (inv_len v)))"

lemma prepare_mem:
  assumes "reads_agree (carray_list ins) mem (client_memory rt)"
  shows "wt_ffm_prepare_vectors ops (set_mem mem rt) m ins outs =
     map_prod (set_mem mem) id (wt_ffm_prepare_vectors ops rt m ins outs)"
proof -
  have "ffm_copy_in mem (carray_list ins) 0 0 x = ffm_copy_in (client_memory rt) (carray_list ins) 0 0 x" for x
    by (rule copy_in_agree) (use assms in \<open>auto simp: reads_agree_def\<close>)
  then show ?thesis
    by (simp add: wt_ffm_prepare_vectors_def Let_def mem_free split: option.split prod.split)
qed

lemma alloc_message_memory: "wt_ffm_alloc_message rt = Inr (rt', m) \<Longrightarrow> client_memory rt' = client_memory rt"
  by (auto simp: wt_ffm_alloc_message_def split: option.splits)

lemma call_begin_mem:
  assumes "reads_agree (carray_list ins) mem (client_memory rt)"
  shows "wt_ffm_call_begin ops (set_mem mem rt) caller h t ins outs =
     map_prod (set_mem mem) id (wt_ffm_call_begin ops rt caller h t ins outs)"
proof -
  have p: "wt_ffm_prepare_vectors ops (upd_msg m g (set_mem mem rt1)) m ins outs =
      map_prod (set_mem mem) id (wt_ffm_prepare_vectors ops (upd_msg m g rt1) m ins outs)"
    if "wt_ffm_alloc_message rt = Inr (rt1, m)" for rt1 m g
    using prepare_mem [of ins mem "upd_msg m g rt1"] assms alloc_message_memory [OF that] by (simp add: mem_free)
  show ?thesis
  proof (cases "wt_ffm_alloc_message rt")
    case (Inl e)
    then show ?thesis
      by (simp add: wt_ffm_call_begin_def ffm_call_enqueue_def Let_def mem_free split: sum.split prod.split)
  next
    case (Inr r)
    obtain rt1 m where r: "r = (rt1, m)" by fastforce
    show ?thesis using Inr r p [of rt1 m]
      by (auto simp: wt_ffm_call_begin_def ffm_call_enqueue_def Let_def mem_free split: sum.split prod.split)
  qed
qed

definition publish_one :: "wt_ffm_message_runtime \<Rightarrow> nat \<Rightarrow> (u32 \<Rightarrow> u8) \<Rightarrow> (u32 \<Rightarrow> u8)" where
  "publish_one m i mem = (if msg_out_position m i \<noteq> 0
     then mem_write mem (msg_client_output m i) (buf_read (msg_output m) (msg_out_offset m i) (msg_out_position m i))
     else mem)"

definition published :: "wt_ffm_port_ops \<Rightarrow> wt_ffm_message_runtime \<Rightarrow> (u32 \<Rightarrow> u8) \<Rightarrow> (u32 \<Rightarrow> u8)" where
  "published ops m mem = (if ffm_outputs_writable ops m then ffm_publish m mem else mem)"

lemma publish_fold: "ffm_publish m = fold (publish_one m) [0..<msg_out_count m]"
  by (simp add: fun_eq_iff ffm_publish_def publish_one_def [abs_def])

lemma call_finish_mem:
  assumes "m < WT_FFM_MAX_MESSAGES"
  shows "wt_ffm_call_finish ops (set_mem mem rt) m outs =
     map_prod (set_mem (published ops (msg_of rt m) mem)) id (wt_ffm_call_finish ops rt m outs)"
  using assms by (simp add: wt_ffm_call_finish_def ffm_harvest_call_def published_def Let_def mem_free)

lemma publish_one_point: "mem a = mem' a \<Longrightarrow> publish_one m i mem a = publish_one m i mem' a"
  by (simp add: publish_one_def mem_write_def)

lemma publish_point: "mem a = mem' a \<Longrightarrow> published ops m mem a = published ops m mem' a"
proof -
  have "fold (publish_one m) js mem a = fold (publish_one m) js mem' a" if "mem a = mem' a" for js mem mem'
    using that
  proof (induction js arbitrary: mem mem')
    case (Cons i js)
    show ?case using Cons.IH [of "publish_one m i mem" "publish_one m i mem'"] Cons.prems
        publish_one_point [of mem a mem' m i] by simp
  qed simp
  from this [of mem mem' "[0..<msg_out_count m]"]
  show "mem a = mem' a \<Longrightarrow> ?thesis" by (simp add: published_def publish_fold)
qed

lemma publish_one_outside:
  "\<not> in_range a (msg_client_output m i) (msg_out_position m i) \<Longrightarrow> publish_one m i mem a = mem a"
  by (simp add: publish_one_def mem_write_outside buf_read_def)

lemma publish_checked:
  assumes "published ops m mem a \<noteq> mem a"
  shows "\<exists>i < msg_out_count m. in_range a (msg_client_output m i) (msg_out_position m i) \<and>
    po_check_write ops (msg_caller m) (msg_client_output m i) (of_nat (msg_out_position m i))"
proof -
  have w: "ffm_outputs_writable ops m" using assms(1) by (auto simp: published_def split: if_splits)
  have out: "fold (publish_one m) js mem a = mem a"
    if "\<forall>i \<in> set js. \<not> in_range a (msg_client_output m i) (msg_out_position m i)" for js mem
    using that by (induction js arbitrary: mem) (simp_all add: publish_one_outside)
  have "fold (publish_one m) [0..<msg_out_count m] mem a \<noteq> mem a" using assms w by (simp add: published_def publish_fold)
  then obtain i where i: "i < msg_out_count m" "in_range a (msg_client_output m i) (msg_out_position m i)"
    using out [of "[0..<msg_out_count m]" mem] that by (auto simp: Ball_def)
  then have "msg_out_position m i \<noteq> 0" by (simp add: in_range_def)
  then show ?thesis using i w unfolding ffm_outputs_writable_def list_all_iff set_upt by force
qed

end
