(* ===== verification/Spm_Streams.thy ===== *)
theory Spm_Streams
  imports Spm_Memory
begin

text \<open>
  The part of the runtime invariant that no partition can break, however it fills its request
  blocks: the streams of every message stay inside the transfer buffers.
\<close>

definition stream_safe :: "wt_ffm_message_runtime \<Rightarrow> bool" where
  "stream_safe m \<longleftrightarrow> streams_ok m \<and>
     (\<not> msg_allocated m \<longrightarrow> (\<forall>i. msg_in_position m i = 0) \<and> (\<forall>i. msg_out_position m i = 0))"

definition streams_inv :: "wt_ffm_runtime \<Rightarrow> bool" where
  "streams_inv rt \<longleftrightarrow> length (rt_messages rt) = WT_FFM_MAX_MESSAGES \<and>
     (\<forall>m < WT_FFM_MAX_MESSAGES. stream_safe (msg_of rt m))"

named_theorems streams \<open>operations that keep the streams of the messages\<close>

lemma streams_upd [streams]:
  "streams_inv rt \<Longrightarrow> (\<And>x. stream_safe x \<Longrightarrow> stream_safe (f x)) \<Longrightarrow> streams_inv (upd_msg i f rt)"
  by (auto simp: streams_inv_def)

lemma streams_upd_at:
  "streams_inv rt \<Longrightarrow> stream_safe (f (msg_of rt i)) \<Longrightarrow> streams_inv (upd_msg i f rt)"
  by (auto simp: streams_inv_def)

lemma streams_other [simp]:
  "streams_inv (upd_conn i g rt) = streams_inv rt" "streams_inv (upd_svc i h rt) = streams_inv rt"
  "streams_inv (upd_part i k rt) = streams_inv rt" "streams_inv (rt\<lparr>client_memory := mem\<rparr>) = streams_inv rt"
  "streams_inv (rt\<lparr>g_wt_ffm_refuse_info := a\<rparr>) = streams_inv rt"
  "streams_inv (rt\<lparr>g_wt_ffm_refuse_base := a\<rparr>) = streams_inv rt"
  by (simp_all add: streams_inv_def msg_of_def upd_conn_def upd_svc_def upd_part_def)

lemma stream_safe_fields [simp]:
  "stream_safe (m\<lparr>msg_next := a\<rparr>) = stream_safe m" "stream_safe (m\<lparr>msg_active := b\<rparr>) = stream_safe m"
  "stream_safe (m\<lparr>msg_complete := b\<rparr>) = stream_safe m" "stream_safe (m\<lparr>msg_abandoned := c\<rparr>) = stream_safe m"
  "stream_safe (m\<lparr>msg_reply_status := s\<rparr>) = stream_safe m" "stream_safe (m\<lparr>msg_caller := s\<rparr>) = stream_safe m"
  "stream_safe (m\<lparr>msg_connection_index := a\<rparr>) = stream_safe m"
  "stream_safe (m\<lparr>msg_service_index := a\<rparr>) = stream_safe m" "stream_safe (m\<lparr>msg_type := s\<rparr>) = stream_safe m"
  "stream_safe (m\<lparr>msg_generation := g\<rparr>) = stream_safe m"
  by (simp_all add: stream_safe_def streams_ok_def)

lemma stream_safe_alloc [simp]: "stream_safe m \<Longrightarrow> stream_safe (m\<lparr>msg_allocated := True\<rparr>)"
  by (simp add: stream_safe_def streams_ok_def)

lemma stream_safe_zero [simp]: "stream_safe zero_ffm_message"
  by (simp add: stream_safe_def streams_ok_def zero_ffm_message_def)

lemma streams_pool [streams]:
  "streams_inv rt \<Longrightarrow> streams_inv (wt_ffm_release_message rt m)"
  "streams_inv rt \<Longrightarrow> streams_inv (wt_ffm_release_connection rt c)"
  "streams_inv rt \<Longrightarrow> streams_inv (wt_ffm_update_service_signal rt s)"
  "streams_inv rt \<Longrightarrow> streams_inv (wt_ffm_enqueue rt s m)"
  "streams_inv rt \<Longrightarrow> streams_inv (ffm_post rt m caller c s t)"
  "streams_inv rt \<Longrightarrow> streams_inv (ffm_drop_connection rt c)"
  "streams_inv rt \<Longrightarrow> streams_inv (fst (wt_ffm_close_abandoned rt c))"
  by (auto simp: wt_ffm_release_message_def wt_ffm_release_connection_def wt_ffm_update_service_signal_def
      wt_ffm_enqueue_def ffm_post_def ffm_drop_connection_def wt_ffm_close_abandoned_def Let_def
      intro!: streams_upd split: option.split)

lemma streams_alloc:
  assumes "streams_inv rt" "wt_ffm_alloc_message rt = Inr (rt', m)"
  shows "streams_inv rt'" "m < WT_FFM_MAX_MESSAGES"
    "\<And>i. msg_in_position (msg_of rt' m) i = 0" "\<And>i. msg_out_position (msg_of rt' m) i = 0"
proof -
  obtain f: "first_idx (\<lambda>m. \<not> msg_allocated m) (rt_messages rt) = Some m"
      and r: "rt' = upd_msg m (\<lambda>m. m\<lparr>msg_allocated := True, msg_next := WT_FFM_QUEUE_NONE\<rparr>) rt"
    using assms(2) by (auto simp: wt_ffm_alloc_message_def split: option.splits)
  have m: "m < length (rt_messages rt)" "\<not> msg_allocated (msg_of rt m)"
    using first_idx_Some [OF f] by (auto simp: msg_of_def)
  show "m < WT_FFM_MAX_MESSAGES" using m(1) assms(1) by (simp add: streams_inv_def)
  show "streams_inv rt'" unfolding r using assms(1) by (intro streams_upd) auto
  show "msg_in_position (msg_of rt' m) i = 0" "msg_out_position (msg_of rt' m) i = 0" for i
    using assms(1) m by (auto simp: r streams_inv_def stream_safe_def)
qed

lemma streams_alloc_connection:
  "streams_inv rt \<Longrightarrow> wt_ffm_alloc_connection rt = Inr (rt', c) \<Longrightarrow> streams_inv rt'"
  by (auto simp: wt_ffm_alloc_connection_def split: option.splits)

lemma streams_abandoned [streams]: "streams_inv rt \<Longrightarrow> streams_inv (wt_ffm_finish_abandoned rt m)"
  unfolding wt_ffm_finish_abandoned_def Let_def by (auto intro!: streams streams_upd)

section \<open>Operations of the gate\<close>

lemma streams_get: "streams_inv rt \<Longrightarrow> streams_inv (fst (wt_ffm_get rt pid sig))"
  by (auto simp: wt_ffm_get_def Let_def intro!: streams split: sum.split option.split)

lemma streams_reply: "streams_inv rt \<Longrightarrow> streams_inv (fst (wt_ffm_reply rt pid h st))"
  by (auto simp: wt_ffm_reply_def Let_def intro!: streams split: sum.split)

lemma streams_signals:
  "streams_inv rt \<Longrightarrow> streams_inv (fst (wt_ffm_set_rhandle rt pid h rh))"
  "streams_inv rt \<Longrightarrow> streams_inv (fst (wt_ffm_notify rt pid))"
  "streams_inv rt \<Longrightarrow> streams_inv (fst (wt_ffm_clear rt pid))"
  "streams_inv rt \<Longrightarrow> streams_inv (fst (wt_ffm_eoi rt pid sig))"
  by (simp_all add: wt_ffm_set_rhandle_def wt_ffm_notify_def wt_ffm_clear_def wt_ffm_eoi_def split: sum.split)

lemma from_handle_safe:
  "streams_inv rt \<Longrightarrow> wt_ffm_message_from_handle rt pid h = Inr m \<Longrightarrow> stream_safe (msg_of rt m) \<and> msg_allocated (msg_of rt m)"
  by (auto simp: streams_inv_def wt_ffm_message_from_handle_def Let_def dest: decode_handle_index split: sum.splits if_splits)

lemma advance_in_safe:
  assumes "stream_safe x" "msg_allocated x" "n \<le> msg_in_size x i - msg_in_position x i"
  shows "stream_safe (x\<lparr>msg_in_position := (msg_in_position x)(i := msg_in_position x i + n)\<rparr>)"
proof -
  have "msg_in_position x i \<le> msg_in_size x i" using assms(1) by (simp add: stream_safe_def streams_ok_def)
  then have "msg_in_position x i + n \<le> msg_in_size x i" using assms(3) by linarith
  then show ?thesis using assms(1,2) by (simp add: stream_safe_def streams_ok_def)
qed

lemma exhaust_in_safe:
  "stream_safe x \<Longrightarrow> msg_allocated x \<Longrightarrow>
     stream_safe (x\<lparr>msg_in_position := (msg_in_position x)(i := msg_in_size x i)\<rparr>)"
  by (simp add: stream_safe_def streams_ok_def)

lemma advance_out_safe:
  assumes "stream_safe x" "msg_allocated x" "n \<le> msg_out_size x i - msg_out_position x i"
  shows "stream_safe (x\<lparr>msg_output := o', msg_out_position := (msg_out_position x)(i := msg_out_position x i + n)\<rparr>)"
proof -
  have "msg_out_position x i \<le> msg_out_size x i" using assms(1) by (simp add: stream_safe_def streams_ok_def)
  then have "msg_out_position x i + n \<le> msg_out_size x i" using assms(3) by linarith
  then show ?thesis using assms(1,2) by (simp add: stream_safe_def streams_ok_def)
qed

lemma streams_read:
  "streams_inv rt \<Longrightarrow> streams_inv (fst (wt_ffm_read rt pid h i nul n))"
  using from_handle_safe [of rt pid h]
  by (auto simp: wt_ffm_read_def Let_def intro!: streams_upd_at advance_in_safe exhaust_in_safe split: sum.split)

lemma streams_skip:
  "streams_inv rt \<Longrightarrow> streams_inv (fst (wt_ffm_skip rt pid h i n))"
  using from_handle_safe [of rt pid h]
  by (auto simp: wt_ffm_skip_def Let_def intro!: streams_upd_at advance_in_safe exhaust_in_safe split: sum.split)

lemma streams_write:
  "streams_inv rt \<Longrightarrow> streams_inv (fst (wt_ffm_write rt pid h i b))"
  using from_handle_safe [of rt pid h]
  by (auto simp: wt_ffm_write_def Let_def intro!: streams_upd_at advance_out_safe split: sum.split)

lemma streams_connect_begin: "streams_inv rt \<Longrightarrow> streams_inv (fst (wt_ffm_connect_begin rt caller sid v))"
  unfolding wt_ffm_connect_begin_def Let_def
  by (auto intro!: streams_pool dest: streams_alloc_connection streams_alloc(1) [OF streams_alloc_connection]
      split: sum.split prod.split)

lemma streams_close_begin:
  assumes "streams_inv rt"
  shows "streams_inv (fst (wt_ffm_close_begin rt caller h))"
proof -
  have a: "streams_inv rt1" if "wt_ffm_close_abandoned rt c = (rt1, b)" for c rt1 b
    using streams_pool(7) [OF assms, of c] that by simp
  show ?thesis
    unfolding wt_ffm_close_begin_def Let_def using assms
    by (auto intro!: streams_pool dest: a streams_alloc(1) [OF a] split: sum.split prod.split bool.split)
qed

lemma streams_finish:
  "streams_inv rt \<Longrightarrow> streams_inv (fst (wt_ffm_connect_finish rt m))"
  "streams_inv rt \<Longrightarrow> streams_inv (fst (wt_ffm_close_finish rt m))"
  "streams_inv rt \<Longrightarrow> streams_inv (fst (wt_ffm_call_finish ops rt m outs))"
  by (simp_all add: wt_ffm_connect_finish_def wt_ffm_close_finish_def wt_ffm_call_finish_def ffm_harvest_call_def
      Let_def streams)

lemma streams_prepare:
  assumes s: "streams_inv rt" and a: "msg_allocated (msg_of rt m)"
    and p: "\<And>i. msg_in_position (msg_of rt m) i = 0" "\<And>i. msg_out_position (msg_of rt m) i = 0"
    and e: "wt_ffm_prepare_vectors ops rt m ins outs = (rt', ret)"
  shows "streams_inv rt'"
proof (cases "ret = WT_FFM_SUCCESS")
  case True
  note ok = prepare_accepted [OF e True]
  let ?M = "ffm_layout_out (carray_list outs) 0 0 (ffm_copy_in (client_memory rt) (carray_list ins) 0 0
      ((msg_of rt m)\<lparr>msg_in_count := length (carray_list ins), msg_out_count := length (carray_list outs)\<rparr>))"
  have "streams_ok ?M" by (rule streams_prepared [OF ok(2,3) p])
  moreover have "msg_allocated ?M = msg_allocated (msg_of rt m)" by simp
  ultimately have "stream_safe ?M" using a by (simp add: stream_safe_def)
  then show ?thesis unfolding ok(1) by (intro streams_upd_at [OF s])
next
  case False
  then show ?thesis using prepare_refused [OF e False] s by auto
qed

lemma streams_call_begin:
  assumes s: "streams_inv rt"
  shows "streams_inv (fst (wt_ffm_call_begin ops rt caller h t ins outs))"
proof -
  let ?f = "\<lambda>c rt1 x. x\<lparr>msg_caller := caller, msg_connection_index := c,
      msg_service_index := conn_service_index (conn_of rt1 c), msg_type := t\<rparr>"
  have p: "streams_inv rt3"
    if "wt_ffm_alloc_message rt = Inr (rt1, m)" "wt_ffm_prepare_vectors ops (upd_msg m (?f c rt1) rt1) m ins outs = (rt3, ret)"
    for rt1 m c rt3 ret
  proof (rule streams_prepare [OF _ _ _ _ that(2)])
    note a = streams_alloc [OF s that(1)]
    show "streams_inv (upd_msg m (?f c rt1) rt1)" by (intro streams_upd a(1)) simp
    show "msg_in_position (msg_of (upd_msg m (?f c rt1) rt1) m) i = 0"
      "msg_out_position (msg_of (upd_msg m (?f c rt1) rt1) m) i = 0" for i
      using a(3,4) by simp_all
    show "msg_allocated (msg_of (upd_msg m (?f c rt1) rt1) m)"
      using that(1) a(2) s by (auto simp: wt_ffm_alloc_message_def streams_inv_def split: option.splits)
  qed
  show ?thesis
    unfolding wt_ffm_call_begin_def ffm_call_enqueue_def Let_def using s
    by (auto intro!: streams_pool dest: p streams_alloc(1) [OF s] split: sum.split prod.split)
qed

end
