(* ===== verification/Spm_Safety.thy ===== *)
theory Spm_Safety
  imports Spm_Streams Ffm_System
begin

text \<open>
  What the gate guarantees. Confinement holds for every request block, so also for those of
  a compromised partition; the refinement of the runtime operations holds for a partition
  that has at most one request of its own in flight.
\<close>

section \<open>Confinement\<close>

text \<open>
  \<open>confined d f rt\<close>: \<open>f\<close> changes only memory that \<open>d\<close> may write, and its effect depends only
  on memory that \<open>d\<close> may read.
\<close>

definition confined :: "wt_secure_domain \<Rightarrow> (wt_ffm_runtime \<Rightarrow> wt_ffm_runtime \<times> 'b) \<Rightarrow> wt_ffm_runtime \<Rightarrow> bool" where
  "confined d f rt \<longleftrightarrow>
     (\<forall>a. client_memory (fst (f rt)) a \<noteq> client_memory rt a \<longrightarrow> may_write d a) \<and>
     (\<forall>mem. (\<forall>a. may_read d a \<longrightarrow> mem a = client_memory rt a) \<longrightarrow>
        (\<exists>mem'. f (set_mem mem rt) = map_prod (set_mem mem') id (f rt) \<and>
           (\<forall>a. may_read d a \<longrightarrow> mem' a = client_memory (fst (f rt)) a)))"

definition memory_free :: "(wt_ffm_runtime \<Rightarrow> wt_ffm_runtime \<times> 'b) \<Rightarrow> wt_ffm_runtime \<Rightarrow> bool" where
  "memory_free f rt \<longleftrightarrow> (\<forall>mem. f (set_mem mem rt) = map_prod (set_mem mem) id (f rt))"

lemma memory_freeI: "(\<And>mem. f (set_mem mem rt) = map_prod (set_mem mem) id (f rt)) \<Longrightarrow> memory_free f rt"
  by (simp add: memory_free_def)

lemma memory_free_same:
  assumes "memory_free f rt"
  shows "client_memory (fst (f rt)) = client_memory rt"
proof -
  have "f (set_mem (client_memory rt) rt) = map_prod (set_mem (client_memory rt)) id (f rt)"
    using assms unfolding memory_free_def by blast
  then have "f rt = map_prod (set_mem (client_memory rt)) id (f rt)" by simp
  then have "fst (f rt) = set_mem (client_memory rt) (fst (f rt))" by (metis fst_map_prod)
  then show ?thesis by (metis wt_ffm_runtime.select_convs(10) wt_ffm_runtime.surjective wt_ffm_runtime.update_convs(10))
qed

lemma memory_free_confined: "memory_free f rt \<Longrightarrow> confined d f rt"
  using memory_free_same [of f rt] unfolding confined_def by (auto simp: memory_free_def)

lemma confined_store:
  assumes g: "memory_free g rt" and f: "\<And>r. f r = (case g r of (r', x) \<Rightarrow> (store_at a (b x) r', k x))"
    and w: "\<And>y. in_range y a (length (b (snd (g rt)))) \<Longrightarrow> may_write d y"
  shows "confined d f rt"
proof -
  obtain r x where gr: "g rt = (r, x)" by fastforce
  have same: "client_memory r = client_memory rt" using memory_free_same [OF g] gr by simp
  have fr: "f rt = (store_at a (b x) r, k x)" by (simp add: f gr)
  have fm: "f (set_mem mem rt) = (store_at a (b x) (set_mem mem r), k x)" for mem
    using g gr by (simp add: f memory_free_def)
  show ?thesis
    unfolding confined_def
  proof (intro conjI allI impI)
    fix y
    assume "client_memory (fst (f rt)) y \<noteq> client_memory rt y"
    then have "in_range y a (length (b x))"
      using mem_write_outside [of y a "b x"] same by (auto simp: fr store_at_def)
    then show "may_write d y" using w gr by simp
  next
    fix mem
    assume ag: "\<forall>y. may_read d y \<longrightarrow> mem y = client_memory rt y"
    show "\<exists>mem'. f (set_mem mem rt) = map_prod (set_mem mem') id (f rt) \<and>
        (\<forall>y. may_read d y \<longrightarrow> mem' y = client_memory (fst (f rt)) y)"
      by (rule exI [of _ "mem_write mem a (b x)"])
        (use ag same in \<open>simp add: fm fr store_at_def mem_write_def\<close>)
  qed
qed

lemma confined_cong:
  assumes "\<And>mem. f (set_mem mem rt) = g (set_mem mem rt)"
  shows "confined d f rt = confined d g rt"
  using assms [of "client_memory rt"] assms by (simp add: confined_def)

lemma confined_cases:
  assumes "\<And>mem. c (set_mem mem rt) = c rt" "c rt \<Longrightarrow> confined d f rt" "\<not> c rt \<Longrightarrow> confined d g rt"
  shows "confined d (\<lambda>r. if c r then f r else g r) rt"
  using assms by (cases "c rt") (simp_all add: confined_def)

lemma check_buffer_access:
  assumes "wt_spm_check_buffer (Some d) a len w = WT_FFM_SUCCESS" "in_range y a (unat len)"
  shows "may_read d y" "w \<Longrightarrow> may_write d y"
proof -
  have "len \<noteq> 0" using assms(2) by (auto simp: in_range_def)
  then have "wt_secure_domain_contains (Some d) a len w"
    using assms(1) by (auto simp: wt_spm_check_buffer_def split: if_splits)
  from contains_access [OF this assms(2)] show "may_read d y" "w \<Longrightarrow> may_write d y" by auto
qed

section \<open>Service requests\<close>

lemma length_psa_msg_bytes [simp]: "length (psa_msg_bytes m) = 48"
  by (simp add: psa_msg_bytes_def upt_rec numeral_eq_Suc)

lemma store_nothing [simp]: "store_at a [] rt = rt"
  by (simp add: store_at_def mem_write_def)

lemma wait_confined: "confined d (\<lambda>rt. gate_wait (Some d) rt call) rt"
proof (cases "wt_spm_check_buffer (Some d) (sc_asserted call) 4 True = WT_FFM_SUCCESS")
  case False
  then show ?thesis by (intro memory_free_confined memory_freeI) (simp add: gate_wait_def)
next
  case True
  let ?g = "\<lambda>r. (r, if sc_asserted call = 0 then (WT_FFM_ERROR_ARGUMENT, None)
      else wt_ffm_wait r (sc_partition_id call) (sc_signal_mask call))"
  show ?thesis
  proof (rule confined_store [where g = ?g and a = "sc_asserted call" and
        b = "\<lambda>x. case snd x of None \<Rightarrow> [] | Some v \<Rightarrow> word_bytes v" and
        k = "\<lambda>x. call\<lparr>sc_must_panic := (fst x = WT_FFM_ERROR_ARGUMENT), sc_ret_int := fst x\<rparr>"])
    show "memory_free ?g rt" by (intro memory_freeI) (simp add: mem_free)
    show "gate_wait (Some d) r call = (case ?g r of (r', x) \<Rightarrow>
        (store_at (sc_asserted call) (case snd x of None \<Rightarrow> [] | Some v \<Rightarrow> word_bytes v) r',
         call\<lparr>sc_must_panic := (fst x = WT_FFM_ERROR_ARGUMENT), sc_ret_int := fst x\<rparr>))" for r
      unfolding gate_wait_def Let_def using True
      by (auto split: prod.split option.split)
    show "may_write d y" if "in_range y (sc_asserted call)
        (length (case snd (snd (?g rt)) of None \<Rightarrow> [] | Some v \<Rightarrow> word_bytes v))" for y
      using check_buffer_access(2) [OF True, of y] that by (auto simp: in_range_def split: option.splits if_splits)
  qed
qed

lemma get_confined: "confined d (\<lambda>rt. gate_get (Some d) rt call) rt"
proof (cases "wt_spm_check_buffer (Some d) (sc_msg call) 48 True = WT_FFM_SUCCESS")
  case False
  then show ?thesis by (intro memory_free_confined memory_freeI) (simp add: gate_get_def Let_def)
next
  case True
  let ?g = "\<lambda>r. if sc_msg call = 0 then (r, PSA_ERROR_PROGRAMMER_ERROR, None)
      else wt_ffm_get r (sc_partition_id call) (sc_signal call)"
  show ?thesis
  proof (rule confined_store [where g = ?g and a = "sc_msg call" and
        b = "\<lambda>x. case snd x of None \<Rightarrow> [] | Some v \<Rightarrow> psa_msg_bytes v" and
        k = "\<lambda>x. call\<lparr>sc_ret_status := fst x, sc_must_panic := (fst x \<noteq> PSA_SUCCESS), sc_ret_int := WT_FFM_SUCCESS\<rparr>"])
    show "memory_free ?g rt" by (intro memory_freeI) (simp add: mem_free)
    show "gate_get (Some d) r call = (case ?g r of (r', x) \<Rightarrow>
        (store_at (sc_msg call) (case snd x of None \<Rightarrow> [] | Some v \<Rightarrow> psa_msg_bytes v) r',
         call\<lparr>sc_ret_status := fst x, sc_must_panic := (fst x \<noteq> PSA_SUCCESS), sc_ret_int := WT_FFM_SUCCESS\<rparr>))" for r
      unfolding gate_get_def Let_def using True by (auto split: prod.split option.split)
    show "may_write d y" if "in_range y (sc_msg call)
        (length (case snd (snd (?g rt)) of None \<Rightarrow> [] | Some v \<Rightarrow> psa_msg_bytes v))" for y
      using check_buffer_access(2) [OF True, of y] that by (auto simp: in_range_def split: option.splits if_splits)
  qed
qed

lemma read_length: "length (snd (snd (wt_ffm_read rt pid h i nul n))) \<le> n"
  by (auto simp: wt_ffm_read_def Let_def buf_read_def split: sum.split)

lemma read_confined: "confined d (\<lambda>rt. gate_read (Some d) rt call) rt"
proof -
  let ?c = "\<lambda>r. wt_ffm_msg_access_check r (sc_partition_id call) (sc_msg_handle call) (unat (sc_vec_idx call)) \<noteq> WT_FFM_SUCCESS"
  show ?thesis
  proof (cases "?c rt \<or> wt_spm_check_buffer (Some d) (sc_buffer call) (sc_num_bytes call) True \<noteq> WT_FFM_SUCCESS")
    case True
    then show ?thesis by (intro memory_free_confined memory_freeI) (auto simp: gate_read_def Let_def mem_free)
  next
    case False
    let ?g = "\<lambda>r. if ?c r then (r, 0, []) else wt_ffm_read r (sc_partition_id call) (sc_msg_handle call)
        (unat (sc_vec_idx call)) (sc_buffer call = 0) (unat (sc_num_bytes call))"
    have ok: "wt_spm_check_buffer (Some d) (sc_buffer call) (sc_num_bytes call) True = WT_FFM_SUCCESS" "\<not> ?c rt"
      using False by blast+
    let ?f = "\<lambda>r. case ?g r of (r', x) \<Rightarrow>
        (store_at (sc_buffer call) (snd x) r', call\<lparr>sc_ret_size := of_nat (fst x), sc_ret_int := WT_FFM_SUCCESS\<rparr>)"
    have "confined d ?f rt"
    proof (rule confined_store [where g = ?g and a = "sc_buffer call" and b = snd and
          k = "\<lambda>x. call\<lparr>sc_ret_size := of_nat (fst x), sc_ret_int := WT_FFM_SUCCESS\<rparr>"])
      show "memory_free ?g rt" by (intro memory_freeI) (simp add: mem_free)
      show "may_write d y" if "in_range y (sc_buffer call) (length (snd (snd (?g rt))))" for y
        using check_buffer_access(2) [OF ok(1), of y] that read_length [of rt "sc_partition_id call" "sc_msg_handle call"
            "unat (sc_vec_idx call)" "sc_buffer call = 0" "unat (sc_num_bytes call)"]
          ok(2) by (simp add: in_range_def)
    qed simp
    moreover have "?f (set_mem mem rt) = gate_read (Some d) (set_mem mem rt) call" for mem
      using ok by (auto simp: gate_read_def Let_def mem_free split: prod.split)
    ultimately show ?thesis using confined_cong [of ?f rt "\<lambda>r. gate_read (Some d) r call"] by blast
  qed
qed

lemma write_confined: "confined d (\<lambda>rt. gate_write (Some d) rt call) rt"
proof (cases "wt_spm_check_buffer (Some d) (sc_buffer call) (sc_num_bytes call) False = WT_FFM_SUCCESS")
  case False
  then show ?thesis by (intro memory_free_confined memory_freeI) (simp add: gate_write_def)
next
  case True
  have agree: "client_buffer (set_mem mem rt) (sc_buffer call) (sc_num_bytes call) =
      client_buffer rt (sc_buffer call) (sc_num_bytes call)"
    if "\<forall>a. may_read d a \<longrightarrow> mem a = client_memory rt a" for mem
  proof -
    have "mem_read mem (sc_buffer call) (unat (sc_num_bytes call)) =
        mem_read (client_memory rt) (sc_buffer call) (unat (sc_num_bytes call))"
      by (rule mem_read_outside) (use that check_buffer_access(1) [OF True] unat_u32_less in \<open>auto intro: less_imp_le\<close>)
    then show ?thesis by (simp add: client_buffer_def)
  qed
  let ?w = "\<lambda>b r. wt_ffm_write r (sc_partition_id call) (sc_msg_handle call) (unat (sc_vec_idx call)) b"
  have same: "client_memory (fst (?w b rt)) = client_memory rt" for b
    by (rule memory_free_same) (intro memory_freeI, simp add: mem_free)
  show ?thesis
    unfolding confined_def
  proof (intro conjI allI impI)
    show "may_write d a" if "client_memory (fst (gate_write (Some d) rt call)) a \<noteq> client_memory rt a" for a
      using that True same [of "client_buffer rt (sc_buffer call) (sc_num_bytes call)"]
      by (auto simp: gate_write_def split: prod.splits)
    fix mem
    assume ag: "\<forall>a. may_read d a \<longrightarrow> mem a = client_memory rt a"
    show "\<exists>mem'. gate_write (Some d) (set_mem mem rt) call = map_prod (set_mem mem') id (gate_write (Some d) rt call) \<and>
        (\<forall>a. may_read d a \<longrightarrow> mem' a = client_memory (fst (gate_write (Some d) rt call)) a)"
      by (rule exI [of _ mem])
        (use ag True agree [OF ag] same [of "client_buffer rt (sc_buffer call) (sc_num_bytes call)"] in \<open>auto simp: gate_write_def mem_free split: prod.splits\<close>)
  qed
qed

section \<open>Client requests\<close>

lemma owned_mem [mem_free]: "wt_spm_pending_owned (set_mem mem rt) call = wt_spm_pending_owned rt call"
  by (simp add: wt_spm_pending_owned_def mem_free)

lemma connect_free: "memory_free (\<lambda>rt. gate_connect rt call) rt"
  by (intro memory_freeI) (simp add: gate_connect_def gate_resume_def mem_free split: prod.split)

lemma close_free: "memory_free (\<lambda>rt. gate_close rt call) rt"
  by (intro memory_freeI) (simp add: gate_close_def gate_resume_def Let_def mem_free split: prod.split)

lemma vectors_readable:
  assumes "wt_spm_check_sp_vectors (Some d) call = WT_FFM_SUCCESS" "\<forall>a. may_read d a \<longrightarrow> mem a = client_memory rt a"
  shows "reads_agree (take (unat (sc_sp_in_len call)) (sc_sp_in call)) mem (client_memory rt)"
  unfolding reads_agree_def
proof (intro ballI impI)
  fix v
  assume v: "v \<in> set (take (unat (sc_sp_in_len call)) (sc_sp_in call))" "inv_len v \<noteq> 0"
  then have "wt_spm_check_buffer (Some d) (inv_base v) (inv_len v) False = WT_FFM_SUCCESS"
    using assms(1) by (auto simp: wt_spm_check_sp_vectors_def split: if_splits)
  then show "mem_read mem (inv_base v) (unat (inv_len v)) = mem_read (client_memory rt) (inv_base v) (unat (inv_len v))"
    using check_buffer_access(1) assms(2) unat_u32_less by (intro mem_read_outside) (auto intro: less_imp_le)
qed

lemma call_begin_memory: "client_memory (fst (wt_ffm_call_begin ops rt caller h t ins outs)) = client_memory rt"
proof -
  have "reads_agree (carray_list ins) (client_memory rt) (client_memory rt)" by (simp add: reads_agree_def)
  from call_begin_mem [OF this, of ops caller h t outs]
  have "fst (wt_ffm_call_begin ops rt caller h t ins outs) =
      set_mem (client_memory rt) (fst (wt_ffm_call_begin ops rt caller h t ins outs))"
    by (simp add: prod_eq_iff)
  then show ?thesis by (metis wt_ffm_runtime.select_convs(10) wt_ffm_runtime.surjective wt_ffm_runtime.update_convs(10))
qed

lemma call_finish_memory:
  assumes "m < WT_FFM_MAX_MESSAGES"
  shows "client_memory (fst (wt_ffm_call_finish ops rt m outs)) = published ops (msg_of rt m) (client_memory rt)"
proof -
  have "fst (wt_ffm_call_finish ops rt m outs) =
      set_mem (published ops (msg_of rt m) (client_memory rt)) (fst (wt_ffm_call_finish ops rt m outs))"
    using call_finish_mem [OF assms, of ops "client_memory rt" rt outs] by (simp add: prod_eq_iff)
  then show ?thesis by (metis wt_ffm_runtime.select_convs(10) wt_ffm_runtime.surjective wt_ffm_runtime.update_convs(10))
qed

lemma call_begin_confined:
  assumes "\<not> sc_pending_valid call"
  shows "confined d (\<lambda>rt. gate_call ops (Some d) rt call) rt"
proof (cases "wt_spm_check_sp_vectors (Some d) call = WT_FFM_SUCCESS")
  case False
  then show ?thesis using assms by (intro memory_free_confined memory_freeI) (simp add: gate_call_def)
next
  case True
  let ?b = "\<lambda>r. wt_ffm_call_begin ops r (sc_partition_id call) (sc_msg_handle call) (sc_call_type call)
      (CArray (take (unat (sc_sp_in_len call)) (sc_sp_in call))) (CArray (take (unat (sc_sp_out_len call)) (sc_sp_out call)))"
  have m: "client_memory (fst (gate_call ops (Some d) rt call)) = client_memory rt"
    using call_begin_memory [of ops rt] True assms by (simp add: gate_call_def split: prod.splits) (metis fst_conv)
  have b: "?b (set_mem mem rt) = map_prod (set_mem mem) id (?b rt)"
    if "\<forall>a. may_read d a \<longrightarrow> mem a = client_memory rt a" for mem
    by (rule call_begin_mem) (use vectors_readable [OF True that] in simp)
  show ?thesis unfolding confined_def m
  proof (intro conjI allI impI)
    fix mem
    assume ag: "\<forall>a. may_read d a \<longrightarrow> mem a = client_memory rt a"
    show "\<exists>mem'. gate_call ops (Some d) (set_mem mem rt) call = map_prod (set_mem mem') id (gate_call ops (Some d) rt call) \<and>
        (\<forall>a. may_read d a \<longrightarrow> mem' a = client_memory rt a)"
      by (rule exI [of _ mem]) (use ag True assms b [OF ag] in \<open>simp add: gate_call_def split: prod.splits\<close>)
  qed simp
qed

lemma call_resume_confined:
  assumes v: "sc_pending_valid call" and s: "streams_inv rt"
    and w: "\<And>a n. po_check_write ops (sc_partition_id call) a n \<Longrightarrow> wt_secure_domain_contains (Some d) a n True"
  shows "confined d (\<lambda>rt. gate_call ops (Some d) rt call) rt"
proof -
  let ?m = "unat (sc_pending_msg call)"
  let ?M = "msg_of rt ?m"
  show ?thesis
  proof (cases "wt_spm_pending_owned rt call \<and> wt_ffm_msg_complete rt ?m")
    case False
    then show ?thesis using v
      by (intro memory_free_confined memory_freeI) (auto simp: gate_call_def gate_resume_def mem_free)
  next
    case True
    then have o: "?m < WT_FFM_MAX_MESSAGES" "msg_caller ?M = sc_partition_id call"
      by (auto simp: wt_spm_pending_owned_def Let_def split: if_splits)
    have so: "streams_ok ?M" using s o(1) by (simp add: streams_inv_def stream_safe_def)
    let ?o = "CArray (take (unat (sc_sp_out_len call)) (sc_sp_out call))"
    have pub: "may_write d a" if ch: "published ops ?M (client_memory rt) a \<noteq> client_memory rt a" for a
    proof -
      obtain i where i: "i < msg_out_count ?M" "in_range a (msg_client_output ?M i) (msg_out_position ?M i)"
          "po_check_write ops (sc_partition_id call) (msg_client_output ?M i) (of_nat (msg_out_position ?M i))"
        using publish_checked [OF ch] o(2) by auto
      have "msg_out_position ?M i \<le> msg_out_size ?M i" "msg_out_offset ?M i + msg_out_size ?M i \<le> 1024"
        using so i(1) by (auto simp: streams_ok_def)
      then have "unat (of_nat (msg_out_position ?M i) :: u32) = msg_out_position ?M i" by (simp add: unat_of_nat)
      then show ?thesis using contains_access [OF w [OF i(3)], of a] i(2) by simp
    qed
    have f: "gate_call ops (Some d) (set_mem mem rt) call = (case wt_ffm_call_finish ops (set_mem mem rt) ?m ?o of
        (rt', status, vs) \<Rightarrow> (rt', call\<lparr>sc_ret_status := status, sc_sp_out := vs @ drop (length vs) (sc_sp_out call),
           sc_pending_valid := False, sc_ret_int := WT_FFM_SUCCESS,
           sc_must_panic := (status = PSA_ERROR_PROGRAMMER_ERROR)\<rparr>))" for mem
      using v True by (simp add: gate_call_def gate_resume_def mem_free)
    have f0: "gate_call ops (Some d) rt call = (case wt_ffm_call_finish ops rt ?m ?o of
        (rt', status, vs) \<Rightarrow> (rt', call\<lparr>sc_ret_status := status, sc_sp_out := vs @ drop (length vs) (sc_sp_out call),
           sc_pending_valid := False, sc_ret_int := WT_FFM_SUCCESS,
           sc_must_panic := (status = PSA_ERROR_PROGRAMMER_ERROR)\<rparr>))"
      using f [of "client_memory rt"] by simp
    have m: "client_memory (fst (gate_call ops (Some d) rt call)) = published ops ?M (client_memory rt)"
      using call_finish_memory [OF o(1), of ops rt ?o] by (cases "wt_ffm_call_finish ops rt ?m ?o") (simp add: f0)
    show ?thesis unfolding confined_def m
    proof (intro conjI allI impI)
      show "may_write d a" if "published ops ?M (client_memory rt) a \<noteq> client_memory rt a" for a by (rule pub [OF that])
      fix mem
      assume ag: "\<forall>a. may_read d a \<longrightarrow> mem a = client_memory rt a"
      show "\<exists>mem'. gate_call ops (Some d) (set_mem mem rt) call = map_prod (set_mem mem') id (gate_call ops (Some d) rt call) \<and>
          (\<forall>a. may_read d a \<longrightarrow> mem' a = published ops ?M (client_memory rt) a)"
      proof (rule exI [of _ "published ops ?M mem"], rule conjI)
        show "gate_call ops (Some d) (set_mem mem rt) call =
            map_prod (set_mem (published ops ?M mem)) id (gate_call ops (Some d) rt call)"
          by (cases "wt_ffm_call_finish ops rt ?m ?o") (simp add: f f0 call_finish_mem [OF o(1)])
        show "\<forall>a. may_read d a \<longrightarrow> published ops ?M mem a = published ops ?M (client_memory rt) a"
          using ag publish_point [of mem _ "client_memory rt" ops ?M] by blast
      qed
    qed
  qed
qed

section \<open>The gate\<close>

lemma simple_free:
  assumes "memory_free f rt"
  shows "memory_free (\<lambda>rt. gate_simple (f rt) call) rt"
  using assms by (simp add: memory_free_def gate_simple_def)

lemma skip_free: "memory_free (\<lambda>rt. gate_skip rt call) rt"
  by (intro memory_freeI) (simp add: gate_skip_def Let_def mem_free split: prod.split)

lemma eoi_free: "memory_free (\<lambda>rt. gate_eoi rt call) rt"
  by (intro memory_freeI) (simp add: gate_eoi_def mem_free split: prod.split)

lemma query_free:
  "memory_free (\<lambda>rt. (rt, gate_irq_enable rt call)) rt"
  "memory_free (\<lambda>rt. (rt, call\<lparr>sc_ret_version := wt_ffm_service_version rt (sc_partition_id call) (sc_sid call),
     sc_ret_int := WT_FFM_SUCCESS\<rparr>)) rt"
  "memory_free (\<lambda>rt. (rt, call\<lparr>sc_ret_version := rt_lifecycle rt, sc_ret_int := WT_FFM_SUCCESS\<rparr>)) rt"
  by (simp_all add: memory_free_def gate_irq_enable_def mem_free)

lemma ffm_free:
  "memory_free (\<lambda>rt. wt_ffm_set_rhandle rt pid h rh) rt" "memory_free (\<lambda>rt. wt_ffm_reply rt pid h st) rt"
  "memory_free (\<lambda>rt. wt_ffm_notify rt pid) rt" "memory_free (\<lambda>rt. wt_ffm_clear rt pid) rt"
  by (simp_all add: memory_free_def mem_free)

lemma gate_run_confined:
  assumes s: "streams_inv rt"
    and w: "\<And>a n. po_check_write ops (sc_partition_id call) a n \<Longrightarrow> wt_secure_domain_contains (Some d) a n True"
    and g: "gate_run ops (Some d) rt call op = Some r"
  shows "confined d (\<lambda>rt. the (gate_run ops (Some d) rt call op)) rt \<and> (\<forall>rt. gate_run ops (Some d) rt call op \<noteq> None)"
proof -
  have c: "confined d (\<lambda>rt. gate_call ops (Some d) rt call) rt"
    using call_begin_confined call_resume_confined [OF _ s w] by (cases "sc_pending_valid call") blast+
  note * = wait_confined get_confined read_confined write_confined c memory_free_confined [OF connect_free]
    memory_free_confined [OF close_free] memory_free_confined [OF skip_free] memory_free_confined [OF eoi_free]
    query_free [THEN memory_free_confined] ffm_free [THEN simple_free, THEN memory_free_confined]
  show ?thesis
    using g by (cases op) (simp_all add: gate_run_def *)
qed

lemma store_streams [simp]: "streams_inv (store_at a bs rt) = streams_inv rt"
  by (simp add: store_at_def)

lemma resume_streams:
  "streams_inv rt \<Longrightarrow> (\<And>m. streams_inv (fst (f m))) \<Longrightarrow> streams_inv (fst (gate_resume rt call f))"
  by (simp add: gate_resume_def)

lemma service_streams:
  assumes "streams_inv rt"
  shows "streams_inv (fst (gate_wait d rt call))" "streams_inv (fst (gate_get d rt call))"
    "streams_inv (fst (gate_read d rt call))" "streams_inv (fst (gate_skip rt call))"
    "streams_inv (fst (gate_write d rt call))" "streams_inv (fst (gate_eoi rt call))"
proof -
  show "streams_inv (fst (gate_wait d rt call))" using assms by (simp add: gate_wait_def Let_def split: prod.split option.split)
  show "streams_inv (fst (gate_get d rt call))"
    using assms streams_get [OF assms, of "sc_partition_id call" "sc_signal call"]
    by (auto simp: gate_get_def Let_def split: prod.split option.split)
  show "streams_inv (fst (gate_read d rt call))"
    using assms streams_read [OF assms, of "sc_partition_id call" "sc_msg_handle call" "unat (sc_vec_idx call)"
        "sc_buffer call = 0" "unat (sc_num_bytes call)"]
    by (auto simp: gate_read_def Let_def split: prod.split)
  show "streams_inv (fst (gate_skip rt call))"
    using assms streams_skip [OF assms, of "sc_partition_id call" "sc_msg_handle call" "unat (sc_vec_idx call)"
        "unat (sc_num_bytes call)"]
    by (auto simp: gate_skip_def Let_def split: prod.split)
  show "streams_inv (fst (gate_write d rt call))"
    using assms streams_write [OF assms, of "sc_partition_id call" "sc_msg_handle call" "unat (sc_vec_idx call)"
        "client_buffer rt (sc_buffer call) (sc_num_bytes call)"]
    by (auto simp: gate_write_def Let_def split: prod.split)
  show "streams_inv (fst (gate_eoi rt call))"
    using streams_signals(4) [OF assms, of "sc_partition_id call" "sc_signal_mask call"]
    by (auto simp: gate_eoi_def split: prod.split)
qed

lemma client_streams:
  assumes "streams_inv rt"
  shows "streams_inv (fst (gate_connect rt call))" "streams_inv (fst (gate_close rt call))"
    "streams_inv (fst (gate_call ops d rt call))"
proof -
  show "streams_inv (fst (gate_connect rt call))"
    using streams_connect_begin [OF assms, of "sc_partition_id call" "sc_sid call" "sc_version call"]
      streams_finish(1) [OF assms] assms
    by (auto simp: gate_connect_def intro!: resume_streams split: prod.split) (metis fst_conv)
  show "streams_inv (fst (gate_close rt call))"
    using streams_close_begin [OF assms, of "sc_partition_id call" "sc_msg_handle call"]
      streams_finish(2) [OF assms] assms
    by (auto simp: gate_close_def Let_def intro!: resume_streams split: prod.split) (metis fst_conv)
  show "streams_inv (fst (gate_call ops d rt call))"
    using streams_call_begin [OF assms, of ops "sc_partition_id call" "sc_msg_handle call" "sc_call_type call"
        "CArray (take (unat (sc_sp_in_len call)) (sc_sp_in call))" "CArray (take (unat (sc_sp_out_len call)) (sc_sp_out call))"]
      streams_finish(3) [OF assms, of ops] assms
    by (auto simp: gate_call_def intro!: resume_streams split: prod.split) (metis fst_conv)+
qed

lemma gate_run_streams:
  assumes "streams_inv rt" "gate_run ops d rt call op = Some r"
  shows "streams_inv (fst r)"
proof -
  note * = service_streams [OF assms(1)] client_streams [OF assms(1)] streams_signals [OF assms(1)]
    streams_reply [OF assms(1)]
  show ?thesis using assms(2) by (cases op) (auto simp: gate_run_def gate_simple_def * assms(1))
qed

lemma inv_streams:
  assumes "ffm_inv rt"
  shows "streams_inv rt"
proof -
  have "stream_safe (msg_of rt m)" if "m < WT_FFM_MAX_MESSAGES" for m
  proof (cases "msg_allocated (msg_of rt m)")
    case True
    then show ?thesis using message_streams [OF assms that] by (simp add: stream_safe_def)
  next
    case False
    then have b: "msg_blank (msg_of rt m)" using ffm_coreD(7) [OF ffm_invD(1) [OF assms] that] by (simp add: msg_ok_def)
    then have "msg_in_position (msg_of rt m) = (\<lambda>_. 0)" "msg_out_position (msg_of rt m) = (\<lambda>_. 0)"
      by (cases "msg_of rt m"; simp add: msg_blank_def zero_ffm_message_def)+
    then show ?thesis using blank_fields(1) [OF b] by (simp add: stream_safe_def)
  qed
  then show ?thesis using ffm_coreD(5) [OF ffm_invD(1) [OF assms]] by (simp add: streams_inv_def)
qed

text \<open>
  C37: The gate confines a Secure Partition, whatever its request block says. With the
  partition's table as the caller domain, and an output check of the port that accepts only
  ranges of this table, a gate call changes no byte of memory that the table does not grant
  for writing; nor does anything it does depend on a byte that the table does not grant for
  reading: if such bytes were different, the runtime, the block and the return code would
  come out the same. The bounds of all transfer buffers, on which this rests, hold again
  after the call.
\<close>

theorem wt_spm_gate_confined:
  assumes "streams_inv rt"
    and w: "\<And>a n. po_check_write ops (sc_partition_id call) a n \<Longrightarrow> wt_secure_domain_contains (Some d) a n True"
    and g: "wt_spm_gate ops rt (Some d) (Some call) = (rt', Some call', ret)"
  shows "streams_inv rt' \<and>
    (\<forall>a. client_memory rt' a \<noteq> client_memory rt a \<longrightarrow> may_write d a) \<and>
    (\<forall>mem. (\<forall>a. may_read d a \<longrightarrow> mem a = client_memory rt a) \<longrightarrow>
       (\<exists>mem'. wt_spm_gate ops (rt\<lparr>client_memory := mem\<rparr>) (Some d) (Some call) =
            (rt'\<lparr>client_memory := mem'\<rparr>, Some call', ret) \<and>
          (\<forall>a. may_read d a \<longrightarrow> mem' a = client_memory rt' a)))"
proof -
  let ?c = "gate_reset call"
  have refused: ?thesis if "\<And>r. wt_spm_gate ops r (Some d) (Some call) = (r, Some ?c, WT_FFM_ERROR_ARGUMENT)"
    using g that assms(1) by auto
  show ?thesis
  proof (cases "sc_op ?c")
    case (OutOfRange n)
    then show ?thesis by (intro refused) (simp add: wt_spm_gate_def wt_spm_gate_held_def)
  next
    case (Enum op)
    have p: "po_check_write ops (sc_partition_id ?c) a n \<Longrightarrow> wt_secure_domain_contains (Some d) a n True" for a n
      using w by (simp add: gate_reset_def)
    show ?thesis
    proof (cases "gate_run ops (Some d) rt ?c op")
      case None
      then have "gate_run ops (Some d) r ?c op = None" for r by (cases op) (simp_all add: gate_run_def)
      then show ?thesis using Enum by (intro refused) (simp add: wt_spm_gate_def wt_spm_gate_held_def)
    next
      case (Some r)
      note c = gate_run_confined [OF assms(1) p Some]
      have e: "wt_spm_gate ops r (Some d) (Some call) =
          (case the (gate_run ops (Some d) r ?c op) of (a, b) \<Rightarrow> (a, Some b, WT_FFM_SUCCESS))" for r
      proof -
        have "gate_run ops (Some d) r ?c op \<noteq> None" using c by blast
        then obtain x where "gate_run ops (Some d) r ?c op = Some x" unfolding not_None_eq by blast
        then show ?thesis using Enum by (simp add: wt_spm_gate_def wt_spm_gate_held_def split: prod.split)
      qed
      have r: "r = (rt', call')" "ret = WT_FFM_SUCCESS" using g Some by (auto simp: e split: prod.splits)
      have st: "streams_inv rt'" using gate_run_streams [OF assms(1) Some] r(1) by simp
      let ?f = "\<lambda>rt. the (gate_run ops (Some d) rt ?c op)"
      have f: "?f rt = (rt', call')" using Some r(1) by simp
      have cf: "confined d ?f rt" using c by blast
      have "\<exists>mem'. wt_spm_gate ops (set_mem mem rt) (Some d) (Some call) = (set_mem mem' rt', Some call', ret) \<and>
          (\<forall>a. may_read d a \<longrightarrow> mem' a = client_memory rt' a)"
        if ag: "\<forall>a. may_read d a \<longrightarrow> mem a = client_memory rt a" for mem
      proof -
        obtain mem' where "?f (set_mem mem rt) = map_prod (set_mem mem') id (?f rt)"
            "\<forall>a. may_read d a \<longrightarrow> mem' a = client_memory (fst (?f rt)) a"
          using cf ag unfolding confined_def by blast
        then show ?thesis unfolding e f r(2) by (intro exI [of _ mem']) simp
      qed
      moreover have "\<forall>a. client_memory rt' a \<noteq> client_memory rt a \<longrightarrow> may_write d a"
        using cf unfolding confined_def f by simp
      ultimately show ?thesis using st by blast
    qed
  qed
qed

end
