(* ===== verification/Spm_Refine.thy ===== *)
theory Spm_Refine
  imports Spm_Safety Ffm_Safety
begin

text \<open>
  The gate refines the runtime: a request of a partition with no other request in flight is
  a sequence of steps of the runtime, and keeps its invariant.
\<close>

definition gate_begins :: "wt_spm_call \<Rightarrow> bool" where
  "gate_begins call \<longleftrightarrow> \<not> sc_pending_valid call \<and>
     (sc_op call = Enum WT_SPM_OP_CONNECT \<or> sc_op call = Enum WT_SPM_OP_CALL \<or> sc_op call = Enum WT_SPM_OP_CLOSE)"

abbreviation ffm_reaches :: "wt_ffm_port_ops \<Rightarrow> wt_ffm_runtime \<Rightarrow> wt_ffm_runtime \<Rightarrow> bool" where
  "ffm_reaches ops \<equiv> (ffm_moves ops)\<^sup>*\<^sup>*"

lemma reaches_step: "ffm_step ops a rt rt' \<Longrightarrow> ffm_reaches ops rt rt'"
  by (blast intro: r_into_rtranclp)

lemma reaches_store: "ffm_reaches ops rt rt' \<Longrightarrow> ffm_reaches ops rt (store_at a bs rt')"
  using ffm_step.client_store [of ops 0 rt' "mem_write (client_memory rt') a bs"]
  by (auto simp: store_at_def intro: rtranclp.rtrancl_into_rtrancl)

lemma service_reaches:
  "ffm_reaches ops rt (fst (gate_wait d rt call))" "ffm_reaches ops rt (fst (gate_get d rt call))"
  "ffm_reaches ops rt (fst (gate_read d rt call))" "ffm_reaches ops rt (fst (gate_skip rt call))"
  "ffm_reaches ops rt (fst (gate_write d rt call))" "ffm_reaches ops rt (fst (gate_eoi rt call))"
proof -
  show "ffm_reaches ops rt (fst (gate_wait d rt call))"
    by (auto simp: gate_wait_def Let_def intro: reaches_store split: prod.split option.split)
  show "ffm_reaches ops rt (fst (gate_get d rt call))"
    by (auto simp: gate_get_def Let_def intro: reaches_store reaches_step [OF ffm_step.get] split: prod.split option.split)
  show "ffm_reaches ops rt (fst (gate_read d rt call))"
    by (auto simp: gate_read_def Let_def intro!: reaches_store intro: reaches_step [OF ffm_step.read_in] split: prod.split)
  show "ffm_reaches ops rt (fst (gate_skip rt call))"
    by (auto simp: gate_skip_def Let_def intro: reaches_step [OF ffm_step.skip_in] split: prod.split)
  show "ffm_reaches ops rt (fst (gate_write d rt call))"
    by (auto simp: gate_write_def Let_def intro: reaches_step [OF ffm_step.write_out] split: prod.split)
  show "ffm_reaches ops rt (fst (gate_eoi rt call))"
    by (auto simp: gate_eoi_def intro: reaches_step [OF ffm_step.eoi] split: prod.split)
qed

lemma simple_reaches:
  "ffm_reaches ops rt (fst (gate_simple (wt_ffm_set_rhandle rt pid h rh) call))"
  "ffm_reaches ops rt (fst (gate_simple (wt_ffm_reply rt pid h st) call))"
  "ffm_reaches ops rt (fst (gate_simple (wt_ffm_notify rt pid) call))"
  "ffm_reaches ops rt (fst (gate_simple (wt_ffm_clear rt pid) call))"
  by (auto simp: gate_simple_def intro: reaches_step [OF ffm_step.set_rhandle [OF prod.collapse [symmetric]]]
      reaches_step [OF ffm_step.reply [OF prod.collapse [symmetric]]]
      reaches_step [OF ffm_step.notify [OF prod.collapse [symmetric]]]
      reaches_step [OF ffm_step.clear [OF prod.collapse [symmetric]]])

lemma owned_harvestable:
  "wt_spm_pending_owned rt call \<Longrightarrow> wt_ffm_msg_complete rt (unat (sc_pending_msg call)) \<Longrightarrow>
     harvestable rt (unat (sc_pending_msg call)) (sc_partition_id call)"
  by (auto simp: harvestable_def wt_spm_pending_owned_def Let_def split: if_splits)

lemma resume_reaches:
  assumes "\<And>m. harvestable rt m (sc_partition_id call) \<Longrightarrow> ffm_reaches ops rt (fst (f m))"
  shows "ffm_reaches ops rt (fst (gate_resume rt call f))"
  using assms [OF owned_harvestable] by (auto simp: gate_resume_def)

lemma client_reaches:
  assumes q: "\<not> sc_pending_valid call \<Longrightarrow> client_quiet rt (sc_partition_id call)"
  shows "ffm_reaches ops rt (fst (gate_connect rt call))" "ffm_reaches ops rt (fst (gate_close rt call))"
    "ffm_reaches ops rt (fst (gate_call ops d rt call))"
proof -
  show "ffm_reaches ops rt (fst (gate_connect rt call))"
    using q by (auto simp: gate_connect_def intro!: resume_reaches intro: reaches_step [OF ffm_step.connect_begin]
        reaches_step [OF ffm_step.connect_finish] split: prod.split)
  show "ffm_reaches ops rt (fst (gate_close rt call))"
    using q by (auto simp: gate_close_def Let_def intro!: resume_reaches intro: reaches_step [OF ffm_step.close_begin]
        reaches_step [OF ffm_step.close_finish] split: prod.split)
  show "ffm_reaches ops rt (fst (gate_call ops d rt call))"
    using q by (auto simp: gate_call_def intro!: resume_reaches intro: reaches_step [OF ffm_step.call_begin]
        reaches_step [OF ffm_step.call_finish] split: prod.split)
qed

lemma gate_run_reaches:
  assumes "gate_run ops d rt call op = Some r" "sc_op call = Enum op"
    and "gate_begins call \<Longrightarrow> client_quiet rt (sc_partition_id call)"
  shows "ffm_reaches ops rt (fst r)"
proof -
  have q: "client_quiet rt (sc_partition_id call)" if "\<not> sc_pending_valid call"
      "op \<in> {WT_SPM_OP_CONNECT, WT_SPM_OP_CALL, WT_SPM_OP_CLOSE}"
    using assms(2,3) that by (auto simp: gate_begins_def)
  show ?thesis using assms(1) q client_reaches [of call rt ops]
    by (cases op) (auto simp: gate_run_def service_reaches simple_reaches)
qed


text \<open>A request that panics its caller left the runtime alone, unless it was a call.\<close>

lemma failed_unchanged:
  "snd (wt_ffm_set_rhandle rt pid h rh) \<noteq> WT_FFM_SUCCESS \<Longrightarrow> fst (wt_ffm_set_rhandle rt pid h rh) = rt"
  "snd (wt_ffm_reply rt pid h st) \<noteq> WT_FFM_SUCCESS \<Longrightarrow> fst (wt_ffm_reply rt pid h st) = rt"
  "snd (wt_ffm_notify rt pid) \<noteq> WT_FFM_SUCCESS \<Longrightarrow> fst (wt_ffm_notify rt pid) = rt"
  "snd (wt_ffm_clear rt pid) \<noteq> WT_FFM_SUCCESS \<Longrightarrow> fst (wt_ffm_clear rt pid) = rt"
  "snd (wt_ffm_write rt pid h v src) \<noteq> WT_FFM_SUCCESS \<Longrightarrow> fst (wt_ffm_write rt pid h v src) = rt"
  "snd (wt_ffm_eoi rt pid sg) \<noteq> WT_FFM_SUCCESS \<Longrightarrow> fst (wt_ffm_eoi rt pid sg) = rt"
  by (auto simp: wt_ffm_set_rhandle_def wt_ffm_reply_def wt_ffm_notify_def wt_ffm_clear_def wt_ffm_write_def
      wt_ffm_eoi_def Let_def split: sum.splits if_splits)

lemma failed_get: "wt_ffm_get rt pid sg = (rt', st, out) \<Longrightarrow> st \<noteq> PSA_SUCCESS \<Longrightarrow> rt' = rt \<and> out = None"
  by (auto simp: wt_ffm_get_def Let_def split: sum.splits option.splits if_splits)

lemma failed_close:
  "wt_ffm_close_begin rt pid h = (rt', e, m) \<Longrightarrow> e \<noteq> WT_FFM_SUCCESS \<Longrightarrow> rt' = rt"
  by (auto simp: wt_ffm_close_begin_def wt_ffm_close_abandoned_def Let_def split: sum.splits option.splits if_splits)

lemma handle_positive:
  "t \<le> WT_FFM_HANDLE_TYPE_MASK \<Longrightarrow> i < 31 \<Longrightarrow> gen_ok g \<Longrightarrow> wt_ffm_make_handle t i g > 0"
  using decode_make [of t i 31 g] by (auto simp: wt_ffm_decode_handle_def split: if_splits)

lemma failed_connect:
  assumes "ffm_inv rt" "wt_ffm_connect_begin rt pid sid v = (rt', h, m)"
    "h = PSA_ERROR_CONNECTION_REFUSED \<or> h = PSA_ERROR_NOT_SUPPORTED"
  shows "rt' = rt"
proof (cases m)
  case None
  with assms(2,3) show ?thesis
    by (auto simp: wt_ffm_connect_begin_def Let_def split: sum.splits if_splits)
next
  case (Some i)
  note c = connect_begin_cases [OF assms(1,2), unfolded Some option.case]
  note d = ffm_coreD [OF ffm_invD(1) [OF conjunct1 [OF c]]]
  from c have m: "i < WT_FFM_MAX_MESSAGES" "msg_allocated (msg_of rt' i)" and h: "h =
      wt_ffm_make_handle WT_FFM_HANDLE_CONNECTION (msg_connection_index (msg_of rt' i))
        (conn_generation (conn_of rt' (msg_connection_index (msg_of rt' i))))"
    by (simp_all add: connecting_def)
  from d(7) [OF m(1)] m(2) have ci: "msg_connection_index (msg_of rt' i) < WT_FFM_MAX_CONNECTIONS"
    by (simp add: msg_ok_def)
  have "h > 0" unfolding h using ci d(6) [OF ci] by (intro handle_positive) (simp_all add: conn_ok_def)
  with assms(3) show ?thesis by simp
qed

lemma gate_run_panics:
  assumes "gate_run ops d rt call op = Some r" "\<not> sc_must_panic call" "sc_must_panic (snd r)" "op \<noteq> WT_SPM_OP_CALL"
    and inv: "ffm_inv rt"
  shows "fst r = rt"
proof -
  have posted [simp]: "sc_must_panic (gate_posted m call) = sc_must_panic call" for m
    by (simp add: gate_posted_def split: option.split)
  have w: "fst (gate_wait d rt call) = rt" if "sc_must_panic (snd (gate_wait d rt call))"
    using that by (auto simp: gate_wait_def wt_ffm_wait_def Let_def split: if_splits prod.splits option.splits sum.splits)
  have g: "fst (gate_get d rt call) = rt" if "sc_must_panic (snd (gate_get d rt call))"
    using that by (auto simp: gate_get_def Let_def split: if_splits prod.splits option.splits dest: failed_get)
  have simple: "fst (gate_simple x call) = rt" if "sc_must_panic (snd (gate_simple x call))"
      "snd x \<noteq> WT_FFM_SUCCESS \<Longrightarrow> fst x = rt" for x
    using that by (simp add: gate_simple_def)
  have rd: "fst (gate_read d rt call) = rt" if "sc_must_panic (snd (gate_read d rt call))"
    using that assms(2) by (auto simp: gate_read_def Let_def split: if_splits prod.splits)
  have sk: "fst (gate_skip rt call) = rt" if "sc_must_panic (snd (gate_skip rt call))"
    using that assms(2) by (auto simp: gate_skip_def Let_def split: if_splits prod.splits)
  have wr: "fst (gate_write d rt call) = rt" if "sc_must_panic (snd (gate_write d rt call))"
    using that failed_unchanged(5)
      [of rt "sc_partition_id call" "sc_msg_handle call" "unat (sc_vec_idx call)" "client_buffer rt (sc_buffer call) (sc_num_bytes call)"]
    by (auto simp: gate_write_def Let_def split: if_splits prod.splits)
  have eo: "fst (gate_eoi rt call) = rt" if "sc_must_panic (snd (gate_eoi rt call))"
    using that assms(2) failed_unchanged(6) [of rt "sc_partition_id call" "sc_signal_mask call"]
    by (auto simp: gate_eoi_def split: if_splits prod.splits sum.splits)
  have co: "fst (gate_connect rt call) = rt" if "sc_must_panic (snd (gate_connect rt call))"
    using that assms(2) failed_connect [OF inv]
    by (auto simp: gate_connect_def gate_resume_def split: if_splits prod.splits)
  have cl: "fst (gate_close rt call) = rt" if "sc_must_panic (snd (gate_close rt call))"
    using that assms(2) failed_close [of rt]
    by (auto simp: gate_close_def gate_resume_def Let_def split: if_splits prod.splits)
  show ?thesis
    using assms(1,3,4) simple [OF _ failed_unchanged(1)] simple [OF _ failed_unchanged(2)]
      simple [OF _ failed_unchanged(3)] simple [OF _ failed_unchanged(4)] w g rd sk wr eo co cl
    by (cases op) (auto simp: gate_run_def)
qed

text \<open>
  C38: The gate refines the runtime. For a Secure Partition that begins no client request
  while an earlier one is outstanding, every gate call, with any block, is a sequence of
  steps of the runtime, so the runtime invariant holds after it; and when the gate orders the
  caller to panic for anything but a call, the runtime and the memory are as they were.
\<close>

theorem wt_spm_gate_refines:
  assumes "ffm_inv rt" and "gate_begins call \<Longrightarrow> client_quiet rt (sc_partition_id call)"
    and g: "wt_spm_gate ops rt d (Some call) = (rt', Some call', ret)"
  shows "ffm_reaches ops rt rt' \<and> ffm_inv rt' \<and>
    (sc_must_panic call' \<longrightarrow> sc_op call \<noteq> Enum WT_SPM_OP_CALL \<longrightarrow> rt' = rt)"
proof -
  let ?c = "gate_reset call"
  have c: "sc_op ?c = sc_op call" "\<not> sc_must_panic ?c" "gate_begins ?c = gate_begins call"
    "sc_partition_id ?c = sc_partition_id call"
    by (simp_all add: gate_reset_def gate_begins_def)
  from g consider "rt' = rt"
    | op where "sc_op call = Enum op" "gate_run ops d rt ?c op = Some (rt', call')"
    by (cases "sc_op call") (auto simp: wt_spm_gate_def wt_spm_gate_held_def Let_def c split: option.splits)
  then have "ffm_reaches ops rt rt' \<and>
      (sc_must_panic call' \<longrightarrow> sc_op call \<noteq> Enum WT_SPM_OP_CALL \<longrightarrow> rt' = rt)"
  proof cases
    case 2
    from gate_run_reaches [OF 2(2)] 2(1) assms(2) c have "ffm_reaches ops rt rt'" by simp
    moreover from gate_run_panics [OF 2(2)] assms(1) 2(1) c have
      "sc_must_panic call' \<longrightarrow> sc_op call \<noteq> Enum WT_SPM_OP_CALL \<longrightarrow> rt' = rt" by auto
    ultimately show ?thesis by blast
  qed simp
  moreover have "ffm_inv rt'" if "ffm_reaches ops rt rt'"
    using that assms(1) by (rule ffm_machine.steps_inv)
  ultimately show ?thesis by blast
qed

end
