(* ===== verification/Spm_Witness.thy ===== *)
theory Spm_Witness
  imports Spm_Refine Ffm_Witness
begin

text \<open>
  The properties of the gate on a concrete run: partition 3 of the example manifest is a
  client of service 100 of partition 2 and makes its requests through the gate.
\<close>

definition blank_call :: wt_spm_call where
  "blank_call = \<lparr>sc_op = OutOfRange 0, sc_partition_id = 3, sc_notify_partition = 0, sc_msg_handle = 0,
     sc_signal_mask = 0, sc_timeout = 0, sc_signal = 0, sc_vec_idx = 0, sc_buffer = 0, sc_num_bytes = 0,
     sc_status = 0, sc_msg = 0, sc_asserted = 0, sc_rhandle = 0, sc_sid = 100, sc_version = 1, sc_call_type = 0,
     sc_sp_in = replicate 4 \<lparr>inv_base = 0, inv_len = 0\<rparr>, sc_sp_out = replicate 4 \<lparr>outv_base = 0, outv_len = 0\<rparr>,
     sc_sp_in_len = 0, sc_sp_out_len = 0, sc_pending_msg = 0, sc_pending_valid = False, sc_ret_status = 0,
     sc_ret_size = 0, sc_ret_int = 0, sc_ret_handle = 0, sc_ret_version = 0, sc_ret_tick = 0, sc_must_panic = False\<rparr>"

definition ask :: "wt_spm_op \<Rightarrow> wt_spm_call" where
  "ask op = blank_call\<lparr>sc_op := Enum op, sc_msg_handle := conn_handle\<rparr>"

definition resume :: "wt_spm_op \<Rightarrow> u16 \<Rightarrow> wt_spm_call" where
  "resume op m = (ask op)\<lparr>sc_pending_valid := True, sc_pending_msg := m\<rparr>"

definition gate_table :: wt_secure_domain where
  "gate_table = example_secure_domain 0x20000000"

definition serve :: "wt_ffm_runtime \<Rightarrow> wt_ffm_runtime" where
  "serve rt = fst (example_serve rt 2)"

definition gate :: "wt_spm_call \<Rightarrow> wt_ffm_runtime \<Rightarrow> wt_ffm_runtime" where
  "gate call rt = fst (wt_spm_gate refuse_ops rt (Some gate_table) (Some call))"

text \<open>Partition 3 connects, calls, does not harvest the call, and closes its connection.\<close>

definition gx1 :: wt_ffm_runtime where "gx1 = serve (gate (ask WT_SPM_OP_CONNECT) ex0)"
definition gx2 :: wt_ffm_runtime where "gx2 = gate (resume WT_SPM_OP_CONNECT 0) gx1"
definition gx3 :: wt_ffm_runtime where "gx3 = serve (gate (ask WT_SPM_OP_CALL) gx2)"
definition gx4 :: wt_ffm_runtime where "gx4 = serve (gate (ask WT_SPM_OP_CLOSE) gx3)"
definition gx5 :: wt_ffm_runtime where "gx5 = gate (resume WT_SPM_OP_CLOSE 1) gx4"
text \<open>The non-secure client connects.\<close>

definition gx6 :: wt_ffm_runtime where "gx6 = serve (fst (wt_ffm_connect_begin gx5 (- 1) 100 1))"
definition gx7 :: wt_ffm_runtime where "gx7 = fst (wt_ffm_connect_finish gx6 1)"

abbreviation (input) victim_handle :: int where
  "victim_handle \<equiv> wt_ffm_make_handle WT_FFM_HANDLE_CONNECTION 0 2"

lemma gx7_facts:
  "(let r = gx7; g = wt_spm_gate refuse_ops r (Some gate_table) (Some (resume WT_SPM_OP_CLOSE 0)) in
    (wt_ffm_connection_from_handle r (- 1) victim_handle, map_option sc_ret_int (fst (snd g)), snd (snd g),
     wt_ffm_connection_from_handle (fst g) (- 1) victim_handle)) =
   (Inr 0, Some WT_FFM_SUCCESS, WT_FFM_SUCCESS, Inl WT_FFM_ERROR_HANDLE)"
  by code_simp


section \<open>Witnesses\<close>

definition table_ops :: wt_ffm_port_ops where
  "table_ops = refuse_ops\<lparr>po_check_write := (\<lambda>_ a n. wt_secure_domain_contains (Some gate_table) a n True)\<rparr>"

definition wait_call :: wt_spm_call where
  "wait_call = (ask WT_SPM_OP_WAIT)\<lparr>sc_partition_id := 2, sc_signal_mask := 16, sc_asserted := 0x20000004\<rparr>"

lemma wait_facts:
  "(let g = wt_spm_gate table_ops ex1 (Some gate_table) (Some wait_call) in
     (map_option sc_ret_int (fst (snd g)), snd (snd g), mem_read (client_memory (fst g)) 0x20000004 4)) =
   (Some WT_FFM_SUCCESS, WT_FFM_SUCCESS, [16, 0, 0, 0])"
  by code_simp

lemma gate_result:
  "wt_spm_gate ops rt d (Some call) =
    (fst (wt_spm_gate ops rt d (Some call)), Some (the (fst (snd (wt_spm_gate ops rt d (Some call))))),
     snd (snd (wt_spm_gate ops rt d (Some call))))"
  by (simp add: wt_spm_gate_def split: prod.split)

lemma outside_table: "\<not> may_write gate_table 0x40000000"
  by code_simp

theorem wt_spm_gate_confined_witness:
  "client_memory (fst (wt_spm_gate table_ops ex1 (Some gate_table) (Some wait_call))) 0x40000000 =
     client_memory ex1 0x40000000 \<and>
   mem_read (client_memory (fst (wt_spm_gate table_ops ex1 (Some gate_table) (Some wait_call)))) 0x20000004 4 = [16, 0, 0, 0]"
  using wt_spm_gate_confined [OF inv_streams [OF ex1_inv] _ gate_result, of table_ops wait_call gate_table]
    wait_facts [unfolded Let_def prod.inject] outside_table
  by (auto simp: table_ops_def)

lemma ex0_messages: "list_all (\<lambda>m. \<not> msg_allocated m) (rt_messages ex0)"
  by code_simp

theorem wt_spm_gate_refines_witness:
  "ffm_inv (fst (wt_spm_gate table_ops ex0 (Some gate_table) (Some (ask WT_SPM_OP_CONNECT))))"
proof -
  have "client_quiet ex0 c" for c
    using ex0_messages ffm_coreD(5) [OF ffm_invD(1) [OF ex0_inv]]
    by (auto simp: client_quiet_def list_all_length msg_of_def)
  then show ?thesis using wt_spm_gate_refines [OF ex0_inv _ gate_result] by blast
qed

end
