(* ===== verification/Spec2Isabelle.thy ===== *)
theory Spec2Isabelle
  imports Ipc Manifest_Safety Ffm_Witness Vnet_Witness Co_Witness Spm_Witness
begin

text \<open>
  A verification development for wolfTrust, a Secure Partition Manager for Cortex-M.
\<close>

end
